(* ===== verification/Go_Prelude.thy ===== *)
theory Go_Prelude
  imports Main "HOL-Library.Word" "HOL-Library.Char_ord"
begin

text \<open>
  The shared base of the development: the parts of the Go language and of its standard
  library that the modelled packages use. A Go string or byte slice is a \<^typ>\<open>string\<close>, a list of
  8-bit characters, so lengths and indices count bytes as they do in Go; a rune is an
  \<^typ>\<open>int\<close>, so that the value \<open>-1\<close> some lexers return at the end of the input exists; a Go
  \<open>int\<close> is an \<^typ>\<open>int\<close> kept in the 64-bit range by \<open>wrap64\<close>, a \<open>uint32\<close> a 32-bit word.
  A run-time panic is a value of \<open>go_panic\<close>, the left side of a sum.
\<close>

named_theorems utf8_simps
named_theorems go_simps

type_synonym rune = int
type_synonym uint32 = "32 word"

section \<open>Panics\<close>

datatype go_panic =
    IndexOutOfRange
  | SliceBoundsOutOfRange
  | DivideByZero
  | NilDereference
  | BadAssertion
  | Explicit string

type_synonym 'a go = "go_panic + 'a"

definition bindE :: "'e + 'a \<Rightarrow> ('a \<Rightarrow> 'e + 'b) \<Rightarrow> 'e + 'b" where
  "bindE m f = (case m of Inl e \<Rightarrow> Inl e | Inr x \<Rightarrow> f x)"

lemma bindE_simps [simp]:
  "bindE (Inl e) f = Inl e"
  "bindE (Inr x) f = f x"
  by (simp_all add: bindE_def)

lemma bindE_cong [fundef_cong]:
  "m = m' \<Longrightarrow> (\<And>x. m' = Inr x \<Longrightarrow> f x = f' x) \<Longrightarrow> bindE m f = bindE m' f'"
  by (cases m') auto

lemma bindE_eq_Inr [simp]: "bindE m f = Inr y \<longleftrightarrow> (\<exists>x. m = Inr x \<and> f x = Inr y)"
  by (cases m) auto

text \<open>Slicing \<open>s[lo:hi]\<close>, which panics unless \<open>lo \<le> hi \<le> len(s)\<close>.\<close>

definition slice :: "'a list \<Rightarrow> nat \<Rightarrow> nat \<Rightarrow> 'a list go" where
  "slice s lo hi =
     (if lo \<le> hi \<and> hi \<le> length s then Inr (take (hi - lo) (drop lo s))
      else Inl SliceBoundsOutOfRange)"

lemma slice_ok [simp]: "lo \<le> hi \<Longrightarrow> hi \<le> length s \<Longrightarrow> slice s lo hi = Inr (take (hi - lo) (drop lo s))"
  by (simp add: slice_def)

lemma drop_eq_ConsD:
  assumes "drop n xs = a # s"
  shows "drop (Suc n) xs = s" and "n < length xs" and "xs ! n = a"
proof -
  show "n < length xs" using assms by (metis drop_eq_Nil leI list.distinct(1))
  show "drop (Suc n) xs = s" using assms by (metis drop_Suc list.sel(3) tl_drop)
  show "xs ! n = a" using assms by (metis nth_via_drop)
qed

section \<open>Integers\<close>

text \<open>Two's complement wrap-around of a 64-bit \<open>int\<close>; division truncates towards zero.\<close>

definition wrap64 :: "int \<Rightarrow> int" where
  "wrap64 x = (x + 2 ^ 63) mod 2 ^ 64 - 2 ^ 63"

definition max_int :: int where "max_int = 2 ^ 63 - 1"

definition in_int64 :: "int \<Rightarrow> bool" where
  "in_int64 x \<longleftrightarrow> - (2 ^ 63) \<le> x \<and> x \<le> max_int"

lemma in_int64_wrap64: "in_int64 (wrap64 x)"
proof -
  have "0 \<le> (x + 2 ^ 63) mod 2 ^ 64" "(x + 2 ^ 63) mod 2 ^ 64 < (2 ^ 64 :: int)" by simp_all
  then show ?thesis by (simp add: in_int64_def wrap64_def max_int_def)
qed

lemma wrap64_id: "in_int64 x \<Longrightarrow> wrap64 x = x"
  by (simp add: in_int64_def wrap64_def max_int_def)

definition go_quot :: "int \<Rightarrow> int \<Rightarrow> int" where
  "go_quot a b = sgn a * sgn b * (\<bar>a\<bar> div \<bar>b\<bar>)"

definition go_rem :: "int \<Rightarrow> int \<Rightarrow> int" where
  "go_rem a b = a - b * go_quot a b"

lemma go_rem_eq: "go_rem a b = sgn a * (\<bar>a\<bar> mod \<bar>b\<bar>)"
proof -
  have "go_rem a b = sgn a * \<bar>a\<bar> - sgn a * ((b * sgn b) * (\<bar>a\<bar> div \<bar>b\<bar>))"
    by (simp add: go_rem_def go_quot_def sgn_mult_abs mult.assoc mult.left_commute)
  also have "\<dots> = sgn a * (\<bar>a\<bar> - \<bar>b\<bar> * (\<bar>a\<bar> div \<bar>b\<bar>))"
    by (simp add: abs_sgn [of b, symmetric] right_diff_distrib)
  finally show ?thesis by (simp add: minus_mult_div_eq_mod)
qed

lemma go_rem_bound: "b \<noteq> 0 \<Longrightarrow> \<bar>go_rem a b\<bar> < \<bar>b\<bar>"
  by (simp add: go_rem_eq abs_mult abs_sgn_eq)

section \<open>UTF-8\<close>

text \<open>
  \<open>utf8.DecodeRuneInString\<close>: the first rune of a byte string and its width; an invalid or
  truncated encoding (overlong forms, surrogate halves and code points past U+10FFFF included)
  gives U+FFFD with width 1, the empty string U+FFFD with width 0.
\<close>

definition RuneError :: rune where "RuneError = 0xFFFD"

definition byte_val :: "char \<Rightarrow> int" where "byte_val c = of_char c"

lemma byte_val_bounds [simp]: "0 \<le> byte_val c" "byte_val c < 256"
proof -
  have "byte_val c = byte_val c mod 256" by (simp add: byte_val_def)
  then show "0 \<le> byte_val c" "byte_val c < 256"
    by (metis pos_mod_sign zero_less_numeral, metis pos_mod_bound zero_less_numeral)
qed

lemma byte_val_eq_iff [simp]: "byte_val a = byte_val b \<longleftrightarrow> a = b"
  by (simp add: byte_val_def)

lemma byte_val_Char [simp]:
  "byte_val (Char b0 b1 b2 b3 b4 b5 b6 b7) = horner_sum of_bool 2 [b0, b1, b2, b3, b4, b5, b6, b7]"
  by (simp add: byte_val_def)

definition is_cont :: "char \<Rightarrow> bool" where
  "is_cont c \<longleftrightarrow> 0x80 \<le> byte_val c \<and> byte_val c \<le> 0xBF"

text \<open>The range a second byte must fall in, given the first.\<close>

definition second_ok :: "int \<Rightarrow> int \<Rightarrow> bool" where
  "second_ok x y \<longleftrightarrow>
     (if x = 0xE0 then 0xA0 else if x = 0xF0 then 0x90 else 0x80) \<le> y \<and>
     y \<le> (if x = 0xED then 0x9F else if x = 0xF4 then 0x8F else 0xBF)"

definition decode_rune :: "string \<Rightarrow> rune \<times> nat" where
  "decode_rune s =
     (case s of [] \<Rightarrow> (RuneError, 0)
      | a # s1 \<Rightarrow>
        let x = byte_val a in
        if x < 0x80 then (x, 1)
        else if 0xC2 \<le> x \<and> x \<le> 0xDF then
          (case s1 of
             b # _ \<Rightarrow> if is_cont b then ((x - 0xC0) * 64 + (byte_val b - 0x80), 2)
                      else (RuneError, 1)
           | _ \<Rightarrow> (RuneError, 1))
        else if 0xE0 \<le> x \<and> x \<le> 0xEF then
          (case s1 of
             b # c # _ \<Rightarrow>
               if second_ok x (byte_val b) \<and> is_cont c
               then ((x - 0xE0) * 4096 + (byte_val b - 0x80) * 64 + (byte_val c - 0x80), 3)
               else (RuneError, 1)
           | _ \<Rightarrow> (RuneError, 1))
        else if 0xF0 \<le> x \<and> x \<le> 0xF4 then
          (case s1 of
             b # c # d # _ \<Rightarrow>
               if second_ok x (byte_val b) \<and> is_cont c \<and> is_cont d
               then ((x - 0xF0) * 262144 + (byte_val b - 0x80) * 4096 +
                     (byte_val c - 0x80) * 64 + (byte_val d - 0x80), 4)
               else (RuneError, 1)
           | _ \<Rightarrow> (RuneError, 1))
        else (RuneError, 1))"

lemma decode_rune_Nil [simp]: "decode_rune [] = (RuneError, 0)"
  by (simp add: decode_rune_def)

lemma decode_rune_ascii [simp]: "byte_val a < 0x80 \<Longrightarrow> decode_rune (a # s) = (byte_val a, 1)"
  by (simp add: decode_rune_def)

text \<open>What a decoding of a nonempty string can be: an ASCII byte, or a rune of at least 0x80
  whose bytes are all outside the ASCII range.\<close>

lemma decode_rune_nonascii:
  assumes "\<not> byte_val a < 0x80" and "decode_rune (a # s) = (r, n)"
  shows "0x80 \<le> r" and "r \<le> 0x10FFFF" and "1 \<le> n" and "n \<le> length (a # s)"
    and "\<forall>b \<in> set (take n (a # s)). 0x80 \<le> byte_val b"
  using assms
  by (auto simp: decode_rune_def RuneError_def is_cont_def second_ok_def Let_def
      split: list.splits if_splits)

lemma decode_rune_width:
  assumes "s \<noteq> []" and "decode_rune s = (r, n)"
  shows "1 \<le> n" and "n \<le> length s" and "0 \<le> r"
proof -
  obtain a t where s: "s = a # t" using assms(1) by (cases s) auto
  have "1 \<le> n \<and> n \<le> length s \<and> 0 \<le> r"
  proof (cases "byte_val a < 0x80")
    case True
    then show ?thesis using assms(2) by (auto simp: s)
  next
    case False
    with decode_rune_nonascii [OF False assms(2) [unfolded s]] show ?thesis by (simp add: s)
  qed
  then show "1 \<le> n" and "n \<le> length s" and "0 \<le> r" by simp_all
qed

lemma decode_rune_pos: "s \<noteq> [] \<Longrightarrow> 0 < snd (decode_rune s)"
  by (metis One_nat_def Suc_le_lessD decode_rune_width(1) prod.collapse)

lemma decode_rune_ge0: "0 \<le> fst (decode_rune s)"
  by (cases "s = []") (simp add: RuneError_def, metis decode_rune_width(3) prod.collapse)

text \<open>A Go \<open>for i, r := range s\<close>: the list of the positions and runes it visits.\<close>

function range_runes :: "nat \<Rightarrow> string \<Rightarrow> (nat \<times> rune) list" where
  "range_runes i s =
     (if s = [] then [] else
      (i, fst (decode_rune s)) #
      range_runes (i + snd (decode_rune s)) (drop (snd (decode_rune s)) s))"
  by pat_completeness auto
termination
  by (relation "measure (\<lambda>(i, s). length s)") (auto simp: decode_rune_pos)

declare range_runes.simps [simp del]

lemma range_runes_Nil [simp]: "range_runes i [] = []"
  by (simp add: range_runes.simps)

lemma range_runes_ascii [simp]:
  "byte_val a < 0x80 \<Longrightarrow> range_runes i (a # s) = (i, byte_val a) # range_runes (Suc i) s"
  by (simp add: range_runes.simps [of i "a # s"])

text \<open>\<open>strings.IndexRune(s, r) \<ge> 0\<close>.\<close>

definition contains_rune :: "string \<Rightarrow> rune \<Rightarrow> bool" where
  "contains_rune s r \<longleftrightarrow> r \<in> snd ` set (range_runes 0 s)"

lemma range_runes_code [code]:
  "range_runes i s = (case s of [] \<Rightarrow> [] | a # t \<Rightarrow>
     if byte_val a < 0x80 then (i, byte_val a) # range_runes (Suc i) t
     else let (r, n) = decode_rune s in (i, r) # range_runes (i + n) (drop n s))"
  by (subst range_runes.simps) (auto split: list.split simp: Let_def case_prod_beta)

lemma range_runes_ge0: "p \<in> set (range_runes i s) \<Longrightarrow> 0 \<le> snd p"
  by (induction i s rule: range_runes.induct)
    (subst (asm) (2) range_runes.simps, auto simp: decode_rune_ge0 split: if_splits)

lemma contains_rune_neg [simp]: "r < 0 \<Longrightarrow> \<not> contains_rune s r"
  using range_runes_ge0 by (fastforce simp: contains_rune_def)

text \<open>\<open>utf8.EncodeRune\<close> and the conversion \<open>string(r)\<close>; a value that is no Unicode scalar is
  encoded as U+FFFD.\<close>

definition valid_rune :: "rune \<Rightarrow> bool" where
  "valid_rune r \<longleftrightarrow> (0 \<le> r \<and> r < 0xD800) \<or> (0xDFFF < r \<and> r \<le> 0x10FFFF)"

definition encode_valid :: "rune \<Rightarrow> string" where
  "encode_valid r = map char_of
     (if r < 0x80 then [r]
      else if r < 0x800 then [0xC0 + r div 64, 0x80 + r mod 64]
      else if r < 0x10000 then [0xE0 + r div 4096, 0x80 + r div 64 mod 64, 0x80 + r mod 64]
      else [0xF0 + r div 262144, 0x80 + r div 4096 mod 64, 0x80 + r div 64 mod 64, 0x80 + r mod 64])"

definition encode_rune :: "rune \<Rightarrow> string" where
  "encode_rune r = encode_valid (if valid_rune r then r else RuneError)"

lemma byte_val_char_of [simp]: "byte_val (char_of x) = x mod 256"
  by (simp add: byte_val_def)

lemma char_of_byte_val [simp]: "char_of (byte_val c) = c"
  by (simp add: byte_val_def)

lemma char_of_nat_byte_val [simp]: "char_of (nat (byte_val c)) = c"
  by (simp add: byte_val_def)

lemma encode_rune_ascii: "byte_val a < 0x80 \<Longrightarrow> encode_rune (byte_val a) = [a]"
  by (simp add: encode_rune_def encode_valid_def valid_rune_def)

text \<open>Decoding an encoded scalar gives it back, with the width of its encoding.\<close>

lemma div64:
  fixes r :: int
  shows "r div 4096 = r div 64 div 64" and "r div 262144 = r div 4096 div 64"
  by (simp_all add: zdiv_zmult2_eq [symmetric])

lemma digits64:
  fixes r :: int
  shows "r div 4096 * 4096 + r div 64 mod 64 * 64 + r mod 64 = r"
    and "r div 262144 * 262144 + r div 4096 mod 64 * 4096 + r div 64 mod 64 * 64 + r mod 64 = r"
proof -
  have 1: "r = r div 64 * 64 + r mod 64"
    and 2: "r div 64 = r div 4096 * 64 + r div 64 mod 64"
    and 3: "r div 4096 = r div 262144 * 64 + r div 4096 mod 64"
    unfolding div64 by simp_all
  from 1 2 show "r div 4096 * 4096 + r div 64 mod 64 * 64 + r mod 64 = r" by linarith
  with 3 show "r div 262144 * 262144 + r div 4096 mod 64 * 4096 + r div 64 mod 64 * 64 + r mod 64 = r"
    by linarith
qed

text \<open>The second byte of an encoding excludes overlong forms, surrogates and too large values.\<close>

lemma second_ok3:
  fixes q :: int
  assumes "0x20 \<le> q" "q < 0x400" "q < 0x360 \<or> 0x37F < q"
  shows "second_ok (0xE0 + q div 64) (0x80 + q mod 64)"
proof -
  have q: "q = q div 64 * 64 + q mod 64" "0 \<le> q mod 64" "q mod 64 < 64" by simp_all
  show ?thesis using assms unfolding second_ok_def by (auto; use q in linarith)
qed

lemma second_ok4:
  fixes p :: int
  assumes "0x10 \<le> p" "p \<le> 0x10F"
  shows "second_ok (0xF0 + p div 64) (0x80 + p mod 64)"
proof -
  have q: "p = p div 64 * 64 + p mod 64" "0 \<le> p mod 64" "p mod 64 < 64" by simp_all
  show ?thesis using assms unfolding second_ok_def by (auto; use q in linarith)
qed

lemma decode4:
  assumes "0xF0 \<le> a" "a \<le> 0xF4" "second_ok a b" "0x80 \<le> c" "c \<le> 0xBF" "0x80 \<le> d" "d \<le> 0xBF"
  shows "decode_rune (char_of a # char_of b # char_of c # char_of d # s) =
    ((a - 0xF0) * 262144 + (b - 0x80) * 4096 + (c - 0x80) * 64 + (d - 0x80), 4)"
proof -
  have b: "0 \<le> b" "b < 256" using assms(3) by (auto simp: second_ok_def split: if_splits)
  have v: "a mod 256 = a" "b mod 256 = b" "c mod 256 = c" "d mod 256 = d"
    using assms b by simp_all
  show ?thesis using assms by (simp add: decode_rune_def is_cont_def v)
qed

lemma decode3:
  assumes "0xE0 \<le> a" "a \<le> 0xEF" "second_ok a b" "0x80 \<le> c" "c \<le> 0xBF"
  shows "decode_rune (char_of a # char_of b # char_of c # s) =
    ((a - 0xE0) * 4096 + (b - 0x80) * 64 + (c - 0x80), 3)"
proof -
  have b: "0 \<le> b" "b < 256" using assms(3) by (auto simp: second_ok_def split: if_splits)
  have v: "a mod 256 = a" "b mod 256 = b" "c mod 256 = c"
    using assms b by simp_all
  show ?thesis using assms by (simp add: decode_rune_def is_cont_def v)
qed

lemma mod64_bounds: "0 \<le> (x::int) mod 64" "x mod 64 \<le> 0x3F"
  by simp_all

lemma decode_encode_rune:
  assumes "valid_rune r"
  shows "decode_rune (encode_rune r @ s) = (r, length (encode_rune r))"
proof -
  consider "r < 0x80" | "0x80 \<le> r" "r < 0x800" | "0x800 \<le> r" "r < 0x10000" | "0x10000 \<le> r"
    by linarith
  then show ?thesis
  proof cases
    case 1
    then show ?thesis using assms
      by (simp add: encode_rune_def encode_valid_def valid_rune_def)
  next
    case 2
    then have "2 \<le> r div 64" "r div 64 < 32" by linarith+
    then show ?thesis using 2 assms
      by (simp add: encode_rune_def encode_valid_def decode_rune_def is_cont_def)
  next
    case 3
    have "0 \<le> r div 4096" "r div 4096 < 16" using 3 by linarith+
    moreover have "second_ok (0xE0 + r div 4096) (0x80 + r div 64 mod 64)"
      unfolding div64(1) using 3 assms unfolding valid_rune_def by (intro second_ok3; linarith)
    ultimately have "decode_rune (char_of (0xE0 + r div 4096) # char_of (0x80 + r div 64 mod 64) #
        char_of (0x80 + r mod 64) # s) =
        ((0xE0 + r div 4096 - 0xE0) * 4096 + (0x80 + r div 64 mod 64 - 0x80) * 64 +
         (0x80 + r mod 64 - 0x80), 3)"
      using mod64_bounds [of r] by (intro decode3; linarith)
    also have "\<dots> = (r, 3)" using digits64(1) [of r] by (simp only: add_diff_cancel_left')
    finally have "decode_rune (char_of (0xE0 + r div 4096) # char_of (0x80 + r div 64 mod 64) #
        char_of (0x80 + r mod 64) # s) = (r, 3)" .
    then show ?thesis using 3 assms by (simp add: encode_rune_def encode_valid_def)
  next
    case 4
    have "0 \<le> r div 262144" "r div 262144 < 5" using 4 assms unfolding valid_rune_def by linarith+
    moreover have "second_ok (0xF0 + r div 262144) (0x80 + r div 4096 mod 64)"
      unfolding div64(2) using 4 assms unfolding valid_rune_def by (intro second_ok4; linarith)
    ultimately have "decode_rune (char_of (0xF0 + r div 262144) # char_of (0x80 + r div 4096 mod 64) #
        char_of (0x80 + r div 64 mod 64) # char_of (0x80 + r mod 64) # s) =
        ((0xF0 + r div 262144 - 0xF0) * 262144 + (0x80 + r div 4096 mod 64 - 0x80) * 4096 +
         (0x80 + r div 64 mod 64 - 0x80) * 64 + (0x80 + r mod 64 - 0x80), 4)"
      using mod64_bounds [of r] mod64_bounds [of "r div 64"] by (intro decode4; linarith)
    also have "\<dots> = (r, 4)" using digits64(2) [of r] by (simp only: add_diff_cancel_left')
    finally have "decode_rune (char_of (0xF0 + r div 262144) # char_of (0x80 + r div 4096 mod 64) #
        char_of (0x80 + r div 64 mod 64) # char_of (0x80 + r mod 64) # s) = (r, 4)" .
    then show ?thesis using 4 assms by (simp add: encode_rune_def encode_valid_def)
  qed
qed

section \<open>Numbers as text\<close>

text \<open>\<open>strconv.ParseUint\<close> and \<open>strconv.ParseInt\<close> with an explicit base: the digits are read from
  the left, and the first bad digit or overflow decides the error.\<close>

datatype num_error = ErrSyntax | ErrRange

definition digit_value :: "char \<Rightarrow> int option" where
  "digit_value c =
     (let x = byte_val c in
      if 0x30 \<le> x \<and> x \<le> 0x39 then Some (x - 0x30)
      else if 0x61 \<le> x \<and> x \<le> 0x7A then Some (x - 0x61 + 10)
      else if 0x41 \<le> x \<and> x \<le> 0x5A then Some (x - 0x41 + 10)
      else None)"

fun parse_uint_loop :: "int \<Rightarrow> int \<Rightarrow> int \<Rightarrow> string \<Rightarrow> num_error + int" where
  "parse_uint_loop base maxVal n [] = Inr n"
| "parse_uint_loop base maxVal n (c # s) =
     (case digit_value c of
        None \<Rightarrow> Inl ErrSyntax
      | Some d \<Rightarrow>
          if d \<ge> base then Inl ErrSyntax
          else if n * base + d > maxVal then Inl ErrRange
          else parse_uint_loop base maxVal (n * base + d) s)"

definition parse_uint :: "int \<Rightarrow> int \<Rightarrow> string \<Rightarrow> num_error + int" where
  "parse_uint base maxVal s =
     (if s = [] then Inl ErrSyntax else parse_uint_loop base maxVal 0 s)"

definition parse_int10 :: "string \<Rightarrow> int \<times> num_error option" where
  "parse_int10 s =
     (let neg = (s \<noteq> [] \<and> hd s = CHR ''-'');
          ds = (if s \<noteq> [] \<and> (hd s = CHR ''-'' \<or> hd s = CHR ''+'') then tl s else s)
      in case parse_uint 10 (2 ^ 64 - 1) ds of
           Inl ErrSyntax \<Rightarrow> (0, Some ErrSyntax)
         | Inl ErrRange \<Rightarrow> (if neg then - (2 ^ 63) else max_int, Some ErrRange)
         | Inr un \<Rightarrow>
             if \<not> neg \<and> un \<ge> 2 ^ 63 then (max_int, Some ErrRange)
             else if neg \<and> un > 2 ^ 63 then (- (2 ^ 63), Some ErrRange)
             else (if neg then - un else un, None))"

text \<open>The decimal form \<open>fmt\<close> prints.\<close>

definition digit_char :: "nat \<Rightarrow> char" where
  "digit_char d = char_of (48 + d)"

fun show_nat :: "nat \<Rightarrow> string" where
  "show_nat n = (if n < 10 then [digit_char n] else show_nat (n div 10) @ [digit_char (n mod 10)])"

declare show_nat.simps [simp del]

definition show_int :: "int \<Rightarrow> string" where
  "show_int i = (if i < 0 then CHR ''-'' # show_nat (nat (- i)) else show_nat (nat i))"

lemma digit_char_cases:
  assumes "d < 10" obtains
    "d = 0" "digit_char d = CHR ''0''" | "d = 1" "digit_char d = CHR ''1''"
  | "d = 2" "digit_char d = CHR ''2''" | "d = 3" "digit_char d = CHR ''3''"
  | "d = 4" "digit_char d = CHR ''4''" | "d = 5" "digit_char d = CHR ''5''"
  | "d = 6" "digit_char d = CHR ''6''" | "d = 7" "digit_char d = CHR ''7''"
  | "d = 8" "digit_char d = CHR ''8''" | "d = 9" "digit_char d = CHR ''9''"
proof -
  have "d = 0 \<or> d = 1 \<or> d = 2 \<or> d = 3 \<or> d = 4 \<or> d = 5 \<or> d = 6 \<or> d = 7 \<or> d = 8 \<or> d = 9"
    using assms by arith
  then show ?thesis using that unfolding digit_char_def
    by (elim disjE; simp add: char_of_eq_iff take_bit_eq_mod)
qed

lemma digit_value_digit_char [simp]: "d < 10 \<Longrightarrow> digit_value (digit_char d) = Some (int d)"
  by (erule digit_char_cases) (simp_all add: digit_value_def)

lemma digit_char_numbers: "d < 10 \<Longrightarrow> digit_char d \<in> set ''0123456789''"
  by (erule digit_char_cases) simp_all

lemma show_nat_nonempty [simp]: "show_nat n \<noteq> []"
  by (subst show_nat.simps) simp

lemma show_nat_digits: "set (show_nat n) \<subseteq> set ''0123456789''"
proof (induction n rule: show_nat.induct)
  case (1 n)
  have "digit_char (n mod 10) \<in> set ''0123456789''"
    by (rule digit_char_numbers) simp
  moreover have "digit_char n \<in> set ''0123456789''" if "n < 10"
    using that by (rule digit_char_numbers)
  ultimately show ?case using 1
    by (subst show_nat.simps) auto
qed

lemma parse_uint_loop_append:
  "parse_uint_loop b m n (xs @ ys) =
     bindE (parse_uint_loop b m n xs) (\<lambda>n'. parse_uint_loop b m n' ys)"
  by (induction xs arbitrary: n) (auto split: option.split)

lemma parse_uint_loop_show_nat:
  "int n \<le> m \<Longrightarrow> parse_uint_loop 10 m 0 (show_nat n) = Inr (int n)"
proof (induction n rule: show_nat.induct)
  case (1 n)
  show ?case
  proof (cases "n < 10")
    case True
    then show ?thesis using 1 by (subst show_nat.simps) simp
  next
    case False
    have "parse_uint_loop 10 m 0 (show_nat (n div 10)) = Inr (int (n div 10))"
      using 1 False by simp
    moreover have "int (n div 10) * 10 + int (n mod 10) = int n"
      by (metis mod_div_mult_eq add.commute of_nat_add of_nat_mult of_nat_numeral)
    ultimately show ?thesis using False 1(2)
      by (subst show_nat.simps) (simp add: parse_uint_loop_append)
  qed
qed

text \<open>Reading the decimal form of a value in range gives the value back.\<close>

lemma show_int_nonempty: "show_int i \<noteq> []"
  by (simp add: show_int_def)

lemma parse_int10_show_nat:
  assumes "int n \<le> max_int"
  shows "parse_int10 (show_nat n) = (int n, None)"
proof -
  have "hd (show_nat n) \<in> set ''0123456789''"
    using show_nat_digits [of n] show_nat_nonempty [of n] by (meson hd_in_set subsetD)
  then have "hd (show_nat n) \<noteq> CHR ''-''" "hd (show_nat n) \<noteq> CHR ''+''" by auto
  moreover have "int n < 2 ^ 63" "int n \<le> 2 ^ 64 - 1" using assms by (simp_all add: max_int_def)
  ultimately show ?thesis
    using parse_uint_loop_show_nat [of n "2 ^ 64 - 1"]
    by (simp add: parse_int10_def parse_uint_def)
qed

end
