(* ===== verification/Pluralforms_Lexer.thy ===== *)
theory Pluralforms_Lexer
  imports Go_Prelude
begin

text \<open>
  The lexer of Plural-Forms expressions and the token stream the parser reads from
  (\<open>gettext/pluralforms/lexer.go\<close>). The lexer is a cursor over the expression; the token stream
  is a stack of pushed-back tokens, kept in a growing slice, in front of the lexer.
\<close>

section \<open>Tokens\<close>

datatype tokenType =
    tokenError | tokenEOF | tokenBool | tokenInt | tokenVar
  | tokenMul | tokenDiv | tokenMod | tokenAdd | tokenSub
  | tokenEq | tokenNotEq | tokenGt | tokenGte | tokenLt | tokenLte
  | tokenOr | tokenAnd | tokenIf | tokenElse | tokenNot
  | tokenLeftParen | tokenRightParen

fun tokenName :: "tokenType \<Rightarrow> string" where
  "tokenName tokenError = ''error''"
| "tokenName tokenEOF = ''EOF''"
| "tokenName tokenBool = ''bool''"
| "tokenName tokenInt = ''int''"
| "tokenName tokenVar = ''var''"
| "tokenName tokenMul = ''*''"
| "tokenName tokenDiv = ''/''"
| "tokenName tokenMod = ''%''"
| "tokenName tokenAdd = ''+''"
| "tokenName tokenSub = ''-''"
| "tokenName tokenEq = ''==''"
| "tokenName tokenNotEq = ''!=''"
| "tokenName tokenGt = ''>''"
| "tokenName tokenGte = ''>=''"
| "tokenName tokenLt = ''<''"
| "tokenName tokenLte = ''<=''"
| "tokenName tokenOr = ''||''"
| "tokenName tokenAnd = ''&&''"
| "tokenName tokenIf = ''?''"
| "tokenName tokenElse = '':''"
| "tokenName tokenNot = ''!''"
| "tokenName tokenLeftParen = ''(''"
| "tokenName tokenRightParen = '')''"

definition stringToToken :: "string \<Rightarrow> tokenType option" where
  "stringToToken = map_of
    [(''*'', tokenMul), (''/'', tokenDiv), (''%'', tokenMod), (''+'', tokenAdd),
     (''-'', tokenSub), (''=='', tokenEq), (''!='', tokenNotEq), (''>'', tokenGt),
     (''>='', tokenGte), (''<'', tokenLt), (''<='', tokenLte), (''||'', tokenOr),
     (''&&'', tokenAnd), (''?'', tokenIf), ('':'', tokenElse), (''!'', tokenNot),
     (''('', tokenLeftParen), ('')'', tokenRightParen)]"

record token =
  tok_typ :: tokenType
  tok_val :: string

text \<open>A token literal \<open>token{typ: t}\<close> has the empty string as its value.\<close>

definition mk_token :: "tokenType \<Rightarrow> token" where
  "mk_token t = \<lparr>tok_typ = t, tok_val = []\<rparr>"

lemma mk_token_sel [simp]: "tok_typ (mk_token t) = t" "tok_val (mk_token t) = []"
  by (simp_all add: mk_token_def)

definition token_String :: "token \<Rightarrow> string" where
  "token_String t =
     (if tok_val t \<noteq> [] then ''<'' @ tokenName (tok_typ t) @ '':'' @ tok_val t @ ''>''
      else ''<'' @ tokenName (tok_typ t) @ ''>'')"

section \<open>The lexer\<close>

record lexer =
  input :: string
  pos :: nat
  width :: nat

definition eof :: rune where "eof = -1"
definition numbers :: string where "numbers = ''0123456789''"
definition symbols :: string where "symbols = ''*/%+-=!<>|&?:''"

definition newLexer :: "string \<Rightarrow> lexer" where
  "newLexer expr = \<lparr>input = expr, pos = 0, width = 0\<rparr>"

definition nextRune :: "lexer \<Rightarrow> rune \<times> lexer" where
  "nextRune l =
     (if pos l \<ge> length (input l) then (eof, l\<lparr>width := 0\<rparr>)
      else let (r, w) = decode_rune (drop (pos l) (input l))
           in (r, l\<lparr>pos := pos l + w, width := w\<rparr>))"

definition backup :: "lexer \<Rightarrow> lexer" where
  "backup l = l\<lparr>pos := pos l - width l\<rparr>"

text \<open>The loop reads until a rune outside the valid set, the end of the input included.\<close>

lemma nextRune_progress:
  assumes "nextRune l = (r, l')" and "r \<noteq> eof"
  shows "length (input l') - pos l' < length (input l) - pos l"
    and "input l' = input l" and "pos l < pos l'" and "pos l' \<le> length (input l)"
    and "width l' = pos l' - pos l"
proof -
  let ?s = "drop (pos l) (input l)"
  have lt: "pos l < length (input l)"
    using assms by (auto simp: nextRune_def split: if_splits)
  obtain w where w: "decode_rune ?s = (r, w)" "l' = l\<lparr>pos := pos l + w, width := w\<rparr>"
    using assms lt by (auto simp: nextRune_def split: prod.splits)
  have "?s \<noteq> []" using lt by simp
  from decode_rune_width [OF this w(1)] have "1 \<le> w" "w \<le> length ?s" by simp_all
  with lt show "length (input l') - pos l' < length (input l) - pos l" and "input l' = input l"
    and "pos l < pos l'" and "pos l' \<le> length (input l)" and "width l' = pos l' - pos l"
    by (auto simp: w(2))
qed

lemma nextRune_eof: "nextRune l = (eof, l') \<Longrightarrow> l' = l\<lparr>width := 0\<rparr> \<and> pos l \<ge> length (input l)"
  using decode_rune_ge0 [of "drop (pos l) (input l)"]
  by (auto simp: nextRune_def eof_def split: if_splits prod.splits)

function nextRun_loop :: "string \<Rightarrow> lexer \<Rightarrow> lexer" where
  "nextRun_loop valid l =
     (if contains_rune valid (fst (nextRune l)) then nextRun_loop valid (snd (nextRune l))
      else snd (nextRune l))"
  by pat_completeness auto
termination
proof (relation "measure (\<lambda>(valid, l). length (input l) - pos l)")
  fix valid l
  assume "contains_rune valid (fst (nextRune l))"
  then have "fst (nextRune l) \<noteq> eof" by (auto simp: eof_def)
  then show "((valid, snd (nextRune l)), valid, l) \<in> measure (\<lambda>(valid, l). length (input l) - pos l)"
    by (auto intro: nextRune_progress(1) [OF surjective_pairing])
qed simp

declare nextRun_loop.simps [simp del]

definition nextRun :: "string \<Rightarrow> lexer \<Rightarrow> string \<times> lexer" where
  "nextRun valid l =
     (let l' = backup (nextRun_loop valid l)
      in (take (pos l' - pos l) (drop (pos l) (input l)), l'))"

text \<open>\<open>next\<close>: spaces are skipped, single-rune tokens are returned as they are read; anything else
  is a run of digits, a run of symbol characters that spells one operator, or an error.\<close>

definition next_token :: "rune \<Rightarrow> lexer \<Rightarrow> token \<times> lexer" where
  "next_token r l =
     (if r = eof then (mk_token tokenEOF, l)
      else if r = byte_val CHR ''n'' then (mk_token tokenVar, l)
      else if r \<in> set (map byte_val ''*/%+-?:()'') then
        (mk_token (the (stringToToken [char_of (nat r)])), l)
      else
        let l0 = backup l; (s, l1) = nextRun numbers l0 in
        if s \<noteq> [] then (\<lparr>tok_typ = tokenInt, tok_val = s\<rparr>, l1)
        else
          let (s2, l2) = nextRun symbols l1;
              err = \<lparr>tok_typ = tokenError, tok_val = ''Invalid character '' @ encode_rune r\<rparr> in
          if s2 \<noteq> [] then
            (case stringToToken s2 of Some t \<Rightarrow> (mk_token t, l2) | None \<Rightarrow> (err, l2))
          else (err, l2))"

function lexer_next :: "lexer \<Rightarrow> token \<times> lexer" where
  "lexer_next l =
     (if fst (nextRune l) = byte_val CHR '' '' then lexer_next (snd (nextRune l))
      else next_token (fst (nextRune l)) (snd (nextRune l)))"
  by pat_completeness auto
termination
proof (relation "measure (\<lambda>l. length (input l) - pos l)")
  fix l
  assume "fst (nextRune l) = byte_val CHR '' ''"
  then have "fst (nextRune l) \<noteq> eof" by (simp add: eof_def)
  then show "(snd (nextRune l), l) \<in> measure (\<lambda>l. length (input l) - pos l)"
    by (auto intro: nextRune_progress(1) [OF surjective_pairing])
qed simp

declare lexer_next.simps [simp del]

section \<open>The token stream\<close>

record tokenStream =
  ts_lexer :: lexer
  ts_tokens :: "token list"
  ts_count :: nat

definition zero_token :: token where "zero_token = \<lparr>tok_typ = tokenError, tok_val = []\<rparr>"

definition newTokenStream :: "string \<Rightarrow> tokenStream" where
  "newTokenStream expr =
     \<lparr>ts_lexer = newLexer expr, ts_tokens = replicate 5 zero_token, ts_count = 0\<rparr>"

definition pop :: "tokenStream \<Rightarrow> token \<times> tokenStream" where
  "pop s =
     (if ts_count s = 0 then
        let (t, l) = lexer_next (ts_lexer s) in (t, s\<lparr>ts_lexer := l\<rparr>)
      else
        (ts_tokens s ! (ts_count s - 1), s\<lparr>ts_count := ts_count s - 1\<rparr>))"

definition push :: "token \<Rightarrow> tokenStream \<Rightarrow> tokenStream" where
  "push t s =
     (let tokens = (if ts_count s \<ge> length (ts_tokens s)
                    then ts_tokens s @ replicate (length (ts_tokens s)) zero_token
                    else ts_tokens s)
      in s\<lparr>ts_tokens := tokens[ts_count s := t], ts_count := ts_count s + 1\<rparr>)"

section \<open>What the lexer reads, as a function of the remaining input\<close>

definition rest :: "lexer \<Rightarrow> string" where
  "rest l = drop (pos l) (input l)"

definition lexer_ok :: "lexer \<Rightarrow> bool" where
  "lexer_ok l \<longleftrightarrow> pos l \<le> length (input l)"

lemma rest_Nil_iff: "rest l = [] \<longleftrightarrow> length (input l) \<le> pos l"
  by (simp add: rest_def)

text \<open>A set of ASCII characters, as the runs of the lexer use it.\<close>

definition ascii_set :: "string \<Rightarrow> bool" where
  "ascii_set v \<longleftrightarrow> (\<forall>c \<in> set v. byte_val c < 0x80)"

lemma contains_rune_ascii:
  "ascii_set v \<Longrightarrow> contains_rune v r \<longleftrightarrow> (\<exists>c \<in> set v. byte_val c = r)"
proof -
  have "snd ` set (range_runes i v) = byte_val ` set v" if "ascii_set v" for i
    using that by (induction v arbitrary: i) (auto simp: ascii_set_def)
  then show "ascii_set v \<Longrightarrow> ?thesis" by (auto simp: contains_rune_def)
qed

lemma contains_rune_decode:
  assumes "ascii_set v"
  shows "contains_rune v (fst (decode_rune (a # s))) \<longleftrightarrow> a \<in> set v"
proof (cases "byte_val a < 0x80")
  case True
  then show ?thesis using assms by (auto simp: contains_rune_ascii)
next
  case False
  obtain r n where rn: "decode_rune (a # s) = (r, n)" by fastforce
  have "0x80 \<le> r" by (rule decode_rune_nonascii(1) [OF False rn])
  then show ?thesis using assms False rn by (auto simp: contains_rune_ascii ascii_set_def)
qed

lemma nextRune_Nil: "rest l = [] \<Longrightarrow> nextRune l = (eof, l\<lparr>width := 0\<rparr>)"
  by (simp add: nextRune_def rest_Nil_iff)

lemma nextRune_Cons:
  assumes "rest l \<noteq> []"
  shows "nextRune l = (fst (decode_rune (rest l)),
    l\<lparr>pos := pos l + snd (decode_rune (rest l)), width := snd (decode_rune (rest l))\<rparr>)"
  using assms by (simp add: nextRune_def rest_def split: prod.split)

text \<open>\<open>nextRun\<close> over an ASCII set reads the longest prefix over it.\<close>

lemma nextRun_loop_spec:
  assumes "ascii_set v" "lexer_ok l"
  shows "input (backup (nextRun_loop v l)) = input l \<and>
    pos (backup (nextRun_loop v l)) = pos l + length (takeWhile (\<lambda>c. c \<in> set v) (rest l))"
  using assms
proof (induction v l rule: nextRun_loop.induct)
  case (1 v l)
  show ?case
  proof (cases "rest l")
    case Nil
    then show ?thesis using 1
      by (simp add: nextRun_loop.simps [of v l] nextRune_Nil eof_def backup_def)
  next
    case (Cons a s)
    show ?thesis
    proof (cases "a \<in> set v")
      case False
      then show ?thesis using 1 Cons
        by (simp add: nextRun_loop.simps [of v l] nextRune_Cons contains_rune_decode backup_def)
    next
      case True
      let ?l = "l\<lparr>pos := Suc (pos l), width := 1\<rparr>"
      have "byte_val a < 0x80" using True 1(2) by (simp add: ascii_set_def)
      then have n: "snd (nextRune l) = ?l" using Cons by (simp add: nextRune_Cons)
      have c: "contains_rune v (fst (nextRune l))"
        using True Cons contains_rune_decode [OF 1(2), of a s] by (simp add: nextRune_Cons)
      have "rest ?l = s" "lexer_ok ?l"
        using drop_eq_ConsD [OF Cons [unfolded rest_def]] by (simp_all add: rest_def lexer_ok_def)
      then show ?thesis using 1(1) [OF c] 1(2) c n True Cons
        by (simp add: nextRun_loop.simps [of v l])
    qed
  qed
qed

lemma rest_update:
  "pos l' = pos l + n \<Longrightarrow> input l' = input l \<Longrightarrow> rest l' = drop n (rest l)"
  by (simp add: rest_def add.commute)

lemma nextRun_spec:
  assumes "ascii_set v" "lexer_ok l"
  shows "\<exists>l'. nextRun v l = (takeWhile (\<lambda>c. c \<in> set v) (rest l), l') \<and> lexer_ok l' \<and>
    input l' = input l \<and> rest l' = dropWhile (\<lambda>c. c \<in> set v) (rest l)"
proof -
  let ?P = "\<lambda>c. c \<in> set v" and ?l = "backup (nextRun_loop v l)"
  have i: "input ?l = input l" and p: "pos ?l = pos l + length (takeWhile ?P (rest l))"
    using nextRun_loop_spec [OF assms] by auto
  have "length (takeWhile ?P (rest l)) \<le> length (rest l)" by (rule length_takeWhile_le)
  then have "lexer_ok ?l" using assms i p by (simp add: lexer_ok_def rest_def)
  moreover have "rest ?l = dropWhile ?P (rest l)"
    using rest_update [OF p i] by (simp add: dropWhile_eq_drop)
  moreover have "take (pos ?l - pos l) (drop (pos l) (input l)) = takeWhile ?P (rest l)"
    using p by (simp add: rest_def [symmetric] takeWhile_eq_take [symmetric])
  ultimately show ?thesis using i by (auto simp: nextRun_def)
qed

lemma ascii_sets [simp]: "ascii_set numbers" "ascii_set symbols"
  by (simp_all add: ascii_set_def numbers_def symbols_def)

text \<open>The token at the front of a string that starts with no space, and what is left.\<close>

definition lex_token :: "string \<Rightarrow> token \<times> string" where
  "lex_token s =
     (case s of [] \<Rightarrow> (mk_token tokenEOF, [])
      | c # s' \<Rightarrow>
        if c = CHR ''n'' then (mk_token tokenVar, s')
        else if c \<in> set ''*/%+-?:()'' then (mk_token (the (stringToToken [c])), s')
        else if c \<in> set numbers then
          (\<lparr>tok_typ = tokenInt, tok_val = takeWhile (\<lambda>c. c \<in> set numbers) s\<rparr>,
           dropWhile (\<lambda>c. c \<in> set numbers) s)
        else
          let run = takeWhile (\<lambda>c. c \<in> set symbols) s in
          (case (if run = [] then None else stringToToken run) of
             Some t \<Rightarrow> mk_token t
           | None \<Rightarrow> \<lparr>tok_typ = tokenError,
                      tok_val = ''Invalid character '' @ encode_rune (fst (decode_rune s))\<rparr>,
           dropWhile (\<lambda>c. c \<in> set symbols) s))"

definition lex_spec :: "string \<Rightarrow> token \<times> string" where
  "lex_spec s = lex_token (dropWhile (\<lambda>c. c = CHR '' '') s)"

lemma backup_nextRune:
  assumes "lexer_ok l" "rest l \<noteq> []"
  shows "input (backup (snd (nextRune l))) = input l" "pos (backup (snd (nextRune l))) = pos l"
  using assms by (simp_all add: nextRune_Cons backup_def)

lemma decode_mem:
  assumes "ascii_set v"
  shows "fst (decode_rune (a # s)) \<in> byte_val ` set v \<longleftrightarrow> a \<in> set v"
  using contains_rune_decode [OF assms, of a s] unfolding contains_rune_ascii [OF assms]
  by (metis image_iff)

lemma next_token_spec:
  assumes ok: "lexer_ok l"
  shows "\<exists>l'. next_token (fst (nextRune l)) (snd (nextRune l)) = (fst (lex_token (rest l)), l') \<and>
    lexer_ok l' \<and> input l' = input l \<and> rest l' = snd (lex_token (rest l))"
proof (cases "rest l")
  case Nil
  then show ?thesis using ok
    by (simp add: nextRune_Nil next_token_def lex_token_def lexer_ok_def rest_def)
next
  case (Cons a s)
  let ?l = "snd (nextRune l)"
  define r where "r = fst (nextRune l)"
  have r: "r = fst (decode_rune (a # s))" using Cons by (simp add: r_def nextRune_Cons)
  have neof: "r \<noteq> eof" using decode_rune_ge0 [of "a # s"] unfolding r eof_def by linarith
  have n: "r = byte_val CHR ''n'' \<longleftrightarrow> a = CHR ''n''"
    using decode_mem [of "''n''" a s] unfolding r by (simp add: ascii_set_def)
  have one: "r \<in> set (map byte_val ''*/%+-?:()'') \<longleftrightarrow> a \<in> set ''*/%+-?:()''"
    using decode_mem [of "''*/%+-?:()''" a s] unfolding r set_map by (simp add: ascii_set_def)
  have adv: "rest ?l = s \<and> lexer_ok ?l \<and> input ?l = input l \<and> r = byte_val a" if "byte_val a < 0x80"
    using that Cons drop_eq_ConsD [OF Cons [unfolded rest_def]]
    by (simp add: nextRune_Cons rest_def lexer_ok_def r)
  show ?thesis
  proof (cases "a = CHR ''n'' \<or> a \<in> set ''*/%+-?:()''")
    case True
    then have "byte_val a < 0x80" by auto
    note A = adv [OF this]
    have "next_token r ?l = (fst (lex_token (a # s)), ?l)"
    proof (cases "a = CHR ''n''")
      case True
      with n neof show ?thesis unfolding next_token_def lex_token_def by (simp only: list.case if_True if_False simp_thms fst_conv)
    next
      case False
      with True one have "r \<in> set (map byte_val ''*/%+-?:()'')" "a \<in> set ''*/%+-?:()''" by blast+
      with False n neof A show ?thesis unfolding next_token_def lex_token_def
        by (simp only: list.case if_True if_False simp_thms fst_conv char_of_nat_byte_val)
    qed
    moreover have "snd (lex_token (a # s)) = s"
      using True unfolding lex_token_def by (cases "a = CHR ''n''") (simp_all only: list.case if_True if_False simp_thms snd_conv)
    ultimately show ?thesis using A unfolding r_def [symmetric] Cons by simp
  next
    case False
    let ?lb = "backup ?l"
    have l0: "lexer_ok ?lb" "rest ?lb = a # s" "input ?lb = input l"
    proof -
      have "rest l \<noteq> []" using Cons by simp
      note b = backup_nextRune [OF ok this]
      show "lexer_ok ?lb" "rest ?lb = a # s" "input ?lb = input l"
        using b Cons ok by (simp_all add: rest_def lexer_ok_def)
    qed
    obtain l1 where l1: "nextRun numbers ?lb = (takeWhile (\<lambda>c. c \<in> set numbers) (a # s), l1)"
      "lexer_ok l1" "input l1 = input l" "rest l1 = dropWhile (\<lambda>c. c \<in> set numbers) (a # s)"
      using nextRun_spec [OF _ l0(1), of numbers] l0 by auto
    obtain l2 where l2: "nextRun symbols l1 = (takeWhile (\<lambda>c. c \<in> set symbols) (rest l1), l2)"
      "lexer_ok l2" "input l2 = input l" "rest l2 = dropWhile (\<lambda>c. c \<in> set symbols) (rest l1)"
      using nextRun_spec [OF _ l1(2), of symbols] l1 by auto
    let ?num = "takeWhile (\<lambda>c. c \<in> set numbers) (a # s)"
      and ?sym = "takeWhile (\<lambda>c. c \<in> set symbols) (rest l1)"
      and ?err = "\<lparr>tok_typ = tokenError, tok_val = ''Invalid character '' @ encode_rune r\<rparr>"
    have nn: "\<not> r = byte_val CHR ''n''" "\<not> r \<in> set (map byte_val ''*/%+-?:()'')"
      using False n one by blast+
    have "next_token r ?l =
       (if ?num \<noteq> [] then (\<lparr>tok_typ = tokenInt, tok_val = ?num\<rparr>, l1)
        else if ?sym \<noteq> [] then
          (case stringToToken ?sym of Some t \<Rightarrow> (mk_token t, l2) | None \<Rightarrow> (?err, l2))
        else (?err, l2))"
      using neof nn unfolding next_token_def by (simp only: Let_def prod.case if_False l1(1) l2(1))
    also have "\<dots> = (fst (lex_token (a # s)), if a \<in> set numbers then l1 else l2)"
      using False l1(4) unfolding lex_token_def r [symmetric]
      by (cases "a \<in> set numbers") (auto simp: Let_def split: option.split)
    finally show ?thesis using False l1 l2 unfolding r_def [symmetric] Cons
      by (auto simp: lex_token_def Let_def)
  qed
qed

lemma lexer_next_spec:
  assumes "lexer_ok l"
  shows "\<exists>l'. lexer_next l = (fst (lex_spec (rest l)), l') \<and> lexer_ok l' \<and> input l' = input l \<and>
    rest l' = snd (lex_spec (rest l))"
  using assms
proof (induction l rule: lexer_next.induct)
  case (1 l)
  show ?case
  proof (cases "\<exists>s. rest l = CHR '' '' # s")
    case True
    then obtain s where s: "rest l = CHR '' '' # s" by blast
    let ?l = "snd (nextRune l)"
    have "fst (nextRune l) = byte_val CHR '' ''" using s by (simp add: nextRune_Cons)
    moreover have "rest ?l = s" "lexer_ok ?l" "input ?l = input l"
      using s drop_eq_ConsD [OF s [unfolded rest_def]]
      by (simp_all add: nextRune_Cons rest_def lexer_ok_def)
    ultimately show ?thesis using 1(1) s by (simp add: lexer_next.simps [of l] lex_spec_def)
  next
    case False
    have "fst (nextRune l) \<noteq> byte_val CHR '' ''"
    proof (cases "rest l")
      case (Cons a s)
      then show ?thesis using False decode_mem [of "'' ''" a s]
        by (simp add: nextRune_Cons ascii_set_def)
    qed (simp add: nextRune_Nil eof_def)
    moreover have "dropWhile (\<lambda>c. c = CHR '' '') (rest l) = rest l"
      using False by (cases "rest l") auto
    ultimately show ?thesis using next_token_spec [OF 1(2)]
      by (simp add: lexer_next.simps [of l] lex_spec_def)
  qed
qed

section \<open>The token stream as a stack in front of the lexer\<close>

definition contents :: "tokenStream \<Rightarrow> token list \<times> string" where
  "contents s = (rev (take (ts_count s) (ts_tokens s)), rest (ts_lexer s))"

definition stream_ok :: "tokenStream \<Rightarrow> bool" where
  "stream_ok s \<longleftrightarrow> ts_count s \<le> length (ts_tokens s) \<and> ts_tokens s \<noteq> [] \<and> lexer_ok (ts_lexer s)"

fun spec_pop :: "token list \<times> string \<Rightarrow> token \<times> (token list \<times> string)" where
  "spec_pop ([], r) = (fst (lex_spec r), ([], snd (lex_spec r)))"
| "spec_pop (t # ts, r) = (t, (ts, r))"

lemma stream_ok_new [simp]: "stream_ok (newTokenStream e)"
  by (simp add: stream_ok_def newTokenStream_def newLexer_def lexer_ok_def)

lemma contents_new [simp]: "contents (newTokenStream e) = ([], e)"
  by (simp add: contents_def newTokenStream_def newLexer_def rest_def)

lemma pop_spec:
  assumes "stream_ok s" "pop s = (t, s')"
  shows "stream_ok s'" and "spec_pop (contents s) = (t, contents s')"
proof -
  have "stream_ok s' \<and> spec_pop (contents s) = (t, contents s')"
  proof (cases "ts_count s")
    case 0
    obtain l' where "lexer_next (ts_lexer s) = (fst (lex_spec (rest (ts_lexer s))), l')" "lexer_ok l'"
      "rest l' = snd (lex_spec (rest (ts_lexer s)))"
      using lexer_next_spec [of "ts_lexer s"] assms(1) by (auto simp: stream_ok_def)
    then show ?thesis using assms 0 by (auto simp: pop_def stream_ok_def contents_def)
  next
    case (Suc n)
    then show ?thesis using assms
      by (auto simp: pop_def stream_ok_def contents_def take_Suc_conv_app_nth)
  qed
  then show "stream_ok s'" and "spec_pop (contents s) = (t, contents s')" by simp_all
qed

lemma push_spec:
  assumes "stream_ok s"
  shows "stream_ok (push t s)" and "contents (push t s) = (t # fst (contents s), snd (contents s))"
proof -
  have upd: "take (Suc n) ((xs @ ys)[n := t]) = take n xs @ [t]"
    if "n \<le> length xs" "n < length (xs @ ys)" for n xs ys
    using that by (simp add: take_Suc_conv_app_nth)
  show "stream_ok (push t s)" and "contents (push t s) = (t # fst (contents s), snd (contents s))"
    using assms upd [of "ts_count s" "ts_tokens s"] upd [of "ts_count s" "ts_tokens s" "[]"]
    by (auto simp: push_def stream_ok_def contents_def Let_def Suc_le_eq)
qed

section \<open>The interface the parser relies on\<close>

text \<open>
  Two measures of what a stream holds. Every token but the end of the input and an error consumes
  at least one byte of the expression, so the weight bounds the number of such tokens still to
  come. A stream is positioned at a string if the tokens it will deliver are the ones of that
  string, whether or not the first of them has been pushed back.
\<close>

definition productive :: "token \<Rightarrow> bool" where
  "productive t \<longleftrightarrow> tok_typ t \<notin> {tokenEOF, tokenError}"

definition weight :: "token list \<times> string \<Rightarrow> nat" where
  "weight v = length (filter productive (fst v)) + length (snd v)"

definition positioned :: "token list \<times> string \<Rightarrow> string \<Rightarrow> bool" where
  "positioned v r \<longleftrightarrow> v = ([], r) \<or> (\<exists>t r'. v = ([t], r') \<and> lex_spec r = (t, r'))"

lemma stringToToken_productive:
  "stringToToken s = Some t \<Longrightarrow> t \<noteq> tokenEOF \<and> t \<noteq> tokenError"
  unfolding stringToToken_def by (drule map_of_SomeD) auto

lemma lex_token_length: "length (snd (lex_token s)) + (if productive (fst (lex_token s)) then 1 else 0) \<le> length s"
proof (cases s)
  case Nil
  then show ?thesis by (simp add: lex_token_def productive_def)
next
  case (Cons c s')
  have "length (dropWhile P s') \<le> length s'" for P :: "char \<Rightarrow> bool"
    by (rule length_dropWhile_le)
  then show ?thesis
    by (auto simp: Cons lex_token_def productive_def Let_def le_SucI split: option.split)
qed

lemma lex_length: "length (snd (lex_spec s)) + (if productive (fst (lex_spec s)) then 1 else 0) \<le> length s"
  unfolding lex_spec_def using lex_token_length length_dropWhile_le by (rule order_trans)

lemma spec_pop_weight:
  "spec_pop v = (t, v') \<Longrightarrow> weight v' + (if productive t then 1 else 0) \<le> weight v"
  using lex_length [of "snd v"] by (cases v rule: spec_pop.cases) (auto simp: weight_def split: if_splits)

locale pushback =
  fixes nxt :: "'s \<Rightarrow> token \<times> 's" and unread :: "token \<Rightarrow> 's \<Rightarrow> 's"
    and ok :: "'s \<Rightarrow> bool" and view :: "'s \<Rightarrow> token list \<times> string"
  assumes nxt_ok: "ok s \<Longrightarrow> nxt s = (t, s') \<Longrightarrow> ok s'"
    and nxt_view: "ok s \<Longrightarrow> nxt s = (t, s') \<Longrightarrow> spec_pop (view s) = (t, view s')"
    and unread_ok: "ok s \<Longrightarrow> ok (unread t s)"
    and unread_view: "ok s \<Longrightarrow> view (unread t s) = (t # fst (view s), snd (view s))"
begin

lemma nxt_weight:
  "ok s \<Longrightarrow> nxt s = (t, s') \<Longrightarrow>
     weight (view s') + (if productive t then 1 else 0) \<le> weight (view s)"
  by (rule spec_pop_weight) (rule nxt_view)

lemma unread_weight:
  "ok s \<Longrightarrow> weight (view (unread t s)) = weight (view s) + (if productive t then 1 else 0)"
  by (simp add: unread_view weight_def)

lemma nxt_unread:
  assumes "ok s"
  shows "\<exists>s'. nxt (unread t s) = (t, s') \<and> ok s' \<and> view s' = view s"
proof -
  obtain t' s' where n: "nxt (unread t s) = (t', s')" by fastforce
  note ok = unread_ok [OF assms]
  from nxt_view [OF ok n] have "t' = t" "view s' = view s"
    by (auto simp: unread_view [OF assms])
  with n nxt_ok [OF ok n] show ?thesis by auto
qed

lemma nxt_positioned:
  assumes "ok s" "positioned (view s) r" "lex_spec r = (t, r')"
  shows "\<exists>s'. nxt s = (t, s') \<and> ok s' \<and> view s' = ([], r')"
proof -
  obtain t2 s2 where n: "nxt s = (t2, s2)" by fastforce
  from nxt_view [OF assms(1) n] have "t2 = t" "view s2 = ([], r')"
    using assms(2,3) by (auto simp: positioned_def)
  with n nxt_ok [OF assms(1) n] show ?thesis by auto
qed

lemma unread_positioned:
  "ok s \<Longrightarrow> view s = ([], r') \<Longrightarrow> lex_spec r = (t, r') \<Longrightarrow>
     ok (unread t s) \<and> positioned (view (unread t s)) r"
  by (simp add: unread_ok unread_view positioned_def)

end

interpretation ts: pushback pop push stream_ok contents
  by unfold_locales (simp_all add: pop_spec push_spec)

end
