(* ===== verification/Pluralforms_Parser.thy ===== *)
theory Pluralforms_Parser
  imports Pluralforms_Lexer
begin

text \<open>
  The parser and the evaluator of Plural-Forms expressions (\<open>gettext/pluralforms/parser.go\<close>):
  precedence climbing over the token stream, the parse tree with its \<open>Eval\<close> and \<open>String\<close>
  methods. The parser reports errors by panicking, and \<open>parse\<close> recovers them; a panic is a
  value of \<open>parse_error\<close>. The recursion of the parser is not structural, so its functions take
  fuel, and running out of it is the separate error \<open>OutOfFuel\<close>.
\<close>

section \<open>The parse tree\<close>

datatype node =
    errorNode string
  | boolNode bool
  | intNode int
  | varNode int
  | notNode node
  | mulNode node node
  | divNode node node
  | modNode node node
  | addNode node node
  | subNode node node
  | eqNode node node
  | notEqNode node node
  | gtNode node node
  | gteNode node node
  | ltNode node node
  | lteNode node node
  | orNode node node
  | andNode node node
  | ifNode node node node

definition invalidExpression :: node where
  "invalidExpression = errorNode ''Invalid expression''"

text \<open>The shape shared by the methods \<open>Eval\<close> of the binary nodes: the first operand is evaluated
  and its type tested before the second one is evaluated.\<close>

definition on_ints :: "(int \<Rightarrow> int \<Rightarrow> node go) \<Rightarrow> node go \<Rightarrow> node go \<Rightarrow> node go" where
  "on_ints f r1 r2 = bindE r1 (\<lambda>v1. case v1 of
       intNode x \<Rightarrow> bindE r2 (\<lambda>v2. case v2 of
           intNode y \<Rightarrow> f x y
         | _ \<Rightarrow> Inr invalidExpression)
     | _ \<Rightarrow> Inr invalidExpression)"

definition on_bools :: "(bool \<Rightarrow> bool \<Rightarrow> node go) \<Rightarrow> node go \<Rightarrow> node go \<Rightarrow> node go" where
  "on_bools f r1 r2 = bindE r1 (\<lambda>v1. case v1 of
       boolNode x \<Rightarrow> bindE r2 (\<lambda>v2. case v2 of
           boolNode y \<Rightarrow> f x y
         | _ \<Rightarrow> Inr invalidExpression)
     | _ \<Rightarrow> Inr invalidExpression)"

definition on_same :: "(bool \<Rightarrow> bool \<Rightarrow> node go) \<Rightarrow> (int \<Rightarrow> int \<Rightarrow> node go) \<Rightarrow>
    node go \<Rightarrow> node go \<Rightarrow> node go" where
  "on_same f g r1 r2 = bindE r1 (\<lambda>v1. case v1 of
       boolNode x \<Rightarrow> bindE r2 (\<lambda>v2. case v2 of
           boolNode y \<Rightarrow> f x y
         | _ \<Rightarrow> Inr invalidExpression)
     | intNode x \<Rightarrow> bindE r2 (\<lambda>v2. case v2 of
           intNode y \<Rightarrow> g x y
         | _ \<Rightarrow> Inr invalidExpression)
     | _ \<Rightarrow> Inr invalidExpression)"

fun Eval :: "node \<Rightarrow> int \<Rightarrow> node go" where
  "Eval (errorNode s) ctx = Inr (errorNode s)"
| "Eval (boolNode b) ctx = Inr (boolNode b)"
| "Eval (intNode i) ctx = Inr (intNode i)"
| "Eval (varNode i) ctx = Inr (intNode ctx)"
| "Eval (notNode n1) ctx = bindE (Eval n1 ctx) (\<lambda>v. case v of
     boolNode x \<Rightarrow> Inr (boolNode (\<not> x)) | _ \<Rightarrow> Inr invalidExpression)"
| "Eval (mulNode n1 n2) ctx =
     on_ints (\<lambda>x y. Inr (intNode (wrap64 (x * y)))) (Eval n1 ctx) (Eval n2 ctx)"
| "Eval (divNode n1 n2) ctx =
     on_ints (\<lambda>x y. if y = 0 then Inl DivideByZero else Inr (intNode (wrap64 (go_quot x y))))
       (Eval n1 ctx) (Eval n2 ctx)"
| "Eval (modNode n1 n2) ctx =
     on_ints (\<lambda>x y. if y = 0 then Inl DivideByZero else Inr (intNode (go_rem x y)))
       (Eval n1 ctx) (Eval n2 ctx)"
| "Eval (addNode n1 n2) ctx =
     on_ints (\<lambda>x y. Inr (intNode (wrap64 (x + y)))) (Eval n1 ctx) (Eval n2 ctx)"
| "Eval (subNode n1 n2) ctx =
     on_ints (\<lambda>x y. Inr (intNode (wrap64 (x - y)))) (Eval n1 ctx) (Eval n2 ctx)"
| "Eval (eqNode n1 n2) ctx =
     on_same (\<lambda>x y. Inr (boolNode (x = y))) (\<lambda>x y. Inr (boolNode (x = y)))
       (Eval n1 ctx) (Eval n2 ctx)"
| "Eval (notEqNode n1 n2) ctx =
     on_same (\<lambda>x y. Inr (boolNode (x \<noteq> y))) (\<lambda>x y. Inr (boolNode (x \<noteq> y)))
       (Eval n1 ctx) (Eval n2 ctx)"
| "Eval (gtNode n1 n2) ctx =
     on_ints (\<lambda>x y. Inr (boolNode (x > y))) (Eval n1 ctx) (Eval n2 ctx)"
| "Eval (gteNode n1 n2) ctx =
     on_ints (\<lambda>x y. Inr (boolNode (x \<ge> y))) (Eval n1 ctx) (Eval n2 ctx)"
| "Eval (ltNode n1 n2) ctx =
     on_ints (\<lambda>x y. Inr (boolNode (x < y))) (Eval n1 ctx) (Eval n2 ctx)"
| "Eval (lteNode n1 n2) ctx =
     on_ints (\<lambda>x y. Inr (boolNode (x \<le> y))) (Eval n1 ctx) (Eval n2 ctx)"
| "Eval (orNode n1 n2) ctx =
     on_bools (\<lambda>x y. Inr (boolNode (x \<or> y))) (Eval n1 ctx) (Eval n2 ctx)"
| "Eval (andNode n1 n2) ctx =
     on_bools (\<lambda>x y. Inr (boolNode (x \<and> y))) (Eval n1 ctx) (Eval n2 ctx)"
| "Eval (ifNode c n1 n2) ctx = bindE (Eval c ctx) (\<lambda>v. case v of
     boolNode x \<Rightarrow> (if x then Eval n1 ctx else Eval n2 ctx) | _ \<Rightarrow> Inr invalidExpression)"

definition paren2 :: "string \<Rightarrow> string \<Rightarrow> string \<Rightarrow> string" where
  "paren2 a opr b = ''('' @ a @ opr @ b @ '')''"

fun node_String :: "node \<Rightarrow> string" where
  "node_String (errorNode s) = s"
| "node_String (boolNode b) = (if b then ''true'' else ''false'')"
| "node_String (intNode i) = show_int i"
| "node_String (varNode i) = ''n''"
| "node_String (notNode n1) = ''(!'' @ node_String n1 @ '')''"
| "node_String (mulNode n1 n2) = paren2 (node_String n1) ''*'' (node_String n2)"
| "node_String (divNode n1 n2) = paren2 (node_String n1) ''/'' (node_String n2)"
| "node_String (modNode n1 n2) = paren2 (node_String n1) ''%'' (node_String n2)"
| "node_String (addNode n1 n2) = paren2 (node_String n1) ''+'' (node_String n2)"
| "node_String (subNode n1 n2) = paren2 (node_String n1) ''-'' (node_String n2)"
| "node_String (eqNode n1 n2) = paren2 (node_String n1) ''=='' (node_String n2)"
| "node_String (notEqNode n1 n2) = paren2 (node_String n1) ''!='' (node_String n2)"
| "node_String (gtNode n1 n2) = paren2 (node_String n1) ''>'' (node_String n2)"
| "node_String (gteNode n1 n2) = paren2 (node_String n1) ''>='' (node_String n2)"
| "node_String (ltNode n1 n2) = paren2 (node_String n1) ''<'' (node_String n2)"
| "node_String (lteNode n1 n2) = paren2 (node_String n1) ''<='' (node_String n2)"
| "node_String (orNode n1 n2) = paren2 (node_String n1) ''||'' (node_String n2)"
| "node_String (andNode n1 n2) = paren2 (node_String n1) ''&&'' (node_String n2)"
| "node_String (ifNode c n1 n2) =
     ''('' @ node_String c @ ''?'' @ node_String n1 @ '':'' @ node_String n2 @ '')''"

section \<open>The parser\<close>

text \<open>\<open>precedence[t]\<close> is 0 for a token type the map has no entry for.\<close>

definition precedence :: "tokenType \<Rightarrow> nat" where
  "precedence t = (case map_of
    [(tokenNot, 6), (tokenMul, 5), (tokenDiv, 5), (tokenMod, 5), (tokenAdd, 4), (tokenSub, 4),
     (tokenEq, 3), (tokenNotEq, 3), (tokenGt, 3), (tokenGte, 3), (tokenLt, 3), (tokenLte, 3),
     (tokenOr, 2), (tokenAnd, 1)] t of Some p \<Rightarrow> p | None \<Rightarrow> 0)"

definition rightAssociativity :: "tokenType \<Rightarrow> bool" where
  "rightAssociativity t = False"

definition isBinaryOp :: "token \<Rightarrow> bool" where
  "isBinaryOp t \<longleftrightarrow> tok_typ t \<in>
     {tokenMul, tokenDiv, tokenMod, tokenAdd, tokenSub, tokenEq, tokenNotEq,
      tokenGt, tokenGte, tokenLt, tokenLte, tokenOr, tokenAnd}"

definition isUnaryOp :: "token \<Rightarrow> bool" where
  "isUnaryOp t \<longleftrightarrow> tok_typ t \<in> {tokenNot}"

definition isValue :: "token \<Rightarrow> bool" where
  "isValue t \<longleftrightarrow> tok_typ t \<in> {tokenBool, tokenInt, tokenVar}"

datatype parse_error =
    OutOfFuel
  | ExpectedToken tokenType tokenType
  | UnexpectedToken token
  | Unreachable

type_synonym 'a parse = "parse_error + 'a"

fun newBinaryOpNode :: "token \<Rightarrow> node \<Rightarrow> node \<Rightarrow> node parse" where
  "newBinaryOpNode t n1 n2 = (case tok_typ t of
      tokenMul \<Rightarrow> Inr (mulNode n1 n2)
    | tokenDiv \<Rightarrow> Inr (divNode n1 n2)
    | tokenMod \<Rightarrow> Inr (modNode n1 n2)
    | tokenAdd \<Rightarrow> Inr (addNode n1 n2)
    | tokenSub \<Rightarrow> Inr (subNode n1 n2)
    | tokenEq \<Rightarrow> Inr (eqNode n1 n2)
    | tokenNotEq \<Rightarrow> Inr (notEqNode n1 n2)
    | tokenGt \<Rightarrow> Inr (gtNode n1 n2)
    | tokenGte \<Rightarrow> Inr (gteNode n1 n2)
    | tokenLt \<Rightarrow> Inr (ltNode n1 n2)
    | tokenLte \<Rightarrow> Inr (lteNode n1 n2)
    | tokenOr \<Rightarrow> Inr (orNode n1 n2)
    | tokenAnd \<Rightarrow> Inr (andNode n1 n2)
    | _ \<Rightarrow> Inl Unreachable)"

definition newUnaryOpNode :: "token \<Rightarrow> node \<Rightarrow> node parse" where
  "newUnaryOpNode t n1 = (case tok_typ t of
      tokenNot \<Rightarrow> Inr (notNode n1)
    | _ \<Rightarrow> Inl Unreachable)"

definition newValueNode :: "token \<Rightarrow> node parse" where
  "newValueNode t = (case tok_typ t of
      tokenBool \<Rightarrow> Inr (boolNode False)
    | tokenInt \<Rightarrow> (case parse_int10 (tok_val t) of
          (v, None) \<Rightarrow> Inr (intNode v)
        | (_, Some _) \<Rightarrow> Inr invalidExpression)
    | tokenVar \<Rightarrow> Inr (varNode 0)
    | _ \<Rightarrow> Inl Unreachable)"

definition expect :: "tokenType \<Rightarrow> tokenStream \<Rightarrow> tokenStream parse" where
  "expect t s =
     (let (nxt, s1) = pop s in
      if tok_typ nxt \<noteq> t then Inl (ExpectedToken t (tok_typ nxt)) else Inr s1)"

text \<open>\<open>parseExpression_loop\<close> is the \<open>for\<close> loop of \<open>parseExpression\<close>, which returns the tree, the
  token that ended it and the stream; \<open>parseTernary_loop\<close> is the one of \<open>parseTernary\<close>.\<close>

fun parseExpression :: "nat \<Rightarrow> nat \<Rightarrow> tokenStream \<Rightarrow> (node \<times> tokenStream) parse"
and parseExpression_loop ::
      "nat \<Rightarrow> nat \<Rightarrow> node \<Rightarrow> tokenStream \<Rightarrow> (node \<times> token \<times> tokenStream) parse"
and parsePrimary :: "nat \<Rightarrow> tokenStream \<Rightarrow> (node \<times> tokenStream) parse"
and parseTernary :: "nat \<Rightarrow> node \<Rightarrow> tokenStream \<Rightarrow> (node \<times> tokenStream) parse"
and parseTernary_loop ::
      "nat \<Rightarrow> node \<Rightarrow> tokenStream \<Rightarrow> (node \<times> token \<times> tokenStream) parse" where
  "parseExpression 0 prec s = Inl OutOfFuel"
| "parseExpression (Suc f) prec s =
     bindE (parsePrimary f s) (\<lambda>(n, s1).
     bindE (parseExpression_loop f prec n s1) (\<lambda>(n, t, s2).
     let s3 = push t s2 in
     if prec = 0 \<and> tok_typ t = tokenIf then parseTernary f n s3 else Inr (n, s3)))"
| "parseExpression_loop 0 prec n s = Inl OutOfFuel"
| "parseExpression_loop (Suc f) prec n s =
     (let (t, s1) = pop s; q = precedence (tok_typ t) in
      if \<not> isBinaryOp t \<or> q < prec then Inr (n, t, s1)
      else
        let q' = (if \<not> rightAssociativity (tok_typ t) then q + 1 else q) in
        bindE (parseExpression f q' s1) (\<lambda>(n2, s2).
        bindE (newBinaryOpNode t n n2) (\<lambda>n'.
        parseExpression_loop f prec n' s2)))"
| "parsePrimary 0 s = Inl OutOfFuel"
| "parsePrimary (Suc f) s =
     (let (t, s1) = pop s in
      if isUnaryOp t then
        bindE (parseExpression f (precedence (tok_typ t)) s1) (\<lambda>(n, s2).
        bindE (newUnaryOpNode t n) (\<lambda>n'. Inr (n', s2)))
      else if tok_typ t = tokenLeftParen then
        bindE (parseExpression f 0 s1) (\<lambda>(n, s2).
        bindE (expect tokenRightParen s2) (\<lambda>s3. Inr (n, s3)))
      else if isValue t then
        bindE (newValueNode t) (\<lambda>n. Inr (n, s1))
      else Inl (UnexpectedToken t))"
| "parseTernary 0 n s = Inl OutOfFuel"
| "parseTernary (Suc f) n s =
     bindE (parseTernary_loop f n s) (\<lambda>(n', t, s1). Inr (n', push t s1))"
| "parseTernary_loop 0 n s = Inl OutOfFuel"
| "parseTernary_loop (Suc f) n s =
     (let (t, s1) = pop s in
      if tok_typ t \<noteq> tokenIf then Inr (n, t, s1)
      else
        bindE (parseExpression f 0 s1) (\<lambda>(n1, s2).
        bindE (expect tokenElse s2) (\<lambda>s3.
        bindE (parseExpression f 0 s3) (\<lambda>(n2, s4).
        parseTernary_loop f (ifNode n n1 n2) s4))))"

text \<open>The fuel \<open>parse\<close> gives: four times the length of the expression and a constant, since each token is
  read at most once at each of the levels of the grammar.\<close>

definition parse_fuel :: "string \<Rightarrow> nat" where
  "parse_fuel expr = 4 * length expr + 5"

definition parser_parse :: "nat \<Rightarrow> tokenStream \<Rightarrow> node parse" where
  "parser_parse fuel s =
     bindE (parseExpression fuel 0 s) (\<lambda>(n, s1).
     bindE (expect tokenEOF s1) (\<lambda>_. Inr n))"

definition parse :: "string \<Rightarrow> node parse" where
  "parse expr = parser_parse (parse_fuel expr) (newTokenStream expr)"

end
