(* ===== verification/Pluralforms.thy ===== *)
theory Pluralforms
  imports Pluralforms_Parser
begin

text \<open>
  Plural selectors (\<open>gettext/pluralforms/pluralforms.go\<close>): \<open>Parse\<close> takes a Plural-Forms
  expression to a function from an amount to a plural index, either one of eleven precomputed
  functions or one that evaluates the parse tree.
\<close>

section \<open>The precomputed functions\<close>

definition pluralFunc1 :: "int \<Rightarrow> int" where
  "pluralFunc1 n = 0"

definition pluralFunc2 :: "int \<Rightarrow> int" where
  "pluralFunc2 n = (if n = 1 then 0 else 1)"

definition pluralFunc3 :: "int \<Rightarrow> int" where
  "pluralFunc3 n = (if n > 1 then 1 else 0)"

definition pluralFunc4 :: "int \<Rightarrow> int" where
  "pluralFunc4 n =
     (if go_rem n 10 = 1 \<and> go_rem n 100 \<noteq> 11 then 0 else if n \<noteq> 0 then 1 else 2)"

definition pluralFunc5 :: "int \<Rightarrow> int" where
  "pluralFunc5 n = (if n = 1 then 0 else if n = 2 then 1 else 2)"

definition pluralFunc6 :: "int \<Rightarrow> int" where
  "pluralFunc6 n =
     (if n = 1 then 0
      else if n = 0 \<or> (go_rem n 100 > 0 \<and> go_rem n 100 < 20) then 1 else 2)"

definition pluralFunc7 :: "int \<Rightarrow> int" where
  "pluralFunc7 n =
     (if go_rem n 10 = 1 \<and> go_rem n 100 \<noteq> 11 then 0
      else if go_rem n 10 \<ge> 2 \<and> (go_rem n 100 < 10 \<or> go_rem n 100 \<ge> 20) then 1 else 2)"

definition pluralFunc8 :: "int \<Rightarrow> int" where
  "pluralFunc8 n =
     (if go_rem n 10 = 1 \<and> go_rem n 100 \<noteq> 11 then 0
      else if go_rem n 10 \<ge> 2 \<and> go_rem n 10 \<le> 4 \<and> (go_rem n 100 < 10 \<or> go_rem n 100 \<ge> 20)
      then 1 else 2)"

definition pluralFunc9 :: "int \<Rightarrow> int" where
  "pluralFunc9 n = (if n = 1 then 0 else if n \<ge> 2 \<and> n \<le> 4 then 1 else 2)"

definition pluralFunc10 :: "int \<Rightarrow> int" where
  "pluralFunc10 n =
     (if n = 1 then 0
      else if go_rem n 10 \<ge> 2 \<and> go_rem n 10 \<le> 4 \<and> (go_rem n 100 < 10 \<or> go_rem n 100 \<ge> 20)
      then 1 else 2)"

definition pluralFunc11 :: "int \<Rightarrow> int" where
  "pluralFunc11 n =
     (if go_rem n 100 = 1 then 0
      else if go_rem n 100 = 2 then 1
      else if go_rem n 100 = 3 \<or> go_rem n 100 = 4 then 2 else 3)"

lemmas pluralFunc_defs = pluralFunc1_def pluralFunc2_def pluralFunc3_def pluralFunc4_def
  pluralFunc5_def pluralFunc6_def pluralFunc7_def pluralFunc8_def pluralFunc9_def
  pluralFunc10_def pluralFunc11_def

definition pluralFuncs :: "(string \<times> (int \<Rightarrow> int)) list" where
  "pluralFuncs =
    [(''0'', pluralFunc1),
     (''n!=1'', pluralFunc2),
     (''n>1'', pluralFunc3),
     (''n%10==1&&n%100!=11?0:n!=0?1:2'', pluralFunc4),
     (''n==1?0:n==2?1:2'', pluralFunc5),
     (''n==1?0:(n==0||(n%100>0&&n%100<20))?1:2'', pluralFunc6),
     (''n%10==1&&n%100!=11?0:n%10>=2&&(n%100<10||n%100>=20)?1:2'', pluralFunc7),
     (''n%10==1&&n%100!=11?0:n%10>=2&&n%10<=4&&(n%100<10||n%100>=20)?1:2'', pluralFunc8),
     (''(n==1)?0:(n>=2&&n<=4)?1:2'', pluralFunc9),
     (''n==1?0:n%10>=2&&n%10<=4&&(n%100<10||n%100>=20)?1:2'', pluralFunc10),
     (''n%100==1?0:n%100==2?1:n%100==3||n%100==4?2:3'', pluralFunc11)]"

section \<open>Parse\<close>

type_synonym pluralFunc = "int \<Rightarrow> int go"

definition DefaultPluralFunc :: pluralFunc where
  "DefaultPluralFunc n = Inr (pluralFunc2 n)"

text \<open>The closure \<open>createPluralFunc\<close> returns, over the tree it captured. The evaluation may panic,
  and nothing recovers it.\<close>

definition tree_func :: "node \<Rightarrow> pluralFunc" where
  "tree_func tree n = bindE (Eval tree n) (\<lambda>v. Inr (case v of
       intNode i \<Rightarrow> i
     | boolNode b \<Rightarrow> (if b then 1 else 0)
     | _ \<Rightarrow> -1))"

definition createPluralFunc :: "string \<Rightarrow> pluralFunc parse" where
  "createPluralFunc expr = bindE (parse expr) (\<lambda>tree. Inr (tree_func tree))"

definition Parse :: "string \<Rightarrow> pluralFunc parse" where
  "Parse expr =
     (let expr = filter (\<lambda>c. c \<noteq> CHR '' '') expr in
      case map_of pluralFuncs expr of
        Some f \<Rightarrow> Inr (\<lambda>n. Inr (f n))
      | None \<Rightarrow> createPluralFunc expr)"

end
