(* ===== verification/Pluralforms_Correct.thy ===== *)
theory Pluralforms_Correct
  imports Pluralforms_Parser
begin

text \<open>
  Facts about the parser of Plural-Forms expressions that need more than unfolding: the fuel the
  model gives it is enough for every expression, and parsing what a tree prints gives the tree.
  They rest on the interface of the token stream (\<open>ts\<close>), not on its slice.
\<close>

section \<open>Enough fuel\<close>

text \<open>A result that is an error the code raises on purpose (not the exhaustion of the fuel, not a
  panic marked unreachable), or whose stream is no heavier than \<open>w\<close>.\<close>

definition returns :: "('a \<Rightarrow> tokenStream) \<Rightarrow> nat \<Rightarrow> 'a parse \<Rightarrow> bool" where
  "returns st w r \<longleftrightarrow>
     (case r of Inl e \<Rightarrow> e \<noteq> OutOfFuel \<and> e \<noteq> Unreachable
      | Inr v \<Rightarrow> stream_ok (st v) \<and> weight (contents (st v)) \<le> w)"

abbreviation returns_node :: "nat \<Rightarrow> (node \<times> tokenStream) parse \<Rightarrow> bool" where
  "returns_node \<equiv> returns snd"

text \<open>The loops hand back a token they have read and not used.\<close>

abbreviation returns_loop :: "nat \<Rightarrow> (node \<times> token \<times> tokenStream) parse \<Rightarrow> bool" where
  "returns_loop \<equiv> returns (\<lambda>(n, t, s). push t s)"

lemma returns_Inl [simp]: "returns st w (Inl e) \<longleftrightarrow> e \<noteq> OutOfFuel \<and> e \<noteq> Unreachable"
  by (simp add: returns_def)

lemma returns_Inr [simp]:
  "returns st w (Inr v) \<longleftrightarrow> stream_ok (st v) \<and> weight (contents (st v)) \<le> w"
  by (simp add: returns_def)

lemma returns_bind:
  assumes "returns st w m"
    and "\<And>v. m = Inr v \<Longrightarrow> stream_ok (st v) \<Longrightarrow> weight (contents (st v)) \<le> w \<Longrightarrow> returns st' w' (g v)"
  shows "returns st' w' (bindE m g)"
  using assms by (cases m) (auto simp: returns_def)

lemma returns_mono: "returns st w r \<Longrightarrow> w \<le> w' \<Longrightarrow> returns st w' r"
  by (auto simp: returns_def split: sum.splits)

lemma expect_returns:
  assumes "stream_ok s" "weight (contents s) \<le> w"
  shows "returns id w (expect t s)"
proof -
  obtain t' s' where p: "pop s = (t', s')" by fastforce
  show ?thesis using ts.nxt_ok [OF assms(1) p] ts.nxt_weight [OF assms(1) p] assms(2)
    by (auto simp: expect_def p split: if_splits)
qed

lemma newBinaryOpNode_ok: "isBinaryOp t \<Longrightarrow> \<exists>n. newBinaryOpNode t n1 n2 = Inr n"
  by (auto simp: isBinaryOp_def)

lemma isBinaryOp_productive: "isBinaryOp t \<Longrightarrow> productive t"
  by (auto simp: isBinaryOp_def productive_def)

lemma isUnaryOp_productive: "isUnaryOp t \<Longrightarrow> productive t"
  by (auto simp: isUnaryOp_def productive_def)

declare newBinaryOpNode.simps [simp del]

text \<open>What each function of the parser guarantees with fuel \<open>f\<close>: a call on a stream of weight at
  most \<open>w\<close> needs three units of fuel for each unit of weight, and a constant.\<close>

definition enough_E :: "nat \<Rightarrow> bool" where
  "enough_E f \<longleftrightarrow> (\<forall>prec s w. stream_ok s \<longrightarrow> weight (contents s) \<le> w \<longrightarrow> 3 * w + 3 \<le> f \<longrightarrow>
     returns_node w (parseExpression f prec s))"

definition enough_L :: "nat \<Rightarrow> bool" where
  "enough_L f \<longleftrightarrow> (\<forall>prec n s w. stream_ok s \<longrightarrow> weight (contents s) \<le> w \<longrightarrow> 3 * w + 1 \<le> f \<longrightarrow>
     returns_loop w (parseExpression_loop f prec n s))"

definition enough_P :: "nat \<Rightarrow> bool" where
  "enough_P f \<longleftrightarrow> (\<forall>s w. stream_ok s \<longrightarrow> weight (contents s) \<le> w \<longrightarrow> 3 * w + 1 \<le> f \<longrightarrow>
     returns_node w (parsePrimary f s))"

definition enough_T :: "nat \<Rightarrow> bool" where
  "enough_T f \<longleftrightarrow> (\<forall>n s w. stream_ok s \<longrightarrow> weight (contents s) \<le> w \<longrightarrow> 3 * w + 2 \<le> f \<longrightarrow>
     returns_node w (parseTernary f n s))"

definition enough_M :: "nat \<Rightarrow> bool" where
  "enough_M f \<longleftrightarrow> (\<forall>n s w. stream_ok s \<longrightarrow> weight (contents s) \<le> w \<longrightarrow> 3 * w + 1 \<le> f \<longrightarrow>
     returns_loop w (parseTernary_loop f n s))"

lemma step_E:
  assumes P: "enough_P f" and L: "enough_L f" and T: "enough_T f"
  shows "enough_E (Suc f)"
  unfolding enough_E_def
proof (intro allI impI)
  fix prec s w
  assume s: "stream_ok s" "weight (contents s) \<le> w" "3 * w + 3 \<le> Suc f"
  have "returns_node w (parsePrimary f s)" using P s unfolding enough_P_def by simp
  moreover have "returns_node w
      (bindE (parseExpression_loop f prec n s1) (\<lambda>(n, t, s2).
        let s3 = push t s2 in
        if prec = 0 \<and> tok_typ t = tokenIf then parseTernary f n s3 else Inr (n, s3)))"
    if s1: "stream_ok s1" "weight (contents s1) \<le> w" for n s1
  proof (rule returns_bind [where st = "\<lambda>(n, t, s). push t s" and w = w])
    show "returns (\<lambda>(n, t, s). push t s) w (parseExpression_loop f prec n s1)"
      using L s1 s(3) unfolding enough_L_def by simp
  qed (use T s(3) in \<open>auto simp: Let_def enough_T_def\<close>)
  ultimately show "returns_node w (parseExpression (Suc f) prec s)"
    by (auto intro: returns_bind)
qed

lemma step_L:
  assumes E: "enough_E f" and L: "enough_L f"
  shows "enough_L (Suc f)"
  unfolding enough_L_def
proof (intro allI impI)
  fix prec n s w
  assume s: "stream_ok s" "weight (contents s) \<le> w" "3 * w + 1 \<le> Suc f"
  obtain t s1 where p: "pop s = (t, s1)" by fastforce
  note s1 = ts.nxt_ok [OF s(1) p] and w1 = ts.nxt_weight [OF s(1) p]
  show "returns_loop w (parseExpression_loop (Suc f) prec n s)"
  proof (cases "\<not> isBinaryOp t \<or> precedence (tok_typ t) < prec")
    case True
    have "stream_ok (push t s1)" "weight (contents (push t s1)) \<le> w"
      using s1 w1 s(2) by (simp_all add: ts.unread_ok ts.unread_weight)
    with True show ?thesis by (simp add: p)
  next
    case False
    then have w: "Suc (weight (contents s1)) \<le> w" using w1 s(2) isBinaryOp_productive [of t] by simp
    then obtain v where v: "w = Suc v" by (cases w) auto
    let ?r = "parseExpression f (precedence (tok_typ t) + 1) s1"
    have E1: "returns_node v ?r" using E s1 w s(3) v unfolding enough_E_def by simp
    have L1: "returns_loop v (parseExpression_loop f prec n' s2)"
      if "stream_ok s2" "weight (contents s2) \<le> v" for n' s2
      using L that s(3) v unfolding enough_L_def by simp
    show ?thesis
    proof (cases ?r)
      case (Inl e)
      then show ?thesis using E1 False by (simp add: p rightAssociativity_def)
    next
      case (Inr x)
      then obtain n2 s2 where x: "?r = Inr (n2, s2)" by (cases x) auto
      then have "stream_ok s2" "weight (contents s2) \<le> v" using E1 by simp_all
      moreover obtain n3 where "newBinaryOpNode t n n2 = Inr n3"
        using newBinaryOpNode_ok False by blast
      ultimately show ?thesis using x False L1 returns_mono [OF _ le_SucI [OF order_refl], of _ v]
        by (auto simp: p rightAssociativity_def v)
    qed
  qed
qed

lemma step_P:
  assumes E: "enough_E f"
  shows "enough_P (Suc f)"
  unfolding enough_P_def
proof (intro allI impI)
  fix s w
  assume s: "stream_ok s" "weight (contents s) \<le> w" "3 * w + 1 \<le> Suc f"
  obtain t s1 where p: "pop s = (t, s1)" by fastforce
  note s1 = ts.nxt_ok [OF s(1) p] and w1 = ts.nxt_weight [OF s(1) p]
  have E1: "returns_node w (parseExpression f q s1)" if "productive t" for q
  proof -
    have "3 * weight (contents s1) + 3 \<le> f" using w1 s(2,3) that by simp
    then have "returns_node (weight (contents s1)) (parseExpression f q s1)"
      using E s1 unfolding enough_E_def by simp
    then show ?thesis by (rule returns_mono) (use w1 s(2) in simp)
  qed
  consider "isUnaryOp t" | "\<not> isUnaryOp t" "tok_typ t = tokenLeftParen"
    | "\<not> isUnaryOp t" "tok_typ t \<noteq> tokenLeftParen" by blast
  then show "returns_node w (parsePrimary (Suc f) s)"
  proof cases
    case 1
    then have "tok_typ t = tokenNot" by (simp add: isUnaryOp_def)
    then show ?thesis using 1 E1 [OF isUnaryOp_productive]
      by (auto simp: p newUnaryOpNode_def intro!: returns_bind [where st = snd and w = w])
  next
    case 2
    then have "productive t" by (simp add: productive_def)
    note E1 [OF this]
    moreover have "returns_node w (bindE (expect tokenRightParen s2) (\<lambda>s3. Inr (n, s3)))"
      if "stream_ok s2" "weight (contents s2) \<le> w" for n s2
      using expect_returns [OF that] by (rule returns_bind) simp
    ultimately show ?thesis using 2
      by (auto simp: p intro!: returns_bind [where st = snd and w = w])
  next
    case 3
    then show ?thesis using s1 w1 s(2)
      by (auto simp: p newValueNode_def isValue_def split: tokenType.split prod.split option.split)
  qed
qed

lemma step_T:
  assumes M: "enough_M f"
  shows "enough_T (Suc f)"
  unfolding enough_T_def
proof (intro allI impI)
  fix n s w
  assume "stream_ok s" "weight (contents s) \<le> w" "3 * w + 2 \<le> Suc f"
  then have "returns (\<lambda>(n, t, s). push t s) w (parseTernary_loop f n s)"
    using M unfolding enough_M_def by simp
  then show "returns_node w (parseTernary (Suc f) n s)"
    by (auto elim!: returns_bind)
qed

lemma step_M:
  assumes E: "enough_E f" and M: "enough_M f"
  shows "enough_M (Suc f)"
  unfolding enough_M_def
proof (intro allI impI)
  fix n s w
  assume s: "stream_ok s" "weight (contents s) \<le> w" "3 * w + 1 \<le> Suc f"
  obtain t s1 where p: "pop s = (t, s1)" by fastforce
  note s1 = ts.nxt_ok [OF s(1) p] and w1 = ts.nxt_weight [OF s(1) p]
  show "returns_loop w (parseTernary_loop (Suc f) n s)"
  proof (cases "tok_typ t = tokenIf")
    case False
    have "stream_ok (push t s1)" "weight (contents (push t s1)) \<le> w"
      using s1 w1 s(2) by (simp_all add: ts.unread_ok ts.unread_weight)
    with False show ?thesis by (simp add: p)
  next
    case True
    then have w: "Suc (weight (contents s1)) \<le> w" using w1 s(2) by (simp add: productive_def)
    then obtain v where v: "w = Suc v" by (cases w) auto
    have E1: "returns_node v (parseExpression f 0 s2)"
      if "stream_ok s2" "weight (contents s2) \<le> v" for s2
      using E that s(3) v unfolding enough_E_def by simp
    have M1: "returns_loop v (parseTernary_loop f n' s2)"
      if "stream_ok s2" "weight (contents s2) \<le> v" for n' s2
      using M that s(3) v unfolding enough_M_def by simp
    have X: "returns id v (expect tokenElse s2)"
      if "stream_ok s2" "weight (contents s2) \<le> v" for s2
      using that by (rule expect_returns)
    have "returns_loop v (bindE (parseExpression f 0 s1) (\<lambda>(n1, s2).
        bindE (expect tokenElse s2) (\<lambda>s3.
        bindE (parseExpression f 0 s3) (\<lambda>(n2, s4).
        parseTernary_loop f (ifNode n n1 n2) s4))))"
      by (auto intro!: returns_bind [OF E1] returns_bind [OF X] M1 s1 w [unfolded v, simplified])
    with True show ?thesis by (auto simp: p v intro: returns_mono)
  qed
qed

lemma parser_enough:
  "enough_E f \<and> enough_L f \<and> enough_P f \<and> enough_T f \<and> enough_M f"
proof (induction f)
  case 0
  then show ?case
    by (simp add: enough_E_def enough_L_def enough_P_def enough_T_def enough_M_def)
next
  case (Suc f)
  then show ?case using step_E step_L step_P step_T step_M by blast
qed

section \<open>Parsing what a tree prints\<close>

text \<open>The trees the parser can build from an expression it prints: no error and no boolean
  literal, integer literals in the range of an \<open>int\<close> and not negative.\<close>

fun printable :: "node \<Rightarrow> bool" where
  "printable (errorNode s) = False"
| "printable (boolNode b) = False"
| "printable (intNode i) = (0 \<le> i \<and> i \<le> max_int)"
| "printable (varNode i) = (i = 0)"
| "printable (notNode a) = printable a"
| "printable (mulNode a b) = (printable a \<and> printable b)"
| "printable (divNode a b) = (printable a \<and> printable b)"
| "printable (modNode a b) = (printable a \<and> printable b)"
| "printable (addNode a b) = (printable a \<and> printable b)"
| "printable (subNode a b) = (printable a \<and> printable b)"
| "printable (eqNode a b) = (printable a \<and> printable b)"
| "printable (notEqNode a b) = (printable a \<and> printable b)"
| "printable (gtNode a b) = (printable a \<and> printable b)"
| "printable (gteNode a b) = (printable a \<and> printable b)"
| "printable (ltNode a b) = (printable a \<and> printable b)"
| "printable (lteNode a b) = (printable a \<and> printable b)"
| "printable (orNode a b) = (printable a \<and> printable b)"
| "printable (andNode a b) = (printable a \<and> printable b)"
| "printable (ifNode c a b) = (printable c \<and> printable a \<and> printable b)"

text \<open>A string that does not extend an operator, or a number, written in front of it.\<close>

abbreviation no_symbol :: "string \<Rightarrow> bool" where
  "no_symbol r \<equiv> r = [] \<or> hd r \<notin> set symbols"

abbreviation no_digit :: "string \<Rightarrow> bool" where
  "no_digit r \<equiv> r = [] \<or> hd r \<notin> set numbers"

lemma takeWhile_stop: "r = [] \<or> hd r \<notin> A \<Longrightarrow> takeWhile (\<lambda>c. c \<in> A) r = []"
  by (cases r) auto

lemma dropWhile_stop: "r = [] \<or> hd r \<notin> A \<Longrightarrow> dropWhile (\<lambda>c. c \<in> A) r = r"
  by (cases r) auto

lemma lex_operator:
  assumes "isBinaryOp (mk_token t) \<or> t \<in> {tokenIf, tokenElse, tokenNot, tokenLeftParen, tokenRightParen}"
    and "no_symbol r"
  shows "lex_spec (tokenName t @ r) = (mk_token t, r)"
  using assms(1) takeWhile_stop [OF assms(2)] dropWhile_stop [OF assms(2)]
  by (cases t) (simp_all add: isBinaryOp_def lex_spec_def lex_token_def stringToToken_def
      symbols_def numbers_def)

lemma lex_paren: "lex_spec (CHR ''('' # r) = (mk_token tokenLeftParen, r)"
  "lex_spec (CHR '')'' # r) = (mk_token tokenRightParen, r)"
  "lex_spec (CHR ''?'' # r) = (mk_token tokenIf, r)"
  "lex_spec (CHR '':'' # r) = (mk_token tokenElse, r)"
  "lex_spec (CHR ''n'' # r) = (mk_token tokenVar, r)"
  "lex_spec [] = (mk_token tokenEOF, [])"
  by (simp_all add: lex_spec_def lex_token_def stringToToken_def)

lemma lex_number:
  assumes "set ds \<subseteq> set numbers" "ds \<noteq> []" "no_digit r"
  shows "lex_spec (ds @ r) = (\<lparr>tok_typ = tokenInt, tok_val = ds\<rparr>, r)"
proof -
  obtain c cs where c: "ds = c # cs" using assms(2) by (cases ds) auto
  have cn: "c \<in> set numbers" using assms(1) c by simp
  then have "c \<noteq> CHR '' ''" "c \<noteq> CHR ''n''" "c \<notin> set ''*/%+-?:()''" by (auto simp: numbers_def)
  then show ?thesis using assms(1) c cn takeWhile_stop [OF assms(3)] dropWhile_stop [OF assms(3)]
    by (simp add: lex_spec_def lex_token_def dropWhile_append subset_iff)
qed

lemma show_int_digits: "0 \<le> i \<Longrightarrow> set (show_int i) \<subseteq> set numbers"
  using show_nat_digits [of "nat i"] by (simp add: show_int_def numbers_def)

text \<open>A printed tree starts with a parenthesis, a digit or the variable.\<close>

lemma node_String_head:
  "printable n \<Longrightarrow> hd (node_String n) \<notin> set symbols \<and> node_String n \<noteq> []"
proof (cases n)
  case (intNode i)
  assume "printable n"
  then have "set (show_int i) \<subseteq> set numbers" "show_int i \<noteq> []"
    using intNode show_int_digits show_int_nonempty by simp_all
  then have "hd (show_int i) \<in> set numbers" by (meson hd_in_set subsetD)
  then show ?thesis using intNode \<open>show_int i \<noteq> []\<close> by (auto simp: symbols_def numbers_def)
qed (simp_all add: symbols_def paren2_def)

lemma node_String_length: "printable n \<Longrightarrow> 3 * size n < length (node_String n)"
  by (induction n) (auto simp: paren2_def show_int_nonempty)

text \<open>\<open>parses g n str\<close>: with at least \<open>g\<close> units of fuel, \<open>parsePrimary\<close> reads \<open>n\<close> off the front of
  any input that starts with \<open>str\<close>, and nothing more.\<close>

definition parses :: "nat \<Rightarrow> node \<Rightarrow> string \<Rightarrow> bool" where
  "parses g n str \<longleftrightarrow> (\<forall>f s r. g \<le> f \<longrightarrow> stream_ok s \<longrightarrow> positioned (contents s) (str @ r) \<longrightarrow>
     no_digit r \<longrightarrow> (\<exists>s'. parsePrimary f s = Inr (n, s') \<and> stream_ok s' \<and> contents s' = ([], r)))"

lemma parsesE:
  assumes "parses g n str" "g \<le> f" "stream_ok s" "positioned (contents s) (str @ r)" "no_digit r"
  obtains s' where "parsePrimary f s = Inr (n, s')" "stream_ok s'" "contents s' = ([], r)"
  using assms unfolding parses_def by blast

lemma positionedI [simp]: "positioned ([], r) r"
  by (simp add: positioned_def)

text \<open>An operand followed by a token that is no operator is a whole expression.\<close>

lemma expr_of_primary:
  assumes "parses g n str" "Suc g \<le> f" "1 \<le> g" "stream_ok s" "positioned (contents s) (str @ r)"
    "no_digit r" "lex_spec r = (t, r')" "\<not> isBinaryOp t" "prec = 0 \<longrightarrow> tok_typ t \<noteq> tokenIf"
  obtains s' where "parseExpression f prec s = Inr (n, s')" "stream_ok s'"
    "positioned (contents s') r"
proof -
  obtain f1 where f: "f = Suc f1" "g \<le> f1" using assms(2) by (cases f) auto
  obtain f2 where f2: "f1 = Suc f2" using f assms(3) by (cases f1) auto
  obtain s1 where s1: "parsePrimary f1 s = Inr (n, s1)" "stream_ok s1" "contents s1 = ([], r)"
    using parsesE [OF assms(1) f(2) assms(4-6)] by blast
  obtain s2 where s2: "pop s1 = (t, s2)" "stream_ok s2" "contents s2 = ([], r')"
    using ts.nxt_positioned [OF s1(2) _ assms(7)] s1(3) by auto
  have "parseExpression_loop f1 prec n s1 = Inr (n, t, s2)"
    using s2 assms(8) by (simp add: f2)
  then have "parseExpression f prec s = Inr (n, push t s2)"
    using s1 assms(9) by (auto simp: f(1))
  with ts.unread_positioned [OF s2(2,3) assms(7)] that show thesis by blast
qed

lemma pop_contents:
  assumes "stream_ok s" "contents s = ([], r)" "lex_spec r = (t, r')"
  obtains s' where "pop s = (t, s')" "stream_ok s'" "contents s' = ([], r')"
  using ts.nxt_positioned [OF assms(1) _ assms(3)] assms(2) that by auto

lemma expect_positioned:
  assumes "stream_ok s" "positioned (contents s) r" "lex_spec r = (mk_token t, r')"
  obtains s' where "expect t s = Inr s'" "stream_ok s'" "contents s' = ([], r')"
  using ts.nxt_positioned [OF assms] that by (auto simp: expect_def)

lemma parses_paren:
  assumes E: "\<And>f s r. g \<le> f \<Longrightarrow> stream_ok s \<Longrightarrow> contents s = ([], str @ CHR '')'' # r) \<Longrightarrow>
      \<exists>s'. parseExpression f 0 s = Inr (n, s') \<and> stream_ok s' \<and>
           positioned (contents s') (CHR '')'' # r)"
  shows "parses (Suc g) n (''('' @ str @ '')'')"
  unfolding parses_def
proof (intro allI impI)
  fix f s r
  assume f: "Suc g \<le> f" and s: "stream_ok s" "positioned (contents s) ((''('' @ str @ '')'') @ r)"
  obtain f1 where f1: "f = Suc f1" "g \<le> f1" using f by (cases f) auto
  obtain s1 where s1: "pop s = (mk_token tokenLeftParen, s1)" "stream_ok s1"
    "contents s1 = ([], str @ CHR '')'' # r)"
    using ts.nxt_positioned [OF s(1), of "CHR ''('' # str @ CHR '')'' # r"] s(2) lex_paren(1) by auto
  obtain s2 where s2: "parseExpression f1 0 s1 = Inr (n, s2)" "stream_ok s2"
    "positioned (contents s2) (CHR '')'' # r)"
    using E [OF f1(2) s1(2,3)] by blast
  obtain s3 where "expect tokenRightParen s2 = Inr s3" "stream_ok s3" "contents s3 = ([], r)"
    using expect_positioned [OF s2(2,3) lex_paren(2)] by blast
  with s1 s2 show "\<exists>s'. parsePrimary f s = Inr (n, s') \<and> stream_ok s' \<and> contents s' = ([], r)"
    by (simp add: f1(1) isUnaryOp_def)
qed

lemma rparen [simp]: "CHR '')'' \<notin> set numbers" "CHR '')'' \<notin> set symbols"
  "\<not> isBinaryOp (mk_token tokenRightParen)"
  by (simp_all add: numbers_def symbols_def isBinaryOp_def)

lemma operator_no_digit: "isBinaryOp (mk_token t) \<Longrightarrow> no_digit (tokenName t @ r)"
  by (cases t) (simp_all add: isBinaryOp_def numbers_def)

lemma fuel3:
  assumes "m + 3 \<le> (f::nat)"
  obtains f1 f2 f3 where "f = Suc f1" "f1 = Suc f2" "f2 = Suc f3" "m \<le> f3"
proof -
  have "f = Suc (Suc (Suc (f - 3)))" "m \<le> f - 3" using assms by simp_all
  then show thesis using that by blast
qed

lemma parses_binary:
  assumes A: "parses ga a sa" and B: "parses gb b sb" and ga: "1 \<le> ga" "1 \<le> gb"
    and t: "isBinaryOp (mk_token t)" "newBinaryOpNode (mk_token t) a b = Inr n"
    and sb: "\<And>r. no_symbol (sb @ r)"
  shows "parses (ga + gb + 4) n (paren2 sa (tokenName t) sb)"
proof -
  have "parses (Suc (ga + gb + 3)) n (''('' @ (sa @ tokenName t @ sb) @ '')'')"
  proof (rule parses_paren)
    fix f s r
    assume f: "ga + gb + 3 \<le> f" and s: "stream_ok s"
      "contents s = ([], (sa @ tokenName t @ sb) @ CHR '')'' # r)"
    obtain f1 f2 f3 where f1: "f = Suc f1" and f2: "f1 = Suc f2" and f3: "f2 = Suc f3"
      and "ga + gb \<le> f3" using fuel3 [OF f] by blast
    then have le: "ga \<le> f1" "Suc gb \<le> f2" by simp_all
    let ?r = "CHR '')'' # r"
    have "positioned (contents s) (sa @ tokenName t @ sb @ ?r)" using s(2) by simp
    then obtain s1 where s1: "parsePrimary f1 s = Inr (a, s1)" "stream_ok s1"
      "contents s1 = ([], tokenName t @ sb @ ?r)"
      by (rule parsesE [OF A le(1) s(1) _ operator_no_digit [OF t(1)]])
    have "lex_spec (tokenName t @ sb @ ?r) = (mk_token t, sb @ ?r)"
      using t(1) sb by (intro lex_operator) auto
    then obtain s2 where s2: "pop s1 = (mk_token t, s2)" "stream_ok s2" "contents s2 = ([], sb @ ?r)"
      by (rule pop_contents [OF s1(2,3)])
    obtain s3 where s3: "parseExpression f2 (precedence t + 1) s2 = Inr (b, s3)" "stream_ok s3"
      "positioned (contents s3) ?r"
      using expr_of_primary [OF B le(2) ga(2) s2(2), of ?r "mk_token tokenRightParen" r "precedence t + 1"]
        s2(3) lex_paren(2) by auto
    obtain s4 where s4: "pop s3 = (mk_token tokenRightParen, s4)" "stream_ok s4" "contents s4 = ([], r)"
      using ts.nxt_positioned [OF s3(2,3) lex_paren(2)] by blast
    have "parseExpression_loop f2 0 n s3 = Inr (n, mk_token tokenRightParen, s4)"
      using s4 by (simp add: f3)
    then have "parseExpression_loop f1 0 a s1 = Inr (n, mk_token tokenRightParen, s4)"
      using s2 s3 t by (simp add: f2 rightAssociativity_def)
    then have "parseExpression f 0 s = Inr (n, push (mk_token tokenRightParen) s4)"
      using s1 by (simp add: f1)
    with ts.unread_positioned [OF s4(2,3) lex_paren(2)]
    show "\<exists>s'. parseExpression f 0 s = Inr (n, s') \<and> stream_ok s' \<and> positioned (contents s') ?r"
      by blast
  qed
  then show ?thesis by (simp add: paren2_def add.commute)
qed

lemma parses_not:
  assumes A: "parses g a str" and g: "1 \<le> g" and str: "\<And>r. no_symbol (str @ r)"
  shows "parses (g + 4) (notNode a) (''(!'' @ str @ '')'')"
proof -
  have "parses (Suc (g + 3)) (notNode a) (''('' @ (''!'' @ str) @ '')'')"
  proof (rule parses_paren)
    fix f s r
    assume f: "g + 3 \<le> f" and s: "stream_ok s" "contents s = ([], (''!'' @ str) @ CHR '')'' # r)"
    obtain f1 f2 f3 where f1: "f = Suc f1" and f2: "f1 = Suc f2" and f3: "f2 = Suc f3"
      and "g \<le> f3" using fuel3 [OF f] by blast
    then have le: "Suc g \<le> f2" by simp
    let ?r = "CHR '')'' # r"
    have "lex_spec (tokenName tokenNot @ str @ ?r) = (mk_token tokenNot, str @ ?r)"
      using str by (intro lex_operator) auto
    then obtain s2 where s2: "pop s = (mk_token tokenNot, s2)" "stream_ok s2" "contents s2 = ([], str @ ?r)"
      using ts.nxt_positioned [OF s(1), of "''!'' @ str @ ?r"] s(2) by fastforce
    obtain s3 where s3: "parseExpression f2 (precedence tokenNot) s2 = Inr (a, s3)" "stream_ok s3"
      "positioned (contents s3) ?r"
      using expr_of_primary [OF A le g s2(2), of ?r "mk_token tokenRightParen" r "precedence tokenNot"]
        s2(3) lex_paren(2) by auto
    obtain s4 where s4: "pop s3 = (mk_token tokenRightParen, s4)" "stream_ok s4" "contents s4 = ([], r)"
      using ts.nxt_positioned [OF s3(2,3) lex_paren(2)] by blast
    have "parsePrimary f1 s = Inr (notNode a, s3)"
      using s2 s3 by (simp add: f2 isUnaryOp_def newUnaryOpNode_def)
    moreover have "parseExpression_loop f1 0 (notNode a) s3 = Inr (notNode a, mk_token tokenRightParen, s4)"
      using s4 by (simp add: f2)
    ultimately have "parseExpression f 0 s = Inr (notNode a, push (mk_token tokenRightParen) s4)"
      by (simp add: f1)
    with ts.unread_positioned [OF s4(2,3) lex_paren(2)]
    show "\<exists>s'. parseExpression f 0 s = Inr (notNode a, s') \<and> stream_ok s' \<and> positioned (contents s') ?r"
      by blast
  qed
  then show ?thesis by (simp add: add.commute)
qed

lemma question_colon [simp]: "CHR ''?'' \<notin> set numbers" "CHR '':'' \<notin> set numbers"
  "\<not> isBinaryOp (mk_token tokenIf)" "\<not> isBinaryOp (mk_token tokenElse)"
  "\<not> isBinaryOp (mk_token tokenEOF)"
  by (simp_all add: numbers_def isBinaryOp_def)

lemma parses_ternary:
  assumes C: "parses gc c sc" and A: "parses ga a sa" and B: "parses gb b sb"
    and g: "1 \<le> gc" "1 \<le> ga" "1 \<le> gb"
  shows "parses (gc + ga + gb + 5) (ifNode c a b) (''('' @ sc @ ''?'' @ sa @ '':'' @ sb @ '')'')"
proof -
  have "parses (Suc (gc + ga + gb + 1 + 3)) (ifNode c a b) (''('' @ (sc @ ''?'' @ sa @ '':'' @ sb) @ '')'')"
  proof (rule parses_paren)
    fix f s r
    assume f: "gc + ga + gb + 1 + 3 \<le> f"
      and s: "stream_ok s" "contents s = ([], (sc @ ''?'' @ sa @ '':'' @ sb) @ CHR '')'' # r)"
    obtain f1 f2 f3 where f1: "f = Suc f1" and f2: "f1 = Suc f2" and f3: "f2 = Suc f3"
      and "gc + ga + gb + 1 \<le> f3" using fuel3 [OF f] by blast
    then have le: "gc \<le> f1" "Suc ga \<le> f3" "Suc gb \<le> f3" "1 \<le> f3" using g by simp_all
    let ?r = "CHR '')'' # r"
    let ?rb = "CHR '':'' # sb @ ?r"
    let ?ra = "CHR ''?'' # sa @ ?rb"
    have "positioned (contents s) (sc @ ?ra)" using s(2) by simp
    then obtain s1 where s1: "parsePrimary f1 s = Inr (c, s1)" "stream_ok s1" "contents s1 = ([], ?ra)"
      by (rule parsesE [OF C le(1) s(1)]) simp
    obtain s2 where s2: "pop s1 = (mk_token tokenIf, s2)" "stream_ok s2" "contents s2 = ([], sa @ ?rb)"
      by (rule pop_contents [OF s1(2,3) lex_paren(3)])
    have loop1: "parseExpression_loop f1 0 c s1 = Inr (c, mk_token tokenIf, s2)"
      using s2 by (simp add: f2)
    obtain s3 where s3: "pop (push (mk_token tokenIf) s2) = (mk_token tokenIf, s3)" "stream_ok s3"
      "contents s3 = ([], sa @ ?rb)"
      using ts.nxt_unread [OF s2(2), of "mk_token tokenIf"] s2(3) by auto
    obtain s4 where s4: "parseExpression f3 0 s3 = Inr (a, s4)" "stream_ok s4"
      "positioned (contents s4) ?rb"
      using expr_of_primary [OF A le(2) g(2) s3(2), of ?rb "mk_token tokenElse" "sb @ ?r" 0]
        s3(3) lex_paren(4) by auto
    obtain s5 where s5: "expect tokenElse s4 = Inr s5" "stream_ok s5" "contents s5 = ([], sb @ ?r)"
      by (rule expect_positioned [OF s4(2,3) lex_paren(4)])
    obtain s6 where s6: "parseExpression f3 0 s5 = Inr (b, s6)" "stream_ok s6"
      "positioned (contents s6) ?r"
      using expr_of_primary [OF B le(3) g(3) s5(2), of ?r "mk_token tokenRightParen" r 0]
        s5(3) lex_paren(2) by auto
    obtain s7 where s7: "pop s6 = (mk_token tokenRightParen, s7)" "stream_ok s7" "contents s7 = ([], r)"
      using ts.nxt_positioned [OF s6(2,3) lex_paren(2)] by blast
    have "parseTernary_loop f3 (ifNode c a b) s6 = Inr (ifNode c a b, mk_token tokenRightParen, s7)"
      using s7 le(4) by (cases f3) simp_all
    then have "parseTernary_loop f2 c (push (mk_token tokenIf) s2) =
        Inr (ifNode c a b, mk_token tokenRightParen, s7)"
      using s3 s4 s5 s6 by (simp add: f3)
    then have "parseExpression f 0 s = Inr (ifNode c a b, push (mk_token tokenRightParen) s7)"
      using s1 loop1 by (simp add: f1) (simp add: f2)
    with ts.unread_positioned [OF s7(2,3) lex_paren(2)]
    show "\<exists>s'. parseExpression f 0 s = Inr (ifNode c a b, s') \<and> stream_ok s' \<and>
        positioned (contents s') ?r"
      by blast
  qed
  then show ?thesis by (simp add: add.commute)
qed

lemma parses_value:
  assumes "\<And>r. no_digit r \<Longrightarrow> lex_spec (str @ r) = (t, r)" "isValue t" "newValueNode t = Inr n"
  shows "parses 1 n str"
  unfolding parses_def
proof (intro allI impI)
  fix f :: nat and s r
  assume f: "1 \<le> f" and s: "stream_ok s" "positioned (contents s) (str @ r)" "no_digit r"
  obtain f1 where f1: "f = Suc f1" using f by (cases f) auto
  obtain s1 where "pop s = (t, s1)" "stream_ok s1" "contents s1 = ([], r)"
    using ts.nxt_positioned [OF s(1,2) assms(1) [OF s(3)]] by blast
  moreover have "\<not> isUnaryOp t" "tok_typ t \<noteq> tokenLeftParen"
    using assms(2) by (auto simp: isValue_def isUnaryOp_def)
  ultimately show "\<exists>s'. parsePrimary f s = Inr (n, s') \<and> stream_ok s' \<and> contents s' = ([], r)"
    using assms(2,3) by (simp add: f1)
qed

lemma parses_mono: "parses g n str \<Longrightarrow> g \<le> g' \<Longrightarrow> parses g' n str"
  unfolding parses_def using order_trans by blast

text \<open>The operator and the operands of a binary node.\<close>

fun operands :: "node \<Rightarrow> (tokenType \<times> node \<times> node) option" where
  "operands (mulNode a b) = Some (tokenMul, a, b)"
| "operands (divNode a b) = Some (tokenDiv, a, b)"
| "operands (modNode a b) = Some (tokenMod, a, b)"
| "operands (addNode a b) = Some (tokenAdd, a, b)"
| "operands (subNode a b) = Some (tokenSub, a, b)"
| "operands (eqNode a b) = Some (tokenEq, a, b)"
| "operands (notEqNode a b) = Some (tokenNotEq, a, b)"
| "operands (gtNode a b) = Some (tokenGt, a, b)"
| "operands (gteNode a b) = Some (tokenGte, a, b)"
| "operands (ltNode a b) = Some (tokenLt, a, b)"
| "operands (lteNode a b) = Some (tokenLte, a, b)"
| "operands (orNode a b) = Some (tokenOr, a, b)"
| "operands (andNode a b) = Some (tokenAnd, a, b)"
| "operands _ = None"

lemma operands_Some:
  assumes "operands n = Some (t, a, b)"
  shows "isBinaryOp (mk_token t)" and "newBinaryOpNode (mk_token t) a b = Inr n"
    and "node_String n = paren2 (node_String a) (tokenName t) (node_String b)"
    and "size n = size a + size b + 1" and "printable n \<longleftrightarrow> printable a \<and> printable b"
  using assms by (cases n; auto simp: isBinaryOp_def newBinaryOpNode.simps)+

lemma parses_intNode:
  assumes "0 \<le> i" "i \<le> max_int"
  shows "parses 1 (intNode i) (show_int i)"
proof (rule parses_value)
  show "lex_spec (show_int i @ r) = (\<lparr>tok_typ = tokenInt, tok_val = show_int i\<rparr>, r)"
    if "no_digit r" for r
    using assms that by (intro lex_number) (simp_all add: show_int_digits show_int_nonempty)
  show "newValueNode \<lparr>tok_typ = tokenInt, tok_val = show_int i\<rparr> = Inr (intNode i)"
    using assms parse_int10_show_nat [of "nat i"] by (simp add: newValueNode_def show_int_def)
qed (simp add: isValue_def)

lemma parses_varNode: "parses 1 (varNode 0) ''n''"
  by (rule parses_value [of _ "mk_token tokenVar"]) (simp_all add: lex_paren isValue_def newValueNode_def)

lemma parses_node: "printable n \<Longrightarrow> parses (8 * size n + 1) n (node_String n)"
proof (induction n rule: measure_induct_rule [of size])
  case (less n)
  show ?case
  proof (cases "operands n")
    case (Some x)
    obtain t a b where x: "operands n = Some (t, a, b)" using Some by (cases x) auto
    note n = operands_Some [OF x]
    have "parses ((8 * size a + 1) + (8 * size b + 1) + 4) n (node_String n)"
      unfolding n(3) using less n node_String_head [of b] by (intro parses_binary) auto
    then show ?thesis by (rule parses_mono) (simp add: n(4))
  next
    case None
    then show ?thesis
    proof (cases n)
      case (intNode i)
      then show ?thesis using parses_intNode less.prems by simp
    next
      case (varNode i)
      then show ?thesis using parses_varNode less.prems by simp
    next
      case (notNode a)
      have "parses ((8 * size a + 1) + 4) (notNode a) (''(!'' @ node_String a @ '')'')"
        using less notNode node_String_head [of a] by (intro parses_not) auto
      then show ?thesis using notNode by (auto intro: parses_mono)
    next
      case (ifNode c a b)
      have "parses ((8 * size c + 1) + (8 * size a + 1) + (8 * size b + 1) + 5) (ifNode c a b)
          (''('' @ node_String c @ ''?'' @ node_String a @ '':'' @ node_String b @ '')'')"
        using less ifNode by (intro parses_ternary) auto
      then show ?thesis using ifNode by (auto elim: parses_mono)
    qed (use less.prems in simp_all)
  qed
qed

theorem parse_node_String: "printable n \<Longrightarrow> parse (node_String n) = Inr n"
proof -
  assume n: "printable n"
  let ?s = "newTokenStream (node_String n)"
  have "Suc (8 * size n + 1) \<le> parse_fuel (node_String n)"
    using node_String_length [OF n] by (simp add: parse_fuel_def)
  then obtain s1 where s1: "parseExpression (parse_fuel (node_String n)) 0 ?s = Inr (n, s1)"
    "stream_ok s1" "positioned (contents s1) []"
    using expr_of_primary [OF parses_node [OF n], of _ ?s "[]" "mk_token tokenEOF" "[]" 0]
      lex_paren(6) by auto
  obtain s2 where "expect tokenEOF s1 = Inr s2"
    by (rule expect_positioned [OF s1(2,3) lex_paren(6)])
  with s1 show ?thesis by (simp add: parse_def parser_parse_def)
qed

end
