(* ===== verification/Pluralforms_Theorems.thy ===== *)
theory Pluralforms_Theorems
  imports Pluralforms Pluralforms_Correct
begin

text \<open>
  The properties of the package \<open>gettext/pluralforms\<close>: the precomputed functions agree with the
  parser and the evaluator, the parser always answers, printing and parsing are inverse, and
  well-typed trees evaluate to values.
\<close>

section \<open>Typing of trees\<close>

datatype ty = TInt | TBool

fun type_of :: "node \<Rightarrow> ty option" where
  "type_of (errorNode s) = None"
| "type_of (boolNode b) = Some TBool"
| "type_of (intNode i) = Some TInt"
| "type_of (varNode i) = Some TInt"
| "type_of (notNode a) = (if type_of a = Some TBool then Some TBool else None)"
| "type_of (ifNode c a b) =
     (if type_of c = Some TBool \<and> type_of a = type_of b then type_of a else None)"
| "type_of (orNode a b) =
     (if type_of a = Some TBool \<and> type_of b = Some TBool then Some TBool else None)"
| "type_of (andNode a b) =
     (if type_of a = Some TBool \<and> type_of b = Some TBool then Some TBool else None)"
| "type_of (eqNode a b) = (if type_of a = type_of b \<and> type_of a \<noteq> None then Some TBool else None)"
| "type_of (notEqNode a b) = (if type_of a = type_of b \<and> type_of a \<noteq> None then Some TBool else None)"
| "type_of (gtNode a b) = (if type_of a = Some TInt \<and> type_of b = Some TInt then Some TBool else None)"
| "type_of (gteNode a b) = (if type_of a = Some TInt \<and> type_of b = Some TInt then Some TBool else None)"
| "type_of (ltNode a b) = (if type_of a = Some TInt \<and> type_of b = Some TInt then Some TBool else None)"
| "type_of (lteNode a b) = (if type_of a = Some TInt \<and> type_of b = Some TInt then Some TBool else None)"
| "type_of (mulNode a b) = (if type_of a = Some TInt \<and> type_of b = Some TInt then Some TInt else None)"
| "type_of (divNode a b) = (if type_of a = Some TInt \<and> type_of b = Some TInt then Some TInt else None)"
| "type_of (modNode a b) = (if type_of a = Some TInt \<and> type_of b = Some TInt then Some TInt else None)"
| "type_of (addNode a b) = (if type_of a = Some TInt \<and> type_of b = Some TInt then Some TInt else None)"
| "type_of (subNode a b) = (if type_of a = Some TInt \<and> type_of b = Some TInt then Some TInt else None)"

fun has_type :: "node \<Rightarrow> ty \<Rightarrow> bool" where
  "has_type (intNode i) t = (t = TInt \<and> in_int64 i)"
| "has_type (boolNode b) t = (t = TBool)"
| "has_type _ t = False"

text \<open>The integer literals of a tree are in the range of an \<open>int\<close>, as \<open>ParseInt\<close> ensures.\<close>

fun literals_ok :: "node \<Rightarrow> bool" where
  "literals_ok (intNode i) = in_int64 i"
| "literals_ok (notNode a) = literals_ok a"
| "literals_ok (ifNode c a b) = (literals_ok c \<and> literals_ok a \<and> literals_ok b)"
| "literals_ok n = (case operands n of Some (t, a, b) \<Rightarrow> literals_ok a \<and> literals_ok b | None \<Rightarrow> True)"

text \<open>What \<open>Eval\<close> of a tree of type \<open>t\<close> may give: the panic of a division by zero, or a value.\<close>

definition sound :: "ty \<Rightarrow> node go \<Rightarrow> bool" where
  "sound t r \<longleftrightarrow> r = Inl DivideByZero \<or> (\<exists>v. r = Inr v \<and> has_type v t)"

lemma sound_TInt: "sound TInt r \<longleftrightarrow> r = Inl DivideByZero \<or> (\<exists>i. r = Inr (intNode i) \<and> in_int64 i)"
  by (auto simp: sound_def elim!: has_type.elims)

lemma sound_TBool: "sound TBool r \<longleftrightarrow> r = Inl DivideByZero \<or> (\<exists>b. r = Inr (boolNode b))"
  by (auto simp: sound_def elim!: has_type.elims)

lemma sound_on_ints:
  assumes "sound TInt a" "sound TInt b" "\<And>x y. in_int64 x \<Longrightarrow> in_int64 y \<Longrightarrow> sound t (f x y)"
  shows "sound t (on_ints f a b)"
  using assms by (auto simp: sound_TInt on_ints_def) (auto simp: sound_def)

lemma sound_on_bools:
  assumes "sound TBool a" "sound TBool b" "\<And>x y. sound t (f x y)"
  shows "sound t (on_bools f a b)"
  using assms by (auto simp: sound_TBool on_bools_def) (auto simp: sound_def)

lemma sound_on_same:
  assumes "sound u a" "sound u b" "\<And>x y. sound t (f x y)" "\<And>x y. sound t (g x y)"
  shows "sound t (on_same f g a b)"
  using assms by (cases u) (auto simp: sound_TInt sound_TBool on_same_def, auto simp: sound_def)

lemma in_int64_go_rem: "in_int64 x \<Longrightarrow> in_int64 y \<Longrightarrow> y \<noteq> 0 \<Longrightarrow> in_int64 (go_rem x y)"
  using go_rem_bound [of y x] by (auto simp: in_int64_def max_int_def)

lemmas sound_intros = sound_on_ints sound_on_bools sound_on_same

lemma Eval_sound:
  "type_of n = Some t \<Longrightarrow> literals_ok n \<Longrightarrow> in_int64 ctx \<Longrightarrow> sound t (Eval n ctx)"
proof (induction n arbitrary: t)
  case (notNode a)
  then have "sound TBool (Eval a ctx)" by (simp split: if_splits)
  then show ?case using notNode by (auto simp: sound_TBool split: if_splits)
next
  case (ifNode c a b)
  then have "sound TBool (Eval c ctx)" "sound t (Eval a ctx)" "sound t (Eval b ctx)"
    by (simp_all split: if_splits)
  then show ?case by (auto simp: sound_TBool) (simp add: sound_def)
next
  case (eqNode a b)
  then obtain u where u: "type_of a = Some u" "type_of b = Some u" "t = TBool"
    by (cases "type_of a") (auto split: if_splits)
  then have "sound u (Eval a ctx)" "sound u (Eval b ctx)" using eqNode by simp_all
  then show ?case using u(3) by (auto simp: sound_TBool [of "Inr _"] intro: sound_on_same)
next
  case (notEqNode a b)
  then obtain u where u: "type_of a = Some u" "type_of b = Some u" "t = TBool"
    by (cases "type_of a") (auto split: if_splits)
  then have "sound u (Eval a ctx)" "sound u (Eval b ctx)" using notEqNode by simp_all
  then show ?case using u(3) by (auto simp: sound_TBool [of "Inr _"] intro: sound_on_same)
qed (auto simp: sound_TBool [of "Inr _"] sound_TInt [of "Inr _"] sound_TInt [of "if _ then _ else _"]
    in_int64_wrap64 in_int64_go_rem split: if_splits intro!: sound_intros)

section \<open>Properties\<close>

lemma parse_raises: "parse expr = Inl e \<Longrightarrow> e \<noteq> OutOfFuel \<and> e \<noteq> Unreachable"
proof -
  assume e: "parse expr = Inl e"
  let ?s = "newTokenStream expr"
  have "weight (contents ?s) = length expr" by (simp add: weight_def)
  then have "returns_node (length expr) (parseExpression (parse_fuel expr) 0 ?s)"
    using parser_enough unfolding enough_E_def by (simp add: parse_fuel_def)
  then have "returns id (length expr) (bindE (parseExpression (parse_fuel expr) 0 ?s)
      (\<lambda>(n, s1). expect tokenEOF s1))"
    by (rule returns_bind) (auto intro: expect_returns)
  then show ?thesis using e
    by (auto simp: parse_def parser_parse_def bindE_def returns_def split: sum.splits)
qed

text \<open>The trees of the expressions of the table.\<close>

abbreviation V :: node where "V \<equiv> varNode 0"
abbreviation N :: "int \<Rightarrow> node" where "N \<equiv> intNode"
abbreviation V10 :: node where "V10 \<equiv> modNode V (N 10)"
abbreviation V100 :: node where "V100 \<equiv> modNode V (N 100)"
abbreviation one_but_eleven :: node where
  "one_but_eleven \<equiv> andNode (eqNode V10 (N 1)) (notEqNode V100 (N 11))"
abbreviation not_teen :: node where
  "not_teen \<equiv> orNode (ltNode V100 (N 10)) (gteNode V100 (N 20))"
abbreviation two_to_four :: node where
  "two_to_four \<equiv> andNode (gteNode V10 (N 2)) (lteNode V10 (N 4))"

lemma parsed1: "parse ''0'' = Inr (N 0)"
  by code_simp
lemma parsed2: "parse ''n!=1'' = Inr (notEqNode V (N 1))"
  by code_simp
lemma parsed3: "parse ''n>1'' = Inr (gtNode V (N 1))"
  by code_simp
lemma parsed4: "parse ''n%10==1&&n%100!=11?0:n!=0?1:2'' =
    Inr (ifNode one_but_eleven (N 0) (ifNode (notEqNode V (N 0)) (N 1) (N 2)))"
  by code_simp
lemma parsed5: "parse ''n==1?0:n==2?1:2'' =
    Inr (ifNode (eqNode V (N 1)) (N 0) (ifNode (eqNode V (N 2)) (N 1) (N 2)))"
  by code_simp
lemma parsed6: "parse ''n==1?0:(n==0||(n%100>0&&n%100<20))?1:2'' =
    Inr (ifNode (eqNode V (N 1)) (N 0)
      (ifNode (orNode (eqNode V (N 0)) (andNode (gtNode V100 (N 0)) (ltNode V100 (N 20)))) (N 1) (N 2)))"
  by code_simp
lemma parsed7: "parse ''n%10==1&&n%100!=11?0:n%10>=2&&(n%100<10||n%100>=20)?1:2'' =
    Inr (ifNode one_but_eleven (N 0) (ifNode (andNode (gteNode V10 (N 2)) not_teen) (N 1) (N 2)))"
  by code_simp
lemma parsed8: "parse ''n%10==1&&n%100!=11?0:n%10>=2&&n%10<=4&&(n%100<10||n%100>=20)?1:2'' =
    Inr (ifNode one_but_eleven (N 0) (ifNode (andNode two_to_four not_teen) (N 1) (N 2)))"
  by code_simp
lemma parsed9: "parse ''(n==1)?0:(n>=2&&n<=4)?1:2'' =
    Inr (ifNode (eqNode V (N 1)) (N 0)
      (ifNode (andNode (gteNode V (N 2)) (lteNode V (N 4))) (N 1) (N 2)))"
  by code_simp
lemma parsed10: "parse ''n==1?0:n%10>=2&&n%10<=4&&(n%100<10||n%100>=20)?1:2'' =
    Inr (ifNode (eqNode V (N 1)) (N 0) (ifNode (andNode two_to_four not_teen) (N 1) (N 2)))"
  by code_simp
lemma parsed11: "parse ''n%100==1?0:n%100==2?1:n%100==3||n%100==4?2:3'' =
    Inr (ifNode (eqNode V100 (N 1)) (N 0) (ifNode (eqNode V100 (N 2)) (N 1)
      (ifNode (orNode (eqNode V100 (N 3)) (eqNode V100 (N 4))) (N 2) (N 3))))"
  by code_simp

lemmas parsed = parsed1 parsed2 parsed3 parsed4 parsed5 parsed6 parsed7 parsed8 parsed9
  parsed10 parsed11

lemmas eval_simps = tree_func_def on_ints_def on_bools_def on_same_def

text \<open>C10: The eleven precomputed plural functions agree with the parser: for every entry of the table
  the expression parses, and the function it evaluates to gives, for every amount, the index the
  precomputed function gives; so taking the short cut in \<open>Parse\<close> never changes a translation.\<close>

theorem pluralFuncs_agree:
  assumes "(expr, f) \<in> set pluralFuncs"
  shows "\<exists>g. createPluralFunc expr = Inr g \<and> (\<forall>n. g n = Inr (f n))"
  using assms unfolding pluralFuncs_def createPluralFunc_def
  by (simp only: set_simps insert_iff prod.inject empty_iff simp_thms)
    (elim disjE conjE; simp only: parsed bindE_simps sum.inject ex_simps simp_thms;
     auto simp: eval_simps pluralFunc_defs)

theorem pluralFuncs_agree_witness:
  "(''n!=1'', pluralFunc2) \<in> set pluralFuncs \<and>
   (\<exists>g. createPluralFunc ''n!=1'' = Inr g \<and> (\<forall>n. g n = Inr (pluralFunc2 n)))"
proof -
  have "(''n!=1'', pluralFunc2) \<in> set pluralFuncs" by (simp add: pluralFuncs_def)
  with pluralFuncs_agree [OF this] show ?thesis by blast
qed

text \<open>C9: Parsing terminates with an answer on every expression, well formed or not: the result is a
  tree or one of the errors the code raises, never the exhaustion of the fuel of the model, and
  never the panic marked unreachable in \<open>newBinaryOpNode\<close>, \<open>newUnaryOpNode\<close> and \<open>newValueNode\<close>.\<close>

theorem parse_answers:
  "(\<exists>n. parse expr = Inr n) \<or>
   (\<exists>t u. parse expr = Inl (ExpectedToken t u)) \<or>
   (\<exists>t. parse expr = Inl (UnexpectedToken t))"
proof (cases "parse expr")
  case (Inl e)
  then show ?thesis using parse_raises [OF Inl] by (cases e) auto
qed simp

text \<open>C8: Printing a tree and parsing the text gives the tree back, for every tree built from the
  variable, integer literals and the operators: \<open>parse\<close> inverts the \<open>String\<close> methods, through the
  lexer, the token stream, the precedence climbing and \<open>strconv.ParseInt\<close>.\<close>

theorem parse_String_roundtrip:
  assumes "printable n"
  shows "parse (node_String n) = Inr n"
  using assms by (rule parse_node_String)

theorem parse_String_roundtrip_witness:
  "printable (ifNode (eqNode (modNode (varNode 0) (intNode 10)) (intNode 1)) (intNode 0)
     (notNode (varNode 0))) \<and>
   parse ''(((n%10)==1)?0:(!n))'' =
     Inr (ifNode (eqNode (modNode (varNode 0) (intNode 10)) (intNode 1)) (intNode 0)
       (notNode (varNode 0)))"
proof -
  let ?n = "ifNode (eqNode (modNode (varNode 0) (intNode 10)) (intNode 1)) (intNode 0)
    (notNode (varNode 0))"
  have p: "printable ?n" by (simp add: max_int_def)
  have e: "node_String ?n = ''(((n%10)==1)?0:(!n))''" by code_simp
  show ?thesis using parse_String_roundtrip [OF p] p unfolding e by blast
qed

text \<open>C35: Evaluation is type safe: a well-typed tree, whose literals and amount are in the range of an
  \<open>int\<close>, evaluates to a value of its type in that range, or panics on a division by zero; it never
  evaluates to the error value for which the selector answers -1.\<close>

theorem Eval_type_safe:
  assumes "type_of n = Some t" and "literals_ok n" and "in_int64 ctx"
  shows "Eval n ctx = Inl DivideByZero \<or> (\<exists>v. Eval n ctx = Inr v \<and> has_type v t)"
  using Eval_sound [OF assms] by (simp add: sound_def)

theorem Eval_type_safe_witness:
  "type_of (modNode (varNode 0) (intNode 10)) = Some TInt \<and>
   (Eval (modNode (varNode 0) (intNode 10)) 21 = Inl DivideByZero \<or>
    (\<exists>v. Eval (modNode (varNode 0) (intNode 10)) 21 = Inr v \<and> has_type v TInt))"
  using Eval_type_safe [of "modNode (varNode 0) (intNode 10)" TInt 21]
  by (simp add: in_int64_def max_int_def)

text \<open>C36: The token stream refines a stack in front of the lexer. Reading from a stream gives the
  token on top of the stack, or the next token of the expression when the stack is empty, and
  leaves the stream that stack without it; pushing a token back, the doubling of a full slice
  included, puts it on top and changes nothing else. Both keep the bounds of the slice.\<close>

theorem tokenStream_refines_stack:
  assumes "stream_ok s"
  shows "stream_ok (snd (pop s)) \<and>
         spec_pop (contents s) = (fst (pop s), contents (snd (pop s))) \<and>
         stream_ok (push t s) \<and>
         contents (push t s) = (t # fst (contents s), snd (contents s))"
  using pop_spec [OF assms, of "fst (pop s)" "snd (pop s)"] push_spec [OF assms, of t] by simp

theorem tokenStream_refines_stack_witness:
  "contents (push (mk_token tokenIf) (newTokenStream ''n'')) = ([mk_token tokenIf], ''n'')"
  using tokenStream_refines_stack [of "newTokenStream ''n''" "mk_token tokenIf"] by simp

text \<open>Operators associate to the left and \<open>||\<close> binds tighter than \<open>&&\<close>: the table of precedences
  gives \<open>||\<close> level 2 and \<open>&&\<close> level 1, where C and the expressions of the gettext manual have it the
  other way round. For an expression that mixes them without parentheses the selector answers
  differently: it takes \<open>n==0||n==1&&n==2\<close> to be false at 0.\<close>

theorem or_binds_tighter_than_and:
  "parse ''n==0||n==1&&n==2'' =
     Inr (andNode (orNode (eqNode (varNode 0) (intNode 0)) (eqNode (varNode 0) (intNode 1)))
            (eqNode (varNode 0) (intNode 2))) \<and>
   (\<exists>g. createPluralFunc ''n==0||n==1&&n==2'' = Inr g \<and> g 0 = Inr 0)"
proof -
  have p: "parse ''n==0||n==1&&n==2'' =
     Inr (andNode (orNode (eqNode (varNode 0) (intNode 0)) (eqNode (varNode 0) (intNode 1)))
            (eqNode (varNode 0) (intNode 2)))"
    by code_simp
  then show ?thesis by (simp add: createPluralFunc_def eval_simps)
qed

text \<open>A plural function may panic: the evaluation of a division or a remainder by zero is not
  recovered, although the comment of \<open>Parse\<close> says that a function that fails to evaluate returns
  -1. The expression \<open>1/n\<close> parses, and its function panics at 0.\<close>

theorem plural_division_panics:
  "\<exists>g. Parse ''1/n'' = Inr g \<and> g 0 = Inl DivideByZero \<and> g 1 = Inr 1"
proof -
  have p: "parse ''1/n'' = Inr (divNode (intNode 1) (varNode 0))" by code_simp
  have "Parse ''1/n'' = createPluralFunc ''1/n''" by (simp add: Parse_def pluralFuncs_def)
  then show ?thesis
    by (simp add: p createPluralFunc_def eval_simps wrap64_def go_quot_def)
qed

end
