(* ===== verification/Go_Strings.thy ===== *)
theory Go_Strings
  imports Go_Prelude "HOL-Library.List_Lexorder" "HOL-Library.Sublist"
begin

text \<open>
  The functions of the Go packages \<open>strings\<close> and \<open>bytes\<close> the modelled code calls. A search that
  returns -1 in Go returns \<open>None\<close> here. The case mapping of runes outside ASCII is data of the
  Unicode tables: it is a parameter, \<open>ul\<close> or \<open>uu\<close>, of the functions
  that change the case of a string. A byte that is not part of a rune becomes U+FFFD.
\<close>

section \<open>Searching\<close>

fun index_where :: "('a \<Rightarrow> bool) \<Rightarrow> 'a list \<Rightarrow> nat option" where
  "index_where P [] = None"
| "index_where P (x # xs) = (if P x then Some 0 else map_option Suc (index_where P xs))"

abbreviation index_byte :: "string \<Rightarrow> char \<Rightarrow> nat option" where
  "index_byte s c \<equiv> index_where (\<lambda>x. x = c) s"

fun index_sub :: "'a list \<Rightarrow> 'a list \<Rightarrow> nat option" where
  "index_sub pat [] = (if pat = [] then Some 0 else None)"
| "index_sub pat (x # xs) =
     (if prefix pat (x # xs) then Some 0 else map_option Suc (index_sub pat xs))"

lemma index_where_None: "index_where P xs = None \<longleftrightarrow> (\<forall>x \<in> set xs. \<not> P x)"
  by (induction xs) auto

lemma index_where_Some:
  "index_where P xs = Some i \<Longrightarrow>
     i < length xs \<and> P (xs ! i) \<and> (\<forall>x \<in> set (take i xs). \<not> P x)"
  by (induction xs arbitrary: i) (auto split: if_splits)

lemma index_where_append:
  "\<forall>x \<in> set xs. \<not> P x \<Longrightarrow>
     index_where P (xs @ ys) = map_option (\<lambda>i. length xs + i) (index_where P ys)"
  by (cases "index_where P ys"; induction xs) auto

lemma index_where_prefix:
  "index_where P xs = Some i \<Longrightarrow> index_where P (xs @ ys) = Some i"
  by (induction xs arbitrary: i) (auto split: if_splits)

lemma index_sub_Some: "index_sub pat xs = Some i \<Longrightarrow> i + length pat \<le> length xs \<and> prefix pat (drop i xs)"
  by (induction xs arbitrary: i) (auto split: if_splits dest: prefix_length_le)

text \<open>\<open>IndexAny(s, chars)\<close>: the position of the first rune of \<open>s\<close> that is one of \<open>chars\<close>.\<close>

definition index_any :: "string \<Rightarrow> string \<Rightarrow> nat option" where
  "index_any s chars =
     map_option fst (find (\<lambda>(i, r). contains_rune chars r) (range_runes 0 s))"

section \<open>Splitting and joining\<close>

fun split_on :: "char \<Rightarrow> string \<Rightarrow> string list" where
  "split_on c [] = [[]]"
| "split_on c (x # xs) =
     (if x = c then [] # split_on c xs
      else (x # hd (split_on c xs)) # tl (split_on c xs))"

text \<open>\<open>SplitN(s, sep, 2)\<close> for a separator of one byte.\<close>

definition split2 :: "char \<Rightarrow> string \<Rightarrow> string list" where
  "split2 c s = (case index_byte s c of
     None \<Rightarrow> [s] | Some i \<Rightarrow> [take i s, drop (Suc i) s])"

fun join_with :: "char \<Rightarrow> string list \<Rightarrow> string" where
  "join_with c [] = []"
| "join_with c [x] = x"
| "join_with c (x # y # ys) = x @ c # join_with c (y # ys)"

lemma split_on_nonempty [simp]: "split_on c s \<noteq> []"
  by (cases s) auto

lemma split_on_code [code]:
  "split_on c [] = [[]]"
  "split_on c (x # xs) =
     (if x = c then [] # split_on c xs
      else case split_on c xs of [] \<Rightarrow> [] | p # ps \<Rightarrow> (x # p) # ps)"
  by (simp_all add: split_on_nonempty split: list.split)

lemma split_on_no_sep: "c \<notin> set s \<Longrightarrow> split_on c s = [s]"
  by (induction s) auto

lemma split_on_append: "c \<notin> set x \<Longrightarrow> split_on c (x @ c # s) = x # split_on c s"
  by (induction x) auto

text \<open>Splitting inverts joining for parts without the separator.\<close>

lemma split_on_join:
  "xs \<noteq> [] \<Longrightarrow> \<forall>x \<in> set xs. c \<notin> set x \<Longrightarrow> split_on c (join_with c xs) = xs"
  by (induction xs rule: join_with.induct) (auto simp: split_on_no_sep split_on_append)

lemma join_with_sep: "2 \<le> length xs \<Longrightarrow> c \<in> set (join_with c xs)"
  by (induction xs rule: join_with.induct) auto

lemma set_join_with: "set (join_with c xs) \<subseteq> insert c (\<Union>x \<in> set xs. set x)"
  by (induction xs rule: join_with.induct) auto

section \<open>Runes of a string, spaces and case\<close>

text \<open>The runes of a string with the bytes each was decoded from.\<close>

function chunks :: "string \<Rightarrow> (rune \<times> string) list" where
  "chunks s =
     (if s = [] then [] else
      (fst (decode_rune s), take (snd (decode_rune s)) s) # chunks (drop (snd (decode_rune s)) s))"
  by pat_completeness auto
termination
  by (relation "measure length") (auto simp: decode_rune_pos)

declare chunks.simps [simp del]

lemma chunks_Nil [simp]: "chunks [] = []"
  by (simp add: chunks.simps)

lemma chunks_ascii [simp]: "byte_val a < 0x80 \<Longrightarrow> chunks (a # s) = (byte_val a, [a]) # chunks s"
  by (simp add: chunks.simps [of "a # s"])

lemma chunks_code [code]:
  "chunks s = (case s of [] \<Rightarrow> [] | a # t \<Rightarrow>
     if byte_val a < 0x80 then (byte_val a, [a]) # chunks t
     else let (r, n) = decode_rune s in (r, take n s) # chunks (drop n s))"
  by (subst chunks.simps) (auto split: list.split simp: Let_def case_prod_beta)

lemma concat_chunks: "concat (map snd (chunks s)) = s"
  by (induction s rule: chunks.induct) (subst chunks.simps, simp)

definition is_space :: "rune \<Rightarrow> bool" where
  "is_space r \<longleftrightarrow> (0x09 \<le> r \<and> r \<le> 0x0D) \<or> r = 0x20 \<or> r = 0x85 \<or> r = 0xA0 \<or> r = 0x1680 \<or>
     (0x2000 \<le> r \<and> r \<le> 0x200A) \<or> r = 0x2028 \<or> r = 0x2029 \<or> r = 0x202F \<or> r = 0x205F \<or> r = 0x3000"

definition trim_space :: "string \<Rightarrow> string" where
  "trim_space s =
     (let strip = dropWhile (\<lambda>c. is_space (fst c))
      in concat (map snd (rev (strip (rev (strip (chunks s)))))))"

definition lower_rune :: "(rune \<Rightarrow> rune) \<Rightarrow> rune \<Rightarrow> rune" where
  "lower_rune ul r =
     (if r < 0x80 then (if 0x41 \<le> r \<and> r \<le> 0x5A then r + 0x20 else r) else ul r)"

definition to_lower :: "(rune \<Rightarrow> rune) \<Rightarrow> string \<Rightarrow> string" where
  "to_lower ul s = concat (map (\<lambda>c. encode_rune (lower_rune ul (fst c))) (chunks s))"

lemma trim_space_Nil [simp]: "trim_space [] = []"
  by (simp add: trim_space_def)

definition upper_rune :: "(rune \<Rightarrow> rune) \<Rightarrow> rune \<Rightarrow> rune" where
  "upper_rune uu r =
     (if r < 0x80 then (if 0x61 \<le> r \<and> r \<le> 0x7A then r - 0x20 else r) else uu r)"

definition to_upper :: "(rune \<Rightarrow> rune) \<Rightarrow> string \<Rightarrow> string" where
  "to_upper uu s = concat (map (\<lambda>c. encode_rune (upper_rune uu (fst c))) (chunks s))"

lemma contains_rune_chars:
  "\<forall>c \<in> set chars. byte_val c < 0x80 \<Longrightarrow> contains_rune chars r \<longleftrightarrow> r \<in> byte_val ` set chars"
proof -
  assume a: "\<forall>c \<in> set chars. byte_val c < 0x80"
  have "snd ` set (range_runes k chars) = byte_val ` set chars" for k
    using a by (induction chars arbitrary: k) auto
  then show ?thesis by (simp add: contains_rune_def)
qed

text \<open>Strings in ASCII: each byte is a rune.\<close>

definition ascii :: "string \<Rightarrow> bool" where
  "ascii s \<longleftrightarrow> list_all (\<lambda>c. byte_val c < 0x80) s"

lemma range_runes_ascii_list: "ascii s \<Longrightarrow> map snd (range_runes i s) = map byte_val s"
  by (induction s arbitrary: i) (auto simp: ascii_def)

lemma chunks_ascii_list: "ascii s \<Longrightarrow> chunks s = map (\<lambda>c. (byte_val c, [c])) s"
  by (induction s) (auto simp: ascii_def)

end
