(* ===== verification/Gettext.thy ===== *)
theory Gettext
  imports Go_Strings Pluralforms "HOL-Library.AList" "HOL-Library.Product_Lexorder" "HOL-Library.Multiset"
begin

text \<open>
  Message catalogs (\<open>gettext/gettext.go\<close>): messages with and without plural forms, the catalog
  that stores them by key, its lookups, and the order in which a catalog is written out. A Go map
  is an association list with distinct keys, whose order stands for the unspecified order in which
  Go iterates over the map. A nil pointer or slice is \<open>None\<close>.
\<close>

section \<open>Keys and messages\<close>

record Key =
  Key_Src :: string
  Key_Ctx :: string
  Key_HasCtx :: bool

record MessageInfo =
  UserComments :: "string list option"
  SourceComments :: "string list option"
  References :: "string list option"
  Flags :: "string list option"
  PrevSingular :: string
  PrevPlural :: string
  PrevCtx :: string
  HasPrevCtx :: bool

definition empty_info :: MessageInfo where
  "empty_info = \<lparr>UserComments = None, SourceComments = None, References = None, Flags = None,
     PrevSingular = [], PrevPlural = [], PrevCtx = [], HasPrevCtx = False\<rparr>"

text \<open>\<open>copy(make([]string, len(xs)), xs)\<close>, unless the slice is nil.\<close>

definition copy_slice :: "'a list option \<Rightarrow> 'a list option" where
  "copy_slice xs = (case xs of None \<Rightarrow> None | Some ys \<Rightarrow> Some (take (length ys) ys))"

definition MessageInfo_Clone :: "MessageInfo \<Rightarrow> MessageInfo" where
  "MessageInfo_Clone m =
     (let clone = empty_info\<lparr>PrevSingular := PrevSingular m, PrevPlural := PrevPlural m,
          PrevCtx := PrevCtx m, HasPrevCtx := HasPrevCtx m\<rparr>
      in clone\<lparr>UserComments := copy_slice (UserComments m),
           SourceComments := copy_slice (SourceComments m),
           References := copy_slice (References m),
           Flags := copy_slice (Flags m)\<rparr>)"

record SimpleMessage =
  sm_Src :: string
  sm_Dst :: string
  sm_Ctx :: string
  sm_HasCtx :: bool
  sm_info :: "MessageInfo option"

record PluralMessage =
  pm_Src :: "string list"
  pm_Dst :: "string list"
  pm_Ctx :: string
  pm_HasCtx :: bool
  pm_info :: "MessageInfo option"

datatype Message = Simple SimpleMessage | Plural PluralMessage

fun Message_Key :: "Message \<Rightarrow> Key" where
  "Message_Key (Simple m) =
     (if sm_HasCtx m then \<lparr>Key_Src = sm_Src m, Key_Ctx = sm_Ctx m, Key_HasCtx = True\<rparr>
      else \<lparr>Key_Src = sm_Src m, Key_Ctx = [], Key_HasCtx = False\<rparr>)"
| "Message_Key (Plural m) =
     (let src = (if length (pm_Src m) > 0 then pm_Src m ! 0 else []) in
      if pm_HasCtx m then \<lparr>Key_Src = src, Key_Ctx = pm_Ctx m, Key_HasCtx = True\<rparr>
      else \<lparr>Key_Src = src, Key_Ctx = [], Key_HasCtx = False\<rparr>)"

text \<open>\<open>Context\<close> returns \<open>ErrMissingContext\<close>, here \<open>None\<close>, for a message without a context.\<close>

fun Message_Context :: "Message \<Rightarrow> string option" where
  "Message_Context (Simple m) = (if sm_HasCtx m then Some (sm_Ctx m) else None)"
| "Message_Context (Plural m) = (if pm_HasCtx m then Some (pm_Ctx m) else None)"

fun Message_Get :: "Message \<Rightarrow> string" where
  "Message_Get (Simple m) = sm_Dst m"
| "Message_Get (Plural m) = []"

fun Message_GetPlural :: "Message \<Rightarrow> int \<Rightarrow> string" where
  "Message_GetPlural (Simple m) idx = []"
| "Message_GetPlural (Plural m) index =
     (if index \<ge> 0 \<and> index < int (length (pm_Dst m)) then pm_Dst m ! nat index else [])"

text \<open>\<open>Format\<close> is \<open>fmt.Sprintf\<close>, a parameter, applied to the text and the arguments.\<close>

definition Message_Format :: "(string \<Rightarrow> 'v list \<Rightarrow> string) \<Rightarrow> Message \<Rightarrow> string \<Rightarrow> 'v list \<Rightarrow> string" where
  "Message_Format sprintf m s a = sprintf s a"

fun Message_Clone :: "Message \<Rightarrow> Message" where
  "Message_Clone (Simple m) =
     Simple \<lparr>sm_Src = sm_Src m, sm_Dst = sm_Dst m, sm_Ctx = sm_Ctx m, sm_HasCtx = sm_HasCtx m,
       sm_info = map_option MessageInfo_Clone (sm_info m)\<rparr>"
| "Message_Clone (Plural m) =
     Plural \<lparr>pm_Src = take (length (pm_Src m)) (pm_Src m), pm_Dst = take (length (pm_Dst m)) (pm_Dst m),
       pm_Ctx = pm_Ctx m, pm_HasCtx = pm_HasCtx m,
       pm_info = map_option MessageInfo_Clone (pm_info m)\<rparr>"

text \<open>\<open>Info\<close> creates the meta-data on first use: it returns it and the message that holds it.\<close>

fun Message_Info :: "Message \<Rightarrow> MessageInfo \<times> Message" where
  "Message_Info (Simple m) = (case sm_info m of
      None \<Rightarrow> (empty_info, Simple (m\<lparr>sm_info := Some empty_info\<rparr>))
    | Some i \<Rightarrow> (i, Simple m))"
| "Message_Info (Plural m) = (case pm_info m of
      None \<Rightarrow> (empty_info, Plural (m\<lparr>pm_info := Some empty_info\<rparr>))
    | Some i \<Rightarrow> (i, Plural m))"

section \<open>The catalog\<close>

record Catalog =
  Header :: "(string \<times> string) list"
  Messages :: "(Key \<times> Message) list"
  PluralFunc :: pluralFunc
  cat_ctx :: string
  cat_hasCtx :: bool

definition NewCatalog :: Catalog where
  "NewCatalog = \<lparr>Header = [], Messages = [], PluralFunc = DefaultPluralFunc,
     cat_ctx = [], cat_hasCtx = False\<rparr>"

definition Catalog_Add :: "Message \<Rightarrow> Catalog \<Rightarrow> Catalog" where
  "Catalog_Add msg c = c\<lparr>Messages := AList.update (Message_Key msg) msg (Messages c)\<rparr>"

definition Catalog_Clone :: "Catalog \<Rightarrow> Catalog" where
  "Catalog_Clone c =
     (let clone = NewCatalog\<lparr>PluralFunc := PluralFunc c, cat_ctx := cat_ctx c,
          cat_hasCtx := cat_hasCtx c\<rparr>
      in fold (\<lambda>(k, v) cl. cl\<lparr>Messages := AList.update k (Message_Clone v) (Messages cl)\<rparr>)
           (Messages c) clone)"

definition SetContext :: "string \<Rightarrow> Catalog \<Rightarrow> Catalog" where
  "SetContext ctx c = c\<lparr>cat_ctx := ctx, cat_hasCtx := True\<rparr>"

definition RemoveContext :: "Catalog \<Rightarrow> Catalog" where
  "RemoveContext c = c\<lparr>cat_ctx := [], cat_hasCtx := False\<rparr>"

text \<open>The variadic arguments of a lookup are nil, \<open>None\<close>, when the caller gives none.\<close>

definition Catalog_Get ::
  "(string \<Rightarrow> 'v list \<Rightarrow> string) \<Rightarrow> Catalog \<Rightarrow> string \<Rightarrow> 'v list option \<Rightarrow> string" where
  "Catalog_Get sprintf c key a =
     (case map_of (Messages c) \<lparr>Key_Src = key, Key_Ctx = cat_ctx c, Key_HasCtx = cat_hasCtx c\<rparr> of
        Some msg \<Rightarrow>
          (case a of None \<Rightarrow> Message_Get msg
           | Some args \<Rightarrow> Message_Format sprintf msg (Message_Get msg) args)
      | None \<Rightarrow> [])"

definition Catalog_GetPlural ::
  "(string \<Rightarrow> 'v list \<Rightarrow> string) \<Rightarrow> Catalog \<Rightarrow> string \<Rightarrow> int \<Rightarrow> 'v list option \<Rightarrow> string go" where
  "Catalog_GetPlural sprintf c key num a =
     (case map_of (Messages c) \<lparr>Key_Src = key, Key_Ctx = cat_ctx c, Key_HasCtx = cat_hasCtx c\<rparr> of
        Some msg \<Rightarrow>
          bindE (PluralFunc c num) (\<lambda>index. Inr
            (case a of None \<Rightarrow> Message_GetPlural msg index
             | Some args \<Rightarrow> Message_Format sprintf msg (Message_GetPlural msg index) args))
      | None \<Rightarrow> Inr [])"

section \<open>The messages of a catalog in the order they are written\<close>

text \<open>\<open>m[k] = append(m[k], v)\<close> on a map of slices.\<close>

definition append_at :: "'k \<Rightarrow> 'v \<Rightarrow> ('k \<times> 'v list) list \<Rightarrow> ('k \<times> 'v list) list" where
  "append_at k v m = AList.update k ((case map_of m k of None \<Rightarrow> [] | Some vs \<Rightarrow> vs) @ [v]) m"

definition lookup_all :: "('k \<times> 'v list) list \<Rightarrow> 'k \<Rightarrow> 'v list" where
  "lookup_all m k = (case map_of m k of None \<Rightarrow> [] | Some vs \<Rightarrow> vs)"

definition sortedMessageKeys :: "(string \<times> Message list) list \<Rightarrow> string list" where
  "sortedMessageKeys m = sort (map fst m)"

text \<open>The body of the outer loop: the messages of one source string, those without a context
  first, then the ones with a context in the order of their contexts.\<close>

definition sorted_group :: "Message list \<Rightarrow> Message list" where
  "sorted_group ms =
     (let (msgs, ctxMap) = fold (\<lambda>msg (msgs, ctxMap). case Message_Context msg of
            None \<Rightarrow> (msgs @ [msg], ctxMap)
          | Some ctx \<Rightarrow> (msgs, append_at ctx msg ctxMap)) ms ([], [])
      in msgs @ concat (map (lookup_all ctxMap) (sortedMessageKeys ctxMap)))"

definition sortedMessages :: "Catalog \<Rightarrow> Message list" where
  "sortedMessages c =
     (let keyMap = fold (\<lambda>(k, v) m. append_at (Key_Src k) v m) (Messages c) []
      in concat (map (\<lambda>v. sorted_group (lookup_all keyMap v)) (sortedMessageKeys keyMap)))"

end
