(* ===== verification/Gettext_Mo.thy ===== *)
theory Gettext_Mo
  imports Gettext
begin

text \<open>
  GNU MO files (\<open>gettext/mo.go\<close>): the reader that loads a catalog from a seekable file, the parser
  of its header, and the writer that lays a catalog out as two tables of 32-bit lengths and offsets
  followed by the strings. A file is its bytes with a read position; the destination of the writer
  is a parameter, a function that appends bytes to it or fails.
\<close>

section \<open>Byte orders and reads\<close>

datatype byte_order = LittleEndian | BigEndian

fun le_val :: "string \<Rightarrow> int" where
  "le_val [] = 0"
| "le_val (b # bs) = byte_val b + 256 * le_val bs"

fun le_bytes :: "nat \<Rightarrow> int \<Rightarrow> string" where
  "le_bytes 0 x = []"
| "le_bytes (Suc n) x = char_of (x mod 256) # le_bytes n (x div 256)"

definition get_uint :: "byte_order \<Rightarrow> string \<Rightarrow> int" where
  "get_uint order bs = (case order of LittleEndian \<Rightarrow> le_val bs | BigEndian \<Rightarrow> le_val (rev bs))"

definition put_uint32 :: "byte_order \<Rightarrow> uint32 \<Rightarrow> string" where
  "put_uint32 order x = (case order of
     LittleEndian \<Rightarrow> le_bytes 4 (uint x) | BigEndian \<Rightarrow> rev (le_bytes 4 (uint x)))"

definition magicBigEndian :: int where "magicBigEndian = 0xde120495"

definition magicLittleEndian :: int where "magicLittleEndian = 0x950412de"

datatype mo_error =
    EOF
  | ErrUnexpectedEOF
  | UnknownByteOrder
  | BadRevision int int
  | BadPluralForms parse_error
  | MalformedPluralForms string

record readSeeker =
  rs_data :: string
  rs_pos :: nat

definition Seek :: "int \<Rightarrow> readSeeker \<Rightarrow> readSeeker" where
  "Seek offset r = r\<lparr>rs_pos := nat offset\<rparr>"

text \<open>\<open>binary.Read\<close> fills a buffer of \<open>n\<close> bytes by \<open>io.ReadFull\<close>: nothing is read for an empty
  buffer, and a file that ends within the buffer is told from one that ends before it.\<close>

definition read_full :: "nat \<Rightarrow> readSeeker \<Rightarrow> mo_error + string \<times> readSeeker" where
  "read_full n r =
     (let avail = drop (rs_pos r) (rs_data r) in
      if n = 0 then Inr ([], r)
      else if avail = [] then Inl EOF
      else if length avail < n then Inl ErrUnexpectedEOF
      else Inr (take n avail, r\<lparr>rs_pos := rs_pos r + n\<rparr>))"

definition read_uint :: "nat \<Rightarrow> byte_order \<Rightarrow> readSeeker \<Rightarrow> mo_error + int \<times> readSeeker" where
  "read_uint n order r = bindE (read_full n r) (\<lambda>(bs, r'). Inr (get_uint order bs, r'))"

text \<open>\<open>for k, _ := range rev { binary.Read(r, order, &rev[k]) }\<close>\<close>

fun read_uints :: "nat \<Rightarrow> nat \<Rightarrow> byte_order \<Rightarrow> readSeeker \<Rightarrow> mo_error + int list \<times> readSeeker" where
  "read_uints sz 0 order r = Inr ([], r)"
| "read_uints sz (Suc k) order r =
     bindE (read_uint sz order r) (\<lambda>(x, r).
     bindE (read_uints sz k order r) (\<lambda>(xs, r). Inr (x # xs, r)))"

section \<open>The header\<close>

definition header_line :: "(rune \<Rightarrow> rune) \<Rightarrow> string \<Rightarrow> (string \<times> string) list \<times> string \<Rightarrow> (string \<times> string) list \<times> string" where
  "header_line ul ln st =
     (let (header, lastk) = st; ln = trim_space ln in
      if ln = [] then (header, lastk)
      else case index_byte ln (CHR '':'') of
        Some i \<Rightarrow>
          (let k = to_lower ul (trim_space (take i ln)); v = trim_space (drop (i + 1) ln)
           in (AList.update k v header, k))
      | None \<Rightarrow>
          if lastk \<noteq> []
          then (AList.update lastk ((case map_of header lastk of None \<Rightarrow> [] | Some v \<Rightarrow> v) @
                 CHR 0x0A # ln) header, lastk)
          else (header, lastk))"

definition readMoHeader :: "(rune \<Rightarrow> rune) \<Rightarrow> Catalog \<Rightarrow> string \<Rightarrow> Catalog" where
  "readMoHeader ul c header =
     c\<lparr>Header := fst (fold (header_line ul) (split_on (CHR 0x0A) header) (Header c, []))\<rparr>"

fun getPluralFunc_loop :: "string \<Rightarrow> string list \<Rightarrow> mo_error + pluralFunc" where
  "getPluralFunc_loop header [] = Inl (MalformedPluralForms header)"
| "getPluralFunc_loop header (part # parts) =
     (case split2 (CHR ''='') part of
        [k, v] \<Rightarrow>
          if trim_space k = ''plural''
          then (case Parse v of Inr fn \<Rightarrow> Inr fn | Inl err \<Rightarrow> Inl (BadPluralForms err))
          else getPluralFunc_loop header parts
      | _ \<Rightarrow> getPluralFunc_loop header parts)"

definition getPluralFunc :: "string \<Rightarrow> mo_error + pluralFunc" where
  "getPluralFunc header = getPluralFunc_loop header (split_on (CHR '';'') header)"

section \<open>The reader\<close>

text \<open>The message and its translation the body of the loop reads from the two tables.\<close>

definition read_pair :: "byte_order \<Rightarrow> int \<Rightarrow> int \<Rightarrow> readSeeker \<Rightarrow> mo_error + string \<times> string \<times> readSeeker" where
  "read_pair order mTableIdx tTableIdx r =
     bindE (read_uint 4 order (Seek mTableIdx r)) (\<lambda>(mLen, r).
     bindE (read_uint 4 order r) (\<lambda>(mIdx, r).
     bindE (read_full (nat mLen) (Seek mIdx r)) (\<lambda>(mb, r).
     bindE (read_uint 4 order (Seek tTableIdx r)) (\<lambda>(tLen, r).
     bindE (read_uint 4 order r) (\<lambda>(tIdx, r).
     bindE (read_full (nat tLen) (Seek tIdx r)) (\<lambda>(tb, r).
     Inr (mb, tb, r)))))))"

definition add_pair :: "(rune \<Rightarrow> rune) \<Rightarrow> string \<Rightarrow> string \<Rightarrow> Catalog \<Rightarrow> Catalog" where
  "add_pair ul mb tb c =
     (if length mb = 0 then readMoHeader ul c tb
      else
        let (mStr, ctx, hasCtx) = (case index_byte mb (CHR 0x04) of
              Some ctxIdx \<Rightarrow> (drop (ctxIdx + 1) mb, take ctxIdx mb, True)
            | None \<Rightarrow> (mb, [], False))
        in case index_byte mStr (CHR 0x00) of
             None \<Rightarrow> Catalog_Add (Simple \<lparr>sm_Src = mStr, sm_Dst = tb, sm_Ctx = ctx, sm_HasCtx = hasCtx,
               sm_info = None\<rparr>) c
           | Some keyIdx \<Rightarrow> Catalog_Add (Plural \<lparr>pm_Src = split_on (CHR 0x00) mStr,
               pm_Dst = split_on (CHR 0x00) tb, pm_Ctx = ctx, pm_HasCtx = hasCtx, pm_info = None\<rparr>) c)"

fun read_messages ::
  "(rune \<Rightarrow> rune) \<Rightarrow> byte_order \<Rightarrow> nat \<Rightarrow> int \<Rightarrow> int \<Rightarrow> readSeeker \<Rightarrow> Catalog \<Rightarrow> Catalog \<times> mo_error option" where
  "read_messages ul order 0 mTableIdx tTableIdx r c = (c, None)"
| "read_messages ul order (Suc n) mTableIdx tTableIdx r c =
     (case read_pair order mTableIdx tTableIdx r of
        Inl err \<Rightarrow> (c, Some err)
      | Inr (mb, tb, r) \<Rightarrow>
          read_messages ul order n (mTableIdx + 8) (tTableIdx + 8) r (add_pair ul mb tb c))"

definition set_plural :: "Catalog \<Rightarrow> Catalog \<times> mo_error option" where
  "set_plural c = (case map_of (Header c) ''plural-forms'' of
     None \<Rightarrow> (c, None)
   | Some header \<Rightarrow> (case getPluralFunc header of
       Inl err \<Rightarrow> (c, Some err)
     | Inr fn \<Rightarrow> (c\<lparr>PluralFunc := fn\<rparr>, None)))"

definition read_preamble :: "readSeeker \<Rightarrow> mo_error + byte_order \<times> int list \<times> readSeeker" where
  "read_preamble r =
     bindE (read_uint 4 LittleEndian r) (\<lambda>(magic, r).
     bindE (if magic = magicLittleEndian then Inr LittleEndian
            else if magic = magicBigEndian then Inr BigEndian
            else Inl UnknownByteOrder) (\<lambda>order.
     bindE (read_uints 2 2 order r) (\<lambda>(rev, r).
     if rev ! 0 > 1 \<or> rev ! 1 > 1 then Inl (BadRevision (rev ! 0) (rev ! 1))
     else bindE (read_uints 4 5 order r) (\<lambda>(idx, r). Inr (order, idx, r)))))"

definition MoReader_Read :: "(rune \<Rightarrow> rune) \<Rightarrow> Catalog \<Rightarrow> readSeeker \<Rightarrow> Catalog \<times> mo_error option" where
  "MoReader_Read ul c r =
     (case read_preamble r of
        Inl err \<Rightarrow> (c, Some err)
      | Inr (order, idx, r) \<Rightarrow>
          (case read_messages ul order (nat (idx ! 0)) (idx ! 1) (idx ! 2) r c of
             (c, Some err) \<Rightarrow> (c, Some err)
           | (c, None) \<Rightarrow> set_plural c))"

section \<open>The writer\<close>

record moMessageWriter =
  mw_src :: string
  mw_dst :: string
  srcIdx :: uint32
  dstIdx :: uint32
  srcList :: "uint32 list"
  dstList :: "uint32 list"

definition getHeader :: "Catalog \<Rightarrow> Message" where
  "getHeader c =
     Simple \<lparr>sm_Src = [], sm_Dst = concat (map (\<lambda>(k, v). k @ '': '' @ v) (Header c)),
       sm_Ctx = [], sm_HasCtx = False, sm_info = None\<rparr>"

text \<open>The two strings the writer stores for a message.\<close>

definition src_string :: "Message \<Rightarrow> string" where
  "src_string msg =
     (case Message_Context msg of Some ctx \<Rightarrow> ctx @ [CHR 0x04] | None \<Rightarrow> []) @
     (case msg of Simple t \<Rightarrow> sm_Src t | Plural t \<Rightarrow> join_with (CHR 0x00) (pm_Src t))"

definition dst_string :: "Message \<Rightarrow> string" where
  "dst_string msg =
     (case msg of Simple t \<Rightarrow> sm_Dst t | Plural t \<Rightarrow> join_with (CHR 0x00) (pm_Dst t))"

definition mw_append :: "Message \<Rightarrow> moMessageWriter \<Rightarrow> moMessageWriter" where
  "mw_append msg m =
     (let src = src_string msg; dst = dst_string msg;
          sLen = (of_nat (length src) :: uint32); dLen = (of_nat (length dst) :: uint32)
      in m\<lparr>mw_src := mw_src m @ src @ [CHR 0x00], mw_dst := mw_dst m @ dst @ [CHR 0x00],
           srcList := srcList m @ [sLen, srcIdx m], dstList := dstList m @ [dLen, dstIdx m],
           srcIdx := srcIdx m + (sLen + 1), dstIdx := dstIdx m + (dLen + 1)\<rparr>)"

text \<open>\<open>for i := 0; i < len(m.dstList); i += 2 { m.dstList[i+1] += m.srcIdx }\<close>\<close>

fun add_offsets :: "uint32 \<Rightarrow> uint32 list \<Rightarrow> uint32 list" where
  "add_offsets d (l # p # xs) = l # (p + d) # add_offsets d xs"
| "add_offsets d xs = xs"

definition newMoMessageWriter :: "Catalog \<Rightarrow> uint32 list \<times> string" where
  "newMoMessageWriter c =
     (let count = length (Messages c) + 1;
          m = \<lparr>mw_src = [], mw_dst = [], srcIdx = of_nat (28 + count * 16), dstIdx = 0,
               srcList = [], dstList = []\<rparr>;
          m = mw_append (getHeader c) m;
          m = fold mw_append (sortedMessages c) m;
          m = m\<lparr>dstList := add_offsets (srcIdx m) (dstList m)\<rparr>;
          m = m\<lparr>mw_src := mw_src m @ mw_dst m\<rparr>
      in (srcList m @ dstList m, mw_src m))"

definition put_uint32s :: "byte_order \<Rightarrow> uint32 list \<Rightarrow> string" where
  "put_uint32s order xs = concat (map (put_uint32 order) xs)"

definition MoWriter_Write :: "('w \<Rightarrow> string \<Rightarrow> 'e + 'w) \<Rightarrow> Catalog \<Rightarrow> 'w \<Rightarrow> 'e + 'w" where
  "MoWriter_Write write c w =
     (let order = LittleEndian;
          count = length (Messages c) + 1;
          (idxs, msgs) = newMoMessageWriter c;
          mTableIdx = 28;
          tTableIdx = mTableIdx + count * 8;
          table = [word_of_int magicLittleEndian, 0, of_nat count, of_nat mTableIdx, of_nat tTableIdx, 0, 0]
      in bindE (write w (put_uint32s order table)) (\<lambda>w.
         bindE (write w (put_uint32s order idxs)) (\<lambda>w.
         write w msgs)))"

end
