(* ===== verification/Gettext_Correct.thy ===== *)
theory Gettext_Correct
  imports Gettext
begin

text \<open>
  Properties of message catalogs: the interface of a store of messages by key and its
  interpretation on the catalog, the lookups, the copies, and the order \<open>sortedMessages\<close> computes,
  which is that of a stable sort by key whatever the iteration order of the map.
\<close>

section \<open>A store of messages by key\<close>

locale keyed_store =
  fixes key :: "'m \<Rightarrow> 'k" and add :: "'m \<Rightarrow> 's \<Rightarrow> 's" and find_key :: "'s \<Rightarrow> 'k \<Rightarrow> 'm option"
  assumes find_add: "find_key (add m s) k = (if k = key m then Some m else find_key s k)"
begin

lemma find_add_same: "find_key (add m s) (key m) = Some m"
  by (simp add: find_add)

lemma find_add_other: "k \<noteq> key m \<Longrightarrow> find_key (add m s) k = find_key s k"
  by (simp add: find_add)

text \<open>Adding messages with distinct keys one after the other makes each of them found.\<close>

lemma find_fold_add:
  "distinct (map key ms) \<Longrightarrow>
     find_key (fold add ms s) k =
       (case map_of (map (\<lambda>m. (key m, m)) ms) k of Some m \<Rightarrow> Some m | None \<Rightarrow> find_key s k)"
proof (induction ms arbitrary: s)
  case (Cons m ms)
  then have "find_key (fold add ms (add m s)) k =
      (case map_of (map (\<lambda>m. (key m, m)) ms) k of Some m' \<Rightarrow> Some m' | None \<Rightarrow> find_key (add m s) k)"
    by simp
  moreover have "map_of (map (\<lambda>m. (key m, m)) ms) (key m) = None"
    using Cons.prems by (auto simp: map_of_eq_None_iff image_image)
  ultimately show ?case by (auto simp: find_add split: option.split)
qed simp

end

interpretation cat: keyed_store Message_Key Catalog_Add "\<lambda>c. map_of (Messages c)"
  by unfold_locales (simp add: Catalog_Add_def update_conv')

section \<open>Grouping in a map of slices\<close>

lemma map_of_append_at:
  "map_of (append_at k v m) k' =
     (if k' = k then Some (lookup_all m k @ [v]) else map_of m k')"
  by (simp add: append_at_def lookup_all_def update_conv')

lemma distinct_append_at: "distinct (map fst m) \<Longrightarrow> distinct (map fst (append_at k v m))"
  by (simp add: append_at_def distinct_update)

lemma keys_append_at: "set (map fst (append_at k v m)) = insert k (set (map fst m))"
  by (auto simp: append_at_def update_keys)

abbreviation group_into :: "('x \<Rightarrow> 'k) \<Rightarrow> ('x \<Rightarrow> 'v) \<Rightarrow> 'x list \<Rightarrow> ('k \<times> 'v list) list \<Rightarrow> ('k \<times> 'v list) list" where
  "group_into f g xs m \<equiv> fold (\<lambda>x. append_at (f x) (g x)) xs m"

lemma lookup_all_group: "lookup_all (group_into f g xs m) k = lookup_all m k @ map g (filter (\<lambda>x. f x = k) xs)"
  by (induction xs arbitrary: m) (auto simp: lookup_all_def map_of_append_at)

lemma distinct_group: "distinct (map fst m) \<Longrightarrow> distinct (map fst (group_into f g xs m))"
  by (induction xs arbitrary: m) (auto simp: distinct_append_at)

lemma keys_group: "set (map fst (group_into f g xs m)) = f ` set xs \<union> set (map fst m)"
  by (induction xs arbitrary: m) (auto simp: keys_append_at simp del: set_map)

lemma lookup_all_Nil [simp]: "lookup_all [] k = []"
  by (simp add: lookup_all_def)

text \<open>The keys of a group, sorted: a strictly increasing enumeration of the keys in use.\<close>

lemma sorted_keys_group:
  fixes xs :: "'x list" and f :: "'x \<Rightarrow> string" and g :: "'x \<Rightarrow> Message"
  shows "sorted_wrt (<) (sortedMessageKeys (group_into f g xs []))"
    and "set (sortedMessageKeys (group_into f g xs [])) = f ` set xs"
proof -
  have "distinct (sort (map fst (group_into f g xs [])))" by (simp add: distinct_group)
  then show "sorted_wrt (<) (sortedMessageKeys (group_into f g xs []))"
    by (simp add: sortedMessageKeys_def strict_sorted_iff)
  show "set (sortedMessageKeys (group_into f g xs [])) = f ` set xs"
    using keys_group [of f g xs "[]"] by (simp add: sortedMessageKeys_def)
qed

section \<open>Sorting by blocks\<close>

lemma sorted_map_concat:
  "sorted (map r (concat xss)) \<longleftrightarrow>
     (\<forall>xs \<in> set xss. sorted (map r xs)) \<and>
     sorted_wrt (\<lambda>xs ys. \<forall>x \<in> set xs. \<forall>y \<in> set ys. r x \<le> r y) xss"
  by (induction xss) (auto simp: sorted_append)

lemma mset_concat_blocks:
  assumes "distinct ks" "f ` set xs \<subseteq> set ks"
  shows "mset (concat (map (\<lambda>k. filter (\<lambda>x. f x = k) xs) ks)) = mset xs"
  using assms(2)
proof (induction xs)
  case (Cons x xs)
  have "mset (concat (map (\<lambda>k. if f x = k then x # h k else h k) js)) =
      (if f x \<in> set js then add_mset x (mset (concat (map h js))) else mset (concat (map h js)))"
    if "distinct js" for h js
    using that by (induction js) auto
  from this [OF assms(1), of "\<lambda>k. filter (\<lambda>x. f x = k) xs"] Cons show ?case by simp
qed simp

definition rank :: "Message \<Rightarrow> string \<times> bool \<times> string" where
  "rank m = (let k = Message_Key m in (Key_Src k, Key_HasCtx k, Key_Ctx k))"

lemma rank_inj: "rank m = rank m' \<longleftrightarrow> Message_Key m = Message_Key m'"
  by (auto simp: rank_def Let_def intro: Key.equality)

lemma rank_context:
  "rank m = (Key_Src (Message_Key m),
     (case Message_Context m of None \<Rightarrow> (False, []) | Some ctx \<Rightarrow> (True, ctx)))"
  by (cases m) (simp_all add: rank_def Let_def)

text \<open>\<open>sorted_group\<close> without its accumulators.\<close>

lemma sorted_group_fold:
  "fold (\<lambda>msg (msgs, ctxMap). case Message_Context msg of
        None \<Rightarrow> (msgs @ [msg], ctxMap)
      | Some ctx \<Rightarrow> (msgs, append_at ctx msg ctxMap)) ms (a, m) =
   (a @ filter (\<lambda>x. Message_Context x = None) ms,
    group_into (\<lambda>x. the (Message_Context x)) id (filter (\<lambda>x. Message_Context x \<noteq> None) ms) m)"
  by (induction ms arbitrary: a m) (auto split: option.split)

lemma sorted_group_eq:
  "sorted_group ms =
     (let withs = filter (\<lambda>x. Message_Context x \<noteq> None) ms in
      filter (\<lambda>x. Message_Context x = None) ms @
      concat (map (\<lambda>ctx. filter (\<lambda>x. the (Message_Context x) = ctx) withs)
        (sortedMessageKeys (group_into (\<lambda>x. the (Message_Context x)) id withs []))))"
proof -
  let ?ws = "filter (\<lambda>x. Message_Context x \<noteq> None) ms"
  have "lookup_all (group_into (\<lambda>x. the (Message_Context x)) id ?ws []) =
      (\<lambda>ctx. filter (\<lambda>x. the (Message_Context x) = ctx) ?ws)"
    by (rule ext) (subst lookup_all_group, simp)
  then show ?thesis unfolding sorted_group_def sorted_group_fold by (simp only: Let_def prod.case append_Nil)
qed

lemma mset_sorted_group: "mset (sorted_group ms) = mset ms"
proof -
  let ?ws = "filter (\<lambda>x. Message_Context x \<noteq> None) ms" and ?f = "\<lambda>x. the (Message_Context x)"
  let ?ks = "sortedMessageKeys (group_into ?f id ?ws [])"
  have "mset (concat (map (\<lambda>k. filter (\<lambda>x. ?f x = k) ?ws) ?ks)) = mset ?ws"
    using sorted_keys_group [of ?f id ?ws] by (intro mset_concat_blocks) (auto simp: strict_sorted_iff)
  then show ?thesis by (simp add: sorted_group_eq Let_def)
qed

text \<open>Within the messages of one source string the blocks are in the order of the ranks.\<close>

lemma sorted_sorted_group:
  assumes "\<forall>m \<in> set ms. Key_Src (Message_Key m) = src" and "distinct (map Message_Key ms)"
  shows "sorted (map rank (sorted_group ms))"
proof -
  let ?ws = "filter (\<lambda>x. Message_Context x \<noteq> None) ms" and ?f = "\<lambda>x. the (Message_Context x)"
  let ?ks = "sortedMessageKeys (group_into ?f id ?ws [])"
  have r: "rank m = (src, case Message_Context m of None \<Rightarrow> (False, []) | Some c \<Rightarrow> (True, c))"
    if "m \<in> set ms" for m
    using that assms(1) by (simp add: rank_context)
  have same: "sorted (map rank xs)" if "set xs \<subseteq> set ms" "\<forall>x \<in> set xs. Message_Context x = c" for xs c
  proof -
    have "map rank xs = replicate (length xs) (src, case c of None \<Rightarrow> (False, []) | Some c \<Rightarrow> (True, c))"
      using that r by (intro replicate_eqI) (auto simp: subset_iff)
    then show ?thesis by simp
  qed
  have ks: "sorted_wrt (<) ?ks" by (rule sorted_keys_group)
  have "sorted (map rank (concat (map (\<lambda>ctx. filter (\<lambda>x. ?f x = ctx) ?ws) ?ks)))"
    unfolding sorted_map_concat
  proof (intro conjI ballI)
    fix xs
    assume "xs \<in> set (map (\<lambda>ctx. filter (\<lambda>x. ?f x = ctx) ?ws) ?ks)"
    then obtain ctx where "xs = filter (\<lambda>x. ?f x = ctx) ?ws" by auto
    then show "sorted (map rank xs)" by (intro same [of xs "Some ctx"]) auto
  next
    show "sorted_wrt (\<lambda>xs ys. \<forall>x \<in> set xs. \<forall>y \<in> set ys. rank x \<le> rank y)
        (map (\<lambda>ctx. filter (\<lambda>x. ?f x = ctx) ?ws) ?ks)"
      unfolding sorted_wrt_map using ks
      by (rule sorted_wrt_mono_rel [rotated]) (auto simp: r)
  qed
  moreover have "sorted (map rank (filter (\<lambda>x. Message_Context x = None) ms))"
    by (rule same [of _ None]) auto
  moreover have "rank x \<le> rank y"
    if "x \<in> set ms" "Message_Context x = None" "y \<in> set ms" "Message_Context y \<noteq> None" for x y
    using that by (auto simp: r)
  ultimately show ?thesis
    by (auto simp: sorted_group_eq Let_def sorted_append)
qed

text \<open>A catalog is well formed if its map is one, and stores each message under its own key, as
  \<open>Add\<close> does.\<close>

definition catalog_wf :: "Catalog \<Rightarrow> bool" where
  "catalog_wf c \<longleftrightarrow> distinct (map fst (Messages c)) \<and> (\<forall>(k, m) \<in> set (Messages c). Message_Key m = k)"

lemma catalog_wf_keys: "catalog_wf c \<Longrightarrow> map Message_Key (map snd (Messages c)) = map fst (Messages c)"
  by (auto simp: catalog_wf_def)

lemma sortedMessages_eq:
  assumes "catalog_wf c"
  shows "sortedMessages c =
    concat (map (\<lambda>src. sorted_group (filter (\<lambda>m. Key_Src (Message_Key m) = src) (map snd (Messages c))))
      (sortedMessageKeys (group_into (\<lambda>x. Key_Src (fst x)) snd (Messages c) [])))"
proof -
  have g: "fold (\<lambda>(k, v). append_at (Key_Src k) v) (Messages c) [] =
      group_into (\<lambda>x. Key_Src (fst x)) snd (Messages c) []"
    by (simp add: case_prod_beta')
  have "lookup_all (group_into (\<lambda>x. Key_Src (fst x)) snd (Messages c) []) src =
      filter (\<lambda>m. Key_Src (Message_Key m) = src) (map snd (Messages c))" for src
    using assms by (simp add: lookup_all_group filter_map o_def)
      (intro arg_cong [of _ _ "map snd"] filter_cong, auto simp: catalog_wf_def)
  then show ?thesis unfolding sortedMessages_def g by (simp add: Let_def)
qed

lemma sortedMessages_sorts:
  assumes "catalog_wf c"
  shows "mset (sortedMessages c) = mset (map snd (Messages c))"
    and "sorted (map rank (sortedMessages c))"
proof -
  let ?ms = "map snd (Messages c)" and ?f = "\<lambda>m. Key_Src (Message_Key m)"
  let ?ks = "sortedMessageKeys (group_into (\<lambda>x. Key_Src (fst x)) snd (Messages c) [])"
  note ks = sorted_keys_group [of "\<lambda>x. Key_Src (fst x)" snd "Messages c"]
  have cover: "?f ` set ?ms \<subseteq> set ?ks"
    using assms unfolding ks(2) by (force simp: catalog_wf_def)
  have dist: "distinct (map Message_Key ?ms)"
    unfolding catalog_wf_keys [OF assms] using assms by (simp add: catalog_wf_def)
  have "mset (concat (map (\<lambda>k. sorted_group (filter (\<lambda>m. ?f m = k) ?ms)) ?ks)) =
      mset (concat (map (\<lambda>k. filter (\<lambda>m. ?f m = k) ?ms) ?ks))"
    by (simp add: mset_concat o_def mset_sorted_group)
  also have "\<dots> = mset ?ms"
    using cover ks(1) by (intro mset_concat_blocks) (simp_all add: strict_sorted_iff)
  finally show "mset (sortedMessages c) = mset ?ms" by (simp add: sortedMessages_eq [OF assms])
  have grp: "set (sorted_group ms) = set ms" for ms
    using mset_sorted_group [of ms] by (metis set_mset_mset)
  show "sorted (map rank (sortedMessages c))"
    unfolding sortedMessages_eq [OF assms] sorted_map_concat
  proof (intro conjI ballI)
    fix xs
    assume "xs \<in> set (map (\<lambda>k. sorted_group (filter (\<lambda>m. ?f m = k) ?ms)) ?ks)"
    then obtain k where "xs = sorted_group (filter (\<lambda>m. ?f m = k) ?ms)" by auto
    then show "sorted (map rank xs)"
      using dist by (auto intro!: sorted_sorted_group [where src = k] distinct_map_filter)
  next
    show "sorted_wrt (\<lambda>xs ys. \<forall>x \<in> set xs. \<forall>y \<in> set ys. rank x \<le> rank y)
        (map (\<lambda>k. sorted_group (filter (\<lambda>m. ?f m = k) ?ms)) ?ks)"
      unfolding sorted_wrt_map using ks(1)
      by (rule sorted_wrt_mono_rel [rotated]) (auto simp: grp rank_context)
  qed
qed

section \<open>Copies\<close>

lemma MessageInfo_Clone_id [simp]: "MessageInfo_Clone i = i"
  by (cases i) (simp add: MessageInfo_Clone_def empty_info_def copy_slice_def option.case_eq_if)

lemma Message_Clone_id [simp]: "Message_Clone m = m"
proof -
  have "MessageInfo_Clone = id" by (rule ext) simp
  then show ?thesis by (cases m) (auto simp: option.map_id intro: SimpleMessage.equality PluralMessage.equality)
qed

lemma fold_clone:
  "fold (\<lambda>(k, v) cl. cl\<lparr>Messages := AList.update k (Message_Clone v) (Messages cl)\<rparr>) xs cl =
     cl\<lparr>Messages := fold (\<lambda>(k, v). AList.update k v) xs (Messages cl)\<rparr>"
  by (induction xs arbitrary: cl) auto

lemma update_new: "k \<notin> fst ` set ys \<Longrightarrow> AList.update k v ys = ys @ [(k, v)]"
  by (induction ys) auto

lemma fold_update_append:
  "distinct (map fst (ys @ xs)) \<Longrightarrow> fold (\<lambda>(k, v). AList.update k v) xs ys = ys @ xs"
proof (induction xs arbitrary: ys)
  case (Cons x xs)
  obtain k v where x: "x = (k, v)" by fastforce
  have "k \<notin> fst ` set ys" using Cons.prems by (auto simp: x)
  then have "AList.update k v ys = ys @ [(k, v)]" by (rule update_new)
  then show ?case using Cons by (simp add: x)
qed simp

lemma clone_of_wf:
  assumes "catalog_wf c"
  shows "Catalog_Clone c = c\<lparr>Header := []\<rparr>"
  using assms fold_update_append [of "[]" "Messages c"]
  unfolding Catalog_Clone_def Let_def fold_clone
  by (intro Catalog.equality) (simp_all add: NewCatalog_def catalog_wf_def)

lemma in_set_updateD: "x \<in> set (AList.update k v xs) \<Longrightarrow> x = (k, v) \<or> x \<in> set xs"
  by (induction xs) (auto split: if_splits)

text \<open>The context in which a message is looked up, and a catalog to try lookups on.\<close>

definition in_context_of :: "Message \<Rightarrow> Catalog \<Rightarrow> Catalog" where
  "in_context_of msg c = (case Message_Context msg of
     None \<Rightarrow> RemoveContext c | Some ctx \<Rightarrow> SetContext ctx c)"

lemma in_context_of_key:
  "\<lparr>Key_Src = Key_Src (Message_Key msg), Key_Ctx = cat_ctx (in_context_of msg c),
     Key_HasCtx = cat_hasCtx (in_context_of msg c)\<rparr> = Message_Key msg"
  "Messages (in_context_of msg c) = Messages c"
  "PluralFunc (in_context_of msg c) = PluralFunc c"
  by (cases msg; simp add: in_context_of_def SetContext_def RemoveContext_def Let_def)+

definition example_catalog :: Catalog where
  "example_catalog = Catalog_Add (Simple \<lparr>sm_Src = ''b'', sm_Dst = ''B'', sm_Ctx = [], sm_HasCtx = False, sm_info = None\<rparr>)
     (Catalog_Add (Simple \<lparr>sm_Src = ''a'', sm_Dst = ''A'', sm_Ctx = ''x'', sm_HasCtx = True, sm_info = None\<rparr>) NewCatalog)"

lemma example_catalog_wf: "catalog_wf example_catalog"
  by (simp add: example_catalog_def catalog_wf_def Catalog_Add_def NewCatalog_def)

section \<open>Properties\<close>

text \<open>C32: The order in which a catalog is written does not depend on the order Go iterates over its
  maps: for catalogs with the same entries, in any order, \<open>sortedMessages\<close> gives the same list, the
  messages sorted by source string, those without a context first and then by context.\<close>

theorem sortedMessages_canonical:
  assumes "catalog_wf c" and "catalog_wf c'" and "set (Messages c) = set (Messages c')"
  shows "sortedMessages c = sort_key rank (map snd (Messages c)) \<and>
         sortedMessages c' = sortedMessages c"
proof -
  have sorts: "sort_key rank (map snd (Messages d)) = sortedMessages d" if "catalog_wf d" for d
  proof (rule sort_key_inj_key_eq)
    show "mset (map snd (Messages d)) = mset (sortedMessages d)"
      by (rule sortedMessages_sorts(1) [OF that, symmetric])
    have "distinct (map Message_Key (map snd (Messages d)))"
      unfolding catalog_wf_keys [OF that] using that by (simp add: catalog_wf_def)
    then show "inj_on rank (set (map snd (Messages d)))"
      by (auto simp: distinct_map inj_on_def rank_inj)
    show "sorted (map rank (sortedMessages d))" by (rule sortedMessages_sorts(2) [OF that])
  qed
  have "mset (Messages c) = mset (Messages c')"
    using assms by (simp add: catalog_wf_def set_eq_iff_mset_eq_distinct distinct_map)
  then have "mset (map snd (Messages c)) = mset (map snd (Messages c'))" by simp
  moreover have "inj_on rank (set (map snd (Messages c)))"
    using catalog_wf_keys [OF assms(1)] assms(1)
    by (auto simp: inj_on_def rank_inj catalog_wf_def distinct_map)
  ultimately have "sort_key rank (map snd (Messages c)) = sortedMessages c'"
    using sortedMessages_sorts(2) [OF assms(2)] sortedMessages_sorts(1) [OF assms(2)]
    by (intro sort_key_inj_key_eq) simp_all
  then show ?thesis using sorts [OF assms(1)] by simp
qed

theorem sortedMessages_canonical_witness:
  "catalog_wf example_catalog \<and>
   sortedMessages example_catalog = sort_key rank (map snd (Messages example_catalog)) \<and>
   sortedMessages (example_catalog\<lparr>Messages := rev (Messages example_catalog)\<rparr>) =
     sortedMessages example_catalog"
proof -
  have "catalog_wf (example_catalog\<lparr>Messages := rev (Messages example_catalog)\<rparr>)"
    using example_catalog_wf by (simp add: catalog_wf_def rev_map [symmetric])
  then show ?thesis using example_catalog_wf
      sortedMessages_canonical [OF example_catalog_wf, of "example_catalog\<lparr>Messages := rev (Messages example_catalog)\<rparr>"]
    by simp
qed

text \<open>C33: A message that has been added is found under its key in its own context, and every other key
  is looked up as before: \<open>Get\<close> gives its translation, and \<open>GetPlural\<close> the form of the index the
  selector of the catalog picks for the number (the empty string when the index is out of range).\<close>

theorem added_message_is_found:
  "Catalog_Get sprintf (in_context_of msg (Catalog_Add msg c)) (Key_Src (Message_Key msg)) None =
     Message_Get msg \<and>
   Catalog_GetPlural sprintf (in_context_of msg (Catalog_Add msg c)) (Key_Src (Message_Key msg)) num None =
     bindE (PluralFunc c num) (\<lambda>i. Inr (Message_GetPlural msg i)) \<and>
   (k \<noteq> Message_Key msg \<longrightarrow>
      map_of (Messages (Catalog_Add msg c)) k = map_of (Messages c) k)"
  using cat.find_add_same [of msg c] cat.find_add_other [of k msg c]
    in_context_of_key [of msg "Catalog_Add msg c"]
  by (simp add: Catalog_Get_def Catalog_GetPlural_def) (simp add: Catalog_Add_def)

theorem added_message_is_found_witness:
  "map_of (Messages (Catalog_Add (Simple \<lparr>sm_Src = ''b'', sm_Dst = ''B'', sm_Ctx = [], sm_HasCtx = False, sm_info = None\<rparr>) NewCatalog))
     \<lparr>Key_Src = ''a'', Key_Ctx = [], Key_HasCtx = False\<rparr> = None"
  using added_message_is_found [of "\<lambda>s (a :: nat list). s" "Simple \<lparr>sm_Src = ''b'', sm_Dst = ''B'', sm_Ctx = [], sm_HasCtx = False, sm_info = None\<rparr>"
    NewCatalog 0 "\<lparr>Key_Src = ''a'', Key_Ctx = [], Key_HasCtx = False\<rparr>"]
  by (simp add: NewCatalog_def)

text \<open>C34: \<open>Add\<close> and \<open>Clone\<close> keep a catalog well formed: one message for each key, stored under the key
  it computes.\<close>

theorem catalog_wf_preserved:
  assumes "catalog_wf c"
  shows "catalog_wf NewCatalog \<and> catalog_wf (Catalog_Add msg c) \<and> catalog_wf (Catalog_Clone c) \<and>
         catalog_wf (SetContext ctx c) \<and> catalog_wf (RemoveContext c)"
  using assms
  by (auto simp: catalog_wf_def NewCatalog_def Catalog_Add_def distinct_update clone_of_wf
      SetContext_def RemoveContext_def dest: in_set_updateD)

theorem catalog_wf_preserved_witness:
  "catalog_wf example_catalog \<and> catalog_wf (Catalog_Clone example_catalog)"
  using catalog_wf_preserved [OF example_catalog_wf] example_catalog_wf by simp

text \<open>\<open>Clone\<close> copies the messages, the selector and the active context, and every message and its
  meta-data is copied entirely; but it does not copy the header: the clone of a catalog has none,
  although the comment says that it is a copy of the catalog.\<close>

theorem Catalog_Clone_drops_header:
  assumes "catalog_wf c"
  shows "Catalog_Clone c = c\<lparr>Header := []\<rparr>"
  by (rule clone_of_wf [OF assms])

theorem Catalog_Clone_drops_header_witness:
  "let c = example_catalog\<lparr>Header := [(''language'', ''fr'')]\<rparr>
   in Catalog_Clone c = example_catalog \<and> Header c \<noteq> Header (Catalog_Clone c)"
proof -
  have "catalog_wf (example_catalog\<lparr>Header := [(''language'', ''fr'')]\<rparr>)"
    using example_catalog_wf by (simp add: catalog_wf_def)
  from Catalog_Clone_drops_header [OF this] show ?thesis
    by (simp add: example_catalog_def Catalog_Add_def NewCatalog_def)
qed

end
