(* ===== verification/Gettext_Mo_Correct.thy ===== *)
theory Gettext_Mo_Correct
  imports Gettext_Mo Gettext_Correct
begin

text \<open>
  Properties of MO files: the codec of machine words in each byte order, the layout of the file the
  writer produces, the reader on that layout, and the round trip of a catalog through a file.
\<close>

section \<open>A codec of 32-bit words\<close>

locale word_codec =
  fixes put :: "uint32 \<Rightarrow> string" and get :: "string \<Rightarrow> int"
  assumes length_put: "length (put x) = 4" and get_put: "get (put x) = uint x"
begin

lemma length_puts: "length (concat (map put xs)) = 4 * length xs"
  by (induction xs) (simp_all add: length_put)

text \<open>A table of words is read back at each index.\<close>

lemma get_puts:
  "i < length xs \<Longrightarrow> get (take 4 (drop (4 * i) (concat (map put xs)))) = uint (xs ! i)"
proof (induction xs arbitrary: i)
  case (Cons x xs)
  then show ?case by (cases i) (simp_all add: length_put get_put)
qed simp

end

lemma le_val_bytes: "0 \<le> x \<Longrightarrow> le_val (le_bytes n x) = x mod 256 ^ n"
proof (induction n arbitrary: x)
  case (Suc n)
  have "x mod 256 ^ Suc n = x mod 256 + 256 * (x div 256 mod 256 ^ n)"
    using mod_mult2_eq' [of x 256 "256 ^ n"] by (simp add: mod_mult2_eq' zmod_zmult2_eq)
  then show ?case using Suc by simp
qed simp

lemma length_le_bytes [simp]: "length (le_bytes n x) = n"
  by (induction n arbitrary: x) auto

lemma le_val_uint32: "le_val (le_bytes 4 (uint x)) = uint (x :: uint32)"
  using uint_bounded [of x] by (simp add: le_val_bytes)

interpretation little: word_codec "put_uint32 LittleEndian" "get_uint LittleEndian"
  by unfold_locales (simp_all add: put_uint32_def get_uint_def le_val_uint32)

interpretation big: word_codec "put_uint32 BigEndian" "get_uint BigEndian"
  by unfold_locales (simp_all add: put_uint32_def get_uint_def le_val_uint32)

lemma put_uint32_order:
  "length (put_uint32 order x) = 4" "get_uint order (put_uint32 order x) = uint x"
  by (cases order; simp add: little.length_put big.length_put little.get_put big.get_put)+

lemma length_put_uint32s [simp]: "length (put_uint32s order xs) = 4 * length xs"
  by (cases order) (simp_all add: put_uint32s_def little.length_puts big.length_puts)

lemma put_uint32s_append [simp]:
  "put_uint32s order (xs @ ys) = put_uint32s order xs @ put_uint32s order ys"
  by (simp add: put_uint32s_def)

section \<open>Bytes at a position of a file\<close>

definition bytes_at :: "string \<Rightarrow> nat \<Rightarrow> string \<Rightarrow> bool" where
  "bytes_at d p bs \<longleftrightarrow> p + length bs \<le> length d \<and> take (length bs) (drop p d) = bs"

lemma bytes_at_append:
  "bytes_at d p (xs @ ys) \<longleftrightarrow> bytes_at d p xs \<and> bytes_at d (p + length xs) ys"
proof -
  have "take (length xs + length ys) (drop p d) =
      take (length xs) (drop p d) @ take (length ys) (drop (p + length xs) d)"
    by (simp add: take_add add.commute)
  then show ?thesis by (auto simp: bytes_at_def append_eq_append_conv)
qed

lemma bytes_at_middle: "bytes_at (xs @ bs @ ys) (length xs) bs"
  by (simp add: bytes_at_def)

lemma read_full_at:
  assumes "bytes_at (rs_data r) (rs_pos r) bs"
  shows "read_full (length bs) r = Inr (bs, r\<lparr>rs_pos := rs_pos r + length bs\<rparr>)"
  using assms by (cases bs) (auto simp: bytes_at_def read_full_def Let_def)

lemma read_uint_at:
  assumes "bytes_at (rs_data r) (rs_pos r) (put_uint32 order x)"
  shows "read_uint 4 order r = Inr (uint x, r\<lparr>rs_pos := rs_pos r + 4\<rparr>)"
  using read_full_at [OF assms] by (simp add: read_uint_def put_uint32_order)

section \<open>The layout the writer produces\<close>

text \<open>Strings with their terminators, and the table of their lengths and offsets from \<open>p\<close> on.\<close>

definition zstrings :: "string list \<Rightarrow> string" where
  "zstrings ss = concat (map (\<lambda>s. s @ [CHR 0x00]) ss)"

fun entries :: "nat \<Rightarrow> string list \<Rightarrow> uint32 list" where
  "entries p [] = []"
| "entries p (s # ss) = of_nat (length s) # of_nat p # entries (p + length s + 1) ss"

lemma length_entries [simp]: "length (entries p ss) = 2 * length ss"
  by (induction ss arbitrary: p) auto

lemma zstrings_Cons [simp]: "zstrings [] = []" "zstrings (s # ss) = s @ CHR 0x00 # zstrings ss"
  by (simp_all add: zstrings_def)

lemma fold_mw_append:
  assumes "srcIdx m = of_nat p" "dstIdx m = of_nat q"
  shows "fold mw_append ms m =
    m\<lparr>mw_src := mw_src m @ zstrings (map src_string ms), mw_dst := mw_dst m @ zstrings (map dst_string ms),
      srcIdx := of_nat (p + length (zstrings (map src_string ms))),
      dstIdx := of_nat (q + length (zstrings (map dst_string ms))),
      srcList := srcList m @ entries p (map src_string ms),
      dstList := dstList m @ entries q (map dst_string ms)\<rparr>"
  using assms
proof (induction ms arbitrary: m p q)
  case (Cons msg ms)
  let ?m = "mw_append msg m"
  have "srcIdx ?m = of_nat (p + length (src_string msg) + 1)"
    "dstIdx ?m = of_nat (q + length (dst_string msg) + 1)"
    using Cons.prems by (simp_all add: mw_append_def Let_def)
  from Cons.IH [OF this] show ?case
    using Cons.prems by (simp add: mw_append_def Let_def algebra_simps)
qed simp

lemma add_offsets_entries: "add_offsets (of_nat d) (entries q ss) = entries (q + d) ss"
  by (induction ss arbitrary: q) (simp_all add: algebra_simps)

definition written :: "Catalog \<Rightarrow> Message list" where
  "written c = getHeader c # sortedMessages c"

lemma newMoMessageWriter_layout:
  "newMoMessageWriter c =
     (let p = 28 + (length (Messages c) + 1) * 16; ss = map src_string (written c); ds = map dst_string (written c)
      in (entries p ss @ entries (p + length (zstrings ss)) ds, zstrings ss @ zstrings ds))"
proof -
  let ?m = "\<lparr>mw_src = [], mw_dst = [], srcIdx = of_nat (28 + (length (Messages c) + 1) * 16), dstIdx = 0,
               srcList = [], dstList = []\<rparr> :: moMessageWriter"
  have "fold mw_append (written c) ?m =
    ?m\<lparr>mw_src := zstrings (map src_string (written c)), mw_dst := zstrings (map dst_string (written c)),
      srcIdx := of_nat (28 + (length (Messages c) + 1) * 16 + length (zstrings (map src_string (written c)))),
      dstIdx := of_nat (0 + length (zstrings (map dst_string (written c)))),
      srcList := entries (28 + (length (Messages c) + 1) * 16) (map src_string (written c)),
      dstList := entries 0 (map dst_string (written c))\<rparr>"
    by (subst fold_mw_append [where p = "28 + (length (Messages c) + 1) * 16" and q = 0]) simp_all
  then have f: "fold mw_append (sortedMessages c) (mw_append (getHeader c) ?m) = \<dots>"
    by (simp add: written_def)
  show ?thesis
    unfolding newMoMessageWriter_def Let_def f
    by (simp add: add_offsets_entries del: of_nat_add of_nat_mult)
qed

section \<open>The reader on that layout\<close>

lemma read_pair_at:
  assumes d: "rs_data r = d" "int (length d) < 2 ^ 32"
    and m: "bytes_at d mT (put_uint32s order [of_nat (length s), of_nat p])" "bytes_at d p s"
    and t: "bytes_at d tT (put_uint32s order [of_nat (length t), of_nat q])" "bytes_at d q t"
  shows "\<exists>r'. read_pair order (int mT) (int tT) r = Inr (s, t, r') \<and> rs_data r' = d"
proof -
  have small: "uint (of_nat n :: uint32) = int n" if "n \<le> length d" for n
    using that d(2) by (simp add: unsigned_of_nat take_bit_nat_eq_self)
  note fits = m(2) [unfolded bytes_at_def] t(2) [unfolded bytes_at_def]
  have pair: "read_uint 4 order (Seek (int k) r) = Inr (uint x, r\<lparr>rs_pos := k + 4\<rparr>)"
    "read_uint 4 order (r\<lparr>rs_pos := k + 4\<rparr>) = Inr (uint y, r\<lparr>rs_pos := k + 8\<rparr>)"
    if "bytes_at (rs_data r) k (put_uint32s order [x, y])" for r k x y
    using that read_uint_at [of "r\<lparr>rs_pos := k\<rparr>" order x] read_uint_at [of "r\<lparr>rs_pos := k + 4\<rparr>" order y]
    by (simp_all add: Seek_def put_uint32s_def bytes_at_append put_uint32_order)
  have body: "read_full (length bs) (Seek (int k) r) = Inr (bs, r\<lparr>rs_pos := k + length bs\<rparr>)"
    if "bytes_at (rs_data r) k bs" for r k bs
    using read_full_at [of "r\<lparr>rs_pos := k\<rparr>" bs] that by (simp add: Seek_def)
  show ?thesis
    using pair [of r mT "of_nat (length s)" "of_nat p"] body [of "r\<lparr>rs_pos := mT + 8\<rparr>" p s]
      pair [of "r\<lparr>rs_pos := p + length s\<rparr>" tT "of_nat (length t)" "of_nat q"]
      body [of "r\<lparr>rs_pos := tT + 8\<rparr>" q t] d(1) m t fits
    by (simp add: read_pair_def small)
qed

lemma read_messages_at:
  assumes "rs_data r = d" "int (length d) < 2 ^ 32" "length ss = length ts"
    and "bytes_at d mT (put_uint32s order (entries p ss))" "bytes_at d p (zstrings ss)"
    and "bytes_at d tT (put_uint32s order (entries q ts))" "bytes_at d q (zstrings ts)"
  shows "read_messages ul order (length ss) (int mT) (int tT) r c =
    (fold (\<lambda>(s, t). add_pair ul s t) (zip ss ts) c, None)"
  using assms
proof (induction ss arbitrary: ts mT tT p q r c)
  case (Cons s ss)
  from Cons.prems(3) obtain t us where ts: "ts = t # us" by (cases ts) auto
  have e: "bytes_at d k (put_uint32s order (entries n (x # xs))) \<longleftrightarrow>
      bytes_at d k (put_uint32s order [of_nat (length x), of_nat n]) \<and>
      bytes_at d (k + 8) (put_uint32s order (entries (n + length x + 1) xs))" for k n x xs
    using bytes_at_append [of d k "put_uint32s order [of_nat (length x), of_nat n]"]
    by (simp add: put_uint32s_def put_uint32_order)
  have z: "bytes_at d k (zstrings (x # xs)) \<longleftrightarrow>
      bytes_at d k x \<and> bytes_at d (k + length x) [CHR 0x00] \<and> bytes_at d (k + length x + 1) (zstrings xs)"
    for k x xs
    using bytes_at_append [of d k x "[CHR 0x00] @ zstrings xs"]
      bytes_at_append [of d "k + length x" "[CHR 0x00]" "zstrings xs"] by simp
  note at = Cons.prems(4-) [unfolded ts e z]
  from at obtain r' where r': "read_pair order (int mT) (int tT) r = Inr (s, t, r')" "rs_data r' = d"
    using read_pair_at [OF Cons.prems(1,2), of mT order s p tT t q] by auto
  have "read_messages ul order (length ss) (int (mT + 8)) (int (tT + 8)) r' (add_pair ul s t c) =
      (fold (\<lambda>(s, t). add_pair ul s t) (zip ss us) (add_pair ul s t c), None)"
    using at Cons.prems(2,3) r'(2) ts
    by (intro Cons.IH [of _ _ _ "p + length s + 1" _ "q + length t + 1"]) (simp_all add: add.assoc)
  then show ?case using r' by (simp add: ts)
qed simp

section \<open>Messages as strings and back\<close>

text \<open>What a file keeps of a message: not its meta-data, nor a context that is not in use.\<close>

fun as_read :: "Message \<Rightarrow> Message" where
  "as_read (Simple m) = Simple (m\<lparr>sm_Ctx := if sm_HasCtx m then sm_Ctx m else [], sm_info := None\<rparr>)"
| "as_read (Plural m) = Plural (m\<lparr>pm_Ctx := if pm_HasCtx m then pm_Ctx m else [], pm_info := None\<rparr>)"

text \<open>A message the format can represent: its strings do not contain the separators, a plural
  message has a plural source string and a translation, and the whole is not mistaken for the header.\<close>

definition clean_context :: "bool \<Rightarrow> string \<Rightarrow> string \<Rightarrow> bool" where
  "clean_context has ctx src \<longleftrightarrow>
     (if has then CHR 0x04 \<notin> set ctx else src \<noteq> [] \<and> CHR 0x04 \<notin> set src)"

fun mo_ok :: "Message \<Rightarrow> bool" where
  "mo_ok (Simple m) \<longleftrightarrow> CHR 0x00 \<notin> set (sm_Src m) \<and> clean_context (sm_HasCtx m) (sm_Ctx m) (sm_Src m)"
| "mo_ok (Plural m) \<longleftrightarrow> length (pm_Src m) \<ge> 2 \<and> pm_Dst m \<noteq> [] \<and>
     list_all (\<lambda>s. CHR 0x00 \<notin> set s) (pm_Src m @ pm_Dst m) \<and>
     clean_context (pm_HasCtx m) (pm_Ctx m) (concat (pm_Src m))"

lemma Message_Key_as_read [simp]: "Message_Key (as_read m) = Message_Key m"
  by (cases m) (simp_all add: Let_def)

lemma index_byte_sep: "c \<notin> set xs \<Longrightarrow> index_byte (xs @ c # ys) c = Some (length xs)"
  by (subst index_where_append) auto

lemma index_byte_None: "index_byte s c = None \<longleftrightarrow> c \<notin> set s"
  by (auto simp: index_where_None)

lemma index_byte_in: "c \<in> set s \<Longrightarrow> \<exists>i. index_byte s c = Some i"
  using index_byte_None [of c s] by auto

text \<open>The context is found again, whatever the source string.\<close>

lemma split_context:
  assumes "clean_context has ctx src" and "\<not> has \<Longrightarrow> CHR 0x04 \<notin> set body"
  shows "(case index_byte ((if has then ctx @ [CHR 0x04] else []) @ body) (CHR 0x04) of
            Some i \<Rightarrow> (drop (i + 1) ((if has then ctx @ [CHR 0x04] else []) @ body),
                       take i ((if has then ctx @ [CHR 0x04] else []) @ body), True)
          | None \<Rightarrow> ((if has then ctx @ [CHR 0x04] else []) @ body, [], False)) =
         (body, if has then ctx else [], has)"
  using assms index_byte_sep [of "CHR 0x04" ctx body] index_byte_None [of "CHR 0x04" body]
  by (auto simp: clean_context_def)

lemma add_pair_message:
  assumes "mo_ok m"
  shows "add_pair ul (src_string m) (dst_string m) c = Catalog_Add (as_read m) c"
proof (cases m)
  case (Simple t)
  have src: "src_string m = (if sm_HasCtx t then sm_Ctx t @ [CHR 0x04] else []) @ sm_Src t"
    by (simp add: src_string_def Simple)
  have ok: "clean_context (sm_HasCtx t) (sm_Ctx t) (sm_Src t)" "index_byte (sm_Src t) (CHR 0x00) = None"
    using assms by (simp_all add: Simple index_byte_None)
  then have "src_string m \<noteq> []" by (auto simp: src clean_context_def)
  with ok show ?thesis
    unfolding add_pair_def src by (subst split_context [OF ok(1)])
      (auto simp: Simple dst_string_def clean_context_def intro: arg_cong [where f = "\<lambda>m. Catalog_Add m c"])
next
  case (Plural t)
  let ?b = "join_with (CHR 0x00) (pm_Src t)"
  have src: "src_string m = (if pm_HasCtx t then pm_Ctx t @ [CHR 0x04] else []) @ ?b"
    by (simp add: src_string_def Plural)
  have ok: "clean_context (pm_HasCtx t) (pm_Ctx t) (concat (pm_Src t))" "2 \<le> length (pm_Src t)"
    "\<forall>s \<in> set (pm_Src t). CHR 0x00 \<notin> set s" "\<forall>s \<in> set (pm_Dst t). CHR 0x00 \<notin> set s" "pm_Dst t \<noteq> []"
    using assms by (simp_all add: Plural list_all_iff)
  have sep: "CHR 0x00 \<in> set ?b" by (rule join_with_sep [OF ok(2)])
  then obtain i where i: "index_byte ?b (CHR 0x00) = Some i" using index_byte_in by blast
  have "src_string m \<noteq> []" using sep by (auto simp: src)
  moreover have "CHR 0x04 \<notin> set ?b" if "\<not> pm_HasCtx t"
    using ok(1) that set_join_with [of "CHR 0x00" "pm_Src t"] by (auto simp: clean_context_def)
  moreover have "split_on (CHR 0x00) ?b = pm_Src t" using ok(2,3) by (intro split_on_join) auto
  moreover have "split_on (CHR 0x00) (dst_string m) = pm_Dst t"
    using ok(4,5) by (simp add: dst_string_def Plural split_on_join)
  ultimately show ?thesis
    unfolding add_pair_def src using i by (subst split_context [OF ok(1)])
      (auto simp: Plural intro: arg_cong [where f = "\<lambda>m. Catalog_Add m c"])
qed

lemma fold_Catalog_Add:
  "distinct (map fst (Messages c) @ map Message_Key ms) \<Longrightarrow>
     fold Catalog_Add ms c = c\<lparr>Messages := Messages c @ map (\<lambda>m. (Message_Key m, m)) ms\<rparr>"
proof (induction ms arbitrary: c)
  case (Cons m ms)
  have "Message_Key m \<notin> fst ` set (Messages c)" using Cons.prems by auto
  then have "Catalog_Add m c = c\<lparr>Messages := Messages c @ [(Message_Key m, m)]\<rparr>"
    by (simp add: Catalog_Add_def update_new)
  then show ?case using Cons by simp
qed simp

lemma fold_add_pairs:
  assumes "\<forall>m \<in> set ms. mo_ok m"
  shows "fold (\<lambda>(s, t). add_pair ul s t) (zip (map src_string ms) (map dst_string ms)) c =
    fold Catalog_Add (map as_read ms) c"
  using assms by (induction ms arbitrary: c) (simp_all add: add_pair_message)

section \<open>The header through a file\<close>

definition trimmed :: "string \<Rightarrow> bool" where
  "trimmed s \<longleftrightarrow> s \<noteq> [] \<and> \<not> is_space (fst (hd (chunks s))) \<and> \<not> is_space (fst (last (chunks s)))"

lemma chunks_Nil_iff: "chunks s = [] \<longleftrightarrow> s = []"
  by (metis chunks_Nil concat_chunks concat.simps(1) list.map(1))

lemma chunks_ascii_append:
  "\<forall>c \<in> set a. byte_val c < 0x80 \<Longrightarrow> chunks (a @ b) = map (\<lambda>c. (byte_val c, [c])) a @ chunks b"
  by (induction a) simp_all

lemma dropWhile_hd: "xs \<noteq> [] \<Longrightarrow> \<not> P (hd xs) \<Longrightarrow> dropWhile P xs = xs"
  by (cases xs) auto

lemma trim_space_trimmed: "trimmed s \<Longrightarrow> trim_space s = s"
  by (simp add: trimmed_def trim_space_def dropWhile_hd chunks_Nil_iff hd_rev concat_chunks)

lemma trim_space_front: "trimmed s \<Longrightarrow> trim_space (CHR '' '' # s) = s"
proof -
  assume t: "trimmed s"
  have "dropWhile (\<lambda>c. is_space (fst c)) (chunks (CHR '' '' # s)) = chunks s"
    using t by (simp add: trimmed_def dropWhile_hd chunks_Nil_iff byte_val_def is_space_def)
  then show ?thesis using trim_space_trimmed [OF t] t
    by (simp add: trim_space_def trimmed_def dropWhile_hd chunks_Nil_iff)
qed

text \<open>A header that the file format of the writer can represent: at most one field, with a lower
  case ASCII name, and neither the name nor the value beginning or ending with a space.\<close>

definition lower_ascii :: "char \<Rightarrow> bool" where
  "lower_ascii c \<longleftrightarrow> byte_val c < 0x80 \<and> \<not> (0x41 \<le> byte_val c \<and> byte_val c \<le> 0x5A) \<and>
     c \<noteq> CHR '':'' \<and> c \<noteq> CHR 0x0A"

fun header_ok :: "(string \<times> string) list \<Rightarrow> bool" where
  "header_ok [] = True"
| "header_ok [(k, v)] \<longleftrightarrow> trimmed k \<and> list_all lower_ascii k \<and> trimmed v \<and> CHR 0x0A \<notin> set v"
| "header_ok _ = False"

lemma to_lower_lower_ascii: "list_all lower_ascii k \<Longrightarrow> to_lower ul k = k"
proof (induction k)
  case (Cons c k)
  then have "byte_val c < 0x80" "lower_rune ul (byte_val c) = byte_val c"
    by (auto simp: lower_ascii_def lower_rune_def)
  then show ?case using Cons
    by (simp add: to_lower_def encode_rune_ascii char_of_byte_val)
qed (simp add: to_lower_def)

lemma readMoHeader_written:
  assumes "header_ok (Header c)"
  shows "readMoHeader ul NewCatalog (dst_string (getHeader c)) = NewCatalog\<lparr>Header := Header c\<rparr>"
  using assms
proof (cases "Header c" rule: header_ok.cases)
  case 1
  then show ?thesis by (simp add: getHeader_def dst_string_def readMoHeader_def header_line_def NewCatalog_def)
next
  case (2 k v)
  then have ok: "trimmed k" "list_all lower_ascii k" "trimmed v" "CHR 0x0A \<notin> set v"
    using assms by simp_all
  let ?l = "k @ '': '' @ v"
  have ascii: "\<forall>c \<in> set k. byte_val c < 0x80" "CHR 0x0A \<notin> set k" "CHR '':'' \<notin> set k"
    using ok(2) by (auto simp: list_all_iff lower_ascii_def)
  have ch: "chunks ?l = map (\<lambda>c. (byte_val c, [c])) k @ chunks ('': '' @ v)"
    "chunks k = map (\<lambda>c. (byte_val c, [c])) k"
    using chunks_ascii_append [OF ascii(1), of "'': '' @ v"] chunks_ascii_append [OF ascii(1), of "[]"] by simp_all
  have "chunks ('': '' @ v) = (58, '':'') # (32, '' '') # chunks v" by (simp add: byte_val_def)
  then have "trimmed ?l"
    using ok(1,3) unfolding trimmed_def ch by (simp add: chunks_Nil_iff)
  moreover have "split_on (CHR 0x0A) ?l = [?l]"
    using ok(4) ascii(2) by (intro split_on_no_sep) auto
  moreover have "index_byte ?l (CHR '':'') = Some (length k)"
    using index_byte_sep [OF ascii(3), of "'' '' @ v"] by simp
  ultimately show ?thesis
    using 2 ok by (simp add: getHeader_def dst_string_def readMoHeader_def header_line_def NewCatalog_def
        trim_space_trimmed trim_space_front to_lower_lower_ascii Let_def)
qed simp

section \<open>The preamble\<close>

lemma read_uints_at:
  "bytes_at (rs_data r) (rs_pos r) (put_uint32s order xs) \<Longrightarrow>
     read_uints 4 (length xs) order r = Inr (map uint xs, r\<lparr>rs_pos := rs_pos r + 4 * length xs\<rparr>)"
proof (induction xs arbitrary: r)
  case (Cons x xs)
  then have "bytes_at (rs_data r) (rs_pos r) (put_uint32 order x)"
    "bytes_at (rs_data r) (rs_pos r + 4) (put_uint32s order xs)"
    by (simp_all add: put_uint32s_def bytes_at_append put_uint32_order)
  then show ?case using Cons.IH [of "r\<lparr>rs_pos := rs_pos r + 4\<rparr>"] by (simp add: read_uint_at)
qed simp

definition mo_file :: "byte_order \<Rightarrow> Catalog \<Rightarrow> string" where
  "mo_file order c =
     (let (idxs, msgs) = newMoMessageWriter c; count = length (Messages c) + 1
      in put_uint32s order [word_of_int magicLittleEndian, 0, of_nat count, 28, of_nat (28 + count * 8), 0, 0] @
         put_uint32s order idxs @ msgs)"

definition buffer_write :: "string \<Rightarrow> string \<Rightarrow> unit + string" where
  "buffer_write w bs = Inr (w @ bs)"

lemma Write_mo_file: "MoWriter_Write buffer_write c w = Inr (w @ mo_file LittleEndian c)"
  by (simp add: MoWriter_Write_def mo_file_def Let_def buffer_write_def case_prod_beta)

lemma read_magic:
  "get_uint LittleEndian (put_uint32 order (word_of_int magicLittleEndian)) =
     (case order of LittleEndian \<Rightarrow> magicLittleEndian | BigEndian \<Rightarrow> magicBigEndian)"
proof -
  have "get_uint LittleEndian (put_uint32 LittleEndian (word_of_int magicLittleEndian)) = magicLittleEndian"
    by code_simp
  moreover have "get_uint LittleEndian (put_uint32 BigEndian (word_of_int magicLittleEndian)) = magicBigEndian"
    by code_simp
  ultimately show ?thesis by (simp split: byte_order.split)
qed

lemma put_zero: "put_uint32 order 0 = [CHR 0x00, CHR 0x00, CHR 0x00, CHR 0x00]"
  by (cases order) (simp_all add: put_uint32_def numeral_eq_Suc char_of_def)

lemma read_preamble_at:
  assumes "rs_pos r = 0"
    and at: "bytes_at (rs_data r) 0 (put_uint32s order (word_of_int magicLittleEndian # 0 # xs))"
    and "length xs = 5"
  shows "read_preamble r = Inr (order, map uint xs, r\<lparr>rs_pos := 28\<rparr>)"
proof -
  let ?magic = "word_of_int magicLittleEndian :: uint32"
  have at': "bytes_at (rs_data r) 0 (put_uint32 order ?magic)"
    "bytes_at (rs_data r) 4 [CHR 0x00, CHR 0x00]" "bytes_at (rs_data r) 6 [CHR 0x00, CHR 0x00]"
    "bytes_at (rs_data r) 8 (put_uint32s order xs)"
  proof -
    have "put_uint32s order (?magic # 0 # xs) =
        put_uint32 order ?magic @ [CHR 0x00, CHR 0x00] @ [CHR 0x00, CHR 0x00] @ put_uint32s order xs"
      by (simp add: put_uint32s_def put_zero)
    from at [unfolded this bytes_at_append] show "bytes_at (rs_data r) 0 (put_uint32 order ?magic)"
      "bytes_at (rs_data r) 4 [CHR 0x00, CHR 0x00]" "bytes_at (rs_data r) 6 [CHR 0x00, CHR 0x00]"
      "bytes_at (rs_data r) 8 (put_uint32s order xs)"
      by (simp_all add: put_uint32_order)
  qed
  have magic: "read_full 4 r = Inr (put_uint32 order ?magic, r\<lparr>rs_pos := 4\<rparr>)"
    using read_full_at [of r "put_uint32 order ?magic"] at'(1) assms(1) by (simp add: put_uint32_order)
  have rev: "read_full 2 (r\<lparr>rs_pos := 4\<rparr>) = Inr ([CHR 0x00, CHR 0x00], r\<lparr>rs_pos := 6\<rparr>)"
    "read_full 2 (r\<lparr>rs_pos := 6\<rparr>) = Inr ([CHR 0x00, CHR 0x00], r\<lparr>rs_pos := 8\<rparr>)"
    using read_full_at [of "r\<lparr>rs_pos := 4\<rparr>" "[CHR 0x00, CHR 0x00]"] at'(2)
      read_full_at [of "r\<lparr>rs_pos := 6\<rparr>" "[CHR 0x00, CHR 0x00]"] at'(3)
    by (simp_all add: numeral_2_eq_2)
  have zero: "get_uint order [CHR 0x00, CHR 0x00] = 0"
    by (cases order) (simp_all add: get_uint_def byte_val_def)
  have revs: "read_uints 2 2 order (r\<lparr>rs_pos := 4\<rparr>) = Inr ([0, 0], r\<lparr>rs_pos := 8\<rparr>)"
    using rev zero by (simp add: numeral_2_eq_2 read_uint_def)
  have "read_uints 4 5 order (r\<lparr>rs_pos := 8\<rparr>) = Inr (map uint xs, r\<lparr>rs_pos := 28\<rparr>)"
    using read_uints_at [of "r\<lparr>rs_pos := 8\<rparr>" order xs] at'(4) assms(3) by simp
  moreover have "magicBigEndian \<noteq> magicLittleEndian"
    by (simp add: magicBigEndian_def magicLittleEndian_def)
  ultimately show ?thesis
    using magic revs by (cases order) (simp_all add: read_preamble_def read_uint_def read_magic)
qed

section \<open>Reading a written file\<close>

definition restored :: "(string \<times> string) list \<Rightarrow> Catalog \<Rightarrow> Catalog" where
  "restored header c = NewCatalog\<lparr>Header := header,
     Messages := map (\<lambda>m. (Message_Key m, as_read m)) (sortedMessages c)\<rparr>"

definition mo_writable :: "Catalog \<Rightarrow> bool" where
  "mo_writable c \<longleftrightarrow> catalog_wf c \<and> (\<forall>(k, m) \<in> set (Messages c). mo_ok m)"

lemma sortedMessages_writable:
  assumes "mo_writable c"
  shows "length (sortedMessages c) = length (Messages c)" "\<forall>m \<in> set (sortedMessages c). mo_ok m"
    "distinct (map Message_Key (sortedMessages c))"
proof -
  have wf: "catalog_wf c" using assms by (simp add: mo_writable_def)
  note m = sortedMessages_sorts(1) [OF wf]
  show "length (sortedMessages c) = length (Messages c)" using mset_eq_length [OF m] by simp
  show "\<forall>m \<in> set (sortedMessages c). mo_ok m"
    using assms mset_eq_setD [OF m] by (auto simp: mo_writable_def)
  have "mset (map Message_Key (sortedMessages c)) = mset (map fst (Messages c))"
    using m catalog_wf_keys [OF wf] by (metis mset_map)
  from mset_eq_imp_distinct_iff [OF this] show "distinct (map Message_Key (sortedMessages c))"
    using wf by (simp add: catalog_wf_def)
qed

lemma read_written:
  assumes c: "mo_writable c" and size: "int (length (mo_file order c)) < 2 ^ 32"
  shows "MoReader_Read ul NewCatalog \<lparr>rs_data = mo_file order c, rs_pos = 0\<rparr> =
    set_plural (restored (Header (readMoHeader ul NewCatalog (dst_string (getHeader c)))) c)"
proof -
  let ?n = "length (written c)" and ?d = "mo_file order c"
  let ?ss = "map src_string (written c)" and ?ts = "map dst_string (written c)"
  let ?p = "28 + ?n * 16"
  let ?q = "?p + length (zstrings ?ss)"
  let ?xs = "[of_nat ?n, 28, of_nat (28 + ?n * 8), 0, 0] :: uint32 list"
  have n: "length (Messages c) + 1 = ?n"
    using sortedMessages_writable(1) [OF c] by (simp add: written_def)
  have d: "?d = put_uint32s order (word_of_int magicLittleEndian # 0 # ?xs) @
      put_uint32s order (entries ?p ?ss) @ put_uint32s order (entries ?q ?ts) @ zstrings ?ss @ zstrings ?ts"
    unfolding mo_file_def newMoMessageWriter_layout n by (simp add: Let_def)
  have "bytes_at ?d 0 ?d" by (simp add: bytes_at_def)
  from this [unfolded arg_cong [OF d, of "bytes_at ?d 0"] bytes_at_append]
  have at: "bytes_at ?d 0 (put_uint32s order (word_of_int magicLittleEndian # 0 # ?xs))"
    "bytes_at ?d 28 (put_uint32s order (entries ?p ?ss))" "bytes_at ?d ?p (zstrings ?ss)"
    "bytes_at ?d (28 + ?n * 8) (put_uint32s order (entries ?q ?ts))" "bytes_at ?d ?q (zstrings ?ts)"
    by (simp_all add: algebra_simps)
  have "28 + ?n * 8 \<le> length ?d" using at(4) by (simp add: bytes_at_def)
  then have small: "uint (of_nat ?n :: uint32) = int ?n" "uint (of_nat (28 + ?n * 8) :: uint32) = int (28 + ?n * 8)"
    using size by (simp_all add: unsigned_of_nat take_bit_nat_eq_self del: of_nat_add)
  have "read_preamble \<lparr>rs_data = ?d, rs_pos = 0\<rparr> = Inr (order, map uint ?xs, \<lparr>rs_data = ?d, rs_pos = 28\<rparr>)"
    using read_preamble_at [of "\<lparr>rs_data = ?d, rs_pos = 0\<rparr>" order ?xs] at(1) by simp
  moreover have "read_messages ul order (length ?ss) (int 28) (int (28 + ?n * 8)) \<lparr>rs_data = ?d, rs_pos = 28\<rparr> NewCatalog =
      (fold (\<lambda>(s, t). add_pair ul s t) (zip ?ss ?ts) NewCatalog, None)"
    by (rule read_messages_at [OF _ size _ at(2,3,4,5)]) simp_all
  moreover have "fold (\<lambda>(s, t). add_pair ul s t) (zip ?ss ?ts) NewCatalog = restored (Header (readMoHeader ul NewCatalog (dst_string (getHeader c)))) c"
  proof -
    let ?h = "readMoHeader ul NewCatalog (dst_string (getHeader c))"
    have "add_pair ul (src_string (getHeader c)) (dst_string (getHeader c)) NewCatalog = ?h"
      by (simp add: add_pair_def src_string_def getHeader_def)
    moreover have "Messages ?h = []" "?h\<lparr>Messages := xs\<rparr> = NewCatalog\<lparr>Header := Header ?h, Messages := xs\<rparr>" for xs
      by (simp_all add: readMoHeader_def NewCatalog_def)
    ultimately show ?thesis
      using sortedMessages_writable [OF c]
      by (simp add: written_def fold_add_pairs fold_Catalog_Add restored_def o_def)
  qed
  ultimately show ?thesis
    by (simp add: MoReader_Read_def small del: of_nat_add)
qed

lemma read_restores:
  "mo_writable c \<Longrightarrow> header_ok (Header c) \<Longrightarrow> int (length (mo_file order c)) < 2 ^ 32 \<Longrightarrow>
     MoReader_Read ul NewCatalog \<lparr>rs_data = mo_file order c, rs_pos = 0\<rparr> = set_plural (restored (Header c) c)"
  using readMoHeader_written [of c ul] read_written [of c order ul] by (simp add: readMoHeader_def)

lemma read_full_advances:
  "read_full n r = Inr (bs, r') \<Longrightarrow>
     rs_data r' = rs_data r \<and> (0 < n \<longrightarrow> rs_pos r' = rs_pos r + n \<and> rs_pos r' \<le> length (rs_data r))"
  by (auto simp: read_full_def Let_def split: if_splits)

lemma read_uint_advances:
  "read_uint n order r = Inr (x, r') \<Longrightarrow> 0 < n \<Longrightarrow>
     rs_data r' = rs_data r \<and> rs_pos r' = rs_pos r + n \<and> rs_pos r' \<le> length (rs_data r)"
  by (auto simp: read_uint_def bindE_eq_Inr dest!: read_full_advances)

lemma read_uints_advances:
  "read_uints n k order r = Inr (xs, r') \<Longrightarrow> 0 < n \<Longrightarrow>
     rs_data r' = rs_data r \<and> rs_pos r' = rs_pos r + n * k \<and> (0 < k \<longrightarrow> rs_pos r' \<le> length (rs_data r))"
proof (induction k arbitrary: r xs)
  case (Suc k)
  then obtain x r1 ys where *: "read_uint n order r = Inr (x, r1)" "read_uints n k order r1 = Inr (ys, r')"
    by (auto simp: bindE_eq_Inr)
  from read_uint_advances [OF *(1) Suc.prems(2)] Suc.IH [OF *(2) Suc.prems(2)] show ?case
    by (cases k) auto
qed simp

lemma read_preamble_length:
  assumes "read_preamble r = Inr (order, idx, r')"
  shows "rs_pos r + 28 \<le> length (rs_data r)"
  using assms
  by (auto simp: read_preamble_def bindE_eq_Inr split: if_splits
      dest!: read_uint_advances read_uints_advances)

section \<open>Properties\<close>

definition example_messages :: "Message list" where
  "example_messages =
     [Simple \<lparr>sm_Src = ''b'', sm_Dst = ''B'', sm_Ctx = [], sm_HasCtx = False, sm_info = Some empty_info\<rparr>,
      Simple \<lparr>sm_Src = ''a'', sm_Dst = ''A'', sm_Ctx = ''x'', sm_HasCtx = True, sm_info = None\<rparr>,
      Plural \<lparr>pm_Src = [''one'', ''many''], pm_Dst = [''un'', ''beaucoup''], pm_Ctx = [], pm_HasCtx = False,
        pm_info = None\<rparr>]"

definition example_file_catalog :: Catalog where
  "example_file_catalog =
     (fold Catalog_Add example_messages NewCatalog)\<lparr>Header := [(''plural-forms'', ''nplurals=2; plural=n>1;'')]\<rparr>"



text \<open>C37: The reader finds the byte order from the first word: the same catalog in a file whose words
  are all big-endian is read to the same result as the little-endian file of the writer.\<close>

theorem mo_byte_order_irrelevant:
  assumes "mo_writable c" and "\<And>order. int (length (mo_file order c)) < 2 ^ 32"
  shows "MoReader_Read ul NewCatalog \<lparr>rs_data = mo_file BigEndian c, rs_pos = 0\<rparr> =
         MoReader_Read ul NewCatalog \<lparr>rs_data = mo_file LittleEndian c, rs_pos = 0\<rparr>"
  using read_written [OF assms(1,2)] by simp

theorem mo_byte_order_irrelevant_witness:
  "MoReader_Read id NewCatalog \<lparr>rs_data = mo_file BigEndian example_file_catalog, rs_pos = 0\<rparr> =
   MoReader_Read id NewCatalog \<lparr>rs_data = mo_file LittleEndian example_file_catalog, rs_pos = 0\<rparr>"
proof (rule mo_byte_order_irrelevant)
  show "mo_writable example_file_catalog" by code_simp
  have "int (length (mo_file LittleEndian example_file_catalog)) < 2 ^ 32"
    "int (length (mo_file BigEndian example_file_catalog)) < 2 ^ 32"
    by code_simp+
  then show "int (length (mo_file order example_file_catalog)) < 2 ^ 32" for order
    by (cases order) simp_all
qed

text \<open>A file shorter than the 28 bytes of the preamble, with whatever content, is rejected with an
  error, and the catalog is left as it was.\<close>

theorem mo_truncated_rejected:
  assumes "length data < 28"
  shows "\<exists>err. MoReader_Read ul c \<lparr>rs_data = data, rs_pos = 0\<rparr> = (c, Some err)"
proof -
  have "\<nexists>x. read_preamble \<lparr>rs_data = data, rs_pos = 0\<rparr> = Inr x"
    using assms read_preamble_length [of "\<lparr>rs_data = data, rs_pos = 0\<rparr>"] by fastforce
  then obtain err where "read_preamble \<lparr>rs_data = data, rs_pos = 0\<rparr> = Inl err"
    by (cases "read_preamble \<lparr>rs_data = data, rs_pos = 0\<rparr>") auto
  then show ?thesis by (simp add: MoReader_Read_def)
qed

theorem mo_truncated_rejected_witness:
  "\<exists>err. MoReader_Read id NewCatalog \<lparr>rs_data = [CHR 0xDE, CHR 0x12, CHR 0x04, CHR 0x95], rs_pos = 0\<rparr> =
     (NewCatalog, Some err)"
  by (rule mo_truncated_rejected) simp

text \<open>The writer puts no line break between the fields of the header, while the reader splits the
  header into lines: a catalog with two fields is read back with one, whose value contains the second.\<close>

theorem mo_two_header_fields_lost:
  "let c = NewCatalog\<lparr>Header := [(''language'', ''fr''), (''charset'', ''utf-8'')]\<rparr>
   in MoReader_Read id NewCatalog \<lparr>rs_data = mo_file LittleEndian c, rs_pos = 0\<rparr> =
        (NewCatalog\<lparr>Header := [(''language'', ''frcharset: utf-8'')]\<rparr>, None)"
proof -
  let ?c = "NewCatalog\<lparr>Header := [(''language'', ''fr''), (''charset'', ''utf-8'')]\<rparr>"
  have "mo_writable ?c" by code_simp
  moreover have "int (length (mo_file LittleEndian ?c)) < 2 ^ 32" by code_simp
  ultimately have "MoReader_Read id NewCatalog \<lparr>rs_data = mo_file LittleEndian ?c, rs_pos = 0\<rparr> =
      set_plural (restored (Header (readMoHeader id NewCatalog (dst_string (getHeader ?c)))) ?c)"
    by (rule read_written)
  moreover have "Header (readMoHeader id NewCatalog (dst_string (getHeader ?c))) = [(''language'', ''frcharset: utf-8'')]"
    by code_simp
  moreover have "sortedMessages ?c = []" by code_simp
  ultimately show ?thesis by (simp add: set_plural_def restored_def NewCatalog_def)
qed

end
