(* ===== verification/Gettext_Fmt.thy ===== *)
theory Gettext_Fmt
  imports Go_Strings
begin

text \<open>
  Formats with explicit argument positions (\<open>gettext/fmt.go\<close>): the conversion of \<open>%2$d\<close> to \<open>%d\<close>
  with the list of positions, and the formatting of arguments in that order. \<open>fmt.Sprintf\<close> is a
  parameter; its arguments are optional values, \<open>None\<close> for a nil interface.
\<close>

section \<open>The model\<close>

definition is_digit :: "char \<Rightarrow> bool" where
  "is_digit c \<longleftrightarrow> 0x30 \<le> byte_val c \<and> byte_val c \<le> 0x39"

lemma dropWhile_shorter: "dropWhile P s = x # r \<Longrightarrow> length r < length s"
  by (metis Suc_le_eq length_Cons length_dropWhile_le)

lemma dropWhile_dropWhile_shorter:
  "dropWhile P s = x # r \<Longrightarrow> length (dropWhile Q r) < length s" "dropWhile P s = x # r \<Longrightarrow> length (tl (dropWhile Q r)) < length s"
  "dropWhile P s = x # r \<Longrightarrow> length (tl r) < length s"
  using dropWhile_shorter [of P s x r] length_dropWhile_le [of Q r] by auto

text \<open>The loop of \<open>parseFmt\<close> on what is left of the translation from index \<open>i\<close> on, with the buffer
  and the positions collected so far.\<close>

function parseFmt_loop :: "string \<Rightarrow> string \<Rightarrow> int list option \<Rightarrow> string \<times> int list option" where
  "parseFmt_loop s buf idx =
     (let buf = buf @ takeWhile (\<lambda>c. c \<noteq> CHR ''%'') s in
      case dropWhile (\<lambda>c. c \<noteq> CHR ''%'') s of
        [] \<Rightarrow> (buf, idx)
      | _ # r \<Rightarrow>
          if r \<noteq> [] \<and> hd r = CHR ''%'' then parseFmt_loop (tl r) (buf @ ''%%'') idx
          else
            let buf = buf @ ''%''; ds = takeWhile is_digit r; r' = dropWhile is_digit r in
            if ds \<noteq> []
            then if r' \<noteq> [] \<and> hd r' = CHR ''$''
                 then parseFmt_loop (tl r') buf
                        (Some ((case idx of None \<Rightarrow> [] | Some xs \<Rightarrow> xs) @ [fst (parse_int10 ds)]))
                 else parseFmt_loop r' (buf @ ds) idx
            else parseFmt_loop r' buf idx)"
  by pat_completeness auto

termination
  by (relation "measure (\<lambda>(s, buf, idx). length s)")
    (simp_all only: in_measure case_prod_conv wf_measure dropWhile_dropWhile_shorter)

declare parseFmt_loop.simps [simp del]

definition parseFmt :: "string \<Rightarrow> string \<Rightarrow> string \<times> int list option" where
  "parseFmt trn msg = parseFmt_loop trn [] None"

text \<open>The loop that reorders the arguments: a position past the arguments leaves a nil, and a
  negative one panics.\<close>

fun reorder :: "'v list \<Rightarrow> int list \<Rightarrow> 'v option list go" where
  "reorder a [] = Inr []"
| "reorder a (v # vs) =
     bindE (if v < int (length a) then (if v < 0 then Inl IndexOutOfRange else Inr (Some (a ! nat v)))
            else Inr None)
       (\<lambda>b. bindE (reorder a vs) (\<lambda>bs. Inr (b # bs)))"

definition gettext_sprintf ::
  "(string \<Rightarrow> 'v option list \<Rightarrow> string) \<Rightarrow> string \<Rightarrow> int list option \<Rightarrow> 'v list \<Rightarrow> string go" where
  "gettext_sprintf Sprintf format order a = (case order of
     None \<Rightarrow> Inr (Sprintf format (map Some a))
   | Some ns \<Rightarrow> bindE (reorder a ns) (\<lambda>b. Inr (Sprintf format b)))"

section \<open>Formats in pieces\<close>

text \<open>A translation as its author writes it: text, an escaped percent sign, the start \<open>%n$\<close> of a
  verb with a position.\<close>

datatype piece = Text string | Percent | Arg nat

fun piece_ok :: "piece \<Rightarrow> bool" where
  "piece_ok (Text t) \<longleftrightarrow> CHR ''%'' \<notin> set t"
| "piece_ok Percent \<longleftrightarrow> True"
| "piece_ok (Arg n) \<longleftrightarrow> int n \<le> max_int"

fun ordered :: "piece \<Rightarrow> string" where
  "ordered (Text t) = t"
| "ordered Percent = ''%%''"
| "ordered (Arg n) = CHR ''%'' # show_nat n @ ''$''"

fun unordered :: "piece \<Rightarrow> string" where
  "unordered (Text t) = t"
| "unordered Percent = ''%%''"
| "unordered (Arg n) = ''%''"

fun positions :: "piece list \<Rightarrow> int list" where
  "positions [] = []"
| "positions (Arg n # ps) = int n # positions ps"
| "positions (_ # ps) = positions ps"

lemma parseFmt_loop_text:
  "CHR ''%'' \<notin> set t \<Longrightarrow> parseFmt_loop (t @ s) buf idx = parseFmt_loop s (buf @ t) idx"
proof -
  assume "CHR ''%'' \<notin> set t"
  then have "takeWhile (\<lambda>c. c \<noteq> CHR ''%'') (t @ s) = t @ takeWhile (\<lambda>c. c \<noteq> CHR ''%'') s"
    "dropWhile (\<lambda>c. c \<noteq> CHR ''%'') (t @ s) = dropWhile (\<lambda>c. c \<noteq> CHR ''%'') s"
    by (auto simp: takeWhile_append dropWhile_append)
  then show ?thesis by (simp add: parseFmt_loop.simps [of "t @ s"] parseFmt_loop.simps [of s] Let_def)
qed

lemma parseFmt_loop_percent: "parseFmt_loop (''%%'' @ s) buf idx = parseFmt_loop s (buf @ ''%%'') idx"
  by (simp add: parseFmt_loop.simps [of "CHR ''%'' # CHR ''%'' # s"])

lemma show_nat_is_digit: "\<forall>c \<in> set (show_nat n). is_digit c"
proof -
  have "\<forall>c \<in> set ''0123456789''. is_digit c" by (simp add: is_digit_def byte_val_def)
  then show ?thesis using show_nat_digits [of n] by blast
qed

lemma parseFmt_loop_arg:
  assumes "int n \<le> max_int"
  shows "parseFmt_loop (ordered (Arg n) @ s) buf idx =
    parseFmt_loop s (buf @ ''%'') (Some ((case idx of None \<Rightarrow> [] | Some xs \<Rightarrow> xs) @ [int n]))"
proof -
  let ?r = "show_nat n @ CHR ''$'' # s"
  have d: "\<not> is_digit (CHR ''$'')" "is_digit (hd (show_nat n))" "\<not> is_digit (CHR ''%'')"
    using show_nat_is_digit [of n] by (simp_all add: is_digit_def byte_val_def)
  have "takeWhile is_digit ?r = show_nat n" "dropWhile is_digit ?r = CHR ''$'' # s"
    using show_nat_is_digit [of n] d(1) by (simp_all add: takeWhile_append dropWhile_append)
  moreover have "hd ?r \<noteq> CHR ''%''" using d by (auto simp: hd_append)
  ultimately show ?thesis
    using parse_int10_show_nat [OF assms]
    by (simp add: parseFmt_loop.simps [of "CHR ''%'' # ?r"] Let_def)
qed

lemma parseFmt_loop_pieces:
  "\<forall>p \<in> set ps. piece_ok p \<Longrightarrow>
   parseFmt_loop (concat (map ordered ps)) buf idx =
     (buf @ concat (map unordered ps),
      if positions ps = [] then idx else Some ((case idx of None \<Rightarrow> [] | Some xs \<Rightarrow> xs) @ positions ps))"
proof (induction ps arbitrary: buf idx)
  case Nil
  show ?case by (simp add: parseFmt_loop.simps)
next
  case (Cons p ps)
  show ?case
  proof (cases p)
    case (Arg n)
    with Cons.prems have "int n \<le> max_int" by simp
    from parseFmt_loop_arg [OF this] show ?thesis using Cons Arg by (simp del: ordered.simps)
  qed (use Cons in \<open>simp_all add: parseFmt_loop_text parseFmt_loop_percent [simplified]\<close>)
qed

lemma example_digits: "show_nat (Suc 0) = ''1''" "show_nat 2 = ''2''"
  by code_simp+

lemma reorder_nat:
  "reorder a (map int ns) = Inr (map (\<lambda>n. if n < length a then Some (a ! n) else None) ns)"
  by (induction ns) auto

section \<open>Properties\<close>

text \<open>\<open>parseFmt\<close> turns a format with positions into a standard one: text and escaped percent
  signs are copied, each \<open>%n$\<close> becomes \<open>%\<close> and its position is collected, and there is no list of
  positions when no verb has one.\<close>

theorem parseFmt_pieces:
  assumes "\<forall>p \<in> set ps. piece_ok p"
  shows "parseFmt (concat (map ordered ps)) msg =
    (concat (map unordered ps), if positions ps = [] then None else Some (positions ps))"
  using parseFmt_loop_pieces [OF assms, of "[]" None] by (simp add: parseFmt_def)

theorem parseFmt_pieces_witness:
  "parseFmt ''%2$d bytes on %1$s.'' [] = (''%d bytes on %s.'', Some [2, 1])"
  using parseFmt_pieces [of "[Arg 2, Text ''d bytes on '', Arg 1, Text ''s.'']" "[]"]
  by (simp add: max_int_def example_digits)

text \<open>The positions \<open>parseFmt\<close> collects count from one, while \<open>sprintf\<close> uses them as indices from
  zero: the verb \<open>%n$\<close> formats the argument after the one it names, and nil when it names the last.
  The two functions together do not format what the comment of \<open>sprintf\<close> says they do.\<close>

theorem sprintf_off_by_one:
  assumes "\<forall>p \<in> set ps. piece_ok p" and "positions ps = map int ns" and "ns \<noteq> []"
  shows "case parseFmt (concat (map ordered ps)) msg of (format, order) \<Rightarrow>
      gettext_sprintf Sprintf format order a =
        Inr (Sprintf (concat (map unordered ps))
          (map (\<lambda>n. if n < length a then Some (a ! n) else None) ns))"
  using assms parseFmt_loop_pieces [OF assms(1), of "[]" None]
  by (simp add: parseFmt_def gettext_sprintf_def reorder_nat)

theorem sprintf_off_by_one_witness:
  "case parseFmt ''%2$d bytes on %1$s.'' [] of (format, order) \<Rightarrow>
      gettext_sprintf (\<lambda>f b. if b = [None, Some (5 :: nat)] then ''nil and 5'' else f) format order [7, 5] =
        Inr ''nil and 5''"
  using sprintf_off_by_one [where ps = "[Arg 2, Text ''d bytes on '', Arg 1, Text ''s.'']" and ns = "[2, 1]"
      and msg = "[]" and Sprintf = "\<lambda>f b. if b = [None, Some (5 :: nat)] then ''nil and 5'' else f" and a = "[7, 5]"]
  by (simp add: max_int_def example_digits)

end
