(* ===== verification/Escape_Context.thy ===== *)
theory Escape_Context
  imports Go_Strings
begin

text \<open>
  The data of the contextual escaper (\<open>template/escape/context.go\<close>, \<open>error.go\<close>, \<open>content.go\<close>): the
  states of an HTML parser, the context of a point of a template, errors, and the values that reach
  an escaper, with the conversion of arguments to a string and a content type.
\<close>

section \<open>States\<close>

datatype state =
    stateText | stateTag | stateAttrName | stateAfterName | stateBeforeValue | stateHTMLCmt
  | stateRCDATA | stateAttr | stateURL | stateJS | stateJSDqStr | stateJSSqStr | stateJSRegexp
  | stateJSBlockCmt | stateJSLineCmt | stateCSS | stateCSSDqStr | stateCSSSqStr | stateCSSDqURL
  | stateCSSSqURL | stateCSSURL | stateCSSBlockCmt | stateCSSLineCmt | stateError

fun state_String :: "state \<Rightarrow> string" where
  "state_String stateText = ''stateText''"
| "state_String stateTag = ''stateTag''"
| "state_String stateAttrName = ''stateAttrName''"
| "state_String stateAfterName = ''stateAfterName''"
| "state_String stateBeforeValue = ''stateBeforeValue''"
| "state_String stateHTMLCmt = ''stateHTMLCmt''"
| "state_String stateRCDATA = ''stateRCDATA''"
| "state_String stateAttr = ''stateAttr''"
| "state_String stateURL = ''stateURL''"
| "state_String stateJS = ''stateJS''"
| "state_String stateJSDqStr = ''stateJSDqStr''"
| "state_String stateJSSqStr = ''stateJSSqStr''"
| "state_String stateJSRegexp = ''stateJSRegexp''"
| "state_String stateJSBlockCmt = ''stateJSBlockCmt''"
| "state_String stateJSLineCmt = ''stateJSLineCmt''"
| "state_String stateCSS = ''stateCSS''"
| "state_String stateCSSDqStr = ''stateCSSDqStr''"
| "state_String stateCSSSqStr = ''stateCSSSqStr''"
| "state_String stateCSSDqURL = ''stateCSSDqURL''"
| "state_String stateCSSSqURL = ''stateCSSSqURL''"
| "state_String stateCSSURL = ''stateCSSURL''"
| "state_String stateCSSBlockCmt = ''stateCSSBlockCmt''"
| "state_String stateCSSLineCmt = ''stateCSSLineCmt''"
| "state_String stateError = ''stateError''"

fun isComment :: "state \<Rightarrow> bool" where
  "isComment stateHTMLCmt = True"
| "isComment stateJSBlockCmt = True"
| "isComment stateJSLineCmt = True"
| "isComment stateCSSBlockCmt = True"
| "isComment stateCSSLineCmt = True"
| "isComment _ = False"

fun isInTag :: "state \<Rightarrow> bool" where
  "isInTag stateTag = True"
| "isInTag stateAttrName = True"
| "isInTag stateAfterName = True"
| "isInTag stateBeforeValue = True"
| "isInTag stateAttr = True"
| "isInTag _ = False"

datatype delim = delimNone | delimDoubleQuote | delimSingleQuote | delimSpaceOrTagEnd

fun delim_String :: "delim \<Rightarrow> string" where
  "delim_String delimNone = ''delimNone''"
| "delim_String delimDoubleQuote = ''delimDoubleQuote''"
| "delim_String delimSingleQuote = ''delimSingleQuote''"
| "delim_String delimSpaceOrTagEnd = ''delimSpaceOrTagEnd''"

datatype urlPart = urlPartNone | urlPartPreQuery | urlPartQueryOrFrag | urlPartUnknown

fun urlPart_String :: "urlPart \<Rightarrow> string" where
  "urlPart_String urlPartNone = ''urlPartNone''"
| "urlPart_String urlPartPreQuery = ''urlPartPreQuery''"
| "urlPart_String urlPartQueryOrFrag = ''urlPartQueryOrFrag''"
| "urlPart_String urlPartUnknown = ''urlPartUnknown''"

datatype jsCtx = jsCtxRegexp | jsCtxDivOp | jsCtxUnknown

fun jsCtx_String :: "jsCtx \<Rightarrow> string" where
  "jsCtx_String jsCtxRegexp = ''jsCtxRegexp''"
| "jsCtx_String jsCtxDivOp = ''jsCtxDivOp''"
| "jsCtx_String jsCtxUnknown = ''jsCtxUnknown''"

datatype element = elementNone | elementScript | elementStyle | elementTextarea | elementTitle

fun element_String :: "element \<Rightarrow> string" where
  "element_String elementNone = ''elementNone''"
| "element_String elementScript = ''elementScript''"
| "element_String elementStyle = ''elementStyle''"
| "element_String elementTextarea = ''elementTextarea''"
| "element_String elementTitle = ''elementTitle''"

datatype attr = attrNone | attrScript | attrStyle | attrURL

fun attr_String :: "attr \<Rightarrow> string" where
  "attr_String attrNone = ''attrNone''"
| "attr_String attrScript = ''attrScript''"
| "attr_String attrStyle = ''attrStyle''"
| "attr_String attrURL = ''attrURL''"

section \<open>Errors\<close>

datatype ErrorCode =
    OK | ErrAmbigContext | ErrBadHTML | ErrBranchEnd | ErrEndContext | ErrNoSuchTemplate
  | ErrOutputContext | ErrPartialCharset | ErrPartialEscape | ErrRangeLoopReentry | ErrSlashAmbig

text \<open>The description of an error is kept as the format and the texts given to \<open>fmt.Sprintf\<close>,
  unformatted.\<close>

record Error =
  err_Code :: ErrorCode
  err_Name :: string
  err_Line :: int
  err_Description :: "string \<times> string list"

definition errorf :: "ErrorCode \<Rightarrow> int \<Rightarrow> string \<Rightarrow> string list \<Rightarrow> Error" where
  "errorf k line f args = \<lparr>err_Code = k, err_Name = [], err_Line = line, err_Description = (f, args)\<rparr>"

definition Error_Error :: "(string \<Rightarrow> string list \<Rightarrow> string) \<Rightarrow> Error \<Rightarrow> string" where
  "Error_Error Sprintf e =
     (let descr = Sprintf (fst (err_Description e)) (snd (err_Description e)) in
      if err_Line e \<noteq> 0
      then ''html/template:'' @ err_Name e @ '':'' @ show_int (err_Line e) @ '': '' @ descr
      else if err_Name e \<noteq> [] then ''html/template:'' @ err_Name e @ '': '' @ descr
      else ''html/template: '' @ descr)"

section \<open>Contexts\<close>

record Context =
  ctx_state :: state
  ctx_delim :: delim
  ctx_urlPart :: urlPart
  ctx_jsCtx :: jsCtx
  ctx_attr :: attr
  ctx_element :: element
  ctx_err :: "Error option"

text \<open>The zero value \<open>context{}\<close>, from which the composite literals of the code are written.\<close>

definition context0 :: Context where
  "context0 = \<lparr>ctx_state = stateText, ctx_delim = delimNone, ctx_urlPart = urlPartNone,
     ctx_jsCtx = jsCtxRegexp, ctx_attr = attrNone, ctx_element = elementNone, ctx_err = None\<rparr>"

definition error_context :: "Error \<Rightarrow> Context" where
  "error_context err = context0\<lparr>ctx_state := stateError, ctx_err := Some err\<rparr>"

text \<open>Errors are compared as values here and as pointers in the code; the two agree on contexts that
  are not in the error state, whose error is nil (\<open>context_ok\<close> below).\<close>

definition context_eq :: "Context \<Rightarrow> Context \<Rightarrow> bool" where
  "context_eq c d \<longleftrightarrow> ctx_state c = ctx_state d \<and> ctx_delim c = ctx_delim d \<and>
     ctx_urlPart c = ctx_urlPart d \<and> ctx_jsCtx c = ctx_jsCtx d \<and> ctx_attr c = ctx_attr d \<and>
     ctx_element c = ctx_element d \<and> ctx_err c = ctx_err d"

definition context_ok :: "Context \<Rightarrow> bool" where
  "context_ok c \<longleftrightarrow> (ctx_state c = stateError \<longleftrightarrow> ctx_err c \<noteq> None)"

lemma context_eq_iff [simp]: "context_eq c d \<longleftrightarrow> c = d"
  by (auto simp: context_eq_def intro: Context.equality)

definition mangle :: "Context \<Rightarrow> string \<Rightarrow> string" where
  "mangle c templateName =
     (if ctx_state c = stateText then templateName
      else
        let s = templateName @ ''$htmltemplate_'' @ state_String (ctx_state c);
            s = s @ (if ctx_delim c \<noteq> delimNone then ''_'' @ delim_String (ctx_delim c) else []);
            s = s @ (if ctx_urlPart c \<noteq> urlPartNone then ''_'' @ urlPart_String (ctx_urlPart c) else []);
            s = s @ (if ctx_jsCtx c \<noteq> jsCtxRegexp then ''_'' @ jsCtx_String (ctx_jsCtx c) else []);
            s = s @ (if ctx_attr c \<noteq> attrNone then ''_'' @ attr_String (ctx_attr c) else [])
        in s @ (if ctx_element c \<noteq> elementNone then ''_'' @ element_String (ctx_element c) else []))"

section \<open>Values\<close>

datatype contentType =
    contentTypePlain | contentTypeCSS | contentTypeHTML | contentTypeHTMLAttr | contentTypeJS
  | contentTypeJSStr | contentTypeURL | contentTypeUnsafe

text \<open>An argument of an escaper: a string, a string of trusted content, a pointer, nil, or a value of
  another type.\<close>

datatype 'v arg =
    Str string | CSS string | HTML string | HTMLAttr string | JS string | JSStr string | URL string
  | Ptr "'v arg" | NilPtr | NilInterface | Other 'v

fun indirect :: "'v arg \<Rightarrow> 'v arg" where
  "indirect (Ptr a) = indirect a"
| "indirect a = a"

text \<open>Dereferencing stops at a type that implements \<open>fmt.Stringer\<close> or \<open>error\<close>, which the parameter
  \<open>impl\<close> tells.\<close>

fun indirectToStringerOrError :: "('v arg \<Rightarrow> bool) \<Rightarrow> 'v arg \<Rightarrow> 'v arg" where
  "indirectToStringerOrError impl (Ptr a) =
     (if impl (Ptr a) then Ptr a else indirectToStringerOrError impl a)"
| "indirectToStringerOrError impl a = a"

text \<open>A nil interface has no type: asking reflection for it panics. \<open>fmt.Sprint\<close> is a parameter.\<close>

definition stringify ::
  "('v arg list \<Rightarrow> string) \<Rightarrow> ('v arg \<Rightarrow> bool) \<Rightarrow> 'v arg list \<Rightarrow> (string \<times> contentType) go" where
  "stringify Sprint impl args =
     (if NilInterface \<in> set args then Inl (NilDereference)
      else
        let rest = Inr (Sprint (map (indirectToStringerOrError impl) args), contentTypePlain) in
        if length args = 1
        then (case indirect (args ! 0) of
                Str s \<Rightarrow> Inr (s, contentTypePlain)
              | CSS s \<Rightarrow> Inr (s, contentTypeCSS)
              | HTML s \<Rightarrow> Inr (s, contentTypeHTML)
              | HTMLAttr s \<Rightarrow> Inr (s, contentTypeHTMLAttr)
              | JS s \<Rightarrow> Inr (s, contentTypeJS)
              | JSStr s \<Rightarrow> Inr (s, contentTypeJSStr)
              | URL s \<Rightarrow> Inr (s, contentTypeURL)
              | _ \<Rightarrow> rest)
        else rest)"

lemma stringify_Str [simp]: "stringify Sprint impl [Str s] = Inr (s, contentTypePlain)"
  by (simp add: stringify_def)

end
