(* ===== verification/Escape_Replace.thy ===== *)
theory Escape_Replace
  imports Go_Strings
begin

text \<open>
  The loop the escapers share (\<open>replace\<close> of \<open>js.go\<close>, \<open>htmlReplacer\<close> of \<open>html.go\<close>, \<open>cssEscaper\<close> of
  \<open>css.go\<close>): it ranges over the runes of a string, copies the text since the last replacement, and
  writes the replacement of a rune. The choice of the replacement is a parameter; it is given the
  rune and the index after it. The loop is shown equal to a replacement rune by rune.
\<close>

section \<open>The loop\<close>

definition RuneLen :: "rune \<Rightarrow> nat" where
  "RuneLen r = length (encode_rune r)"

fun replace_loop ::
  "(rune \<Rightarrow> nat \<Rightarrow> string option) \<Rightarrow> string \<Rightarrow> (nat \<times> rune) list \<Rightarrow> nat \<Rightarrow> string \<Rightarrow> (nat \<times> string) go" where
  "replace_loop pick s [] written b = Inr (written, b)"
| "replace_loop pick s ((i, r) # rs) written b =
     (case pick r (i + RuneLen r) of
        None \<Rightarrow> replace_loop pick s rs written b
      | Some repl \<Rightarrow>
          bindE (slice s written i) (\<lambda>t.
            replace_loop pick s rs (i + RuneLen r) (b @ t @ repl)))"

text \<open>\<open>if written == 0 { return s }; b.WriteString(s[written:]); return b.String()\<close>\<close>

definition replace_runes :: "(rune \<Rightarrow> nat \<Rightarrow> string option) \<Rightarrow> string \<Rightarrow> string go" where
  "replace_runes pick s =
     bindE (replace_loop pick s (range_runes 0 s) 0 []) (\<lambda>(written, b).
       if written = 0 then Inr s
       else bindE (slice s written (length s)) (\<lambda>t. Inr (b @ t)))"

section \<open>The replacement rune by rune\<close>

fun subst_chunks :: "(rune \<Rightarrow> nat \<Rightarrow> string option) \<Rightarrow> nat \<Rightarrow> (rune \<times> string) list \<Rightarrow> string" where
  "subst_chunks pick i [] = []"
| "subst_chunks pick i ((r, bs) # cs) =
     (case pick r (i + length bs) of Some repl \<Rightarrow> repl | None \<Rightarrow> bs) @
     subst_chunks pick (i + length bs) cs"

text \<open>The runes that are replaced take as many bytes in the string as \<open>utf8.RuneLen\<close> says. This holds
  of every rune but the U+FFFD that stands for an invalid byte.\<close>

definition picked_ok :: "(rune \<Rightarrow> nat \<Rightarrow> string option) \<Rightarrow> string \<Rightarrow> bool" where
  "picked_ok pick s \<longleftrightarrow>
     (\<forall>(r, bs) \<in> set (chunks s). (\<exists>i. pick r i \<noteq> None) \<longrightarrow> length bs = RuneLen r)"

lemma RuneLen_pos [simp]: "0 < RuneLen r"
  by (simp add: RuneLen_def encode_rune_def encode_valid_def)

lemma replace_loop_subst:
  assumes "\<forall>(r, bs) \<in> set (chunks t). (\<exists>i. pick r i \<noteq> None) \<longrightarrow> length bs = RuneLen r"
    and "s = p @ q @ t" and "length p = written"
  shows "\<exists>w b'. replace_loop pick s (range_runes (length (p @ q)) t) written b = Inr (w, b') \<and>
    w \<le> length s \<and> b' @ drop w s = b @ q @ subst_chunks pick (length (p @ q)) (chunks t) \<and>
    (w = written \<and> b' = b \<or> 0 < w)"
  using assms
proof (induction t arbitrary: p q written b rule: chunks.induct)
  case (1 t)
  show ?case
  proof (cases "t = []")
    case True
    then show ?thesis using 1 by simp
  next
    case False
    let ?r = "fst (decode_rune t)" and ?n = "snd (decode_rune t)"
    let ?u = "drop ?n t" and ?bs = "take ?n t"
    have n: "0 < ?n" "?n \<le> length t" using False using decode_rune_width(1,2) [OF False, of ?r ?n] by auto
    have ch: "chunks t = (?r, ?bs) # chunks ?u" using False by (subst chunks.simps) simp
    have rr: "range_runes (length (p @ q)) t =
        (length (p @ q), ?r) # range_runes (length (p @ q) + ?n) ?u"
      using False by (subst range_runes.simps) simp
    have t: "t = ?bs @ ?u" by simp
    have lb: "length ?bs = ?n" using n by simp
    have ok: "\<forall>(r, bs) \<in> set (chunks ?u). (\<exists>i. pick r i \<noteq> None) \<longrightarrow> length bs = RuneLen r"
      using "1.prems"(1) unfolding ch by simp
    show ?thesis
    proof (cases "pick ?r (length (p @ q) + ?n)")
      case None
      have miss: "pick ?r (length (p @ q) + RuneLen ?r) = None"
      proof (rule ccontr)
        assume "pick ?r (length (p @ q) + RuneLen ?r) \<noteq> None"
        then have "length ?bs = RuneLen ?r" using "1.prems"(1) unfolding ch by auto
        then show False using None lb \<open>pick ?r (length (p @ q) + RuneLen ?r) \<noteq> None\<close> by simp
      qed
      have "s = p @ (q @ ?bs) @ ?u" using "1.prems"(2) t by simp
      from "1.IH" [OF False ok this "1.prems"(3), of b]
      show ?thesis using None n miss unfolding rr ch by (simp add: lb add.assoc)
    next
      case (Some repl)
      then have len: "RuneLen ?r = ?n" using "1.prems"(1) lb unfolding ch by auto
      have "s = (p @ q @ ?bs) @ [] @ ?u" using "1.prems"(2) t by simp
      from "1.IH" [OF False ok this refl, of "b @ q @ repl"]
      have ih: "\<exists>w b'. replace_loop pick s (range_runes (length (p @ q) + ?n) ?u) (length (p @ q) + ?n) (b @ q @ repl) =
          Inr (w, b') \<and> w \<le> length s \<and>
          b' @ drop w s = b @ q @ repl @ subst_chunks pick (length (p @ q) + ?n) (chunks ?u) \<and> 0 < w"
        using n by (fastforce simp: lb add.assoc)
      have "slice s written (length (p @ q)) = Inr q"
        using "1.prems"(2,3) by simp
      then show ?thesis using ih Some len n unfolding rr ch by auto
    qed
  qed
qed

lemma replace_runes_subst:
  assumes "picked_ok pick s"
  shows "replace_runes pick s = Inr (subst_chunks pick 0 (chunks s))"
proof -
  from replace_loop_subst [of s pick s "[]" "[]" 0 "[]"] assms
  obtain w b' where *: "replace_loop pick s (range_runes 0 s) 0 [] = Inr (w, b')" "w \<le> length s"
    "b' @ drop w s = subst_chunks pick 0 (chunks s)" "w = 0 \<and> b' = [] \<or> 0 < w"
    by (auto simp: picked_ok_def)
  then show ?thesis by (auto simp: replace_runes_def)
qed

section \<open>The width of decoded runes\<close>

lemma decode_rune_RuneLen:
  assumes "s \<noteq> []" and "decode_rune s = (r, n)"
  shows "n = RuneLen r \<or> r = RuneError \<and> n = 1"
  using assms
  by (cases s) (auto simp: decode_rune_def RuneLen_def encode_rune_def encode_valid_def valid_rune_def
      second_ok_def is_cont_def RuneError_def Let_def split: if_splits list.splits)

text \<open>A chunk is one ASCII byte or bytes outside the ASCII range.\<close>

lemma chunks_cases:
  "(r, bs) \<in> set (chunks s) \<Longrightarrow>
     (\<exists>c. byte_val c < 0x80 \<and> r = byte_val c \<and> bs = [c]) \<or>
     (0x80 \<le> r \<and> (\<forall>b \<in> set bs. 0x80 \<le> byte_val b))"
proof (induction s rule: chunks.induct)
  case (1 s)
  then have ne: "s \<noteq> []" by auto
  obtain a t where s: "s = a # t" using ne by (cases s) auto
  from 1 ne consider "(r, bs) = (fst (decode_rune s), take (snd (decode_rune s)) s)"
    | "(r, bs) \<in> set (chunks (drop (snd (decode_rune s)) s))"
    by (subst (asm) (2) chunks.simps) auto
  then show ?case
  proof cases
    case 1
    show ?thesis
    proof (cases "byte_val a < 0x80")
      case True
      then show ?thesis using 1 by (simp add: s)
    next
      case False
      then show ?thesis using 1 decode_rune_nonascii(1,5) [OF False, of t r "snd (decode_rune s)"]
        by (auto simp: s)
    qed
  qed (use 1 ne in blast)
qed

lemma chunks_RuneLen:
  "(r, bs) \<in> set (chunks s) \<Longrightarrow> r \<noteq> RuneError \<Longrightarrow> length bs = RuneLen r"
proof (induction s rule: chunks.induct)
  case (1 s)
  then have ne: "s \<noteq> []" by auto
  from 1(2) ne consider "(r, bs) = (fst (decode_rune s), take (snd (decode_rune s)) s)"
    | "(r, bs) \<in> set (chunks (drop (snd (decode_rune s)) s))"
    by (subst (asm) chunks.simps) auto
  then show ?case
  proof cases
    case 1
    then have d: "decode_rune s = (r, snd (decode_rune s))" by (simp add: prod_eq_iff)
    show ?thesis
      using decode_rune_RuneLen [OF ne d] decode_rune_width(2) [OF ne d] \<open>r \<noteq> RuneError\<close> 1
      by (simp del: prod.collapse)
  qed (use 1 ne in blast)
qed

section \<open>Choices that remove special characters\<close>

locale safe_choice =
  fixes pick :: "rune \<Rightarrow> nat \<Rightarrow> string option" and special :: "char \<Rightarrow> bool"
  assumes special_ascii: "special c \<Longrightarrow> byte_val c < 0x80"
    and covers: "special c \<Longrightarrow> pick (byte_val c) i \<noteq> None"
    and clean: "pick r i = Some t \<Longrightarrow> c \<in> set t \<Longrightarrow> \<not> special c"
    and valid: "pick RuneError i = None"
begin

lemma no_panic: "replace_runes pick s = Inr (subst_chunks pick 0 (chunks s))"
proof (rule replace_runes_subst)
  show "picked_ok pick s"
    using valid chunks_RuneLen by (fastforce simp: picked_ok_def)
qed

lemma subst_clean:
  "\<forall>(r, bs) \<in> set cs. (\<exists>c. byte_val c < 0x80 \<and> r = byte_val c \<and> bs = [c]) \<or>
     (0x80 \<le> r \<and> (\<forall>b \<in> set bs. 0x80 \<le> byte_val b)) \<Longrightarrow>
   c \<in> set (subst_chunks pick i cs) \<Longrightarrow> \<not> special c"
proof (induction cs arbitrary: i)
  case (Cons x cs)
  obtain r bs where x: "x = (r, bs)" by fastforce
  have shape: "(\<exists>c. byte_val c < 0x80 \<and> r = byte_val c \<and> bs = [c]) \<or>
      (0x80 \<le> r \<and> (\<forall>b \<in> set bs. 0x80 \<le> byte_val b))"
    using Cons.prems(1) by (simp add: x)
  show ?case
  proof (cases "pick r (i + length bs)")
    case None
    then have "\<not> special c" if "c \<in> set bs"
      using shape that covers [of c "i + length bs"] special_ascii [of c] by fastforce
    then show ?thesis using Cons None by (auto simp: x)
  next
    case (Some t)
    then show ?thesis using Cons clean [OF Some] by (auto simp: x)
  qed
qed simp

lemma replace_clean:
  "replace_runes pick s = Inr t \<Longrightarrow> c \<in> set t \<Longrightarrow> \<not> special c"
  using subst_clean [of "chunks s" c 0] chunks_cases [of _ _ s] by (auto simp: no_panic)

end

section \<open>Replacement tables\<close>

text \<open>A \<open>[]string\<close> table indexed by runes, all of them below 0x80: its entries that are not empty.\<close>

type_synonym table = "(char \<times> string) list"

definition table_repl :: "table \<Rightarrow> rune \<Rightarrow> string option" where
  "table_repl table r = (if 0 \<le> r \<and> r < 0x80 then map_of table (char_of r) else None)"

lemma table_repl_char: "byte_val c < 0x80 \<Longrightarrow> table_repl table (byte_val c) = map_of table c"
  by (simp add: table_repl_def char_of_byte_val)

end
