(* ===== verification/Escape_Css.thy ===== *)
theory Escape_Css
  imports Escape_Context Escape_Replace
begin

text \<open>
  CSS (\<open>template/escape/css.go\<close>): the decoder of escapes, the escaper for strings, the filter for
  values, and the recognition of keywords. The buffer \<open>decodeCSS\<close> writes runes into has a fixed
  capacity, and writing past it panics.
\<close>

section \<open>The model\<close>

definition isCSSNmchar :: "rune \<Rightarrow> bool" where
  "isCSSNmchar r \<longleftrightarrow> 0x61 \<le> r \<and> r \<le> 0x7A \<or> 0x41 \<le> r \<and> r \<le> 0x5A \<or> 0x30 \<le> r \<and> r \<le> 0x39 \<or>
     r = 0x2D \<or> r = 0x5F \<or>
     0x80 \<le> r \<and> r \<le> 0xD7FF \<or> 0xE000 \<le> r \<and> r \<le> 0xFFFD \<or> 0x10000 \<le> r \<and> r \<le> 0x10FFFF"

definition endsWithCSSKeyword :: "(rune \<Rightarrow> rune) \<Rightarrow> string \<Rightarrow> string \<Rightarrow> bool" where
  "endsWithCSSKeyword ul b kw =
     (if length b < length kw then False
      else
        let i = length b - length kw in
        if i \<noteq> 0 \<and> isCSSNmchar (fst (last (chunks (take i b)))) then False
        else to_lower ul (drop i b) = kw)"

definition isHex :: "char \<Rightarrow> bool" where
  "isHex c \<longleftrightarrow> 0x30 \<le> byte_val c \<and> byte_val c \<le> 0x39 \<or> 0x61 \<le> byte_val c \<and> byte_val c \<le> 0x66 \<or>
     0x41 \<le> byte_val c \<and> byte_val c \<le> 0x46"

fun hexDecode_loop :: "rune \<Rightarrow> string \<Rightarrow> rune go" where
  "hexDecode_loop n [] = Inr n"
| "hexDecode_loop n (c # s) =
     (let x = byte_val c; m = n * 16 in
      if 0x30 \<le> x \<and> x \<le> 0x39 then hexDecode_loop (m + (x - 0x30)) s
      else if 0x61 \<le> x \<and> x \<le> 0x66 then hexDecode_loop (m + (x - 0x61 + 10)) s
      else if 0x41 \<le> x \<and> x \<le> 0x46 then hexDecode_loop (m + (x - 0x41 + 10)) s
      else Inl (Explicit ''Bad hex digit''))"

definition hexDecode :: "string \<Rightarrow> rune go" where
  "hexDecode s = hexDecode_loop 0 s"

definition isCSSSpace :: "char \<Rightarrow> bool" where
  "isCSSSpace b \<longleftrightarrow> b \<in> {CHR 0x09, CHR 0x0A, CHR 0x0C, CHR 0x0D, CHR '' ''}"

definition skipCSSSpace :: "string \<Rightarrow> string" where
  "skipCSSSpace c = (case c of
     [] \<Rightarrow> []
   | x # c' \<Rightarrow>
       if x \<in> {CHR 0x09, CHR 0x0A, CHR 0x0C, CHR '' ''} then c'
       else if x = CHR 0x0D
       then (if c' \<noteq> [] \<and> hd c' = CHR 0x0A then tl c' else c')
       else c)"

lemma length_skipCSSSpace: "length (skipCSSSpace c) \<le> length c"
  by (auto simp: skipCSSSpace_def split: list.split)

definition hex_end :: "string \<Rightarrow> nat" where
  "hex_end s = 2 + length (takeWhile isHex (take 5 (drop 2 s)))"

text \<open>The rune of an escape in hexadecimal and the index after its digits; a value past the last code
  point gives its last digit back.\<close>

definition hex_rune :: "string \<Rightarrow> (rune \<times> nat) go" where
  "hex_rune s =
     (let j = hex_end s in
      bindE (hexDecode (take (j - 1) (drop 1 s))) (\<lambda>r.
        Inr (if r > 0x10FFFF then (r div 16, j - 1) else (r, j))))"

lemma hex_rune_index: "hex_rune s = Inr (r, j) \<Longrightarrow> 1 \<le> j"
  by (auto simp: hex_rune_def Let_def bindE_eq_Inr hex_end_def split: if_splits)

function decodeCSS_loop :: "nat \<Rightarrow> string \<Rightarrow> string \<Rightarrow> string go" where
  "decodeCSS_loop cap b s =
     (if s = [] then Inr b
      else
        let i = (case index_byte s (CHR 0x5C) of None \<Rightarrow> length s | Some i \<Rightarrow> i);
            b = b @ take i s; s' = drop i s in
        if length s' < 2 then Inr b
        else if isHex (s' ! 1)
        then bindE (hex_rune s') (\<lambda>(r, j).
               if length b + length (encode_rune r) > cap then Inl IndexOutOfRange
               else decodeCSS_loop cap (b @ encode_rune r) (skipCSSSpace (drop j s')))
        else
          let n = snd (decode_rune (drop 1 s')) in
          decodeCSS_loop cap (b @ take n (drop 1 s')) (drop (1 + n) s'))"
  by pat_completeness auto
termination
proof (relation "measure (\<lambda>(cap, b, s). length s)", goal_cases)
  case (2 cap b s i b' s' x r j)
  have "1 \<le> j" by (rule hex_rune_index [of s' r]) (use 2 in simp)
  then have "length (skipCSSSpace (drop j s')) < length s"
    using 2 length_skipCSSSpace [of "drop j s'"] by (cases s) auto
  then show ?case by simp
qed auto

declare decodeCSS_loop.simps [simp del]

definition decodeCSS :: "string \<Rightarrow> string go" where
  "decodeCSS s = (case index_byte s (CHR 0x5C) of
     None \<Rightarrow> Inr s | Some _ \<Rightarrow> decodeCSS_loop (length s) [] s)"

definition css_table :: table where
  "css_table =
     [(CHR 0x00, [CHR 0x5C, CHR ''0'']), (CHR 0x09, [CHR 0x5C, CHR ''9'']), (CHR 0x0A, [CHR 0x5C, CHR ''a'']),
      (CHR 0x0C, [CHR 0x5C, CHR ''c'']), (CHR 0x0D, [CHR 0x5C, CHR ''d'']),
      (CHR 0x22, CHR 0x5C # ''22''), (CHR ''&'', CHR 0x5C # ''26''), (CHR 0x27, CHR 0x5C # ''27''),
      (CHR ''('', CHR 0x5C # ''28''), (CHR '')'', CHR 0x5C # ''29''), (CHR ''+'', CHR 0x5C # ''2b''),
      (CHR ''/'', CHR 0x5C # ''2f''), (CHR '':'', CHR 0x5C # ''3a''), (CHR '';'', CHR 0x5C # ''3b''),
      (CHR ''<'', CHR 0x5C # ''3c''), (CHR ''>'', CHR 0x5C # ''3e''), (CHR 0x5C, [CHR 0x5C, CHR 0x5C]),
      (CHR ''{'', CHR 0x5C # ''7b''), (CHR ''}'', CHR 0x5C # ''7d'')]"

text \<open>The replacement of a rune, with the space that ends an escape followed by a hexadecimal digit,
  a space or the end of the string.\<close>

definition css_pick :: "string \<Rightarrow> rune \<Rightarrow> nat \<Rightarrow> string option" where
  "css_pick s r written = (case table_repl css_table r of
     None \<Rightarrow> None
   | Some repl \<Rightarrow> Some (repl @
       (if repl \<noteq> [CHR 0x5C, CHR 0x5C] \<and>
           (written = length s \<or> isHex (s ! written) \<or> isCSSSpace (s ! written)) then '' '' else [])))"

definition css_escape :: "string \<Rightarrow> string go" where
  "css_escape s = replace_runes (css_pick s) s"

definition cssEscaper :: "('v arg list \<Rightarrow> string) \<Rightarrow> ('v arg \<Rightarrow> bool) \<Rightarrow> 'v arg list \<Rightarrow> string go" where
  "cssEscaper Sprint impl args = bindE (stringify Sprint impl args) (\<lambda>(s, _). css_escape s)"

definition filterFailsafe :: string where "filterFailsafe = ''ZgotmplZ''"

definition css_unsafe :: "char \<Rightarrow> bool" where
  "css_unsafe c \<longleftrightarrow> c \<in> {CHR 0x00, CHR 0x22, CHR 0x27, CHR ''('', CHR '')'', CHR ''/'', CHR '';'',
     CHR ''@'', CHR ''['', CHR 0x5C, CHR '']'', CHR 0x60, CHR ''{'', CHR ''}''}"

text \<open>The loop of the filter: \<open>None\<close> when it returns the failsafe, otherwise the identifier
  characters it collected. The previous byte is kept for the test of two dashes.\<close>

fun css_filter_loop :: "char option \<Rightarrow> string \<Rightarrow> string \<Rightarrow> string option" where
  "css_filter_loop prev [] ident = Some ident"
| "css_filter_loop prev (c # b) ident =
     (if css_unsafe c then None
      else if c = CHR ''-''
      then (if prev = Some (CHR ''-'') then None else css_filter_loop (Some c) b ident)
      else if byte_val c < 0x80 \<and> isCSSNmchar (byte_val c)
      then css_filter_loop (Some c) b (ident @ [c])
      else css_filter_loop (Some c) b ident)"

definition css_filter :: "(rune \<Rightarrow> rune) \<Rightarrow> string \<Rightarrow> string go" where
  "css_filter ul s =
     bindE (decodeCSS s) (\<lambda>b. Inr (case css_filter_loop None b [] of
       None \<Rightarrow> filterFailsafe
     | Some ident \<Rightarrow>
         let ident = to_lower ul ident in
         if index_sub ''expression'' ident \<noteq> None \<or> index_sub ''mozbinding'' ident \<noteq> None
         then filterFailsafe else b))"

definition cssValueFilter ::
  "(rune \<Rightarrow> rune) \<Rightarrow> ('v arg list \<Rightarrow> string) \<Rightarrow> ('v arg \<Rightarrow> bool) \<Rightarrow> 'v arg list \<Rightarrow> string go" where
  "cssValueFilter ul Sprint impl args =
     bindE (stringify Sprint impl args) (\<lambda>(s, t).
       if t = contentTypeCSS then Inr s else css_filter ul s)"

end
