(* ===== verification/Escape_Css_Correct.thy ===== *)
theory Escape_Css_Correct
  imports Escape_Css
begin

text \<open>
  Properties of the CSS functions: the decoder stays within its buffer, the escaper is undone by the
  decoder and leaves no character that ends a CSS token, and the filter lets no unsafe value through.
\<close>

section \<open>The decoder stays within its buffer\<close>

lemma hexDecode_loop_hex:
  "\<forall>c \<in> set s. isHex c \<Longrightarrow> 0 \<le> n \<Longrightarrow> n < 16 ^ k \<Longrightarrow>
     \<exists>r. hexDecode_loop n s = Inr r \<and> 0 \<le> r \<and> r < 16 ^ (k + length s)"
proof (induction s arbitrary: n k)
  case (Cons c s)
  have step: "\<exists>r. hexDecode_loop (n * 16 + d) s = Inr r \<and> 0 \<le> r \<and> r < 16 ^ (Suc k + length s)"
    if "0 \<le> d" "d \<le> 15" for d
    using that Cons.prems by (intro Cons.IH) auto
  have "isHex c" using Cons.prems by simp
  then show ?case
    using step [of "byte_val c - 0x30"] step [of "byte_val c - 0x61 + 10"] step [of "byte_val c - 0x41 + 10"]
    by (auto simp: isHex_def Let_def)
qed simp

lemma length_encode_rune_hex:
  assumes "0 \<le> r" "r < 16 ^ k" "k \<le> 6" "r \<le> 0x10FFFF"
  shows "length (encode_rune r) \<le> 1 + k"
proof -
  have len: "length (encode_rune r) \<le> (if r < 0x80 then 1 else if r < 0x800 then 2 else if r < 0x10000 then 3 else 4)"
    using assms(1) by (auto simp: encode_rune_def encode_valid_def RuneError_def valid_rune_def)
  consider "k = 0" | "k = 1" | "k = 2" | "3 \<le> k" by linarith
  then show ?thesis
  proof cases
    case 4
    then show ?thesis using len by (simp split: if_splits)
  qed (use assms(1,2) len in \<open>simp_all split: if_splits\<close>)
qed

lemma hex_rune_bound:
  assumes "2 \<le> length s" "isHex (s ! 1)"
  shows "\<exists>r j. hex_rune s = Inr (r, j) \<and> 0 \<le> r \<and> r \<le> 0x10FFFF \<and> 2 \<le> j \<and> j \<le> length s \<and>
    length (encode_rune r) \<le> j"
proof -
  let ?tw = "takeWhile isHex (take 5 (drop 2 s))"
  obtain a b u where s: "s = a # b # u" using assms(1) by (cases s; cases "tl s") auto
  have ds: "take (hex_end s - 1) (drop 1 s) = b # takeWhile isHex (take 5 u)"
  proof -
    have "takeWhile isHex (take 5 u) = take (length (takeWhile isHex (take 5 u))) u"
      by (metis takeWhile_eq_take take_take min.absorb1 length_takeWhile_le length_take min.cobounded2 order.trans)
    then show ?thesis by (simp add: s hex_end_def numeral_2_eq_2)
  qed
  have hex: "\<forall>c \<in> set (b # takeWhile isHex (take 5 u)). isHex c"
    using assms(2) by (auto simp: s dest: set_takeWhileD)
  have digits: "length (b # takeWhile isHex (take 5 u)) = hex_end s - 1" by (simp add: hex_end_def s)
  from hexDecode_loop_hex [OF hex, of 0 0]
  obtain r where r: "hexDecode (take (hex_end s - 1) (drop 1 s)) = Inr r" "0 \<le> r" "r < 16 ^ (hex_end s - 1)"
    unfolding hexDecode_def ds digits by (auto simp del: hexDecode_loop.simps)
  have len: "length ?tw \<le> 5" "length ?tw \<le> length s - 2"
    using length_takeWhile_le [of isHex "take 5 (drop 2 s)"] by auto
  then have je: "2 \<le> hex_end s" "hex_end s \<le> 7" "hex_end s \<le> length s"
    using assms(1) by (auto simp: hex_end_def)
  show ?thesis
  proof (cases "r > 0x10FFFF")
    case True
    have "hex_end s = 7"
    proof (rule ccontr)
      assume "hex_end s \<noteq> 7"
      then have "hex_end s - 1 \<le> 5" using je by simp
      then have "(16 :: int) ^ (hex_end s - 1) \<le> 16 ^ 5" by (intro power_increasing) auto
      then show False using r(3) True by simp
    qed
    then have "r div 16 < 16 ^ 5" using r(3) by simp
    then have "length (encode_rune (r div 16)) \<le> 1 + 5" "r div 16 \<le> 0x10FFFF"
      using r(2) by (intro length_encode_rune_hex, auto)
    then show ?thesis using True r je \<open>hex_end s = 7\<close> by (simp add: hex_rune_def)
  next
    case False
    then have "length (encode_rune r) \<le> 1 + (hex_end s - 1)"
      using r je by (intro length_encode_rune_hex) auto
    then show ?thesis using False r je by (simp add: hex_rune_def)
  qed
qed

text \<open>The loop of the decoder step by step: text without a backslash is copied, and an escape is
  decoded.\<close>

lemma decodeCSS_loop_Nil [simp]: "decodeCSS_loop cap b [] = Inr b"
  by (simp add: decodeCSS_loop.simps)

lemma index_backslash: "CHR 0x5C \<notin> set u \<Longrightarrow> index_byte (u @ CHR 0x5C # v) (CHR 0x5C) = Some (length u)"
  by (subst index_where_append) auto

lemma decodeCSS_loop_text: "CHR 0x5C \<notin> set u \<Longrightarrow> decodeCSS_loop cap b u = Inr (b @ u)"
proof -
  assume "CHR 0x5C \<notin> set u"
  then have "index_byte u (CHR 0x5C) = None" by (auto simp: index_where_None)
  then show ?thesis by (subst decodeCSS_loop.simps) simp
qed

lemma decodeCSS_loop_escape:
  assumes "CHR 0x5C \<notin> set u"
  shows "decodeCSS_loop cap b (u @ CHR 0x5C # v) =
    (if v = [] then Inr (b @ u)
     else if isHex (hd v)
     then bindE (hex_rune (CHR 0x5C # v)) (\<lambda>(r, j).
            if length (b @ u) + length (encode_rune r) > cap then Inl IndexOutOfRange
            else decodeCSS_loop cap (b @ u @ encode_rune r) (skipCSSSpace (drop j (CHR 0x5C # v))))
     else decodeCSS_loop cap (b @ u @ take (snd (decode_rune v)) v) (drop (snd (decode_rune v)) v))"
proof -
  have "take (length u) (u @ CHR 0x5C # v) = u" "drop (length u) (u @ CHR 0x5C # v) = CHR 0x5C # v" by simp_all
  then show ?thesis
    by (subst decodeCSS_loop.simps) (cases v; simp add: index_backslash [OF assms] Let_def cong: if_cong)
qed

lemma backslash_split:
  obtains "CHR 0x5C \<notin> set s" | u v where "s = u @ CHR 0x5C # v" "CHR 0x5C \<notin> set u"
  using split_list_first [of "CHR 0x5C" s] by auto

lemma decodeCSS_loop_bound:
  "length b + length s \<le> cap \<Longrightarrow>
     \<exists>t. decodeCSS_loop cap b s = Inr t \<and> length t \<le> length b + length s"
proof (induction "length s" arbitrary: b s rule: less_induct)
  case less
  have ih: "\<exists>t. decodeCSS_loop cap b' s' = Inr t \<and> length t \<le> length b + length s"
    if "length s' < length s" "length b' + length s' \<le> length b + length s" for b' s'
    using less.hyps [OF that(1), of b'] that(2) less.prems by fastforce
  show ?case
  proof (cases s rule: backslash_split)
    case 1
    then show ?thesis by (simp add: decodeCSS_loop_text)
  next
    case (2 u v)
    note step = decodeCSS_loop_escape [OF 2(2), of cap b v, folded 2(1)]
    consider "v = []" | "v \<noteq> []" "isHex (hd v)" | "v \<noteq> []" "\<not> isHex (hd v)" by blast
    then show ?thesis
    proof cases
      case 1
      then show ?thesis using step 2 by simp
    next
      case c: 2
      from hex_rune_bound [of "CHR 0x5C # v"] c
      obtain r j where h: "hex_rune (CHR 0x5C # v) = Inr (r, j)" "2 \<le> j" "j \<le> Suc (length v)"
        "length (encode_rune r) \<le> j" by (auto simp: Suc_le_eq hd_conv_nth)
      let ?w = "skipCSSSpace (drop j (CHR 0x5C # v))"
      have w: "length ?w \<le> Suc (length v) - j" using length_skipCSSSpace [of "drop j (CHR 0x5C # v)"] by simp
      have "\<exists>t. decodeCSS_loop cap (b @ u @ encode_rune r) ?w = Inr t \<and> length t \<le> length b + length s"
        using w h 2(1) by (intro ih) auto
      then show ?thesis using step c h less.prems 2(1) by auto
    next
      case 3
      have "0 < snd (decode_rune v)" "snd (decode_rune v) \<le> length v"
        using 3 decode_rune_pos [of v] decode_rune_width(2) [of v "fst (decode_rune v)" "snd (decode_rune v)"]
        by auto
      then have "\<exists>t. decodeCSS_loop cap (b @ u @ take (snd (decode_rune v)) v) (drop (snd (decode_rune v)) v) = Inr t \<and>
          length t \<le> length b + length s"
        using 2(1) by (intro ih) auto
      then show ?thesis using step 3 by simp
    qed
  qed
qed

lemma decodeCSS_bound: "\<exists>t. decodeCSS s = Inr t \<and> length t \<le> length s"
  using decodeCSS_loop_bound [of "[]" s "length s"] by (auto simp: decodeCSS_def split: option.split)

section \<open>The escaper\<close>

text \<open>The characters that end a CSS string or URL, or have a meaning in HTML.\<close>

definition css_special :: "char \<Rightarrow> bool" where
  "css_special c \<longleftrightarrow> c \<in> set ([CHR 0x00, CHR 0x09, CHR 0x0A, CHR 0x0C, CHR 0x0D, CHR 0x22, CHR 0x27] @
     ''&()+/:;<>{}'')"

lemma css_table_clean: "list_all (\<lambda>(c, t). list_all (\<lambda>x. \<not> css_special x) t) css_table"
  by code_simp

lemma css_table_covers:
  "css_special c \<Longrightarrow> byte_val c < 0x80 \<and> map_of css_table c \<noteq> None"
  by (auto simp: css_special_def css_table_def byte_val_def)

interpretation css: safe_choice "css_pick s" css_special for s
proof
  fix c i r t
  show "css_special c \<Longrightarrow> byte_val c < 0x80" using css_table_covers by blast
  show "css_special c \<Longrightarrow> css_pick s (byte_val c) i \<noteq> None"
    using css_table_covers [of c] by (auto simp: css_pick_def table_repl_char)
  show "css_pick s RuneError i = None" by (simp add: css_pick_def table_repl_def RuneError_def)
  assume "css_pick s r i = Some t" "c \<in> set t"
  then obtain u where u: "map_of css_table (char_of r) = Some u" "c \<in> set u \<union> {CHR '' ''}"
    by (auto simp: css_pick_def table_repl_def split: option.splits if_splits)
  from map_of_SomeD [OF u(1)] css_table_clean have "list_all (\<lambda>x. \<not> css_special x) u"
    by (auto simp: list_all_iff)
  then show "\<not> css_special c" using u(2) by (auto simp: list_all_iff css_special_def)
qed

lemma css_escape_subst: "css_escape s = Inr (subst_chunks (css_pick s) 0 (chunks s))"
  by (simp add: css_escape_def css.no_panic)

section \<open>The decoder undoes the escaper\<close>

lemma decodeCSS_loop_append:
  assumes "CHR 0x5C \<notin> set u"
  shows "decodeCSS_loop cap b (u @ s) = decodeCSS_loop cap (b @ u) s"
proof (cases s rule: backslash_split)
  case 1
  then show ?thesis using assms by (simp add: decodeCSS_loop_text)
next
  case (2 u' v)
  then have "CHR 0x5C \<notin> set (u @ u')" using assms by simp
  from decodeCSS_loop_escape [OF this, of cap b v] decodeCSS_loop_escape [OF 2(2), of cap "b @ u" v]
  show ?thesis by (simp add: 2(1) append_assoc add.assoc cong: if_cong)
qed

lemma decodeCSS_loop_backslash:
  "decodeCSS_loop cap b (CHR 0x5C # CHR 0x5C # v) = decodeCSS_loop cap (b @ [CHR 0x5C]) v"
  using decodeCSS_loop_escape [of "[]" cap b "CHR 0x5C # v"] by (simp add: isHex_def byte_val_def)

text \<open>An escape of one or two digits, ended by a space or by a character that is neither a digit nor a
  space, is decoded to its code.\<close>

lemma decodeCSS_loop_hex:
  assumes ds: "ds \<noteq> []" "length ds \<le> 2" "\<forall>d \<in> set ds. isHex d" "hexDecode ds = Inr (byte_val c)"
    and c: "byte_val c < 0x80"
    and sep: "sep = '' '' \<or> sep = [] \<and> v \<noteq> [] \<and> \<not> isHex (hd v) \<and> \<not> isCSSSpace (hd v)"
    and cap: "length b < cap"
  shows "decodeCSS_loop cap b (CHR 0x5C # ds @ sep @ v) = decodeCSS_loop cap (b @ [c]) v"
proof -
  obtain d ds' where d: "ds = d # ds'" using ds(1) by (cases ds) auto
  let ?s = "CHR 0x5C # ds @ sep @ v"
  have stop: "sep @ v \<noteq> []" "\<not> isHex (hd (sep @ v))"
    using sep by (auto simp: isHex_def byte_val_def)
  then obtain x w where x: "sep @ v = x # w" "\<not> isHex x" by (cases "sep @ v") auto
  have "takeWhile isHex (take 5 (ds' @ x # w)) = ds'"
    using ds(2,3) x(2) by (cases ds') (auto simp: d numeral_eq_Suc)
  then have "hex_end ?s = 1 + length ds" by (simp add: hex_end_def d x(1) numeral_2_eq_2)
  then have "hex_rune ?s = Inr (byte_val c, 1 + length ds)"
    using ds(4) c by (simp add: hex_rune_def)
  moreover have "skipCSSSpace (sep @ v) = v"
    using sep by (cases v) (auto simp: skipCSSSpace_def isCSSSpace_def)
  moreover have "isHex d" "encode_rune (byte_val c) = [c]" using ds(3) c by (simp_all add: d encode_rune_ascii)
  ultimately show ?thesis
    using decodeCSS_loop_escape [of "[]" cap b "ds @ sep @ v"] cap by (simp add: d)
qed

lemma css_table_hex:
  "list_all (\<lambda>(c, t). t = [CHR 0x5C, CHR 0x5C] \<and> c = CHR 0x5C \<or>
     t \<noteq> [CHR 0x5C, CHR 0x5C] \<and> t \<noteq> [] \<and> hd t = CHR 0x5C \<and> tl t \<noteq> [] \<and> length (tl t) \<le> 2 \<and> list_all isHex (tl t) \<and>
     hexDecode (tl t) = Inr (byte_val c) \<and> byte_val c < 0x80) css_table"
  by code_simp

lemma css_pick_cases:
  assumes "css_pick s r i = Some t"
  obtains c where "r = byte_val c" "t = [CHR 0x5C, CHR 0x5C]" "c = CHR 0x5C"
  | c ds where "r = byte_val c" "byte_val c < 0x80" "ds \<noteq> []" "length ds \<le> 2" "\<forall>d \<in> set ds. isHex d"
      "hexDecode ds = Inr (byte_val c)"
      "t = CHR 0x5C # ds @ (if i = length s \<or> isHex (s ! i) \<or> isCSSSpace (s ! i) then '' '' else [])"
proof -
  from assms obtain u where r: "0 \<le> r" "r < 0x80" and u: "map_of css_table (char_of r) = Some u"
    and t: "t = u @ (if u \<noteq> [CHR 0x5C, CHR 0x5C] \<and> (i = length s \<or> isHex (s ! i) \<or> isCSSSpace (s ! i)) then '' '' else [])"
    by (auto simp: css_pick_def table_repl_def split: option.splits if_splits)
  have rc: "r = byte_val (char_of r)" using r by simp
  from map_of_SomeD [OF u] css_table_hex
  have *: "u = [CHR 0x5C, CHR 0x5C] \<and> char_of r = CHR 0x5C \<or>
      u \<noteq> [CHR 0x5C, CHR 0x5C] \<and> u \<noteq> [] \<and> hd u = CHR 0x5C \<and> tl u \<noteq> [] \<and> length (tl u) \<le> 2 \<and>
      list_all isHex (tl u) \<and> hexDecode (tl u) = Inr (byte_val (char_of r)) \<and> byte_val (char_of r :: char) < 0x80"
    by (auto simp: list_all_iff)
  show thesis
  proof (cases "u = [CHR 0x5C, CHR 0x5C]")
    case True
    then show ?thesis using * t rc that(1) [of "char_of r"] by simp
  next
    case False
    then have "u = CHR 0x5C # tl u" using * by (cases u) auto
    then show ?thesis using False * t rc that(2) [of "char_of r" "tl u"] by (auto simp: list_all_iff)
  qed
qed

text \<open>The escaped form of a string that is not empty begins with a backslash or with its own first
  byte.\<close>

lemma hd_css_subst:
  assumes "t \<noteq> []"
  shows "subst_chunks (css_pick s) i (chunks t) \<noteq> [] \<and>
    hd (subst_chunks (css_pick s) i (chunks t)) \<in> {CHR 0x5C, hd t}"
proof -
  let ?n = "snd (decode_rune t)"
  have n: "0 < ?n" using assms by (rule decode_rune_pos)
  have ch: "chunks t = (fst (decode_rune t), take ?n t) # chunks (drop ?n t)"
    using assms by (subst chunks.simps) simp
  have "take ?n t \<noteq> []" "hd (take ?n t) = hd t" using n assms by (cases t; cases ?n; simp)+
  then show ?thesis
    by (cases "css_pick s (fst (decode_rune t)) (i + length (take ?n t))")
      (auto simp: ch elim!: css_pick_cases)
qed

lemma decode_css_subst:
  assumes "s = p @ t" "length b + length (subst_chunks (css_pick s) (length p) (chunks t)) \<le> cap"
  shows "decodeCSS_loop cap b (subst_chunks (css_pick s) (length p) (chunks t)) = Inr (b @ t)"
  using assms
proof (induction t arbitrary: p b rule: chunks.induct)
  case (1 t)
  note IH = "1.IH" and prems = "1.prems"
  show ?case
  proof (cases "t = []")
    case False
    let ?r = "fst (decode_rune t)" and ?n = "snd (decode_rune t)"
    let ?u = "drop ?n t" and ?bs = "take ?n t"
    let ?e = "subst_chunks (css_pick s) (length p + ?n) (chunks ?u)"
    have n: "0 < ?n" "?n \<le> length t"
      using decode_rune_width(1,2) [OF False, of ?r ?n] by auto
    then have lb: "length ?bs = ?n" by simp
    have ch: "chunks t = (?r, ?bs) # chunks ?u" using False by (subst chunks.simps) simp
    have s: "s = (p @ ?bs) @ ?u" using prems(1) by simp
    have ih: "decodeCSS_loop cap b' ?e = Inr (b' @ ?u)" if "length b' + length ?e \<le> cap" for b'
      using IH [OF False s, of b'] that n(2) by (simp add: min.absorb2)
    have e: "subst_chunks (css_pick s) (length p) (chunks t) =
        (case css_pick s ?r (length p + ?n) of Some repl \<Rightarrow> repl | None \<Rightarrow> ?bs) @ ?e"
      unfolding ch subst_chunks.simps lb by (rule refl)
    have shape: "(\<exists>c. byte_val c < 0x80 \<and> ?r = byte_val c \<and> ?bs = [c]) \<or>
        (0x80 \<le> ?r \<and> (\<forall>b \<in> set ?bs. 0x80 \<le> byte_val b))"
      using chunks_cases [of ?r ?bs t] ch by simp
    show ?thesis
    proof (cases "css_pick s ?r (length p + ?n)")
      case None
      have "CHR 0x5C \<notin> set ?bs"
      proof
        assume "CHR 0x5C \<in> set ?bs"
        then have "?r = byte_val (CHR 0x5C)" using shape by (auto simp: byte_val_def)
        moreover have "table_repl css_table (byte_val (CHR 0x5C)) = Some [CHR 0x5C, CHR 0x5C]" by code_simp
        ultimately show False using None by (simp add: css_pick_def)
      qed
      then show ?thesis
        using ih [of "b @ ?bs"] prems(2) None by (simp add: e decodeCSS_loop_append)
    next
      case (Some repl)
      from Some show ?thesis
      proof (cases rule: css_pick_cases)
        case (1 c)
        have "byte_val c < 0x80" using 1(3) by (simp add: byte_val_def)
        then have "?bs = [c]" using shape 1(1) by auto
        then have "?bs = [CHR 0x5C]" using 1(3) by simp
        then have "t = CHR 0x5C # ?u" using append_take_drop_id [of ?n t] by simp
        moreover have "decodeCSS_loop cap b (CHR 0x5C # CHR 0x5C # ?e) = Inr (b @ CHR 0x5C # ?u)"
          using ih [of "b @ [CHR 0x5C]"] prems(2) 1 Some unfolding e by (simp add: decodeCSS_loop_backslash)
        ultimately show ?thesis using 1 Some unfolding e by simp
      next
        case (2 c ds)
        let ?sep = "if length p + ?n = length s \<or> isHex (s ! (length p + ?n)) \<or> isCSSSpace (s ! (length p + ?n))
          then '' '' else []"
        have "?bs = [c]" using shape 2(1,2) by auto
        then have t: "t = c # ?u" using append_take_drop_id [of ?n t] by simp
        have sep: "?sep = '' '' \<or> ?sep = [] \<and> ?e \<noteq> [] \<and> \<not> isHex (hd ?e) \<and> \<not> isCSSSpace (hd ?e)"
        proof (cases "?u = []")
          case True
          then show ?thesis using s n prems(1) by simp
        next
          case u: False
          then have "s ! (length p + ?n) = hd ?u"
            using s lb by (metis hd_conv_nth length_append nth_append_length_plus add_0_right)
          moreover have "\<not> isHex (CHR 0x5C)" "\<not> isCSSSpace (CHR 0x5C)"
            by (simp_all add: isHex_def isCSSSpace_def byte_val_def)
          ultimately show ?thesis
            using hd_css_subst [OF u, of s "length p + ?n"] by auto
        qed
        have "length b < cap" "length (b @ [c]) + length ?e \<le> cap"
          using prems(2) 2(3,7) Some unfolding e by (cases ds; simp)+
        then have "decodeCSS_loop cap b (CHR 0x5C # ds @ ?sep @ ?e) = Inr ((b @ [c]) @ ?u)"
          using decodeCSS_loop_hex [OF 2(3-6) 2(2) sep] ih [of "b @ [c]"] by simp
        then show ?thesis using Some t unfolding e 2(7) by simp
      qed
    qed
  qed (simp)
qed

section \<open>The filter\<close>

lemma css_filter_loop_safe:
  "css_filter_loop prev b ident = Some ident' \<Longrightarrow>
     (\<forall>c \<in> set b. \<not> css_unsafe c) \<and> \<not> sublist ''--'' b \<and>
     (prev = Some (CHR ''-'') \<longrightarrow> \<not> prefix ''-'' b)"
proof (induction prev b ident rule: css_filter_loop.induct)
  case (2 prev c b ident)
  have safe: "\<not> css_unsafe c" using 2(4) by (auto split: if_splits)
  show ?case
  proof (cases "c = CHR ''-''")
    case True
    then have "prev \<noteq> Some (CHR ''-'')" "css_filter_loop (Some c) b ident = Some ident'"
      using 2(4) safe by (auto split: if_splits)
    then have "(\<forall>c \<in> set b. \<not> css_unsafe c) \<and> \<not> sublist ''--'' b \<and> \<not> prefix ''-'' b"
      using 2(1) safe True by simp
    then show ?thesis using safe True \<open>prev \<noteq> Some (CHR ''-'')\<close> by (simp add: sublist_Cons_right)
  next
    case False
    then have "(\<forall>c \<in> set b. \<not> css_unsafe c) \<and> \<not> sublist ''--'' b"
      using 2(2,3,4) safe by (simp split: if_splits)
    then show ?thesis using safe False by (simp add: sublist_Cons_right)
  qed
qed simp

lemma sublist_index_sub: "index_sub pat s = None \<Longrightarrow> \<not> sublist pat s"
  by (induction s) (auto simp: sublist_Cons_right split: if_splits)

section \<open>Properties\<close>

text \<open>C27: \<open>decodeCSS\<close> never writes past its buffer: for every input, however malformed, it returns
  without a panic, and its result is no longer than its input, as its comment claims.\<close>

theorem decodeCSS_fits: "\<exists>t. decodeCSS s = Inr t \<and> length t \<le> length s"
  by (rule decodeCSS_bound)

text \<open>C24: The escaper of CSS strings loses nothing: for every string, it returns without a panic, and
  decoding the escaped string gives the string back.\<close>

theorem css_escape_roundtrip: "\<exists>e. css_escape s = Inr e \<and> decodeCSS e = Inr s"
proof -
  let ?e = "subst_chunks (css_pick s) 0 (chunks s)"
  have loop: "decodeCSS_loop (length ?e) [] ?e = Inr s"
    using decode_css_subst [of s "[]" s "[]" "length ?e"] by simp
  have "decodeCSS ?e = Inr s"
  proof (cases "index_byte ?e (CHR 0x5C)")
    case None
    then have "CHR 0x5C \<notin> set ?e" by (auto simp: index_where_None)
    then show ?thesis using loop None by (simp add: decodeCSS_def decodeCSS_loop_text)
  qed (simp add: decodeCSS_def loop)
  then show ?thesis by (simp add: css_escape_subst)
qed

text \<open>C28: An escaped CSS string contains no character that ends a CSS string, a URL or a declaration,
  nor one that has a meaning in HTML: no quote, parenthesis, brace, semicolon, colon, slash, angle
  bracket, ampersand, line break or NUL.\<close>

theorem css_escape_safe:
  assumes "cssEscaper Sprint impl args = Inr e"
  shows "\<forall>c \<in> set e. \<not> css_special c"
  using assms css.replace_clean by (auto simp: cssEscaper_def css_escape_def bindE_eq_Inr)

theorem css_escape_safe_witness:
  "cssEscaper (\<lambda>_. []) (\<lambda>_. False) [Str '')</style>'' :: nat arg] = Inr (CHR 0x5C # ''29'' @ CHR 0x5C # ''3c'' @ CHR 0x5C # ''2fstyle'' @ CHR 0x5C # ''3e '') \<and>
   list_all (\<lambda>c. \<not> css_special c) (CHR 0x5C # ''29'' @ CHR 0x5C # ''3c'' @ CHR 0x5C # ''2fstyle'' @ CHR 0x5C # ''3e '')"
proof -
  have "cssEscaper (\<lambda>_. []) (\<lambda>_. False) [Str '')</style>'' :: nat arg] = Inr (CHR 0x5C # ''29'' @ CHR 0x5C # ''3c'' @ CHR 0x5C # ''2fstyle'' @ CHR 0x5C # ''3e '')"
    by code_simp
  then show ?thesis using css_escape_safe unfolding list_all_iff by blast
qed

text \<open>What the filter of CSS values lets through, for content that is not trusted CSS, cannot
  start a new token: it is the failsafe word, or it has no quote, bracket, slash, semicolon, at
  sign, backslash, backquote or NUL, and no two dashes in a row.\<close>

theorem cssValueFilter_safe:
  assumes "stringify Sprint impl args = Inr (s, t)" and "t \<noteq> contentTypeCSS"
  shows "\<exists>v. cssValueFilter ul Sprint impl args = Inr v \<and>
    (v = filterFailsafe \<or> decodeCSS s = Inr v \<and> (\<forall>c \<in> set v. \<not> css_unsafe c) \<and> \<not> sublist ''--'' v)"
proof -
  obtain b where b: "decodeCSS s = Inr b" using decodeCSS_bound by blast
  have "\<exists>v. css_filter ul s = Inr v \<and>
      (v = filterFailsafe \<or> v = b \<and> (\<forall>c \<in> set v. \<not> css_unsafe c) \<and> \<not> sublist ''--'' v)"
    using css_filter_loop_safe [of None b "[]"] by (auto simp: css_filter_def b Let_def split: option.split)
  then show ?thesis using assms b by (auto simp: cssValueFilter_def)
qed

theorem cssValueFilter_safe_witness:
  "\<exists>v. cssValueFilter id (\<lambda>_. []) (\<lambda>_. False) [Str ''a--b'' :: nat arg] = Inr v \<and>
    (v = filterFailsafe \<or> decodeCSS ''a--b'' = Inr v \<and> list_all (\<lambda>c. \<not> css_unsafe c) v \<and> \<not> sublist ''--'' v)"
  using cssValueFilter_safe [of "\<lambda>_. []" "\<lambda>_. False" "[Str ''a--b'' :: nat arg]" "''a--b''" contentTypePlain id]
  by (simp add: list_all_iff)

end
