(* ===== verification/Escape_Html.thy ===== *)
theory Escape_Html
  imports Escape_Css
begin

text \<open>
  HTML (\<open>template/escape/attr.go\<close> and \<open>html.go\<close>, but \<open>stripTags\<close>, which is in \<open>Escape_Strip\<close>): the
  content types of attributes, the replacement tables, the replacer and the filter of names.
\<close>

section \<open>Attributes\<close>

definition attrTypeMap :: "(string \<times> contentType) list" where
  "attrTypeMap =
    [(''accept'', contentTypePlain), (''accept-charset'', contentTypeUnsafe), (''action'', contentTypeURL),
     (''alt'', contentTypePlain), (''archive'', contentTypeURL), (''async'', contentTypeUnsafe),
     (''autocomplete'', contentTypePlain), (''autofocus'', contentTypePlain),
     (''autoplay'', contentTypePlain), (''background'', contentTypeURL), (''border'', contentTypePlain),
     (''checked'', contentTypePlain), (''cite'', contentTypeURL), (''challenge'', contentTypeUnsafe),
     (''charset'', contentTypeUnsafe), (''class'', contentTypePlain), (''classid'', contentTypeURL),
     (''codebase'', contentTypeURL), (''cols'', contentTypePlain), (''colspan'', contentTypePlain),
     (''content'', contentTypeUnsafe), (''contenteditable'', contentTypePlain),
     (''contextmenu'', contentTypePlain), (''controls'', contentTypePlain), (''coords'', contentTypePlain),
     (''crossorigin'', contentTypeUnsafe), (''data'', contentTypeURL), (''datetime'', contentTypePlain),
     (''default'', contentTypePlain), (''defer'', contentTypeUnsafe), (''dir'', contentTypePlain),
     (''dirname'', contentTypePlain), (''disabled'', contentTypePlain), (''draggable'', contentTypePlain),
     (''dropzone'', contentTypePlain), (''enctype'', contentTypeUnsafe), (''for'', contentTypePlain),
     (''form'', contentTypeUnsafe), (''formaction'', contentTypeURL), (''formenctype'', contentTypeUnsafe),
     (''formmethod'', contentTypeUnsafe), (''formnovalidate'', contentTypeUnsafe),
     (''formtarget'', contentTypePlain), (''headers'', contentTypePlain), (''height'', contentTypePlain),
     (''hidden'', contentTypePlain), (''high'', contentTypePlain), (''href'', contentTypeURL),
     (''hreflang'', contentTypePlain), (''http-equiv'', contentTypeUnsafe), (''icon'', contentTypeURL),
     (''id'', contentTypePlain), (''ismap'', contentTypePlain), (''keytype'', contentTypeUnsafe),
     (''kind'', contentTypePlain), (''label'', contentTypePlain), (''lang'', contentTypePlain),
     (''language'', contentTypeUnsafe), (''list'', contentTypePlain), (''longdesc'', contentTypeURL),
     (''loop'', contentTypePlain), (''low'', contentTypePlain), (''manifest'', contentTypeURL),
     (''max'', contentTypePlain), (''maxlength'', contentTypePlain), (''media'', contentTypePlain),
     (''mediagroup'', contentTypePlain), (''method'', contentTypeUnsafe), (''min'', contentTypePlain),
     (''multiple'', contentTypePlain), (''name'', contentTypePlain), (''novalidate'', contentTypeUnsafe),
     (''open'', contentTypePlain), (''optimum'', contentTypePlain), (''pattern'', contentTypeUnsafe),
     (''placeholder'', contentTypePlain), (''poster'', contentTypeURL), (''profile'', contentTypeURL),
     (''preload'', contentTypePlain), (''pubdate'', contentTypePlain), (''radiogroup'', contentTypePlain),
     (''readonly'', contentTypePlain), (''rel'', contentTypeUnsafe), (''required'', contentTypePlain),
     (''reversed'', contentTypePlain), (''rows'', contentTypePlain), (''rowspan'', contentTypePlain),
     (''sandbox'', contentTypeUnsafe), (''spellcheck'', contentTypePlain), (''scope'', contentTypePlain),
     (''scoped'', contentTypePlain), (''seamless'', contentTypePlain), (''selected'', contentTypePlain),
     (''shape'', contentTypePlain), (''size'', contentTypePlain), (''sizes'', contentTypePlain),
     (''span'', contentTypePlain), (''src'', contentTypeURL), (''srcdoc'', contentTypeHTML),
     (''srclang'', contentTypePlain), (''start'', contentTypePlain), (''step'', contentTypePlain),
     (''style'', contentTypeCSS), (''tabindex'', contentTypePlain), (''target'', contentTypePlain),
     (''title'', contentTypePlain), (''type'', contentTypeUnsafe), (''usemap'', contentTypeURL),
     (''value'', contentTypeUnsafe), (''width'', contentTypePlain), (''wrap'', contentTypePlain),
     (''xmlns'', contentTypeURL)]"

definition attrType :: "(rune \<Rightarrow> rune) \<Rightarrow> string \<Rightarrow> contentType" where
  "attrType ul name =
     (let name = to_lower ul name;
          strip = (if prefix ''data-'' name then Some (drop 5 name)
                   else case index_byte name (CHR '':'') of
                     Some colon \<Rightarrow> if take colon name = ''xmlns'' then None else Some (drop (colon + 1) name)
                   | None \<Rightarrow> Some name)
      in case strip of
           None \<Rightarrow> contentTypeURL
         | Some name \<Rightarrow>
             (case map_of attrTypeMap name of
                Some t \<Rightarrow> t
              | None \<Rightarrow>
                  if prefix ''on'' name then contentTypeJS
                  else if index_sub ''src'' name \<noteq> None \<or> index_sub ''uri'' name \<noteq> None \<or>
                          index_sub ''url'' name \<noteq> None
                  then contentTypeURL
                  else contentTypePlain))"

section \<open>Replacement tables\<close>

definition utf8_fffd :: string where
  "utf8_fffd = [CHR 0xEF, CHR 0xBF, CHR 0xBD]"

definition htmlReplacementTable :: table where
  "htmlReplacementTable =
     [(CHR 0x00, utf8_fffd), (CHR 0x22, ''&#34;''), (CHR ''&'', ''&amp;''), (CHR 0x27, ''&#39;''),
      (CHR ''+'', ''&#43;''), (CHR ''<'', ''&lt;''), (CHR ''>'', ''&gt;'')]"

definition htmlNormReplacementTable :: table where
  "htmlNormReplacementTable =
     [(CHR 0x00, utf8_fffd), (CHR 0x22, ''&#34;''), (CHR 0x27, ''&#39;''),
      (CHR ''+'', ''&#43;''), (CHR ''<'', ''&lt;''), (CHR ''>'', ''&gt;'')]"

definition htmlNospaceReplacementTable :: table where
  "htmlNospaceReplacementTable =
     [(CHR 0x00, ''&#xfffd;''), (CHR 0x09, ''&#9;''), (CHR 0x0A, ''&#10;''), (CHR 0x0B, ''&#11;''),
      (CHR 0x0C, ''&#12;''), (CHR 0x0D, ''&#13;''), (CHR '' '', ''&#32;''), (CHR 0x22, ''&#34;''),
      (CHR ''&'', ''&amp;''), (CHR 0x27, ''&#39;''), (CHR ''+'', ''&#43;''), (CHR ''<'', ''&lt;''),
      (CHR ''='', ''&#61;''), (CHR ''>'', ''&gt;''), (CHR 0x60, ''&#96;'')]"

definition htmlNospaceNormReplacementTable :: table where
  "htmlNospaceNormReplacementTable =
     [(CHR 0x00, ''&#xfffd;''), (CHR 0x09, ''&#9;''), (CHR 0x0A, ''&#10;''), (CHR 0x0B, ''&#11;''),
      (CHR 0x0C, ''&#12;''), (CHR 0x0D, ''&#13;''), (CHR '' '', ''&#32;''), (CHR 0x22, ''&#34;''),
      (CHR 0x27, ''&#39;''), (CHR ''+'', ''&#43;''), (CHR ''<'', ''&lt;''),
      (CHR ''='', ''&#61;''), (CHR ''>'', ''&gt;''), (CHR 0x60, ''&#96;'')]"

section \<open>The replacer\<close>

definition hex_digit :: "nat \<Rightarrow> char" where
  "hex_digit d = char_of (if d < 10 then 48 + d else 87 + d)"

fun show_hex :: "nat \<Rightarrow> string" where
  "show_hex n = (if n < 16 then [hex_digit n] else show_hex (n div 16) @ [hex_digit (n mod 16)])"

declare show_hex.simps [simp del]

definition html_pick :: "table \<Rightarrow> bool \<Rightarrow> rune \<Rightarrow> nat \<Rightarrow> string option" where
  "html_pick table badRunes r written =
     (case table_repl table r of
        Some repl \<Rightarrow> Some repl
      | None \<Rightarrow>
          if \<not> badRunes \<and> (0xFDD0 \<le> r \<and> r \<le> 0xFDEF \<or> 0xFFF0 \<le> r \<and> r \<le> 0xFFFF)
          then Some (''&#x'' @ show_hex (nat r) @ '';'')
          else None)"

definition htmlReplacer :: "string \<Rightarrow> table \<Rightarrow> bool \<Rightarrow> string go" where
  "htmlReplacer s table badRunes = replace_runes (html_pick table badRunes) s"

definition htmlEscaper :: "('v arg list \<Rightarrow> string) \<Rightarrow> ('v arg \<Rightarrow> bool) \<Rightarrow> 'v arg list \<Rightarrow> string go" where
  "htmlEscaper Sprint impl args =
     bindE (stringify Sprint impl args) (\<lambda>(s, t).
       if t = contentTypeHTML then Inr s else htmlReplacer s htmlReplacementTable True)"

definition rcdataEscaper :: "('v arg list \<Rightarrow> string) \<Rightarrow> ('v arg \<Rightarrow> bool) \<Rightarrow> 'v arg list \<Rightarrow> string go" where
  "rcdataEscaper Sprint impl args =
     bindE (stringify Sprint impl args) (\<lambda>(s, t).
       if t = contentTypeHTML then htmlReplacer s htmlNormReplacementTable True
       else htmlReplacer s htmlReplacementTable True)"

definition htmlNameFilter ::
  "(rune \<Rightarrow> rune) \<Rightarrow> ('v arg list \<Rightarrow> string) \<Rightarrow> ('v arg \<Rightarrow> bool) \<Rightarrow> 'v arg list \<Rightarrow> string go" where
  "htmlNameFilter ul Sprint impl args =
     bindE (stringify Sprint impl args) (\<lambda>(s, t). Inr
       (if t = contentTypeHTMLAttr then s
        else if length s = 0 then filterFailsafe
        else
          let s = to_lower ul s in
          if attrType ul s \<noteq> contentTypePlain then filterFailsafe
          else if \<forall>(i, r) \<in> set (range_runes 0 s). 0x30 \<le> r \<and> r \<le> 0x39 \<or> 0x61 \<le> r \<and> r \<le> 0x7A
          then s else filterFailsafe))"

definition commentEscaper :: "'v arg list \<Rightarrow> string" where
  "commentEscaper args = []"

end
