(* ===== verification/Escape_Url.thy ===== *)
theory Escape_Url
  imports Escape_Html
begin

text \<open>
  URLs (\<open>template/escape/url.go\<close>): the filter of protocols and the processor that escapes a part of
  a URL or normalizes a whole one.
\<close>

section \<open>The model\<close>

definition urlFilter ::
  "(rune \<Rightarrow> rune) \<Rightarrow> ('v arg list \<Rightarrow> string) \<Rightarrow> ('v arg \<Rightarrow> bool) \<Rightarrow> 'v arg list \<Rightarrow> string go" where
  "urlFilter ul Sprint impl args =
     bindE (stringify Sprint impl args) (\<lambda>(s, t). Inr
       (if t = contentTypeURL then s
        else case index_byte s (CHR '':'') of
          Some i \<Rightarrow>
            if index_byte (take i s) (CHR ''/'') = None
            then (let protocol = to_lower ul (take i s) in
                  if protocol \<noteq> ''http'' \<and> protocol \<noteq> ''https'' \<and> protocol \<noteq> ''mailto''
                  then CHR ''#'' # filterFailsafe else s)
            else s
        | None \<Rightarrow> s))"

text \<open>Whether the byte at the head of \<open>s\<close> is copied, in each case of the switch.\<close>

definition url_reserved :: "char \<Rightarrow> bool" where
  "url_reserved c \<longleftrightarrow> c \<in> set ''!#$&*+,/:;=?@[]''"

definition url_unreserved :: "char \<Rightarrow> bool" where
  "url_unreserved c \<longleftrightarrow> c \<in> set ''-._~'' \<or> 0x61 \<le> byte_val c \<and> byte_val c \<le> 0x7A \<or>
     0x41 \<le> byte_val c \<and> byte_val c \<le> 0x5A \<or> 0x30 \<le> byte_val c \<and> byte_val c \<le> 0x39"

definition url_keep :: "bool \<Rightarrow> char \<Rightarrow> string \<Rightarrow> bool" where
  "url_keep norm c s \<longleftrightarrow>
     (if url_reserved c then norm
      else if c = CHR ''%'' then norm \<and> 2 \<le> length s \<and> isHex (s ! 0) \<and> isHex (s ! 1)
      else url_unreserved c)"

text \<open>\<open>fmt.Fprintf(&b, "%%%02x", c)\<close>\<close>

definition percent :: "char \<Rightarrow> string" where
  "percent c = [CHR ''%'', hex_digit (of_char c div 16), hex_digit (of_char c mod 16)]"

text \<open>The loop over the bytes from index \<open>i\<close> on.\<close>

fun url_loop :: "bool \<Rightarrow> string \<Rightarrow> nat \<Rightarrow> string \<Rightarrow> nat \<Rightarrow> string \<Rightarrow> (nat \<times> string) go" where
  "url_loop norm s i [] written b = Inr (written, b)"
| "url_loop norm s i (c # t) written b =
     (if url_keep norm c t then url_loop norm s (i + 1) t written b
      else bindE (slice s written i) (\<lambda>u. url_loop norm s (i + 1) t (i + 1) (b @ u @ percent c)))"

definition url_process :: "bool \<Rightarrow> string \<Rightarrow> string go" where
  "url_process norm s =
     bindE (url_loop norm s 0 s 0 []) (\<lambda>(written, b).
       if written = 0 then Inr s
       else bindE (slice s written (length s)) (\<lambda>u. Inr (b @ u)))"

definition urlProcessor ::
  "bool \<Rightarrow> ('v arg list \<Rightarrow> string) \<Rightarrow> ('v arg \<Rightarrow> bool) \<Rightarrow> 'v arg list \<Rightarrow> string go" where
  "urlProcessor norm Sprint impl args =
     bindE (stringify Sprint impl args) (\<lambda>(s, t). url_process (norm \<or> t = contentTypeURL) s)"

definition urlEscaper :: "('v arg list \<Rightarrow> string) \<Rightarrow> ('v arg \<Rightarrow> bool) \<Rightarrow> 'v arg list \<Rightarrow> string go" where
  "urlEscaper = urlProcessor False"

definition urlNormalizer :: "('v arg list \<Rightarrow> string) \<Rightarrow> ('v arg \<Rightarrow> bool) \<Rightarrow> 'v arg list \<Rightarrow> string go" where
  "urlNormalizer = urlProcessor True"

end
