(* ===== verification/Escape_Js.thy ===== *)
theory Escape_Js
  imports Escape_Html
begin

text \<open>
  JavaScript (\<open>template/escape/js.go\<close>): the context after a run of tokens, and the escapers for
  values, strings and regular expressions. \<open>json.Marshal\<close> is a parameter.
\<close>

section \<open>The context after a run of tokens\<close>

definition isJSIdentPart :: "rune \<Rightarrow> bool" where
  "isJSIdentPart r \<longleftrightarrow> r = 0x24 \<or> 0x30 \<le> r \<and> r \<le> 0x39 \<or> 0x41 \<le> r \<and> r \<le> 0x5A \<or> r = 0x5F \<or>
     0x61 \<le> r \<and> r \<le> 0x7A"

definition regexpPrecederKeywords :: "string list" where
  "regexpPrecederKeywords =
     [''break'', ''case'', ''continue'', ''delete'', ''do'', ''else'', ''finally'', ''in'', ''instanceof'',
      ''return'', ''throw'', ''try'', ''typeof'', ''void'']"

definition trim_right :: "string \<Rightarrow> string \<Rightarrow> string" where
  "trim_right s cutset =
     concat (map snd (rev (dropWhile (\<lambda>c. contains_rune cutset (fst c)) (rev (chunks s)))))"

definition trim_left :: "string \<Rightarrow> string \<Rightarrow> string" where
  "trim_left s cutset = concat (map snd (dropWhile (\<lambda>c. contains_rune cutset (fst c)) (chunks s)))"

definition js_spaces :: string where
  "js_spaces = [CHR 0x09, CHR 0x0A, CHR 0x0C, CHR 0x0D, CHR '' ''] @ encode_rune 0x2028 @ encode_rune 0x2029"

definition nextJSCtx :: "string \<Rightarrow> jsCtx \<Rightarrow> jsCtx" where
  "nextJSCtx s preceding =
     (let s = trim_right s js_spaces in
      if s = [] then preceding
      else
        let c = last s; n = length s in
        if c = CHR ''+'' \<or> c = CHR ''-''
        then (if length (takeWhile (\<lambda>x. x = c) (rev s)) mod 2 = 1 then jsCtxRegexp else jsCtxDivOp)
        else if c = CHR ''.''
        then (if n \<noteq> 1 \<and> 0x30 \<le> byte_val (s ! (n - 2)) \<and> byte_val (s ! (n - 2)) \<le> 0x39
              then jsCtxDivOp else jsCtxRegexp)
        else if c \<in> set '',<>=*%&|^?'' then jsCtxRegexp
        else if c \<in> set ''!~'' then jsCtxRegexp
        else if c \<in> set ''(['' then jsCtxRegexp
        else if c \<in> set '':;{'' then jsCtxRegexp
        else if c = CHR ''}'' then jsCtxRegexp
        else if rev (takeWhile (\<lambda>x. isJSIdentPart (byte_val x)) (rev s)) \<in> set regexpPrecederKeywords
        then jsCtxRegexp
        else jsCtxDivOp)"

section \<open>Strings and regular expressions\<close>

definition jsStrReplacementTable :: table where
  "jsStrReplacementTable =
     [(CHR 0x00, CHR 0x5C # ''0''), (CHR 0x09, CHR 0x5C # ''t''), (CHR 0x0A, CHR 0x5C # ''n''),
      (CHR 0x0B, CHR 0x5C # ''x0b''), (CHR 0x0C, CHR 0x5C # ''f''), (CHR 0x0D, CHR 0x5C # ''r''),
      (CHR 0x22, CHR 0x5C # ''x22''), (CHR ''&'', CHR 0x5C # ''x26''), (CHR 0x27, CHR 0x5C # ''x27''),
      (CHR ''+'', CHR 0x5C # ''x2b''), (CHR ''/'', CHR 0x5C # ''/''), (CHR ''<'', CHR 0x5C # ''x3c''),
      (CHR ''>'', CHR 0x5C # ''x3e''), (CHR 0x5C, [CHR 0x5C, CHR 0x5C])]"

definition jsStrNormReplacementTable :: table where
  "jsStrNormReplacementTable =
     [(CHR 0x00, CHR 0x5C # ''0''), (CHR 0x09, CHR 0x5C # ''t''), (CHR 0x0A, CHR 0x5C # ''n''),
      (CHR 0x0B, CHR 0x5C # ''x0b''), (CHR 0x0C, CHR 0x5C # ''f''), (CHR 0x0D, CHR 0x5C # ''r''),
      (CHR 0x22, CHR 0x5C # ''x22''), (CHR ''&'', CHR 0x5C # ''x26''), (CHR 0x27, CHR 0x5C # ''x27''),
      (CHR ''+'', CHR 0x5C # ''x2b''), (CHR ''/'', CHR 0x5C # ''/''), (CHR ''<'', CHR 0x5C # ''x3c''),
      (CHR ''>'', CHR 0x5C # ''x3e'')]"

definition jsRegexpReplacementTable :: table where
  "jsRegexpReplacementTable =
     [(CHR 0x00, CHR 0x5C # ''0''), (CHR 0x09, CHR 0x5C # ''t''), (CHR 0x0A, CHR 0x5C # ''n''),
      (CHR 0x0B, CHR 0x5C # ''x0b''), (CHR 0x0C, CHR 0x5C # ''f''), (CHR 0x0D, CHR 0x5C # ''r''),
      (CHR 0x22, CHR 0x5C # ''x22''), (CHR ''$'', CHR 0x5C # ''$''), (CHR ''&'', CHR 0x5C # ''x26''),
      (CHR 0x27, CHR 0x5C # ''x27''), (CHR ''('', CHR 0x5C # ''(''), (CHR '')'', CHR 0x5C # '')''),
      (CHR ''*'', CHR 0x5C # ''*''), (CHR ''+'', CHR 0x5C # ''x2b''), (CHR ''-'', CHR 0x5C # ''-''),
      (CHR ''.'', CHR 0x5C # ''.''), (CHR ''/'', CHR 0x5C # ''/''), (CHR ''<'', CHR 0x5C # ''x3c''),
      (CHR ''>'', CHR 0x5C # ''x3e''), (CHR ''?'', CHR 0x5C # ''?''), (CHR ''['', CHR 0x5C # ''[''),
      (CHR 0x5C, [CHR 0x5C, CHR 0x5C]), (CHR '']'', CHR 0x5C # '']''), (CHR ''^'', CHR 0x5C # ''^''),
      (CHR ''{'', CHR 0x5C # ''{''), (CHR ''|'', CHR 0x5C # ''|''), (CHR ''}'', CHR 0x5C # ''}'')]"

definition js_pick :: "table \<Rightarrow> rune \<Rightarrow> nat \<Rightarrow> string option" where
  "js_pick table r written =
     (case table_repl table r of
        Some repl \<Rightarrow> Some repl
      | None \<Rightarrow> if r = 0x2028 then Some (CHR 0x5C # ''u2028'')
                else if r = 0x2029 then Some (CHR 0x5C # ''u2029'') else None)"

definition js_replace :: "string \<Rightarrow> table \<Rightarrow> string go" where
  "js_replace s table = replace_runes (js_pick table) s"

definition jsStrEscaper :: "('v arg list \<Rightarrow> string) \<Rightarrow> ('v arg \<Rightarrow> bool) \<Rightarrow> 'v arg list \<Rightarrow> string go" where
  "jsStrEscaper Sprint impl args =
     bindE (stringify Sprint impl args) (\<lambda>(s, t).
       if t = contentTypeJSStr then js_replace s jsStrNormReplacementTable
       else js_replace s jsStrReplacementTable)"

definition jsRegexpEscaper :: "('v arg list \<Rightarrow> string) \<Rightarrow> ('v arg \<Rightarrow> bool) \<Rightarrow> 'v arg list \<Rightarrow> string go" where
  "jsRegexpEscaper Sprint impl args =
     bindE (stringify Sprint impl args) (\<lambda>(s, _).
     bindE (js_replace s jsRegexpReplacementTable) (\<lambda>s.
       Inr (if s = [] then ''(?:)'' else s)))"

section \<open>Values\<close>

text \<open>What the value escaper asks of a type: whether it implements \<open>json.Marshaler\<close>, the result of
  its \<open>String\<close> method if it implements \<open>fmt.Stringer\<close>, and its JSON encoding or the text of an error.\<close>

record 'v json_iface =
  implements_marshaler :: "'v arg \<Rightarrow> bool"
  stringer :: "'v arg \<Rightarrow> string option"
  Marshal :: "'v arg \<Rightarrow> string + string"

fun indirectToJSONMarshaler :: "('v arg \<Rightarrow> bool) \<Rightarrow> 'v arg \<Rightarrow> 'v arg" where
  "indirectToJSONMarshaler impl (Ptr a) =
     (if impl (Ptr a) then Ptr a else indirectToJSONMarshaler impl a)"
| "indirectToJSONMarshaler impl a = a"

fun replace_comment_end :: "string \<Rightarrow> string" where
  "replace_comment_end (a # b # s) =
     (if a = CHR ''*'' \<and> b = CHR ''/'' then ''* /'' @ replace_comment_end s
      else a # replace_comment_end (b # s))"
| "replace_comment_end s = s"

text \<open>The separators U+2028 and U+2029 of the encoding are escaped, and a space is put on both sides
  of an encoding that begins or ends with a character of an identifier.\<close>

definition json_to_js :: "string \<Rightarrow> string" where
  "json_to_js b =
     (let pad = isJSIdentPart (fst (decode_rune b)) \<or> isJSIdentPart (fst (last (chunks b)));
          b = concat (map (\<lambda>(r, bs). if r = 0x2028 then CHR 0x5C # ''u2028''
                                     else if r = 0x2029 then CHR 0x5C # ''u2029'' else bs) (chunks b))
      in if pad then '' '' @ b @ '' '' else b)"

definition jsValEscaper :: "('v arg list \<Rightarrow> string) \<Rightarrow> 'v json_iface \<Rightarrow> 'v arg list \<Rightarrow> string go" where
  "jsValEscaper Sprint J args =
     (if NilInterface \<in> set args then Inl (NilDereference)
      else
        let encode = (\<lambda>a. case Marshal J a of
              Inl err \<Rightarrow> '' /* '' @ replace_comment_end err @ '' */null ''
            | Inr b \<Rightarrow> if length b = 0 then '' null '' else json_to_js b)
        in Inr (if length args = 1
                then
                  let a = indirectToJSONMarshaler (implements_marshaler J) (args ! 0) in
                  case a of
                    JS t \<Rightarrow> t
                  | JSStr t \<Rightarrow> CHR 0x22 # t @ [CHR 0x22]
                  | _ \<Rightarrow> if implements_marshaler J a then encode a
                          else (case stringer J a of Some t \<Rightarrow> encode (Str t) | None \<Rightarrow> encode a)
                else encode (Str (Sprint (map (indirectToJSONMarshaler (implements_marshaler J)) args)))))"

end
