(* ===== verification/Escape_Transition.thy ===== *)
theory Escape_Transition
  imports Escape_Js
begin

text \<open>
  The transition functions (\<open>template/escape/transition.go\<close>): each takes a context and template text
  and returns the context after some prefix of the text, and the length of the prefix. Indices are
  natural numbers, and \<open>ul\<close> is the case mapping of runes outside ASCII.
\<close>

section \<open>Tokens\<close>

definition white_space :: "char \<Rightarrow> bool" where
  "white_space c \<longleftrightarrow> c \<in> {CHR '' '', CHR 0x09, CHR 0x0A, CHR 0x0C, CHR 0x0D}"

definition eatWhiteSpace :: "string \<Rightarrow> nat \<Rightarrow> nat" where
  "eatWhiteSpace s i = i + length (takeWhile white_space (drop i s))"

definition asciiAlpha :: "char \<Rightarrow> bool" where
  "asciiAlpha c \<longleftrightarrow> 0x41 \<le> byte_val c \<and> byte_val c \<le> 0x5A \<or> 0x61 \<le> byte_val c \<and> byte_val c \<le> 0x7A"

definition asciiAlphaNum :: "char \<Rightarrow> bool" where
  "asciiAlphaNum c \<longleftrightarrow> asciiAlpha c \<or> 0x30 \<le> byte_val c \<and> byte_val c \<le> 0x39"

definition elementNameMap :: "(string \<times> element) list" where
  "elementNameMap =
     [(''script'', elementScript), (''style'', elementStyle), (''textarea'', elementTextarea),
      (''title'', elementTitle)]"

text \<open>The length of the rest of a tag name after its first letter: the loop of \<open>eatTagName\<close>.\<close>

fun tag_name_rest :: "string \<Rightarrow> nat" where
  "tag_name_rest [] = 0"
| "tag_name_rest [x] = (if asciiAlphaNum x then 1 else 0)"
| "tag_name_rest (x # y # s) =
     (if asciiAlphaNum x then 1 + tag_name_rest (y # s)
      else if (x = CHR '':'' \<or> x = CHR ''-'') \<and> asciiAlphaNum y then 2 + tag_name_rest s
      else 0)"

definition eatTagName :: "(rune \<Rightarrow> rune) \<Rightarrow> string \<Rightarrow> nat \<Rightarrow> nat \<times> element" where
  "eatTagName ul s i =
     (if i = length s \<or> \<not> asciiAlpha (s ! i) then (i, elementNone)
      else
        let j = i + 1 + tag_name_rest (drop (i + 1) s) in
        (j, case map_of elementNameMap (to_lower ul (take (j - i) (drop i s))) of
              Some e \<Rightarrow> e | None \<Rightarrow> elementNone))"

text \<open>The index after an attribute name, or the error for a character that cannot be in one.\<close>

fun eat_attr_loop :: "string \<Rightarrow> nat \<Rightarrow> string \<Rightarrow> Error + nat" where
  "eat_attr_loop s j [] = Inr j"
| "eat_attr_loop s j (c # t) =
     (if c \<in> {CHR '' '', CHR 0x09, CHR 0x0A, CHR 0x0C, CHR 0x0D, CHR ''='', CHR ''>''} then Inr j
      else if c \<in> {CHR 0x27, CHR 0x22, CHR ''<''}
      then Inl (errorf ErrBadHTML 0 ''%q in attribute name: %.32q'' [[c], s])
      else eat_attr_loop s (j + 1) t)"

definition eatAttrName :: "string \<Rightarrow> nat \<Rightarrow> Error + nat" where
  "eatAttrName s i = eat_attr_loop s i (drop i s)"

section \<open>HTML\<close>

text \<open>The loop of \<open>tText\<close> from index \<open>k\<close> on: it stops at a comment or a tag, and continues after a
  \<open><\<close> that starts neither.\<close>

function tText_loop :: "(rune \<Rightarrow> rune) \<Rightarrow> Context \<Rightarrow> string \<Rightarrow> nat \<Rightarrow> Context \<times> nat" where
  "tText_loop ul c s k =
     (case index_byte (drop k s) (CHR ''<'') of
        None \<Rightarrow> (c, length s)
      | Some d \<Rightarrow>
          let i = k + d in
          if i + 1 = length s then (c, length s)
          else if i + 4 \<le> length s \<and> take 4 (drop i s) = ''<!--''
          then (context0\<lparr>ctx_state := stateHTMLCmt\<rparr>, i + 4)
          else
            let i = i + 1; isEnd = (s ! i = CHR ''/'') in
            if isEnd \<and> i + 1 = length s then (c, length s)
            else
              let i = (if isEnd then i + 1 else i); (j, e) = eatTagName ul s i in
              if j \<noteq> i
              then (context0\<lparr>ctx_state := stateTag, ctx_element := (if isEnd then elementNone else e)\<rparr>, j)
              else tText_loop ul c s j)"
  by pat_completeness auto
termination
proof (relation "measure (\<lambda>(ul, c, s, k). length s - k)", goal_cases)
  case (2 ul c s k d i i' isEnd i'' x j e)
  from 2 have "d < length s - k" using index_where_Some [of "\<lambda>x. x = CHR ''<''" "drop k s" d] by simp
  then show ?case using 2 by (auto split: if_splits)
qed simp

declare tText_loop.simps [simp del]

definition tText :: "(rune \<Rightarrow> rune) \<Rightarrow> Context \<Rightarrow> string \<Rightarrow> Context \<times> nat" where
  "tText ul c s = tText_loop ul c s 0"

fun elementContentType :: "element \<Rightarrow> state" where
  "elementContentType elementNone = stateText"
| "elementContentType elementScript = stateJS"
| "elementContentType elementStyle = stateCSS"
| "elementContentType elementTextarea = stateRCDATA"
| "elementContentType elementTitle = stateRCDATA"

definition tTag :: "(rune \<Rightarrow> rune) \<Rightarrow> Context \<Rightarrow> string \<Rightarrow> Context \<times> nat" where
  "tTag ul c s =
     (let i = eatWhiteSpace s 0 in
      if i = length s then (c, length s)
      else if s ! i = CHR ''>''
      then (context0\<lparr>ctx_state := elementContentType (ctx_element c), ctx_element := ctx_element c\<rparr>, i + 1)
      else case eatAttrName s i of
        Inl err \<Rightarrow> (error_context err, length s)
      | Inr j \<Rightarrow>
          if i = j
          then (error_context (errorf ErrBadHTML 0 ''expected space, attr name, or end of tag, but got %q'' [drop i s]),
                length s)
          else
            let attr = (case attrType ul (take (j - i) (drop i s)) of
                  contentTypeURL \<Rightarrow> attrURL
                | contentTypeCSS \<Rightarrow> attrStyle
                | contentTypeJS \<Rightarrow> attrScript
                | _ \<Rightarrow> attrNone);
                state = (if j = length s then stateAttrName else stateAfterName)
            in (context0\<lparr>ctx_state := state, ctx_element := ctx_element c, ctx_attr := attr\<rparr>, j))"

definition tAttrName :: "Context \<Rightarrow> string \<Rightarrow> Context \<times> nat" where
  "tAttrName c s = (case eatAttrName s 0 of
     Inl err \<Rightarrow> (error_context err, length s)
   | Inr i \<Rightarrow> (if i \<noteq> length s then c\<lparr>ctx_state := stateAfterName\<rparr> else c, i))"

definition tAfterName :: "Context \<Rightarrow> string \<Rightarrow> Context \<times> nat" where
  "tAfterName c s =
     (let i = eatWhiteSpace s 0 in
      if i = length s then (c, length s)
      else if s ! i \<noteq> CHR ''='' then (c\<lparr>ctx_state := stateTag\<rparr>, i)
      else (c\<lparr>ctx_state := stateBeforeValue\<rparr>, i + 1))"

fun attrStartStates :: "attr \<Rightarrow> state" where
  "attrStartStates attrNone = stateAttr"
| "attrStartStates attrScript = stateJS"
| "attrStartStates attrStyle = stateCSS"
| "attrStartStates attrURL = stateURL"

definition tBeforeValue :: "Context \<Rightarrow> string \<Rightarrow> Context \<times> nat" where
  "tBeforeValue c s =
     (let i = eatWhiteSpace s 0 in
      if i = length s then (c, length s)
      else
        let (delim, i) = (if s ! i = CHR 0x27 then (delimSingleQuote, i + 1)
              else if s ! i = CHR 0x22 then (delimDoubleQuote, i + 1)
              else (delimSpaceOrTagEnd, i))
        in (c\<lparr>ctx_state := attrStartStates (ctx_attr c), ctx_delim := delim, ctx_attr := attrNone\<rparr>, i))"

definition tHTMLCmt :: "Context \<Rightarrow> string \<Rightarrow> Context \<times> nat" where
  "tHTMLCmt c s = (case index_sub ''-->'' s of
     Some i \<Rightarrow> (context0, i + 3)
   | None \<Rightarrow> (c, length s))"

fun specialTagEndMarkers :: "element \<Rightarrow> string" where
  "specialTagEndMarkers elementNone = []"
| "specialTagEndMarkers elementScript = ''</script''"
| "specialTagEndMarkers elementStyle = ''</style''"
| "specialTagEndMarkers elementTextarea = ''</textarea''"
| "specialTagEndMarkers elementTitle = ''</title''"

definition tSpecialTagEnd :: "(rune \<Rightarrow> rune) \<Rightarrow> Context \<Rightarrow> string \<Rightarrow> Context \<times> nat" where
  "tSpecialTagEnd ul c s =
     (if ctx_element c \<noteq> elementNone
      then (case index_sub (specialTagEndMarkers (ctx_element c)) (to_lower ul s) of
              Some i \<Rightarrow> (context0, i)
            | None \<Rightarrow> (c, length s))
      else (c, length s))"

definition tAttr :: "Context \<Rightarrow> string \<Rightarrow> Context \<times> nat" where
  "tAttr c s = (c, length s)"

definition tURL :: "Context \<Rightarrow> string \<Rightarrow> Context \<times> nat" where
  "tURL c s =
     (if index_any s ''#?'' \<noteq> None then c\<lparr>ctx_urlPart := urlPartQueryOrFrag\<rparr>
      else if length s \<noteq> eatWhiteSpace s 0 \<and> ctx_urlPart c = urlPartNone
      then c\<lparr>ctx_urlPart := urlPartPreQuery\<rparr>
      else c, length s)"

definition tError :: "Context \<Rightarrow> string \<Rightarrow> Context \<times> nat" where
  "tError c s = (c, length s)"

section \<open>JavaScript\<close>

definition tJS :: "Context \<Rightarrow> string \<Rightarrow> Context \<times> nat" where
  "tJS c s = (case index_any s [CHR 0x22, CHR 0x27, CHR ''/''] of
     None \<Rightarrow> (c\<lparr>ctx_jsCtx := nextJSCtx s (ctx_jsCtx c)\<rparr>, length s)
   | Some i \<Rightarrow>
       let c = c\<lparr>ctx_jsCtx := nextJSCtx (take i s) (ctx_jsCtx c)\<rparr> in
       if s ! i = CHR 0x22 then (c\<lparr>ctx_state := stateJSDqStr, ctx_jsCtx := jsCtxRegexp\<rparr>, i + 1)
       else if s ! i = CHR 0x27 then (c\<lparr>ctx_state := stateJSSqStr, ctx_jsCtx := jsCtxRegexp\<rparr>, i + 1)
       else if i + 1 < length s \<and> s ! (i + 1) = CHR ''/'' then (c\<lparr>ctx_state := stateJSLineCmt\<rparr>, i + 1 + 1)
       else if i + 1 < length s \<and> s ! (i + 1) = CHR ''*'' then (c\<lparr>ctx_state := stateJSBlockCmt\<rparr>, i + 1 + 1)
       else if ctx_jsCtx c = jsCtxRegexp then (c\<lparr>ctx_state := stateJSRegexp\<rparr>, i + 1)
       else if ctx_jsCtx c = jsCtxDivOp then (c\<lparr>ctx_jsCtx := jsCtxRegexp\<rparr>, i + 1)
       else (error_context (errorf ErrSlashAmbig 0
              (CHR 0x27 # CHR ''/'' # CHR 0x27 # '' could start a division or regexp: %.32q'') [drop i s]),
             length s))"

lemma index_any_less: "index_any s chars = Some i \<Longrightarrow> i < length s"
proof -
  have "p \<in> set (range_runes k s) \<Longrightarrow> k \<le> fst p \<and> fst p < k + length s" for p k
    by (induction k s rule: range_runes.induct)
      (subst (asm) (2) range_runes.simps, auto split: if_splits)
  moreover assume "index_any s chars = Some i"
  then obtain r where "(i, r) \<in> set (range_runes 0 s)"
    by (auto simp: index_any_def find_Some_iff) (metis fst_conv nth_mem prod.collapse)
  ultimately show "i < length s" by fastforce
qed

text \<open>The loop of \<open>tJSDelimited\<close> from index \<open>k\<close> on.\<close>

function tJSDelimited_loop :: "string \<Rightarrow> Context \<Rightarrow> string \<Rightarrow> nat \<Rightarrow> bool \<Rightarrow> Context \<times> nat" where
  "tJSDelimited_loop specials c s k inCharset =
     (case index_any (drop k s) specials of
        None \<Rightarrow>
          if inCharset
          then (error_context (errorf ErrPartialCharset 0 ''unfinished JS regexp charset: %q'' [s]), length s)
          else (c, length s)
      | Some d \<Rightarrow>
          let i = k + d in
          if s ! i = CHR 0x5C
          then (if i + 1 = length s
                then (error_context (errorf ErrPartialEscape 0 ''unfinished escape sequence in JS string: %q'' [s]),
                      length s)
                else tJSDelimited_loop specials c s (i + 1 + 1) inCharset)
          else if s ! i = CHR ''['' then tJSDelimited_loop specials c s (i + 1) True
          else if s ! i = CHR '']'' then tJSDelimited_loop specials c s (i + 1) False
          else if \<not> inCharset then (c\<lparr>ctx_state := stateJS, ctx_jsCtx := jsCtxDivOp\<rparr>, i + 1)
          else tJSDelimited_loop specials c s (i + 1) inCharset)"
  by pat_completeness auto
termination
  by (relation "measure (\<lambda>(specials, c, s, k, inCharset). length s - k)")
    (auto dest!: index_any_less)

declare tJSDelimited_loop.simps [simp del]

definition tJSDelimited :: "Context \<Rightarrow> string \<Rightarrow> Context \<times> nat" where
  "tJSDelimited c s =
     (let specials = (case ctx_state c of
            stateJSSqStr \<Rightarrow> [CHR 0x5C, CHR 0x27]
          | stateJSRegexp \<Rightarrow> CHR 0x5C # ''/[]''
          | _ \<Rightarrow> [CHR 0x5C, CHR 0x22])
      in tJSDelimited_loop specials c s 0 False)"

section \<open>Comments\<close>

definition tBlockCmt :: "Context \<Rightarrow> string \<Rightarrow> (Context \<times> nat) go" where
  "tBlockCmt c s = (case index_sub ''*/'' s of
     None \<Rightarrow> Inr (c, length s)
   | Some i \<Rightarrow>
       (case ctx_state c of
          stateJSBlockCmt \<Rightarrow> Inr (c\<lparr>ctx_state := stateJS\<rparr>, i + 2)
        | stateCSSBlockCmt \<Rightarrow> Inr (c\<lparr>ctx_state := stateCSS\<rparr>, i + 2)
        | _ \<Rightarrow> Inl (Explicit (state_String (ctx_state c)))))"

definition js_line_terminators :: string where
  "js_line_terminators = [CHR 0x0A, CHR 0x0D] @ encode_rune 0x2028 @ encode_rune 0x2029"

definition tLineCmt :: "Context \<Rightarrow> string \<Rightarrow> (Context \<times> nat) go" where
  "tLineCmt c s =
     bindE (case ctx_state c of
              stateJSLineCmt \<Rightarrow> Inr (js_line_terminators, stateJS)
            | stateCSSLineCmt \<Rightarrow> Inr ([CHR 0x0A, CHR 0x0C, CHR 0x0D], stateCSS)
            | _ \<Rightarrow> Inl (Explicit (state_String (ctx_state c)))) (\<lambda>(lineTerminators, endState).
       Inr (case index_any s lineTerminators of
              None \<Rightarrow> (c, length s)
            | Some i \<Rightarrow> (c\<lparr>ctx_state := endState\<rparr>, i)))"

section \<open>CSS\<close>

definition css_spaces :: string where
  "css_spaces = [CHR 0x09, CHR 0x0A, CHR 0x0C, CHR 0x0D, CHR '' '']"

text \<open>The state after an opening parenthesis at \<open>i\<close> that follows \<open>url\<close>, and the index where the URL
  begins.\<close>

definition css_url_start :: "Context \<Rightarrow> string \<Rightarrow> nat \<Rightarrow> Context \<times> nat" where
  "css_url_start c s i =
     (let j = length s - length (trim_left (drop (i + 1) s) css_spaces) in
      if j \<noteq> length s \<and> s ! j = CHR 0x22 then (c\<lparr>ctx_state := stateCSSDqURL\<rparr>, j + 1)
      else if j \<noteq> length s \<and> s ! j = CHR 0x27 then (c\<lparr>ctx_state := stateCSSSqURL\<rparr>, j + 1)
      else (c\<lparr>ctx_state := stateCSSURL\<rparr>, j))"

function tCSS_loop :: "(rune \<Rightarrow> rune) \<Rightarrow> Context \<Rightarrow> string \<Rightarrow> nat \<Rightarrow> Context \<times> nat" where
  "tCSS_loop ul c s k =
     (case index_any (drop k s) [CHR ''('', CHR 0x22, CHR 0x27, CHR ''/''] of
        None \<Rightarrow> (c, length s)
      | Some d \<Rightarrow>
          let i = k + d in
          if s ! i = CHR ''('' \<and> endsWithCSSKeyword ul (trim_right (take i s) css_spaces) ''url''
          then css_url_start c s i
          else if s ! i = CHR ''/'' \<and> i + 1 < length s \<and> s ! (i + 1) = CHR ''/''
          then (c\<lparr>ctx_state := stateCSSLineCmt\<rparr>, i + 2)
          else if s ! i = CHR ''/'' \<and> i + 1 < length s \<and> s ! (i + 1) = CHR ''*''
          then (c\<lparr>ctx_state := stateCSSBlockCmt\<rparr>, i + 2)
          else if s ! i = CHR 0x22 then (c\<lparr>ctx_state := stateCSSDqStr\<rparr>, i + 1)
          else if s ! i = CHR 0x27 then (c\<lparr>ctx_state := stateCSSSqStr\<rparr>, i + 1)
          else tCSS_loop ul c s (i + 1))"
  by pat_completeness auto
termination
  by (relation "measure (\<lambda>(ul, c, s, k). length s - k)") (auto dest!: index_any_less)

declare tCSS_loop.simps [simp del]

definition tCSS :: "(rune \<Rightarrow> rune) \<Rightarrow> Context \<Rightarrow> string \<Rightarrow> Context \<times> nat" where
  "tCSS ul c s = tCSS_loop ul c s 0"

text \<open>The loop of \<open>tCSSStr\<close> from index \<open>k\<close> on: escapes are decoded to find the part of the URL.\<close>

function tCSSStr_loop :: "string \<Rightarrow> Context \<Rightarrow> string \<Rightarrow> nat \<Rightarrow> (Context \<times> nat) go" where
  "tCSSStr_loop endAndEsc c s k =
     (case index_any (drop k s) endAndEsc of
        None \<Rightarrow>
          bindE (decodeCSS (drop k s)) (\<lambda>u. let (c, nread) = tURL c u in Inr (c, k + nread))
      | Some d \<Rightarrow>
          let i = k + d in
          if s ! i = CHR 0x5C
          then (if i + 1 = length s
                then Inr (error_context (errorf ErrPartialEscape 0
                       ''unfinished escape sequence in CSS string: %q'' [s]), length s)
                else bindE (decodeCSS (take (i + 1 + 1) s)) (\<lambda>u.
                       tCSSStr_loop endAndEsc (fst (tURL c u)) s (i + 1 + 1)))
          else Inr (c\<lparr>ctx_state := stateCSS\<rparr>, i + 1))"
  by pat_completeness auto
termination
  by (relation "measure (\<lambda>(endAndEsc, c, s, k). length s - k)") (auto dest!: index_any_less)

declare tCSSStr_loop.simps [simp del]

definition tCSSStr :: "Context \<Rightarrow> string \<Rightarrow> (Context \<times> nat) go" where
  "tCSSStr c s =
     bindE (case ctx_state c of
              stateCSSDqStr \<Rightarrow> Inr [CHR 0x5C, CHR 0x22]
            | stateCSSDqURL \<Rightarrow> Inr [CHR 0x5C, CHR 0x22]
            | stateCSSSqStr \<Rightarrow> Inr [CHR 0x5C, CHR 0x27]
            | stateCSSSqURL \<Rightarrow> Inr [CHR 0x5C, CHR 0x27]
            | stateCSSURL \<Rightarrow> Inr [CHR 0x5C, CHR 0x09, CHR 0x0A, CHR 0x0C, CHR 0x0D, CHR '' '', CHR '')'']
            | _ \<Rightarrow> Inl (Explicit (state_String (ctx_state c)))) (\<lambda>endAndEsc.
       tCSSStr_loop endAndEsc c s 0)"

section \<open>The table\<close>

fun transitionFunc :: "(rune \<Rightarrow> rune) \<Rightarrow> state \<Rightarrow> Context \<Rightarrow> string \<Rightarrow> (Context \<times> nat) go" where
  "transitionFunc ul stateText c s = Inr (tText ul c s)"
| "transitionFunc ul stateTag c s = Inr (tTag ul c s)"
| "transitionFunc ul stateAttrName c s = Inr (tAttrName c s)"
| "transitionFunc ul stateAfterName c s = Inr (tAfterName c s)"
| "transitionFunc ul stateBeforeValue c s = Inr (tBeforeValue c s)"
| "transitionFunc ul stateHTMLCmt c s = Inr (tHTMLCmt c s)"
| "transitionFunc ul stateRCDATA c s = Inr (tSpecialTagEnd ul c s)"
| "transitionFunc ul stateAttr c s = Inr (tAttr c s)"
| "transitionFunc ul stateURL c s = Inr (tURL c s)"
| "transitionFunc ul stateJS c s = Inr (tJS c s)"
| "transitionFunc ul stateJSDqStr c s = Inr (tJSDelimited c s)"
| "transitionFunc ul stateJSSqStr c s = Inr (tJSDelimited c s)"
| "transitionFunc ul stateJSRegexp c s = Inr (tJSDelimited c s)"
| "transitionFunc ul stateJSBlockCmt c s = tBlockCmt c s"
| "transitionFunc ul stateJSLineCmt c s = tLineCmt c s"
| "transitionFunc ul stateCSS c s = Inr (tCSS ul c s)"
| "transitionFunc ul stateCSSDqStr c s = tCSSStr c s"
| "transitionFunc ul stateCSSSqStr c s = tCSSStr c s"
| "transitionFunc ul stateCSSDqURL c s = tCSSStr c s"
| "transitionFunc ul stateCSSSqURL c s = tCSSStr c s"
| "transitionFunc ul stateCSSURL c s = tCSSStr c s"
| "transitionFunc ul stateCSSBlockCmt c s = tBlockCmt c s"
| "transitionFunc ul stateCSSLineCmt c s = tLineCmt c s"
| "transitionFunc ul stateError c s = Inr (tError c s)"

end
