(* ===== verification/Escape_Text.thy ===== *)
theory Escape_Text
  imports Escape_Transition
begin

text \<open>
  The parts of \<open>template/escape/escape.go\<close> that follow contexts through a template: the nudge of a
  context, the join of two branches, the context after text, the escaping of a text node and the
  sanitizers an action needs.
  \<open>html.UnescapeString\<close> is a parameter. A loop that does not end has the value \<open>None\<close>.
\<close>

section \<open>Nudge and join\<close>

definition nudge :: "Context \<Rightarrow> Context" where
  "nudge c = (case ctx_state c of
     stateTag \<Rightarrow> c\<lparr>ctx_state := stateAttrName\<rparr>
   | stateBeforeValue \<Rightarrow>
       c\<lparr>ctx_state := attrStartStates (ctx_attr c), ctx_delim := delimSpaceOrTagEnd, ctx_attr := attrNone\<rparr>
   | stateAfterName \<Rightarrow> c\<lparr>ctx_state := stateAttrName, ctx_attr := attrNone\<rparr>
   | _ \<Rightarrow> c)"

definition context_String :: "Context \<Rightarrow> string" where
  "context_String c =
     ''{'' @ state_String (ctx_state c) @ '' '' @ delim_String (ctx_delim c) @ '' '' @ urlPart_String (ctx_urlPart c) @
     '' '' @ jsCtx_String (ctx_jsCtx c) @ '' '' @ attr_String (ctx_attr c) @ '' '' @ element_String (ctx_element c) @
     (case ctx_err c of None \<Rightarrow> '' <nil>'' | Some err \<Rightarrow> '' '' @ fst (err_Description err)) @ ''}''"

lemma nudge_nudge: "nudge (nudge c) = nudge c"
  by (cases "ctx_state c"; cases "ctx_attr c") (simp_all add: nudge_def)

function join :: "Context \<Rightarrow> Context \<Rightarrow> int \<Rightarrow> string \<Rightarrow> Context" where
  "join a b line nodeName =
     (if ctx_state a = stateError then a
      else if ctx_state b = stateError then b
      else if context_eq a b then a
      else if context_eq (a\<lparr>ctx_urlPart := ctx_urlPart b\<rparr>) b then a\<lparr>ctx_urlPart := urlPartUnknown\<rparr>
      else if context_eq (a\<lparr>ctx_jsCtx := ctx_jsCtx b\<rparr>) b then a\<lparr>ctx_jsCtx := jsCtxUnknown\<rparr>
      else
        let c = nudge a; d = nudge b;
            err = error_context (errorf ErrBranchEnd line
              ''{{%s}} branches end in different contexts: %v, %v'' [nodeName, context_String a, context_String b])
        in if \<not> (context_eq c a \<and> context_eq d b)
           then let e = join c d line nodeName in if ctx_state e \<noteq> stateError then e else err
           else err)"
  by pat_completeness auto
termination
  by (relation "measure (\<lambda>(a, b, line, nodeName). (if nudge a = a then 0 else 1) + (if nudge b = b then 0 else 1))")
    (auto simp: nudge_nudge)

declare join.simps [simp del]

section \<open>The context after text\<close>

fun delimEnds :: "delim \<Rightarrow> string" where
  "delimEnds delimNone = []"
| "delimEnds delimDoubleQuote = [CHR 0x22]"
| "delimEnds delimSingleQuote = [CHR 0x27]"
| "delimEnds delimSpaceOrTagEnd = [CHR '' '', CHR 0x09, CHR 0x0A, CHR 0x0C, CHR 0x0D, CHR ''>'']"

text \<open>The loop over the decoded value of an attribute.\<close>

partial_function (option) attr_loop :: "(rune \<Rightarrow> rune) \<Rightarrow> Context \<Rightarrow> string \<Rightarrow> Context go option" where
  "attr_loop ul c u =
     (if u = [] then Some (Inr c)
      else case transitionFunc ul (ctx_state c) c u of
        Inl p \<Rightarrow> Some (Inl p)
      | Inr r \<Rightarrow>
          if snd r > length u then Some (Inl SliceBoundsOutOfRange)
          else attr_loop ul (fst r) (drop (snd r) u))"

declare attr_loop.simps [code]

definition unquoted_bad :: string where
  "unquoted_bad = [CHR 0x22, CHR 0x27, CHR ''<'', CHR ''='', CHR 0x60]"

definition contextAfterText ::
  "(rune \<Rightarrow> rune) \<Rightarrow> (string \<Rightarrow> string) \<Rightarrow> Context \<Rightarrow> string \<Rightarrow> (Context \<times> nat) go option" where
  "contextAfterText ul unescape c s =
     (if ctx_delim c = delimNone
      then
        let (c1, i) = tSpecialTagEnd ul c s in
        if i = 0 then Some (Inr (c1, 0))
        else Some (bindE (slice s 0 i) (\<lambda>t. transitionFunc ul (ctx_state c) c t))
      else
        let i = (case index_any s (delimEnds (ctx_delim c)) of None \<Rightarrow> length s | Some i \<Rightarrow> i);
            bad = (if ctx_delim c = delimSpaceOrTagEnd then index_any (take i s) unquoted_bad else None)
        in case bad of
             Some j \<Rightarrow> Some (Inr (error_context (errorf ErrBadHTML 0 ''%q in unquoted attr: %q''
                                 [[s ! j], take i s]), length s))
           | None \<Rightarrow>
               if i = length s
               then map_option (\<lambda>r. bindE r (\<lambda>c. Inr (c, length s))) (attr_loop ul c (unescape s))
               else Some (Inr (context0\<lparr>ctx_state := stateTag, ctx_element := ctx_element c\<rparr>,
                      if ctx_delim c \<noteq> delimSpaceOrTagEnd then i + 1 else i)))"

section \<open>Text nodes\<close>

text \<open>The position of the last \<open><\<close> of \<open>s\<close> in the range from \<open>i\<close> to \<open>hi\<close>, or \<open>hi\<close>.\<close>

definition last_lt :: "string \<Rightarrow> nat \<Rightarrow> nat \<Rightarrow> nat" where
  "last_lt s i hi =
     (case index_byte (rev (take (hi - i) (drop i s))) (CHR ''<'') of
        None \<Rightarrow> hi | Some k \<Rightarrow> hi - 1 - k)"

text \<open>\<open>for j := i; j < end; j++\<close>: each \<open><\<close> that does not start a doctype is written as \<open>&lt;\<close>.\<close>

fun lt_loop :: "(rune \<Rightarrow> rune) \<Rightarrow> string \<Rightarrow> nat list \<Rightarrow> nat \<Rightarrow> string \<Rightarrow> (nat \<times> string) go" where
  "lt_loop uu s [] written b = Inr (written, b)"
| "lt_loop uu s (j # js) written b =
     (if s ! j = CHR ''<'' \<and> \<not> prefix ''<!DOCTYPE'' (to_upper uu (drop j s))
      then bindE (slice s written j) (\<lambda>t. lt_loop uu s js (j + 1) (b @ t @ ''&lt;''))
      else lt_loop uu s js written b)"

definition edit_text ::
  "(rune \<Rightarrow> rune) \<Rightarrow> string \<Rightarrow> Context \<Rightarrow> Context \<Rightarrow> nat \<Rightarrow> nat \<Rightarrow> nat \<Rightarrow> string \<Rightarrow> (nat \<times> string) go" where
  "edit_text uu s c c1 i i1 written b =
     (if ctx_state c = stateText \<or> ctx_state c = stateRCDATA
      then
        let hi = (if ctx_state c1 \<noteq> ctx_state c then last_lt s i i1 else i1)
        in lt_loop uu s [i..<hi] written b
      else if isComment (ctx_state c) \<and> ctx_delim c = delimNone
      then (case ctx_state c of
              stateJSBlockCmt \<Rightarrow>
                bindE (slice s written i1) (\<lambda>t.
                  Inr (i1, b @ (if index_any t js_line_terminators \<noteq> None then [CHR 0x0A] else '' '')))
            | stateCSSBlockCmt \<Rightarrow> Inr (i1, b @ '' '')
            | _ \<Rightarrow> Inr (i1, b))
      else Inr (written, b))"

definition edit_comment :: "string \<Rightarrow> Context \<Rightarrow> Context \<Rightarrow> nat \<Rightarrow> nat \<Rightarrow> string \<Rightarrow> (nat \<times> string) go" where
  "edit_comment s c c1 i1 written b =
     (if ctx_state c \<noteq> ctx_state c1 \<and> isComment (ctx_state c1) \<and> ctx_delim c1 = delimNone
      then
        let k = (if ctx_state c1 = stateHTMLCmt then 4 else 2) in
        if i1 < k then Inl SliceBoundsOutOfRange
        else bindE (slice s written (i1 - k)) (\<lambda>t. Inr (i1, b @ t))
      else Inr (written, b))"

text \<open>The body of the loop after the call of \<open>contextAfterText\<close>.\<close>

definition text_body ::
  "(rune \<Rightarrow> rune) \<Rightarrow> string \<Rightarrow> Context \<Rightarrow> Context \<Rightarrow> nat \<Rightarrow> nat \<Rightarrow> nat \<Rightarrow> string \<Rightarrow> (nat \<times> string) go" where
  "text_body uu s c c1 i i1 written b =
     bindE (edit_text uu s c c1 i i1 written b) (\<lambda>(written, b).
     bindE (edit_comment s c c1 i1 written b) (\<lambda>(written, b).
       if i = i1 \<and> ctx_state c = ctx_state c1 then Inl (Explicit ''infinite loop from %v to %v on %q..%q'') else Inr (written, b)))"

partial_function (option) escapeText_loop ::
  "(rune \<Rightarrow> rune) \<Rightarrow> (rune \<Rightarrow> rune) \<Rightarrow> (string \<Rightarrow> string) \<Rightarrow> string \<Rightarrow> Context \<Rightarrow> nat \<Rightarrow> nat \<Rightarrow> string \<Rightarrow>
   (Context \<times> nat \<times> string) go option" where
  "escapeText_loop ul uu unescape s c i written b =
     (if i = length s then Some (Inr (c, written, b))
      else case contextAfterText ul unescape c (drop i s) of
        None \<Rightarrow> None
      | Some r1 \<Rightarrow>
          (case r1 of
             Inl p \<Rightarrow> Some (Inl p)
           | Inr r \<Rightarrow>
               (case text_body uu s c (fst r) i (i + snd r) written b of
                  Inl p \<Rightarrow> Some (Inl p)
                | Inr w \<Rightarrow> escapeText_loop ul uu unescape s (fst r) (i + snd r) (fst w) (snd w))))"

declare escapeText_loop.simps [code]

text \<open>The context after the node, and the text it is edited to, if it is.\<close>

definition escapeText ::
  "(rune \<Rightarrow> rune) \<Rightarrow> (rune \<Rightarrow> rune) \<Rightarrow> (string \<Rightarrow> string) \<Rightarrow> Context \<Rightarrow> string \<Rightarrow>
   (Context \<times> string option) go option" where
  "escapeText ul uu unescape c s =
     map_option (\<lambda>r. bindE r (\<lambda>(c, written, b).
       if written \<noteq> 0 \<and> ctx_state c \<noteq> stateError
       then (if \<not> isComment (ctx_state c) \<or> ctx_delim c \<noteq> delimNone
             then bindE (slice s written (length s)) (\<lambda>t. Inr (c, Some (b @ t)))
             else Inr (c, Some b))
       else Inr (c, None)))
     (escapeText_loop ul uu unescape s c 0 0 [])"

section \<open>Actions\<close>

text \<open>The context after an action and the sanitizers its pipeline needs; an action that declares a
  variable is left alone.\<close>

definition url_sanitizers :: "Context \<Rightarrow> int \<Rightarrow> string \<Rightarrow> Context + string list" where
  "url_sanitizers c line node =
     (let norm = (if ctx_state c = stateCSSDqStr \<or> ctx_state c = stateCSSSqStr
                  then ''html_template_cssescaper'' else ''html_template_urlnormalizer'')
      in case ctx_urlPart c of
           urlPartNone \<Rightarrow> Inr [''html_template_urlfilter'', norm]
         | urlPartPreQuery \<Rightarrow> Inr [norm]
         | urlPartQueryOrFrag \<Rightarrow> Inr [''html_template_urlescaper'']
         | urlPartUnknown \<Rightarrow> Inl (error_context
             (errorf ErrAmbigContext line ''%s appears in an ambiguous URL context'' [node])))"

definition state_sanitizers :: "Context \<Rightarrow> int \<Rightarrow> string \<Rightarrow> (Context + Context \<times> string list) go" where
  "state_sanitizers c line node =
     (let url = (case url_sanitizers c line node of Inl e \<Rightarrow> Inr (Inl e) | Inr s \<Rightarrow> Inr (Inr (c, s))) in
      case ctx_state c of
        stateError \<Rightarrow> Inr (Inl c)
      | stateURL \<Rightarrow> url | stateCSSDqStr \<Rightarrow> url | stateCSSSqStr \<Rightarrow> url
      | stateCSSDqURL \<Rightarrow> url | stateCSSSqURL \<Rightarrow> url | stateCSSURL \<Rightarrow> url
      | stateJS \<Rightarrow> Inr (Inr (c\<lparr>ctx_jsCtx := jsCtxDivOp\<rparr>, [''html_template_jsvalescaper'']))
      | stateJSDqStr \<Rightarrow> Inr (Inr (c, [''html_template_jsstrescaper'']))
      | stateJSSqStr \<Rightarrow> Inr (Inr (c, [''html_template_jsstrescaper'']))
      | stateJSRegexp \<Rightarrow> Inr (Inr (c, [''html_template_jsregexpescaper'']))
      | stateCSS \<Rightarrow> Inr (Inr (c, [''html_template_cssvaluefilter'']))
      | stateText \<Rightarrow> Inr (Inr (c, [''html_template_htmlescaper'']))
      | stateRCDATA \<Rightarrow> Inr (Inr (c, [''html_template_rcdataescaper'']))
      | stateAttr \<Rightarrow> Inr (Inr (c, []))
      | stateAttrName \<Rightarrow> Inr (Inr (c\<lparr>ctx_state := stateAttrName\<rparr>, [''html_template_htmlnamefilter'']))
      | stateTag \<Rightarrow> Inr (Inr (c\<lparr>ctx_state := stateAttrName\<rparr>, [''html_template_htmlnamefilter'']))
      | st \<Rightarrow> if isComment st then Inr (Inr (c, [''html_template_commentescaper'']))
              else Inl (Explicit (''unexpected state '' @ state_String st)))"

definition escapeAction :: "Context \<Rightarrow> bool \<Rightarrow> int \<Rightarrow> string \<Rightarrow> (Context \<times> string list option) go" where
  "escapeAction c hasDecl line node =
     (if hasDecl then Inr (c, None)
      else bindE (state_sanitizers (nudge c) line node) (\<lambda>r. Inr (case r of
             Inl e \<Rightarrow> (e, None)
           | Inr (c, s) \<Rightarrow> (c, Some (s @ (case ctx_delim c of
                 delimNone \<Rightarrow> []
               | delimSpaceOrTagEnd \<Rightarrow> [''html_template_nospaceescaper'']
               | _ \<Rightarrow> [''html_template_attrescaper'']))))))"

end
