(* ===== verification/Template_Scan.thy ===== *)
theory Template_Scan
  imports Go_Strings
begin

text \<open>
  The scanner under the two lexers of templates (\<open>template/parse/lex.go\<close> and \<open>zap/parse/lex.go\<close>, which
  share the text of these functions). The type \<open>'t\<close> of items and further fields of the lexer are left
  open. The Unicode letters and digits outside ASCII and the two formats of \<open>fmt\<close> used in messages are
  parameters, collected in \<open>lex_env\<close>. A state function is a value of \<open>stateFn\<close>, and \<open>None\<close> stands for
  the nil function that ends the scan.
\<close>

section \<open>The scanner\<close>

record lex_env =
  unicode_alnum :: "rune \<Rightarrow> bool"
  fmt_U :: "rune \<Rightarrow> string"
  fmt_q :: "string \<Rightarrow> string"

record 't scan_item =
  it_typ :: 't
  it_pos :: nat
  it_val :: string

text \<open>The types of the items that the shared state functions send.\<close>

record 't kinds =
  k_error :: 't
  k_eof :: 't
  k_keyword :: 't
  k_text :: 't
  k_rightDelim :: 't
  k_charConstant :: 't
  k_string :: 't
  k_rawString :: 't
  k_number :: 't
  k_complex :: 't

datatype stateFn =
    lexText | lexLeftDelim | lexComment | lexRightDelim | lexInsideAction | lexIdentifier | lexChar
  | lexNumber | lexQuote | lexRawQuote

record 't scanner =
  lx_name :: string
  lx_input :: string
  lx_leftDelim :: string
  lx_rightDelim :: string
  lx_pos :: nat
  lx_start :: nat
  lx_width :: nat
  lx_items :: "'t scan_item list"

definition eof :: rune where "eof = -1"

definition lex_next :: "('t, 'z) scanner_scheme \<Rightarrow> rune \<times> ('t, 'z) scanner_scheme" where
  "lex_next l =
     (if lx_pos l \<ge> length (lx_input l) then (eof, l\<lparr>lx_width := 0\<rparr>)
      else let (r, w) = decode_rune (drop (lx_pos l) (lx_input l))
           in (r, l\<lparr>lx_width := w, lx_pos := lx_pos l + w\<rparr>))"

definition lex_backup :: "('t, 'z) scanner_scheme \<Rightarrow> ('t, 'z) scanner_scheme" where
  "lex_backup l = l\<lparr>lx_pos := lx_pos l - lx_width l\<rparr>"

definition lex_peek :: "('t, 'z) scanner_scheme \<Rightarrow> rune \<times> ('t, 'z) scanner_scheme" where
  "lex_peek l = (let (r, l) = lex_next l in (r, lex_backup l))"

definition emit :: "'t \<Rightarrow> ('t, 'z) scanner_scheme \<Rightarrow> ('t, 'z) scanner_scheme go" where
  "emit t l = bindE (slice (lx_input l) (lx_start l) (lx_pos l)) (\<lambda>v.
     Inr (l\<lparr>lx_items := lx_items l @ [\<lparr>it_typ = t, it_pos = lx_start l, it_val = v\<rparr>], lx_start := lx_pos l\<rparr>))"

definition lex_ignore :: "('t, 'z) scanner_scheme \<Rightarrow> ('t, 'z) scanner_scheme" where
  "lex_ignore l = l\<lparr>lx_start := lx_pos l\<rparr>"

definition accept :: "string \<Rightarrow> ('t, 'z) scanner_scheme \<Rightarrow> bool \<times> ('t, 'z) scanner_scheme" where
  "accept valid l = (let (r, l) = lex_next l in if contains_rune valid r then (True, l) else (False, lex_backup l))"

lemma lex_next_width:
  assumes "lex_next l = (r, l')" "r \<noteq> eof"
  shows "lx_pos l < lx_pos l'" "lx_pos l' \<le> length (lx_input l)" "lx_input l' = lx_input l"
    "lx_width l' = lx_pos l' - lx_pos l" "lx_pos l < length (lx_input l)"
proof -
  have p: "lx_pos l < length (lx_input l)" using assms by (auto simp: lex_next_def split: if_splits)
  obtain w where w: "decode_rune (drop (lx_pos l) (lx_input l)) = (r, w)"
    "l' = l\<lparr>lx_width := w, lx_pos := lx_pos l + w\<rparr>"
    using assms(1) p by (auto simp: lex_next_def split: prod.splits)
  have "1 \<le> w \<and> w \<le> length (lx_input l) - lx_pos l"
    using decode_rune_width(1,2) [OF _ w(1)] p by simp
  then show "lx_pos l < lx_pos l'" "lx_pos l' \<le> length (lx_input l)" "lx_input l' = lx_input l"
    "lx_width l' = lx_pos l' - lx_pos l" "lx_pos l < length (lx_input l)"
    using w(2) p by auto
qed

function acceptRun :: "string \<Rightarrow> ('t, 'z) scanner_scheme \<Rightarrow> ('t, 'z) scanner_scheme" where
  "acceptRun valid l =
     (let (r, l1) = lex_next l in if contains_rune valid r then acceptRun valid l1 else lex_backup l1)"
  by pat_completeness auto
termination
proof (relation "measure (\<lambda>(valid, l). length (lx_input l) - lx_pos l)", goal_cases)
  case (2 valid l x r l1)
  then have "lex_next l = (r, l1)" "r \<noteq> eof" by (auto simp: eof_def)
  from lex_next_width [OF this] show ?case by simp
qed simp

declare acceptRun.simps [simp del]

definition goto :: "stateFn \<Rightarrow> ('t, 'z) scanner_scheme go \<Rightarrow> (stateFn option \<times> ('t, 'z) scanner_scheme) go" where
  "goto st m = bindE m (\<lambda>l. Inr (Some st, l))"

text \<open>\<open>l.input[l.pos:]\<close>.\<close>

definition lex_rest :: "('t, 'z) scanner_scheme \<Rightarrow> string go" where
  "lex_rest l = slice (lx_input l) (lx_pos l) (length (lx_input l))"

definition leftComment :: string where "leftComment = ''/*''"
definition rightComment :: string where "rightComment = ''*/''"

definition isSpace :: "rune \<Rightarrow> bool" where
  "isSpace r \<longleftrightarrow> r \<in> {0x20, 0x09, 0x0A, 0x0D}"

definition isAlphaNumeric :: "lex_env \<Rightarrow> rune \<Rightarrow> bool" where
  "isAlphaNumeric env r \<longleftrightarrow> r = 0x5F \<or> 0x41 \<le> r \<and> r \<le> 0x5A \<or> 0x61 \<le> r \<and> r \<le> 0x7A \<or> 0x30 \<le> r \<and> r \<le> 0x39 \<or>
     0x80 \<le> r \<and> unicode_alnum env r"

section \<open>Loops\<close>

text \<open>The loop of \<open>lexText\<close>: whether it stops at a left delimiter, and where.\<close>

function lexText_loop :: "('t, 'z) scanner_scheme \<Rightarrow> (bool \<times> ('t, 'z) scanner_scheme) go" where
  "lexText_loop l =
     bindE (lex_rest l) (\<lambda>t.
       if prefix (lx_leftDelim l) t then Inr (True, l)
       else let (r, l1) = lex_next l in if r = eof then Inr (False, l1) else lexText_loop l1)"
  by pat_completeness auto
termination
proof (relation "measure (\<lambda>l. length (lx_input l) - lx_pos l)", goal_cases)
  case (2 l t x r l1)
  then have "lex_next l = (r, l1)" by simp
  from lex_next_width [OF this] 2 show ?case by simp
qed simp

declare lexText_loop.simps [simp del]

text \<open>The loop of \<open>lexIdentifier\<close>: it absorbs letters, digits and, in a field or variable, dots. The
  result is the rune it stops at, after the step back.\<close>

function lexIdentifier_loop :: "lex_env \<Rightarrow> ('t, 'z) scanner_scheme \<Rightarrow> (rune \<times> ('t, 'z) scanner_scheme) go" where
  "lexIdentifier_loop env l =
     (let (r, l1) = lex_next l in
      if isAlphaNumeric env r \<or>
         r = 0x2E \<and> lx_start l < length (lx_input l) \<and> lx_input l ! lx_start l \<in> {CHR ''.'', CHR ''$''}
      then lexIdentifier_loop env l1
      else if r = 0x2E \<and> \<not> lx_start l < length (lx_input l) then Inl IndexOutOfRange
      else Inr (r, lex_backup l1))"
  by pat_completeness auto
termination
proof (relation "measure (\<lambda>(env, l). length (lx_input l) - lx_pos l)", goal_cases)
  case (2 env l x r l1)
  then have "lex_next l = (r, l1)" "r \<noteq> eof" by (auto simp: eof_def isAlphaNumeric_def)
  from lex_next_width [OF this] show ?case by simp
qed simp

declare lexIdentifier_loop.simps [simp del]

text \<open>\<open>lexChar\<close> and \<open>lexQuote\<close> scan to the closing quote; a backslash takes the rune after it. The
  result says whether the constant ends before the end of the line.\<close>

function lexQuoted_loop :: "rune \<Rightarrow> ('t, 'z) scanner_scheme \<Rightarrow> bool \<times> ('t, 'z) scanner_scheme" where
  "lexQuoted_loop q l =
     (let (r, l1) = lex_next l in
      if r = 0x5C
      then (let (r2, l2) = lex_next l1 in if r2 \<noteq> eof \<and> r2 \<noteq> 0x0A then lexQuoted_loop q l2 else (False, l2))
      else if r = eof \<or> r = 0x0A then (False, l1)
      else if r = q then (True, l1)
      else lexQuoted_loop q l1)"
  by pat_completeness auto
termination
proof (relation "measure (\<lambda>(q, l). length (lx_input l) - lx_pos l)", goal_cases)
  case (2 q l x r l1 y r2 l2)
  then have "lex_next l = (r, l1)" "r \<noteq> eof" "lex_next l1 = (r2, l2)" "r2 \<noteq> eof" by (auto simp: eof_def)
  from lex_next_width [OF this(1,2)] lex_next_width [OF this(3,4)] show ?case by simp
next
  case (3 q l x r l1)
  then have "lex_next l = (r, l1)" "r \<noteq> eof" by auto
  from lex_next_width [OF this] show ?case by simp
qed simp

declare lexQuoted_loop.simps [simp del]

function lexRawQuote_loop :: "('t, 'z) scanner_scheme \<Rightarrow> bool \<times> ('t, 'z) scanner_scheme" where
  "lexRawQuote_loop l =
     (let (r, l1) = lex_next l in
      if r = eof \<or> r = 0x0A then (False, l1)
      else if r = 0x60 then (True, l1)
      else lexRawQuote_loop l1)"
  by pat_completeness auto
termination
proof (relation "measure (\<lambda>l. length (lx_input l) - lx_pos l)", goal_cases)
  case (2 l x r l1)
  then have "lex_next l = (r, l1)" "r \<noteq> eof" by auto
  from lex_next_width [OF this] show ?case by simp
qed simp

declare lexRawQuote_loop.simps [simp del]

text \<open>The sign, the digits and the fraction of a number.\<close>

definition scan_mantissa :: "('t, 'z) scanner_scheme \<Rightarrow> ('t, 'z) scanner_scheme" where
  "scan_mantissa l =
     (let l = snd (accept ''+-'' l);
          (zero, l) = accept ''0'' l;
          (x, l) = (if zero then accept ''xX'' l else (False, l));
          digits = (if x then ''0123456789abcdefABCDEF'' else ''0123456789'');
          l = acceptRun digits l;
          (dot, l) = accept ''.'' l
      in if dot then acceptRun digits l else l)"

definition scanNumber :: "lex_env \<Rightarrow> ('t, 'z) scanner_scheme \<Rightarrow> bool \<times> ('t, 'z) scanner_scheme" where
  "scanNumber env l =
     (let l = scan_mantissa l;
          (e, l) = accept ''eE'' l;
          l = (if e then acceptRun ''0123456789'' (snd (accept ''+-'' l)) else l);
          l = snd (accept ''i'' l);
          (r, l) = lex_peek l
      in if isAlphaNumeric env r then (False, snd (lex_next l)) else (True, l))"

section \<open>State functions\<close>

definition scan_errorf :: "'t kinds \<Rightarrow> string \<Rightarrow> ('t, 'z) scanner_scheme \<Rightarrow> (stateFn option \<times> ('t, 'z) scanner_scheme) go" where
  "scan_errorf ks msg l =
     Inr (None, l\<lparr>lx_items := lx_items l @ [\<lparr>it_typ = k_error ks, it_pos = lx_start l, it_val = msg\<rparr>]\<rparr>)"

definition scan_text :: "'t kinds \<Rightarrow> ('t, 'z) scanner_scheme \<Rightarrow> (stateFn option \<times> ('t, 'z) scanner_scheme) go" where
  "scan_text ks l =
     bindE (lexText_loop l) (\<lambda>(found, l).
     bindE (if lx_pos l > lx_start l then emit (k_text ks) l else Inr l) (\<lambda>l.
       if found then Inr (Some lexLeftDelim, l)
       else bindE (emit (k_eof ks) l) (\<lambda>l. Inr (None, l))))"

definition scan_comment :: "'t kinds \<Rightarrow> ('t, 'z) scanner_scheme \<Rightarrow> (stateFn option \<times> ('t, 'z) scanner_scheme) go" where
  "scan_comment ks l =
     (let l = l\<lparr>lx_pos := lx_pos l + length leftComment\<rparr> in
      bindE (lex_rest l) (\<lambda>t.
        case index_sub (rightComment @ lx_rightDelim l) t of
          None \<Rightarrow> scan_errorf ks ''unclosed comment'' l
        | Some i \<Rightarrow>
            let l = l\<lparr>lx_pos := lx_pos l + (i + length rightComment + length (lx_rightDelim l))\<rparr>
            in Inr (Some lexText, lex_ignore l)))"

definition scan_rightDelim :: "'t kinds \<Rightarrow> ('t, 'z) scanner_scheme \<Rightarrow> (stateFn option \<times> ('t, 'z) scanner_scheme) go" where
  "scan_rightDelim ks l =
     goto lexText (emit (k_rightDelim ks) (l\<lparr>lx_pos := lx_pos l + length (lx_rightDelim l)\<rparr>))"

text \<open>\<open>lexIdentifier\<close>: \<open>at_term\<close> is the check for a terminator and \<open>type_of\<close> the type of a word.\<close>

definition scan_identifier ::
  "'t kinds \<Rightarrow> (('t, 'z) scanner_scheme \<Rightarrow> bool \<times> ('t, 'z) scanner_scheme) \<Rightarrow> (string \<Rightarrow> 't go) \<Rightarrow> lex_env \<Rightarrow> ('t, 'z) scanner_scheme \<Rightarrow> (stateFn option \<times> ('t, 'z) scanner_scheme) go" where
  "scan_identifier ks at_term type_of env l =
     bindE (lexIdentifier_loop env l) (\<lambda>(r, l).
     bindE (slice (lx_input l) (lx_start l) (lx_pos l)) (\<lambda>word.
       let (ok, l) = at_term l in
       if \<not> ok then scan_errorf ks (''bad character '' @ fmt_U env r) l
       else bindE (type_of word) (\<lambda>t. goto lexInsideAction (emit t l))))"

definition scan_char :: "'t kinds \<Rightarrow> ('t, 'z) scanner_scheme \<Rightarrow> (stateFn option \<times> ('t, 'z) scanner_scheme) go" where
  "scan_char ks l =
     (let (ok, l) = lexQuoted_loop 0x27 l in
      if ok then goto lexInsideAction (emit (k_charConstant ks) l)
      else scan_errorf ks ''unterminated character constant'' l)"

definition scan_quote :: "'t kinds \<Rightarrow> ('t, 'z) scanner_scheme \<Rightarrow> (stateFn option \<times> ('t, 'z) scanner_scheme) go" where
  "scan_quote ks l =
     (let (ok, l) = lexQuoted_loop 0x22 l in
      if ok then goto lexInsideAction (emit (k_string ks) l)
      else scan_errorf ks ''unterminated quoted string'' l)"

definition scan_rawQuote :: "'t kinds \<Rightarrow> ('t, 'z) scanner_scheme \<Rightarrow> (stateFn option \<times> ('t, 'z) scanner_scheme) go" where
  "scan_rawQuote ks l =
     (let (ok, l) = lexRawQuote_loop l in
      if ok then goto lexInsideAction (emit (k_rawString ks) l)
      else scan_errorf ks ''unterminated raw quoted string'' l)"

definition bad_number :: "'t kinds \<Rightarrow> lex_env \<Rightarrow> ('t, 'z) scanner_scheme \<Rightarrow> (stateFn option \<times> ('t, 'z) scanner_scheme) go" where
  "bad_number ks env l = bindE (slice (lx_input l) (lx_start l) (lx_pos l)) (\<lambda>t.
     scan_errorf ks (''bad number syntax: '' @ fmt_q env t) l)"

definition scan_number :: "'t kinds \<Rightarrow> lex_env \<Rightarrow> ('t, 'z) scanner_scheme \<Rightarrow> (stateFn option \<times> ('t, 'z) scanner_scheme) go" where
  "scan_number ks env l =
     (let (ok, l) = scanNumber env l in
      if \<not> ok then bad_number ks env l
      else
        let (sign, l) = lex_peek l in
        if sign = 0x2B \<or> sign = 0x2D
        then (let (ok, l) = scanNumber env l in
              if \<not> ok then bad_number ks env l
              else if lx_pos l = 0 \<or> lx_pos l > length (lx_input l) then Inl IndexOutOfRange
              else if lx_input l ! (lx_pos l - 1) \<noteq> CHR ''i'' then bad_number ks env l
              else goto lexInsideAction (emit (k_complex ks) l))
        else goto lexInsideAction (emit (k_number ks) l))"

end
