(* ===== verification/Template_Lex.thy ===== *)
theory Template_Lex
  imports Template_Scan
begin

text \<open>
  The lexer of templates (\<open>template/parse/lex.go\<close>). The lexer runs as a goroutine that sends items
  over an unbuffered channel and closes it; the model runs it to the end and keeps the items it sends in
  the order it sends them. The state functions
  that only differ in the item types from those of the other lexer are the ones of \<open>Template_Scan\<close>, at
  the item types of this lexer.
\<close>

section \<open>Items\<close>

datatype itemType =
    itemError | itemBool | itemChar | itemCharConstant | itemComplex | itemColonEquals | itemEOF
  | itemField | itemIdentifier | itemLeftDelim | itemNumber | itemPipe | itemRawString
  | itemRightDelim | itemString | itemText | itemVariable | itemKeyword | itemDot | itemDefine
  | itemElse | itemEnd | itemIf | itemNil | itemRange | itemTemplate | itemWith | itemBlock | itemFill

type_synonym item = "itemType scan_item"
type_synonym lexer = "itemType scanner"

text \<open>The values that \<open>iota\<close> gives the constants, and their order.\<close>

primrec iota :: "itemType \<Rightarrow> nat" where
  "iota itemError = 0"
| "iota itemBool = 1"
| "iota itemChar = 2"
| "iota itemCharConstant = 3"
| "iota itemComplex = 4"
| "iota itemColonEquals = 5"
| "iota itemEOF = 6"
| "iota itemField = 7"
| "iota itemIdentifier = 8"
| "iota itemLeftDelim = 9"
| "iota itemNumber = 10"
| "iota itemPipe = 11"
| "iota itemRawString = 12"
| "iota itemRightDelim = 13"
| "iota itemString = 14"
| "iota itemText = 15"
| "iota itemVariable = 16"
| "iota itemKeyword = 17"
| "iota itemDot = 18"
| "iota itemDefine = 19"
| "iota itemElse = 20"
| "iota itemEnd = 21"
| "iota itemIf = 22"
| "iota itemNil = 23"
| "iota itemRange = 24"
| "iota itemTemplate = 25"
| "iota itemWith = 26"
| "iota itemBlock = 27"
| "iota itemFill = 28"

lemma iota_inj: "iota t = iota u \<Longrightarrow> t = u"
  by (cases t; cases u) simp_all

instantiation itemType :: linorder
begin

definition less_eq_itemType :: "itemType \<Rightarrow> itemType \<Rightarrow> bool" where "t \<le> u \<longleftrightarrow> iota t \<le> iota u"

definition less_itemType :: "itemType \<Rightarrow> itemType \<Rightarrow> bool" where "t < u \<longleftrightarrow> iota t < iota u"

instance
  by standard (auto simp: less_eq_itemType_def less_itemType_def intro: iota_inj)

end

definition is_keyword :: "itemType \<Rightarrow> bool" where "is_keyword t \<longleftrightarrow> t > itemKeyword"

fun itemName :: "itemType \<Rightarrow> string" where
  "itemName itemError = ''error''"
| "itemName itemBool = ''bool''"
| "itemName itemChar = ''char''"
| "itemName itemCharConstant = ''charconst''"
| "itemName itemComplex = ''complex''"
| "itemName itemColonEquals = '':=''"
| "itemName itemEOF = ''EOF''"
| "itemName itemField = ''field''"
| "itemName itemIdentifier = ''identifier''"
| "itemName itemLeftDelim = ''left delim''"
| "itemName itemNumber = ''number''"
| "itemName itemPipe = ''pipe''"
| "itemName itemRawString = ''raw string''"
| "itemName itemRightDelim = ''right delim''"
| "itemName itemString = ''string''"
| "itemName itemVariable = ''variable''"
| "itemName itemDot = ''.''"
| "itemName itemDefine = ''define''"
| "itemName itemElse = ''else''"
| "itemName itemIf = ''if''"
| "itemName itemEnd = ''end''"
| "itemName itemNil = ''nil''"
| "itemName itemRange = ''range''"
| "itemName itemTemplate = ''template''"
| "itemName itemWith = ''with''"
| "itemName itemBlock = ''block''"
| "itemName itemFill = ''fill''"
| "itemName itemText = []"
| "itemName itemKeyword = []"

text \<open>\<open>itemType.String\<close>: the two types without a name are numbers 15 and 17.\<close>

definition itemType_String :: "itemType \<Rightarrow> string" where
  "itemType_String t =
     (if itemName t = [] then (if t = itemText then ''item15'' else ''item17'') else itemName t)"

definition key :: "(string \<times> itemType) list" where
  "key =
     [(''.'', itemDot), (''define'', itemDefine), (''else'', itemElse), (''end'', itemEnd), (''if'', itemIf),
      (''range'', itemRange), (''nil'', itemNil), (''template'', itemTemplate), (''with'', itemWith),
      (''block'', itemBlock), (''fill'', itemFill)]"

section \<open>The lexer\<close>

definition item_String :: "lex_env \<Rightarrow> item \<Rightarrow> string" where
  "item_String env i =
     (if it_typ i = itemEOF then ''EOF''
      else if it_typ i = itemError then it_val i
      else if is_keyword (it_typ i) then ''<'' @ it_val i @ ''>''
      else if length (it_val i) > 10
      then fmt_q env (concat (map snd (take 10 (chunks (it_val i))))) @ ''...''
      else fmt_q env (it_val i))"

text \<open>The item types under the names the scanner has for them.\<close>

definition lex_kinds :: "itemType kinds" where
  "lex_kinds =
     \<lparr>k_error = itemError, k_eof = itemEOF, k_keyword = itemKeyword, k_text = itemText, k_rightDelim = itemRightDelim,
      k_charConstant = itemCharConstant, k_string = itemString, k_rawString = itemRawString, k_number = itemNumber,
      k_complex = itemComplex\<rparr>"

definition lex_errorf :: "string \<Rightarrow> lexer \<Rightarrow> (stateFn option \<times> lexer) go" where
  "lex_errorf msg l = scan_errorf lex_kinds msg l"

section \<open>Text, delimiters and comments\<close>

definition do_lexText :: "lexer \<Rightarrow> (stateFn option \<times> lexer) go" where
  "do_lexText l = scan_text lex_kinds l"

definition do_lexLeftDelim :: "lexer \<Rightarrow> (stateFn option \<times> lexer) go" where
  "do_lexLeftDelim l =
     (let l = l\<lparr>lx_pos := lx_pos l + length (lx_leftDelim l)\<rparr> in
      bindE (lex_rest l) (\<lambda>t.
        if prefix leftComment t then Inr (Some lexComment, l)
        else goto lexInsideAction (emit itemLeftDelim l)))"

definition do_lexComment :: "lexer \<Rightarrow> (stateFn option \<times> lexer) go" where
  "do_lexComment l = scan_comment lex_kinds l"

definition do_lexRightDelim :: "lexer \<Rightarrow> (stateFn option \<times> lexer) go" where
  "do_lexRightDelim l = scan_rightDelim lex_kinds l"

section \<open>Actions\<close>

definition do_lexInsideAction :: "lex_env \<Rightarrow> lexer \<Rightarrow> (stateFn option \<times> lexer) go" where
  "do_lexInsideAction env l =
     bindE (lex_rest l) (\<lambda>t.
       if prefix (lx_rightDelim l) t then Inr (Some lexRightDelim, l)
       else
         let (r, l) = lex_next l in
         if r = eof \<or> r = 0x0A then lex_errorf ''unclosed action'' l
         else if isSpace r then Inr (Some lexInsideAction, lex_ignore l)
         else if r = 0x3A
         then (let (r1, l) = lex_next l in
               if r1 \<noteq> 0x3D then lex_errorf ''expected :='' l
               else goto lexInsideAction (emit itemColonEquals l))
         else if r = 0x7C then goto lexInsideAction (emit itemPipe l)
         else if r = 0x22 then Inr (Some lexQuote, l)
         else if r = 0x60 then Inr (Some lexRawQuote, l)
         else if r = 0x24 then Inr (Some lexIdentifier, l)
         else if r = 0x27 then Inr (Some lexChar, l)
         else if r = 0x2E \<and> lx_pos l < length (lx_input l) \<and>
           (byte_val (lx_input l ! lx_pos l) < 0x30 \<or> 0x39 < byte_val (lx_input l ! lx_pos l))
         then Inr (Some lexIdentifier, l)
         else if r = 0x2E \<or> r = 0x2B \<or> r = 0x2D \<or> 0x30 \<le> r \<and> r \<le> 0x39
         then Inr (Some lexNumber, lex_backup l)
         else if isAlphaNumeric env r then Inr (Some lexIdentifier, lex_backup l)
         else if r \<le> 0x7F \<and> 0x20 \<le> r \<and> r \<le> 0x7E then goto lexInsideAction (emit itemChar l)
         else lex_errorf (''unrecognized character in action: '' @ fmt_U env r) l)"

definition atTerminator :: "lexer \<Rightarrow> bool \<times> lexer" where
  "atTerminator l =
     (let (r, l) = lex_peek l in
      (isSpace r \<or> r \<in> {eof, 0x2C, 0x7C, 0x3A} \<or> fst (decode_rune (lx_rightDelim l)) = r, l))"

text \<open>The type of a word, which is not empty: \<open>word[0]\<close>.\<close>

definition word_type :: "string \<Rightarrow> itemType go" where
  "word_type word = (case map_of key word of
     Some t \<Rightarrow> Inr t
   | None \<Rightarrow>
       if word = [] then Inl IndexOutOfRange
       else if hd word = CHR ''.'' then Inr itemField
       else if hd word = CHR ''$'' then Inr itemVariable
       else if word = ''true'' \<or> word = ''false'' then Inr itemBool
       else Inr itemIdentifier)"

definition do_lexIdentifier :: "lex_env \<Rightarrow> lexer \<Rightarrow> (stateFn option \<times> lexer) go" where
  "do_lexIdentifier env l = scan_identifier lex_kinds atTerminator word_type env l"

definition do_lexChar :: "lexer \<Rightarrow> (stateFn option \<times> lexer) go" where
  "do_lexChar l = scan_char lex_kinds l"

definition do_lexQuote :: "lexer \<Rightarrow> (stateFn option \<times> lexer) go" where
  "do_lexQuote l = scan_quote lex_kinds l"

definition do_lexRawQuote :: "lexer \<Rightarrow> (stateFn option \<times> lexer) go" where
  "do_lexRawQuote l = scan_rawQuote lex_kinds l"

definition do_lexNumber :: "lex_env \<Rightarrow> lexer \<Rightarrow> (stateFn option \<times> lexer) go" where
  "do_lexNumber env l = scan_number lex_kinds env l"

section \<open>The run\<close>

fun state_step :: "lex_env \<Rightarrow> stateFn \<Rightarrow> lexer \<Rightarrow> (stateFn option \<times> lexer) go" where
  "state_step env lexText l = do_lexText l"
| "state_step env lexLeftDelim l = do_lexLeftDelim l"
| "state_step env lexComment l = do_lexComment l"
| "state_step env lexRightDelim l = do_lexRightDelim l"
| "state_step env lexInsideAction l = do_lexInsideAction env l"
| "state_step env lexIdentifier l = do_lexIdentifier env l"
| "state_step env lexChar l = do_lexChar l"
| "state_step env lexNumber l = do_lexNumber env l"
| "state_step env lexQuote l = do_lexQuote l"
| "state_step env lexRawQuote l = do_lexRawQuote l"

partial_function (option) lex_run :: "lex_env \<Rightarrow> stateFn option \<Rightarrow> lexer \<Rightarrow> lexer go option" where
  "lex_run env st l =
     (case st of
        None \<Rightarrow> Some (Inr l)
      | Some f \<Rightarrow>
          (case state_step env f l of
             Inl p \<Rightarrow> Some (Inl p)
           | Inr r \<Rightarrow> lex_run env (fst r) (snd r)))"

declare lex_run.simps [code]

definition new_lexer :: "string \<Rightarrow> string \<Rightarrow> string \<Rightarrow> string \<Rightarrow> lexer" where
  "new_lexer name inp left right =
     \<lparr>lx_name = name, lx_input = inp,
      lx_leftDelim = (if left = [] then ''{{'' else left),
      lx_rightDelim = (if right = [] then ''}}'' else right),
      lx_pos = 0, lx_start = 0, lx_width = 0, lx_items = []\<rparr>"

text \<open>The lexer after the scan: the items in the order they are received, and the final position.\<close>

definition template_lex :: "lex_env \<Rightarrow> string \<Rightarrow> string \<Rightarrow> string \<Rightarrow> string \<Rightarrow> lexer go option" where
  "template_lex env name inp left right = lex_run env (Some lexText) (new_lexer name inp left right)"

end
