(* ===== verification/Template_Number.thy ===== *)
theory Template_Number
  imports Go_Strings "HOL-Library.Word"
begin

text \<open>
  The number nodes of the two template packages (\<open>template/parse/node.go\<close> and \<open>zap/parse/node.go\<close>, which
  share the text of these functions). A float is its 64 bits; what \<open>strconv\<close> and the compiler do with
  floats is collected in \<open>num_env\<close>.
\<close>

type_synonym float64 = "64 word"
type_synonym int64 = "64 word"
type_synonym uint64 = "64 word"

record NumberNode =
  num_IsInt :: bool
  num_IsUint :: bool
  num_IsFloat :: bool
  num_IsComplex :: bool
  num_Int64 :: int64
  num_Uint64 :: uint64
  num_Float64 :: float64
  num_Complex128 :: "float64 \<times> float64"
  num_Text :: string

text \<open>\<open>strconv.UnquoteChar\<close> for a single quote, \<open>strconv.ParseFloat\<close>, \<open>fmt.Sscan\<close> into a complex
  number, and the conversions and comparison of floats.\<close>

record num_env =
  UnquoteChar :: "string \<Rightarrow> (rune \<times> string) option"
  ParseFloat :: "string \<Rightarrow> float64 option"
  SscanComplex :: "string \<Rightarrow> (float64 \<times> float64) option"
  float_of_int :: "int64 \<Rightarrow> float64"
  float_of_uint :: "uint64 \<Rightarrow> float64"
  int_of_float :: "float64 \<Rightarrow> int64"
  uint_of_float :: "float64 \<Rightarrow> uint64"
  float_eq :: "float64 \<Rightarrow> float64 \<Rightarrow> bool"
  float_zero :: float64

text \<open>\<open>strconv.ParseUint(s, 0, 64)\<close>: the base is taken from the prefix of the text.\<close>

definition digit_in :: "nat \<Rightarrow> char \<Rightarrow> nat option" where
  "digit_in base c =
     (let x = nat (byte_val c);
          v = (if 0x30 \<le> x \<and> x \<le> 0x39 then Some (x - 0x30)
               else if 0x61 \<le> x \<and> x \<le> 0x7A then Some (x - 0x61 + 10)
               else if 0x41 \<le> x \<and> x \<le> 0x5A then Some (x - 0x41 + 10)
               else None)
      in case v of None \<Rightarrow> None | Some d \<Rightarrow> if d < base then Some d else None)"

fun digits_value :: "nat \<Rightarrow> string \<Rightarrow> nat \<Rightarrow> nat option" where
  "digits_value base [] acc = Some acc"
| "digits_value base (c # s) acc = (case digit_in base c of
     None \<Rightarrow> None | Some d \<Rightarrow> digits_value base s (base * acc + d))"

definition parse_nat :: "string \<Rightarrow> nat option" where
  "parse_nat s =
     (if s = [] then None
      else if hd s = CHR ''0'' \<and> length s > 2 \<and> (s ! 1 = CHR ''x'' \<or> s ! 1 = CHR ''X'')
      then digits_value 16 (drop 2 s) 0
      else if hd s = CHR ''0'' then digits_value 8 (tl s) 0
      else digits_value 10 s 0)"

definition ParseUint :: "string \<Rightarrow> nat option" where
  "ParseUint s = (case parse_nat s of None \<Rightarrow> None | Some n \<Rightarrow> if n < 2 ^ 64 then Some n else None)"

definition ParseInt :: "string \<Rightarrow> int option" where
  "ParseInt s =
     (let neg = (s \<noteq> [] \<and> hd s = CHR ''-'');
          t = (if s \<noteq> [] \<and> (hd s = CHR ''-'' \<or> hd s = CHR ''+'') then tl s else s)
      in case parse_nat t of
           None \<Rightarrow> None
         | Some n \<Rightarrow> if neg then (if n \<le> 2 ^ 63 then Some (- int n) else None)
                      else (if n < 2 ^ 63 then Some (int n) else None))"

definition simplifyComplex :: "num_env \<Rightarrow> NumberNode \<Rightarrow> NumberNode" where
  "simplifyComplex env n =
     (let (re, im) = num_Complex128 n; n = n\<lparr>num_IsFloat := float_eq env im (float_zero env)\<rparr> in
      if \<not> num_IsFloat n then n
      else
        let n = n\<lparr>num_Float64 := re\<rparr>;
            n = n\<lparr>num_IsInt := float_eq env (float_of_int env (int_of_float env re)) re\<rparr>;
            n = (if num_IsInt n then n\<lparr>num_Int64 := int_of_float env re\<rparr> else n);
            n = n\<lparr>num_IsUint := float_eq env (float_of_uint env (uint_of_float env re)) re\<rparr>
        in if num_IsUint n then n\<lparr>num_Uint64 := uint_of_float env re\<rparr> else n)"

definition number0 :: "num_env \<Rightarrow> string \<Rightarrow> NumberNode" where
  "number0 env t =
     \<lparr>num_IsInt = False, num_IsUint = False, num_IsFloat = False, num_IsComplex = False, num_Int64 = 0,
      num_Uint64 = 0, num_Float64 = float_zero env, num_Complex128 = (float_zero env, float_zero env), num_Text = t\<rparr>"

text \<open>An error is the format and the arguments of its message, in order.\<close>

type_synonym go_error = "string \<times> string list"

definition newNumber_char :: "num_env \<Rightarrow> string \<Rightarrow> (go_error + NumberNode) go" where
  "newNumber_char env t =
     (if t = [] then Inl SliceBoundsOutOfRange
      else Inr (case UnquoteChar env (tl t) of
        None \<Rightarrow> Inl (''invalid syntax'', [])
      | Some (r, rest) \<Rightarrow>
          if rest \<noteq> [CHR 0x27] then Inl (''malformed character constant: %s'', [t])
          else Inr ((number0 env t)\<lparr>num_IsInt := True, num_IsUint := True, num_IsFloat := True,
                 num_Int64 := of_int r, num_Uint64 := of_int r, num_Float64 := float_of_int env (of_int r)\<rparr>)))"

text \<open>The integers of a text, then the float: an integer is promoted, else the text is read as a float
  whose integral values are kept too.\<close>

definition number_ints :: "string \<Rightarrow> NumberNode \<Rightarrow> NumberNode" where
  "number_ints t n =
     (let u = ParseUint t;
          n = (case u of None \<Rightarrow> n | Some x \<Rightarrow> n\<lparr>num_IsUint := True, num_Uint64 := of_nat x\<rparr>)
      in case ParseInt t of
           None \<Rightarrow> n
         | Some i \<Rightarrow>
             let n = n\<lparr>num_IsInt := True, num_Int64 := of_int i\<rparr> in
             if i = 0 then n\<lparr>num_IsUint := True, num_Uint64 := (case u of None \<Rightarrow> 0 | Some x \<Rightarrow> of_nat x)\<rparr> else n)"

definition number_float :: "num_env \<Rightarrow> string \<Rightarrow> NumberNode \<Rightarrow> NumberNode" where
  "number_float env t n =
     (if num_IsInt n then n\<lparr>num_IsFloat := True, num_Float64 := float_of_int env (num_Int64 n)\<rparr>
      else if num_IsUint n then n\<lparr>num_IsFloat := True, num_Float64 := float_of_uint env (num_Uint64 n)\<rparr>
      else case ParseFloat env t of
        None \<Rightarrow> n
      | Some f \<Rightarrow>
          let n = n\<lparr>num_IsFloat := True, num_Float64 := f\<rparr>;
              n = (if \<not> num_IsInt n \<and> float_eq env (float_of_int env (int_of_float env f)) f
                   then n\<lparr>num_IsInt := True, num_Int64 := int_of_float env f\<rparr> else n)
          in if \<not> num_IsUint n \<and> float_eq env (float_of_uint env (uint_of_float env f)) f
             then n\<lparr>num_IsUint := True, num_Uint64 := uint_of_float env f\<rparr> else n)"

definition number_plain :: "num_env \<Rightarrow> string \<Rightarrow> go_error + NumberNode" where
  "number_plain env t =
     (let n = number_float env t (number_ints t (number0 env t)) in
      if \<not> num_IsInt n \<and> \<not> num_IsUint n \<and> \<not> num_IsFloat n then Inl (''illegal number syntax: %q'', [t]) else Inr n)"

end
