(* ===== verification/Template_Node.thy ===== *)
theory Template_Node
  imports Template_Lex Template_Number
begin

text \<open>
  The nodes of template trees (\<open>template/parse/node.go\<close>). Lists of nodes, pipelines and commands are
  lists; a nil list or pipeline is \<open>None\<close>. The embedded node types of Go are the constructors, and the
  three branch nodes share one. The parts of a number are those of
  \<open>Template_Number\<close>. \<open>Tree\<close> is a map.
\<close>

section \<open>Numbers\<close>

definition newNumber :: "num_env \<Rightarrow> string \<Rightarrow> itemType \<Rightarrow> (go_error + NumberNode) go" where
  "newNumber env t ty =
     (let complex = (\<lambda>c. simplifyComplex env ((number0 env t)\<lparr>num_IsComplex := True, num_Complex128 := c\<rparr>)) in
      if ty = itemCharConstant then newNumber_char env t
      else if ty = itemComplex
      then Inr (case SscanComplex env t of None \<Rightarrow> Inl (''invalid syntax'', []) | Some c \<Rightarrow> Inr (complex c))
      else if t \<noteq> [] \<and> last t = CHR ''i''
      then Inr (case ParseFloat env (butlast t) of
             Some f \<Rightarrow> Inr (complex (float_zero env, f)) | None \<Rightarrow> number_plain env t)
      else Inr (number_plain env t))"

section \<open>Nodes\<close>

datatype arg_node =
    IdentifierNode string
  | VariableNode "string list"
  | DotNode
  | NilNode
  | FieldNode "string list"
  | BoolNode bool
  | NumberArg NumberNode
  | StringNode string string

type_synonym CommandNode = "arg_node list"

record PipeNode =
  pipe_Line :: int
  pipe_Decl :: "string list list"
  pipe_Cmds :: "CommandNode list"

datatype branch = NodeIf | NodeRange | NodeWith

datatype node =
    TextNode string
  | ActionNode int PipeNode
  | ListNode "node list"
  | BranchNode branch int PipeNode "node list" "node list option"
  | TemplateNode int string "PipeNode option"
  | BlockNode int string "PipeNode option" "node list"
  | FillNode int string "PipeNode option" "node list"
  | endNode
  | elseNode int

record DefineNode =
  def_Line :: int
  def_Name :: string
  def_List :: "node list"

type_synonym Tree = "string \<rightharpoonup> DefineNode"

definition newVariable :: "string \<Rightarrow> string list" where
  "newVariable ident = split_on (CHR ''.'') ident"

definition newField :: "string \<Rightarrow> arg_node go" where
  "newField ident = bindE (slice ident 1 (length ident)) (\<lambda>t. Inr (FieldNode (split_on (CHR ''.'') t)))"

definition newPipeline :: "int \<Rightarrow> string list list \<Rightarrow> PipeNode" where
  "newPipeline line decl = \<lparr>pipe_Line = line, pipe_Decl = decl, pipe_Cmds = []\<rparr>"

definition PipeNode_append :: "PipeNode \<Rightarrow> CommandNode \<Rightarrow> PipeNode" where
  "PipeNode_append p c = p\<lparr>pipe_Cmds := pipe_Cmds p @ [c]\<rparr>"

section \<open>Printing\<close>

text \<open>The elements of a list with a separator between them.\<close>

fun sep_by :: "string \<Rightarrow> string list \<Rightarrow> string" where
  "sep_by sep [] = []"
| "sep_by sep [x] = x"
| "sep_by sep (x # y # xs) = x @ sep @ sep_by sep (y # xs)"

definition VariableNode_String :: "string list \<Rightarrow> string" where
  "VariableNode_String ident = sep_by ''.'' ident"

definition FieldNode_String :: "string list \<Rightarrow> string" where
  "FieldNode_String ident = concat (map (\<lambda>i. ''.'' @ i) ident)"

fun arg_String :: "arg_node \<Rightarrow> string" where
  "arg_String (IdentifierNode i) = i"
| "arg_String (VariableNode i) = VariableNode_String i"
| "arg_String DotNode = ''.''"
| "arg_String NilNode = ''nil''"
| "arg_String (FieldNode i) = FieldNode_String i"
| "arg_String (BoolNode b) = (if b then ''true'' else ''false'')"
| "arg_String (NumberArg n) = num_Text n"
| "arg_String (StringNode quoted t) = quoted"

definition CommandNode_String :: "CommandNode \<Rightarrow> string" where
  "CommandNode_String c = sep_by '' '' (map arg_String c)"

definition PipeNode_String :: "PipeNode \<Rightarrow> string" where
  "PipeNode_String p =
     (if pipe_Decl p = [] then [] else sep_by '', '' (map VariableNode_String (pipe_Decl p)) @ '' := '') @
     sep_by '' | '' (map CommandNode_String (pipe_Cmds p))"

fun branch_name :: "branch \<Rightarrow> string" where
  "branch_name NodeIf = ''if''"
| "branch_name NodeRange = ''range''"
| "branch_name NodeWith = ''with''"

text \<open>\<open>q\<close> is the verb \<open>%q\<close> of \<open>fmt\<close>.\<close>

definition named_action :: "(string \<Rightarrow> string) \<Rightarrow> string \<Rightarrow> string \<Rightarrow> PipeNode option \<Rightarrow> string" where
  "named_action q kind name p = (case p of
     None \<Rightarrow> ''{{'' @ kind @ '' '' @ q name @ ''}}''
   | Some p \<Rightarrow> ''{{'' @ kind @ '' '' @ q name @ '' '' @ PipeNode_String p @ ''}}'')"

fun tnode_String :: "(string \<Rightarrow> string) \<Rightarrow> node \<Rightarrow> string" and
    list_String :: "(string \<Rightarrow> string) \<Rightarrow> node list \<Rightarrow> string" where
  "tnode_String q (TextNode t) = q t"
| "tnode_String q (ActionNode line p) = ''{{'' @ PipeNode_String p @ ''}}''"
| "tnode_String q (ListNode ns) = list_String q ns"
| "tnode_String q (BranchNode b line p ns None) =
     ''{{'' @ branch_name b @ '' '' @ PipeNode_String p @ ''}}'' @ list_String q ns @ ''{{end}}''"
| "tnode_String q (BranchNode b line p ns (Some es)) =
     ''{{'' @ branch_name b @ '' '' @ PipeNode_String p @ ''}}'' @ list_String q ns @ ''{{else}}'' @
     list_String q es @ ''{{end}}''"
| "tnode_String q (TemplateNode line name p) = named_action q ''template'' name p"
| "tnode_String q (BlockNode line name p ns) = named_action q ''block'' name p @ list_String q ns @ ''{{end}}''"
| "tnode_String q (FillNode line name p ns) = named_action q ''fill'' name p @ list_String q ns @ ''{{end}}''"
| "tnode_String q endNode = ''{{end}}''"
| "tnode_String q (elseNode line) = ''{{else}}''"
| "list_String q [] = []"
| "list_String q (n # ns) = tnode_String q n @ list_String q ns"

definition DefineNode_String :: "(string \<Rightarrow> string) \<Rightarrow> DefineNode \<Rightarrow> string" where
  "DefineNode_String q d = ''{{define '' @ q (def_Name d) @ ''}}'' @ list_String q (def_List d) @ ''{{end}}''"

section \<open>Copies\<close>

fun CopyArg :: "arg_node \<Rightarrow> arg_node" where
  "CopyArg (IdentifierNode i) = IdentifierNode i"
| "CopyArg (VariableNode i) = VariableNode ([] @ i)"
| "CopyArg DotNode = DotNode"
| "CopyArg NilNode = NilNode"
| "CopyArg (FieldNode i) = FieldNode ([] @ i)"
| "CopyArg (BoolNode b) = BoolNode b"
| "CopyArg (NumberArg n) = NumberArg n"
| "CopyArg (StringNode quoted t) = StringNode quoted t"

definition CopyPipe :: "PipeNode \<Rightarrow> PipeNode" where
  "CopyPipe p = fold (\<lambda>c n. PipeNode_append n (map CopyArg c)) (pipe_Cmds p)
     (newPipeline (pipe_Line p) (map (\<lambda>d. [] @ d) (pipe_Decl p)))"

fun CopyNode :: "node \<Rightarrow> node" and CopyList :: "node list \<Rightarrow> node list" where
  "CopyNode (TextNode t) = TextNode ([] @ t)"
| "CopyNode (ActionNode line p) = ActionNode line (CopyPipe p)"
| "CopyNode (ListNode ns) = ListNode (CopyList ns)"
| "CopyNode (BranchNode b line p ns None) = BranchNode b line (CopyPipe p) (CopyList ns) None"
| "CopyNode (BranchNode b line p ns (Some es)) = BranchNode b line (CopyPipe p) (CopyList ns) (Some (CopyList es))"
| "CopyNode (TemplateNode line name p) = TemplateNode line name (map_option CopyPipe p)"
| "CopyNode (BlockNode line name p ns) = BlockNode line name (map_option CopyPipe p) (CopyList ns)"
| "CopyNode (FillNode line name p ns) = FillNode line name (map_option CopyPipe p) (CopyList ns)"
| "CopyNode endNode = endNode"
| "CopyNode (elseNode line) = elseNode line"
| "CopyList [] = []"
| "CopyList (n # ns) = CopyNode n # CopyList ns"

definition CopyDefine :: "DefineNode \<Rightarrow> DefineNode" where
  "CopyDefine d = \<lparr>def_Line = def_Line d, def_Name = def_Name d, def_List = CopyList (def_List d)\<rparr>"

section \<open>Fill nodes\<close>

text \<open>\<open>validate\<close> and \<open>isValid\<close>: what a fill may hold. The else list of a branch is nil when there is none,
  and ranging over the nodes of a nil list is a nil dereference. The error is a panic of the package's
  own, which the parser recovers.\<close>

datatype fill_error = InvalidAction node | FillPanic go_panic

fun validate :: "node list \<Rightarrow> fill_error + unit" and isValid :: "node \<Rightarrow> fill_error + bool" where
  "validate [] = Inr ()"
| "validate (n # ns) = bindE (isValid n) (\<lambda>ok. if ok then validate ns else Inl (InvalidAction n))"
| "isValid (BlockNode line name p ns) = Inr True"
| "isValid (ListNode ns) = bindE (validate ns) (\<lambda>_. Inr True)"
| "isValid (BranchNode b line p ns None) = bindE (validate ns) (\<lambda>_. Inl (FillPanic NilDereference))"
| "isValid (BranchNode b line p ns (Some es)) =
     bindE (validate ns) (\<lambda>_. bindE (validate es) (\<lambda>_. Inr True))"
| "isValid (TextNode t) = Inr (trim_space t = [])"
| "isValid (ActionNode line p) = Inr False"
| "isValid (TemplateNode line name p) = Inr False"
| "isValid (FillNode line name p ns) = Inr False"
| "isValid endNode = Inr False"
| "isValid (elseNode line) = Inr False"

section \<open>Trees\<close>

definition Tree_Add :: "Tree \<Rightarrow> DefineNode \<Rightarrow> go_error + Tree" where
  "Tree_Add t d =
     (if t (def_Name d) \<noteq> None then Inl (''template: duplicated template name %q'', [def_Name d])
      else Inr (t(def_Name d \<mapsto> d)))"

text \<open>\<open>AddTree\<close> ranges over the other tree in the order \<open>ds\<close> its map gives, and stops at the first
  duplicate, after the nodes before it have been added.\<close>

fun AddTree :: "Tree \<Rightarrow> DefineNode list \<Rightarrow> Tree \<times> go_error option" where
  "AddTree t [] = (t, None)"
| "AddTree t (d # ds) = (case Tree_Add t d of Inl e \<Rightarrow> (t, Some e) | Inr t' \<Rightarrow> AddTree t' ds)"

definition CopyTree :: "Tree \<Rightarrow> Tree" where
  "CopyTree t = (\<lambda>k. map_option CopyDefine (t k))"

definition Tree_String :: "(string \<Rightarrow> string) \<Rightarrow> DefineNode list \<Rightarrow> string" where
  "Tree_String q ds = concat (map (DefineNode_String q) ds)"

section \<open>Facts\<close>

lemma CopyArg_eq [simp]: "CopyArg a = a"
  by (cases a) simp_all

lemma CopyPipe_eq [simp]: "CopyPipe p = p"
proof -
  have "fold (\<lambda>c n. PipeNode_append n (map CopyArg c)) cs n = n\<lparr>pipe_Cmds := pipe_Cmds n @ cs\<rparr>" for cs n
    by (induction cs arbitrary: n) (simp_all add: PipeNode_append_def map_idI)
  then show ?thesis by (simp add: CopyPipe_def newPipeline_def)
qed

lemma CopyNode_eq: "CopyNode n = n" and CopyList_eq: "CopyList ns = ns"
  by (induction n and ns rule: CopyNode_CopyList.induct) (simp_all add: option.map_ident_strong)

end
