(* ===== verification/Escape_Pipeline.thy ===== *)
theory Escape_Pipeline
  imports Escape_Text Template_Node
begin

text \<open>
  The insertion of sanitizers into a pipeline (\<open>ensurePipelineContains\<close> of \<open>template/escape/escape.go\<close> and
  the functions it calls). A pipeline is its list of commands, each the list of its arguments.
\<close>

section \<open>Functions\<close>

definition equivEscapers :: "(string \<times> string) list" where
  "equivEscapers =
     [(''html_template_attrescaper'', ''html''), (''html_template_htmlescaper'', ''html''),
      (''html_template_nospaceescaper'', ''html''), (''html_template_rcdataescaper'', ''html''),
      (''html_template_urlescaper'', ''urlquery''), (''html_template_urlnormalizer'', ''urlquery'')]"

definition equiv_name :: "string \<Rightarrow> string" where
  "equiv_name a = (case map_of equivEscapers a of Some e \<Rightarrow> e | None \<Rightarrow> a)"

definition escFnsEq :: "string \<Rightarrow> string \<Rightarrow> bool" where
  "escFnsEq a b \<longleftrightarrow> equiv_name a = equiv_name b"

definition redundantFuncs :: "(string \<times> string list) list" where
  "redundantFuncs =
     [(''html_template_commentescaper'',
        [''html_template_attrescaper'', ''html_template_nospaceescaper'', ''html_template_htmlescaper'']),
      (''html_template_cssescaper'', [''html_template_attrescaper'']),
      (''html_template_jsregexpescaper'', [''html_template_attrescaper'']),
      (''html_template_jsstrescaper'', [''html_template_attrescaper'']),
      (''html_template_urlescaper'', [''html_template_urlnormalizer''])]"

definition redundant :: "string \<Rightarrow> string \<Rightarrow> bool" where
  "redundant a b \<longleftrightarrow> (case map_of redundantFuncs a of Some bs \<Rightarrow> b \<in> set bs | None \<Rightarrow> False)"

definition newIdentCmd :: "string \<Rightarrow> CommandNode" where
  "newIdentCmd identifier = [IdentifierNode identifier]"

text \<open>\<open>cmd.Args[0].(*parse.IdentifierNode)\<close>, with and without the second result.\<close>

definition ident_of :: "CommandNode \<Rightarrow> string option go" where
  "ident_of cmd = (case cmd of
     [] \<Rightarrow> Inl IndexOutOfRange
   | IdentifierNode i # _ \<Rightarrow> Inr (Some i)
   | _ \<Rightarrow> Inr None)"

definition must_ident :: "CommandNode \<Rightarrow> string go" where
  "must_ident cmd = bindE (ident_of cmd) (\<lambda>i. case i of Some n \<Rightarrow> Inr n | None \<Rightarrow> Inl BadAssertion)"

text \<open>When the last command is an identifier and the next is not, the name of the nil node is read.\<close>

definition appendCmd :: "CommandNode list \<Rightarrow> CommandNode \<Rightarrow> CommandNode list go" where
  "appendCmd cmds cmd =
     (if cmds = [] then Inr [cmd]
      else bindE (ident_of (last cmds)) (\<lambda>prev. bindE (ident_of cmd) (\<lambda>nxt.
        case prev of
          None \<Rightarrow> Inr (cmds @ [cmd])
        | Some a \<Rightarrow>
            (case nxt of
               None \<Rightarrow> Inl NilDereference
             | Some b \<Rightarrow> Inr (if redundant a b then cmds else cmds @ [cmd])))))"

fun appendNames :: "CommandNode list \<Rightarrow> string list \<Rightarrow> CommandNode list go" where
  "appendNames cmds [] = Inr cmds"
| "appendNames cmds (n # ns) = bindE (appendCmd cmds (newIdentCmd n)) (\<lambda>cmds. appendNames cmds ns)"

definition indexOfStr :: "string \<Rightarrow> string list \<Rightarrow> (string \<Rightarrow> string \<Rightarrow> bool) \<Rightarrow> nat option" where
  "indexOfStr s strs eq = index_where (\<lambda>t. eq s t) strs"

section \<open>Pipelines\<close>

text \<open>The loop from the last command to the first: where the identifiers start, or \<open>None\<close> when a command is
  \<open>noescape\<close>. The loop does not stop at a command that is no identifier.\<close>

fun find_idents :: "CommandNode list \<Rightarrow> nat \<Rightarrow> nat \<Rightarrow> nat option" where
  "find_idents cmds 0 k = Some k"
| "find_idents cmds (Suc i) k =
     (case cmds ! i of
        IdentifierNode n # _ \<Rightarrow> if n = ''noescape'' then None else find_idents cmds i k
      | _ \<Rightarrow> find_idents cmds i (i + 1))"

text \<open>Whether the identifiers have all of the sanitizers, in order.\<close>

fun has_all :: "string list \<Rightarrow> CommandNode list \<Rightarrow> bool go" where
  "has_all s [] = Inr False"
| "has_all s (cmd # cmds) =
     bindE (must_ident cmd) (\<lambda>n.
       if escFnsEq (hd s) n then (if tl s = [] then Inr True else has_all (tl s) cmds)
       else has_all s cmds)"

fun merge_idents :: "CommandNode list \<Rightarrow> string list \<Rightarrow> CommandNode list \<Rightarrow> (CommandNode list \<times> string list) go" where
  "merge_idents newCmds s [] = Inr (newCmds, s)"
| "merge_idents newCmds s (cmd # cmds) =
     bindE (must_ident cmd) (\<lambda>n.
     bindE (case indexOfStr n s escFnsEq of
              None \<Rightarrow> Inr (newCmds, s)
            | Some i \<Rightarrow> bindE (appendNames newCmds (take i s)) (\<lambda>newCmds. Inr (newCmds, drop (i + 1) s))) (\<lambda>(newCmds, s).
     bindE (appendCmd newCmds cmd) (\<lambda>newCmds.
       merge_idents newCmds s cmds)))"

definition ensurePipelineContains :: "CommandNode list \<Rightarrow> string list \<Rightarrow> CommandNode list go" where
  "ensurePipelineContains cmds s =
     (if s = [] then Inr cmds
      else case find_idents cmds (length cmds) 0 of
        None \<Rightarrow> Inr cmds
      | Some k \<Rightarrow>
          let idents = drop k cmds in
          bindE (has_all s idents) (\<lambda>all.
            if all then Inr cmds
            else bindE (merge_idents (take k cmds) s idents) (\<lambda>(newCmds, s). appendNames newCmds s)))"

section \<open>Pipelines of functions\<close>

text \<open>A command that is a call of the function \<open>n\<close>.\<close>

definition calls :: "CommandNode \<Rightarrow> string \<Rightarrow> bool" where
  "calls cmd n \<longleftrightarrow> (\<exists>args. cmd = IdentifierNode n # args)"

text \<open>The functions \<open>out\<close>, in order, apply the sanitizers \<open>s\<close>, in order: each is there as an equivalent
  function or is redundant after the function before it.\<close>

inductive applied :: "string list \<Rightarrow> string list \<Rightarrow> bool" where
  applied_none: "applied [] []"
| applied_other: "applied out s \<Longrightarrow> applied (out @ [n]) s"
| applied_equiv: "applied out s \<Longrightarrow> escFnsEq x n \<Longrightarrow> applied (out @ [n]) (s @ [x])"
| applied_redundant: "applied (out @ [a]) s \<Longrightarrow> redundant a x \<Longrightarrow> applied (out @ [a]) (s @ [x])"

definition add_name :: "string list \<Rightarrow> string \<Rightarrow> string list" where
  "add_name ons n = (if ons \<noteq> [] \<and> redundant (last ons) n then ons else ons @ [n])"

definition user_function :: "string \<Rightarrow> bool" where
  "user_function n \<longleftrightarrow> \<not> prefix ''html_template_'' n \<and> n \<noteq> ''noescape''"

text \<open>What may stand before the functions: nothing, or one command that is no call of a function.\<close>

definition plain_start :: "CommandNode list \<Rightarrow> bool" where
  "plain_start cmds \<longleftrightarrow> cmds = [] \<or> (\<exists>x. cmds = [x] \<and> ident_of x = Inr None)"

lemma calls_ident [simp]: "calls cmd n \<Longrightarrow> ident_of cmd = Inr (Some n)" "calls cmd n \<Longrightarrow> must_ident cmd = Inr n"
  by (auto simp: calls_def ident_of_def must_ident_def)

lemma calls_new [simp]: "calls (newIdentCmd n) n"
  by (simp add: calls_def newIdentCmd_def)

lemma user_not_redundant: "user_function n \<Longrightarrow> \<not> redundant a n"
proof
  assume u: "user_function n" and "redundant a n"
  then obtain bs where "map_of redundantFuncs a = Some bs" "n \<in> set bs" by (auto simp: redundant_def split: option.splits)
  then have bs: "(a, bs) \<in> set redundantFuncs" "n \<in> set bs" by (simp_all add: map_of_SomeD)
  have "snd (a, bs) \<in> set (map snd redundantFuncs)" unfolding set_map by (rule imageI [OF bs(1)])
  then have "n \<in> set (concat (map snd redundantFuncs))" unfolding set_concat by (rule UN_I) (simp add: bs(2))
  moreover have "list_all (prefix ''html_template_'') (concat (map snd redundantFuncs))" by code_simp
  ultimately show False using u by (auto simp: user_function_def list_all_iff)
qed

lemma appendCmd_names:
  assumes "plain_start pre" "list_all2 calls out ons" "calls cmd n"
  obtains out' where "appendCmd (pre @ out) cmd = Inr (pre @ out')" "list_all2 calls out' (add_name ons n)"
proof (cases "out = []")
  case True
  then have "appendCmd (pre @ out) cmd = Inr (pre @ [cmd])" "ons = []"
    using assms by (auto simp: appendCmd_def plain_start_def)
  then show thesis using that [of "[cmd]"] assms(3) by (simp add: add_name_def)
next
  case False
  then have "ons \<noteq> []" using assms(2) by auto
  then have "calls (last out) (last ons)" using assms(2) False by (simp add: list_all2_conv_all_nth last_conv_nth)
  then have "appendCmd (pre @ out) cmd = Inr (pre @ (if redundant (last ons) n then out else out @ [cmd]))"
    using False assms(3) by (simp add: appendCmd_def)
  then show thesis
    using that [of "if redundant (last ons) n then out else out @ [cmd]"] assms(2,3) \<open>ons \<noteq> []\<close>
    by (simp add: add_name_def list_all2_appendI)
qed

lemma add_name_applied:
  assumes "applied ons s"
  shows "applied (add_name ons x) (s @ [x])"
proof (cases "ons \<noteq> [] \<and> redundant (last ons) x")
  case True
  then obtain out a where "ons = out @ [a]" "redundant a x" by (metis append_butlast_last_id)
  then show ?thesis using assms True by (simp add: add_name_def applied_redundant)
next
  case False
  then have "add_name ons x = ons @ [x]" by (auto simp: add_name_def)
  then show ?thesis using assms by (simp add: applied_equiv escFnsEq_def)
qed

lemma add_name_subseq: "subseq us ons \<Longrightarrow> subseq us (add_name ons x)"
  by (auto simp: add_name_def intro: subseq_order.order_trans)

lemma appendNames_names:
  "plain_start pre \<Longrightarrow> list_all2 calls out ons \<Longrightarrow> applied ons s \<Longrightarrow> subseq us ons \<Longrightarrow>
     \<exists>out' ons'. appendNames (pre @ out) xs = Inr (pre @ out') \<and> list_all2 calls out' ons' \<and> applied ons' (s @ xs) \<and>
       subseq us ons'"
proof (induction xs arbitrary: out ons s)
  case (Cons x xs)
  obtain out1 where o: "appendCmd (pre @ out) (newIdentCmd x) = Inr (pre @ out1)" "list_all2 calls out1 (add_name ons x)"
    using appendCmd_names [OF Cons.prems(1,2) calls_new] by blast
  from Cons.IH [OF Cons.prems(1) o(2) add_name_applied [OF Cons.prems(3)] add_name_subseq [OF Cons.prems(4)]]
  show ?case using o(1) by auto
qed auto

lemma merge_names:
  "plain_start pre \<Longrightarrow> list_all2 calls out ons \<Longrightarrow> applied ons s0 \<Longrightarrow> list_all2 calls cmds names \<Longrightarrow>
     list_all user_function names \<Longrightarrow> subseq us ons \<Longrightarrow>
     \<exists>out' ons' s1 s2. merge_idents (pre @ out) s cmds = Inr (pre @ out', s2) \<and> s = s1 @ s2 \<and> list_all2 calls out' ons' \<and>
       applied ons' (s0 @ s1) \<and> subseq (us @ names) ons'"
proof (induction cmds arbitrary: out ons s0 s names us)
  case Nil
  then show ?case by fastforce
next
  case (Cons cmd cmds)
  then obtain n names' where n: "names = n # names'" "calls cmd n" "list_all2 calls cmds names'" "user_function n"
    "list_all user_function names'" by (auto simp: list_all2_Cons1)
  have snoc: "add_name ons' n = ons' @ [n]" for ons' using user_not_redundant [OF n(4)] by (simp add: add_name_def)
  show ?case
  proof (cases "indexOfStr n s escFnsEq")
    case None
    obtain out1 where o: "appendCmd (pre @ out) cmd = Inr (pre @ out1)" "list_all2 calls out1 (ons @ [n])"
      using appendCmd_names [OF Cons.prems(1,2) n(2)] snoc by metis
    have "subseq (us @ [n]) (ons @ [n])" using Cons.prems(6) by (simp add: list_emb_append_mono)
    from Cons.IH [OF Cons.prems(1) o(2) applied_other [OF Cons.prems(3)] n(3,5) this, of s]
    show ?thesis using None o(1) n(1,2) by auto
  next
    case (Some i)
    then have i: "i < length s" "escFnsEq n (s ! i)"
      using index_where_Some [of "escFnsEq n" s i] by (auto simp: indexOfStr_def)
    obtain out1 ons1 where a: "appendNames (pre @ out) (take i s) = Inr (pre @ out1)" "list_all2 calls out1 ons1"
      "applied ons1 (s0 @ take i s)" "subseq us ons1"
      using appendNames_names [OF Cons.prems(1,2,3,6)] by blast
    obtain out2 where o: "appendCmd (pre @ out1) cmd = Inr (pre @ out2)" "list_all2 calls out2 (ons1 @ [n])"
      using appendCmd_names [OF Cons.prems(1) a(2) n(2)] snoc by metis
    have "applied (ons1 @ [n]) ((s0 @ take i s) @ [s ! i])"
      using a(3) i(2) by (intro applied_equiv) (auto simp: escFnsEq_def)
    then have ap: "applied (ons1 @ [n]) (s0 @ take (i + 1) s)" using i(1) by (simp add: take_Suc_conv_app_nth)
    have "subseq (us @ [n]) (ons1 @ [n])" using a(4) by (simp add: list_emb_append_mono)
    from Cons.IH [OF Cons.prems(1) o(2) ap n(3,5) this, of "drop (i + 1) s"] obtain out' ons' s1 s2 where
      r: "merge_idents (pre @ out2) (drop (i + 1) s) cmds = Inr (pre @ out', s2)" "drop (i + 1) s = s1 @ s2"
      "list_all2 calls out' ons'" "applied ons' ((s0 @ take (i + 1) s) @ s1)" "subseq ((us @ [n]) @ names') ons'" by blast
    have "s = (take (i + 1) s @ s1) @ s2" using r(2) by (metis append_assoc append_take_drop_id)
    moreover have "merge_idents (pre @ out) s (cmd # cmds) = Inr (pre @ out', s2)"
      using Some a(1) o(1) r(1) n(2) by simp
    ultimately show ?thesis
      using r(3-5) n(1) by (intro exI [of _ out'] exI [of _ ons'] exI [of _ "take (i + 1) s @ s1"] exI [of _ s2]) simp
  qed
qed

lemma has_all_names:
  "list_all2 calls cmds names \<Longrightarrow> applied ons s0 \<Longrightarrow> s \<noteq> [] \<Longrightarrow>
     \<exists>b. has_all s cmds = Inr b \<and> (b \<longrightarrow> applied (ons @ names) (s0 @ s))"
proof (induction cmds arbitrary: names ons s0 s)
  case (Cons cmd cmds)
  then obtain n names' where n: "names = n # names'" "calls cmd n" "list_all2 calls cmds names'"
    by (auto simp: list_all2_Cons1)
  obtain x s' where s: "s = x # s'" using Cons.prems(3) by (cases s) auto
  have more: "applied o1 s1 \<Longrightarrow> applied (o1 @ ns) s1" for o1 s1 ns
    by (induction ns rule: rev_induct) (auto simp flip: append_assoc intro: applied_other)
  show ?case
  proof (cases "escFnsEq x n")
    case True
    from applied_equiv [OF Cons.prems(2) True] have ap: "applied (ons @ [n]) (s0 @ [x])" .
    show ?thesis
    proof (cases "s' = []")
      case True
      then show ?thesis using \<open>escFnsEq x n\<close> more [OF ap, of names'] n s by auto
    next
      case False
      from Cons.IH [OF n(3) ap this] show ?thesis using True n s False by simp
    qed
  next
    case False
    from Cons.IH [OF n(3) applied_other [OF Cons.prems(2)] Cons.prems(3), of n] show ?thesis using False n s by simp
  qed
qed auto

lemma find_idents_names:
  assumes "plain_start pre" "list_all2 calls cmds names" "list_all user_function names"
  shows "find_idents (pre @ cmds) (length (pre @ cmds)) 0 = Some (length pre)"
proof -
  have skip: "find_idents (pre @ cmds) (length pre + j) 0 = find_idents (pre @ cmds) (length pre) 0" if "j \<le> length cmds" for j
    using that
  proof (induction j)
    case (Suc j)
    obtain args where "cmds ! j = IdentifierNode (names ! j) # args" "user_function (names ! j)"
      using assms(2,3) Suc_le_lessD [OF Suc.prems] by (auto simp: list_all2_conv_all_nth list_all_length calls_def)
    then show ?case using Suc by (simp add: nth_append user_function_def)
  qed simp
  have "find_idents (pre @ cmds) (length pre) 0 = Some (length pre)"
  proof (cases "pre = []")
    case False
    then obtain x where x: "pre = [x]" "ident_of x = Inr None" using assms(1) by (auto simp: plain_start_def)
    then obtain y ys where "x = y # ys" by (cases x) (auto simp: ident_of_def)
    then show ?thesis using x by (cases y) (simp_all add: ident_of_def)
  qed simp
  then show ?thesis using skip [OF order_refl] by simp
qed



text \<open>A pipeline whose second command is no function call, such as a method that takes the value of the
  pipeline, cannot be escaped: the search for the identifiers at its end runs on past that command, and the
  type assertion on it panics.\<close>

theorem method_pipeline_panics:
  assumes "ident_of x = Inr None" "ident_of y = Inr None" "s \<noteq> []"
  shows "ensurePipelineContains [x, y] s = Inl BadAssertion"
proof -
  obtain a as b bs where xy: "x = a # as" "y = b # bs" using assms(1,2) by (cases x; cases y) (auto simp: ident_of_def)
  have "find_idents [x, y] 2 0 = Some 1"
    using assms(1,2) unfolding xy by (cases a; cases b) (simp_all add: ident_of_def numeral_2_eq_2)
  moreover have "has_all s [y] = Inl BadAssertion" using assms(2) by (simp add: must_ident_def)
  ultimately show ?thesis using assms(3) by (simp add: ensurePipelineContains_def numeral_2_eq_2 del: find_idents.simps)
qed

theorem method_pipeline_panics_witness:
  "ensurePipelineContains [[FieldNode [''A'']], [FieldNode [''B'']]] [''html_template_htmlescaper''] = Inl BadAssertion"
  by (rule method_pipeline_panics) (simp_all add: ident_of_def)

end
