(* ===== verification/Escape_Tree.thy ===== *)
theory Escape_Tree
  imports Escape_Pipeline "HOL-Library.AList"
begin

text \<open>
  The escaper of template trees (\<open>template/escape/escape.go\<close>). A node of a tree is a pointer in the code,
  which keys the maps of edits; here it is the name of its template with the path to the node. Maps that
  are ranged over are association lists without duplicates. Templates
  call each other, so the escaping of a template takes fuel, which bounds the depth of calls; \<open>None\<close> is
  the end of the fuel. \<open>html.UnescapeString\<close>, the case mappings of Unicode and the verb \<open>%q\<close> are collected
  in \<open>esc_env\<close>.
\<close>

section \<open>State\<close>

type_synonym addr = "string \<times> nat list"

record escaper =
  esc_tmpl :: Tree
  esc_output :: "string \<rightharpoonup> Context"
  esc_derived :: "(string \<times> DefineNode) list"
  esc_called :: "string set"
  esc_actionEdits :: "(addr \<times> string list) list"
  esc_templateEdits :: "(addr \<times> string) list"
  esc_textEdits :: "(addr \<times> string) list"

record esc_env =
  ee_lower :: "rune \<Rightarrow> rune"
  ee_upper :: "rune \<Rightarrow> rune"
  ee_unescape :: "string \<Rightarrow> string"
  ee_quote :: "string \<Rightarrow> string"

definition newEscaper :: "Tree \<Rightarrow> escaper" where
  "newEscaper tree =
     \<lparr>esc_tmpl = tree, esc_output = Map.empty, esc_derived = [], esc_called = {},
      esc_actionEdits = [], esc_templateEdits = [], esc_textEdits = []\<rparr>"

type_synonym 'a esc = "('a \<times> escaper) go option"

definition ret :: "'a \<Rightarrow> escaper \<Rightarrow> 'a esc" where
  "ret x e = Some (Inr (x, e))"

definition bindX :: "'a esc \<Rightarrow> ('a \<Rightarrow> escaper \<Rightarrow> 'b esc) \<Rightarrow> 'b esc" where
  "bindX m f = (case m of None \<Rightarrow> None | Some (Inl p) \<Rightarrow> Some (Inl p) | Some (Inr (x, e)) \<Rightarrow> f x e)"

definition liftX :: "'a go option \<Rightarrow> escaper \<Rightarrow> 'a esc" where
  "liftX m e = (case m of None \<Rightarrow> None | Some (Inl p) \<Rightarrow> Some (Inl p) | Some (Inr x) \<Rightarrow> Some (Inr (x, e)))"

lemma bindX_simps [simp]: "bindX None f = None" "bindX (Some (Inl p)) f = Some (Inl p)" "bindX (Some (Inr (x, e))) f = f x e"
  "bindX (ret x e) f = f x e"
  by (simp_all add: bindX_def ret_def)

section \<open>Edits\<close>

definition shared :: go_panic where "shared = Explicit ''node %s shared between templates''"

definition editActionNode :: "addr \<Rightarrow> string list \<Rightarrow> escaper \<Rightarrow> unit esc" where
  "editActionNode n cmds e =
     (if map_of (esc_actionEdits e) n \<noteq> None then Some (Inl shared)
      else ret () (e\<lparr>esc_actionEdits := esc_actionEdits e @ [(n, cmds)]\<rparr>))"

definition editTemplateNode :: "addr \<Rightarrow> string \<Rightarrow> escaper \<Rightarrow> unit esc" where
  "editTemplateNode n callee e =
     (if map_of (esc_templateEdits e) n \<noteq> None then Some (Inl shared)
      else ret () (e\<lparr>esc_templateEdits := esc_templateEdits e @ [(n, callee)]\<rparr>))"

definition editTextNode :: "addr \<Rightarrow> string \<Rightarrow> escaper \<Rightarrow> unit esc" where
  "editTextNode n t e =
     (if map_of (esc_textEdits e) n \<noteq> None then Some (Inl shared)
      else ret () (e\<lparr>esc_textEdits := esc_textEdits e @ [(n, t)]\<rparr>))"

section \<open>Nodes\<close>

definition escapeActionNode :: "esc_env \<Rightarrow> Context \<Rightarrow> addr \<Rightarrow> int \<Rightarrow> PipeNode \<Rightarrow> escaper \<Rightarrow> Context esc" where
  "escapeActionNode env c n line p e =
     (case escapeAction c (pipe_Decl p \<noteq> []) line (tnode_String (ee_quote env) (ActionNode line p)) of
        Inl pn \<Rightarrow> Some (Inl pn)
      | Inr (c, None) \<Rightarrow> ret c e
      | Inr (c, Some s) \<Rightarrow> bindX (editActionNode n s e) (\<lambda>_ e. ret c e))"

definition escapeTextNode :: "esc_env \<Rightarrow> Context \<Rightarrow> addr \<Rightarrow> string \<Rightarrow> escaper \<Rightarrow> Context esc" where
  "escapeTextNode env c n t e =
     bindX (liftX (escapeText (ee_lower env) (ee_upper env) (ee_unescape env) c t) e) (\<lambda>(c, edited) e.
       case edited of None \<Rightarrow> ret c e | Some b \<Rightarrow> bindX (editTextNode n b e) (\<lambda>_ e. ret c e))"

text \<open>The escaping of a called template: the context and name of the call, and the line.\<close>

type_synonym escape_tree = "Context \<Rightarrow> string \<Rightarrow> int \<Rightarrow> escaper \<Rightarrow> (Context \<times> string) esc"

definition escapeTemplateNode :: "escape_tree \<Rightarrow> Context \<Rightarrow> addr \<Rightarrow> int \<Rightarrow> string \<Rightarrow> escaper \<Rightarrow> Context esc" where
  "escapeTemplateNode et c n line name e =
     bindX (et c name line e) (\<lambda>(c, dname) e.
       if dname \<noteq> name then bindX (editTemplateNode n dname e) (\<lambda>_ e. ret c e) else ret c e)"

text \<open>The escaper a list is tried with: only what is known of the output of templates is passed on.\<close>

definition trial :: "escaper \<Rightarrow> escaper" where
  "trial e = (newEscaper (esc_tmpl e))\<lparr>esc_output := esc_output e\<rparr>"

definition range_error :: "int \<Rightarrow> Context \<Rightarrow> Context" where
  "range_error line c = c\<lparr>ctx_err := map_option (\<lambda>er. er\<lparr>err_Line := line,
     err_Description := (''on range loop re-entry: '' @ fst (err_Description er), snd (err_Description er))\<rparr>) (ctx_err c)\<rparr>"

fun escape :: "esc_env \<Rightarrow> escape_tree \<Rightarrow> Context \<Rightarrow> addr \<Rightarrow> node \<Rightarrow> escaper \<Rightarrow> Context esc" and
    escapeList :: "esc_env \<Rightarrow> escape_tree \<Rightarrow> Context \<Rightarrow> string \<Rightarrow> nat list \<Rightarrow> nat \<Rightarrow> node list \<Rightarrow> escaper \<Rightarrow> Context esc" where
  "escape env et c a (ActionNode line p) e = escapeActionNode env c a line p e"
| "escape env et c a (BranchNode b line p ns es) e =
     bindX (escapeList env et c (fst a) (snd a @ [0]) 0 ns e) (\<lambda>c0 e.
     bindX (if b = NodeRange \<and> ctx_state c0 \<noteq> stateError
            then (case escapeList env et c0 (fst a) (snd a @ [0]) 0 ns (trial e) of
                    None \<Rightarrow> None
                  | Some (Inl p) \<Rightarrow> Some (Inl p)
                  | Some (Inr (c1, _)) \<Rightarrow> ret (True, join c0 c1 line (branch_name b)) e)
            else ret (False, c0) e) (\<lambda>(tried, c0) e.
       if tried \<and> ctx_state c0 = stateError then ret (range_error line c0) e
       else bindX (case es of None \<Rightarrow> ret c e | Some es \<Rightarrow> escapeList env et c (fst a) (snd a @ [1]) 0 es e) (\<lambda>c1 e.
         ret (join c0 c1 line (branch_name b)) e)))"
| "escape env et c a (ListNode ns) e = escapeList env et c (fst a) (snd a @ [0]) 0 ns e"
| "escape env et c a (TemplateNode line name p) e = escapeTemplateNode et c a line name e"
| "escape env et c a (TextNode t) e = escapeTextNode env c a t e"
| "escape env et c a (BlockNode line name p ns) e = escapeList env et c (fst a) (snd a @ [0]) 0 ns e"
| "escape env et c a (FillNode line name p ns) e = escapeList env et c (fst a) (snd a @ [0]) 0 ns e"
| "escape env et c a endNode e = Some (Inl (Explicit ''escaping {{end}} is unimplemented''))"
| "escape env et c a (elseNode line) e = Some (Inl (Explicit ''escaping {{else}} is unimplemented''))"
| "escapeList env et c tname path k [] e = ret c e"
| "escapeList env et c tname path k (n # ns) e =
     bindX (escape env et c (tname, path @ [k]) n e) (\<lambda>c e. escapeList env et c tname path (k + 1) ns e)"

section \<open>Templates\<close>

text \<open>\<open>escapeListConditionally\<close>: the edits and inferences of the trial are kept if the filter accepts them.
  Adding an edit of a node that has one is a panic.\<close>

fun each :: "('k \<Rightarrow> 'v \<Rightarrow> escaper \<Rightarrow> unit esc) \<Rightarrow> ('k \<times> 'v) list \<Rightarrow> escaper \<Rightarrow> unit esc" where
  "each f [] e = ret () e"
| "each f ((k, v) # kvs) e = bindX (f k v e) (\<lambda>_ e. each f kvs e)"

definition put_all :: "('k \<times> 'v) list \<Rightarrow> ('k \<times> 'v) list \<Rightarrow> ('k \<times> 'v) list" where
  "put_all new old = fold (\<lambda>(k, v) m. AList.update k v m) new old"

definition merge_trial :: "escaper \<Rightarrow> escaper \<Rightarrow> unit esc" where
  "merge_trial e e1 =
     bindX (each editActionNode (esc_actionEdits e1)
       (e\<lparr>esc_output := esc_output e ++ esc_output e1, esc_derived := put_all (esc_derived e1) (esc_derived e),
          esc_called := esc_called e \<union> esc_called e1\<rparr>)) (\<lambda>_ e.
     bindX (each editTemplateNode (esc_templateEdits e1) e) (\<lambda>_ e.
       each editTextNode (esc_textEdits e1) e))"

definition escapeListConditionally ::
  "esc_env \<Rightarrow> escape_tree \<Rightarrow> Context \<Rightarrow> string \<Rightarrow> node list \<Rightarrow> (escaper \<Rightarrow> Context \<Rightarrow> bool) \<Rightarrow> escaper \<Rightarrow>
   (Context \<times> bool) esc" where
  "escapeListConditionally env et c tname ns filt e =
     (case escapeList env et c tname [] 0 ns (trial e) of
        None \<Rightarrow> None
      | Some (Inl p) \<Rightarrow> Some (Inl p)
      | Some (Inr (c, e1)) \<Rightarrow>
          if filt e1 c then bindX (merge_trial e e1) (\<lambda>_ e. ret (c, True) e)
          else ret (c, False) e)"

definition body_filter :: "Context \<Rightarrow> string \<Rightarrow> escaper \<Rightarrow> Context \<Rightarrow> bool" where
  "body_filter c tname e1 c1 \<longleftrightarrow>
     ctx_state c1 \<noteq> stateError \<and> (tname \<notin> esc_called e1 \<or> context_eq c c1)"

definition escapeTemplateBody :: "esc_env \<Rightarrow> escape_tree \<Rightarrow> Context \<Rightarrow> DefineNode \<Rightarrow> escaper \<Rightarrow> (Context \<times> bool) esc" where
  "escapeTemplateBody env et c t e =
     escapeListConditionally env et c (def_Name t) (def_List t) (body_filter c (def_Name t))
       (e\<lparr>esc_output := (esc_output e)(def_Name t \<mapsto> c)\<rparr>)"

definition computeOutCtx :: "esc_env \<Rightarrow> escape_tree \<Rightarrow> Context \<Rightarrow> DefineNode \<Rightarrow> escaper \<Rightarrow> Context esc" where
  "computeOutCtx env et c t e =
     bindX (escapeTemplateBody env et c t e) (\<lambda>(c1, ok) e.
     bindX (if ok then ret (c1, True) e
            else bindX (escapeTemplateBody env et c1 t e) (\<lambda>(c2, ok2) e.
              ret (if ok2 then (c2, True) else (c1, False)) e)) (\<lambda>(c1, ok) e.
       if \<not> ok \<and> ctx_state c1 \<noteq> stateError
       then ret (error_context (errorf ErrOutputContext 0
              ''cannot compute output context for template %s'' [def_Name t])) e
       else ret c1 e))"

definition lookup_template :: "escaper \<Rightarrow> string \<Rightarrow> DefineNode option" where
  "lookup_template e name = (case esc_tmpl e name of Some t \<Rightarrow> Some t | None \<Rightarrow> map_of (esc_derived e) name)"

text \<open>The template to escape: the one that is called, or the one derived from it for the context.\<close>

definition derive :: "DefineNode \<Rightarrow> string \<Rightarrow> string \<Rightarrow> escaper \<Rightarrow> DefineNode esc" where
  "derive t name dname e =
     (if dname = name then ret t e
      else case lookup_template e dname of
        Some dt \<Rightarrow> ret dt e
      | None \<Rightarrow>
          let dt = (CopyDefine t)\<lparr>def_Name := dname\<rparr> in
          if map_of (esc_derived e) dname \<noteq> None
          then Some (Inl (Explicit ''template: duplicated template name %q''))
          else ret dt (e\<lparr>esc_derived := esc_derived e @ [(dname, dt)]\<rparr>))"

fun escapeTree :: "esc_env \<Rightarrow> nat \<Rightarrow> escape_tree" where
  "escapeTree env 0 c name line e = None"
| "escapeTree env (Suc f) c name line e =
     (let dname = mangle c name; e = e\<lparr>esc_called := insert dname (esc_called e)\<rparr> in
      case esc_output e dname of
        Some out \<Rightarrow> ret (out, dname) e
      | None \<Rightarrow>
          (case lookup_template e name of
             None \<Rightarrow> ret (error_context (errorf ErrNoSuchTemplate line ''no such template %q'' [name]), dname) e
           | Some t \<Rightarrow>
               bindX (derive t name dname e) (\<lambda>t e.
               bindX (computeOutCtx env (escapeTree env f) c t e) (\<lambda>c e. ret (c, dname) e))))"

section \<open>The commit\<close>

text \<open>The edits applied to the nodes of a template.\<close>

definition commit_pipe :: "(addr \<times> string list) list \<Rightarrow> addr \<Rightarrow> PipeNode \<Rightarrow> PipeNode go" where
  "commit_pipe edits a p = (case map_of edits a of
     None \<Rightarrow> Inr p
   | Some s \<Rightarrow> bindE (ensurePipelineContains (pipe_Cmds p) s) (\<lambda>cmds. Inr (p\<lparr>pipe_Cmds := cmds\<rparr>)))"

fun commit_node :: "escaper \<Rightarrow> addr \<Rightarrow> node \<Rightarrow> node go" and
    commit_list :: "escaper \<Rightarrow> string \<Rightarrow> nat list \<Rightarrow> nat \<Rightarrow> node list \<Rightarrow> node list go" where
  "commit_node e a (ActionNode line p) = bindE (commit_pipe (esc_actionEdits e) a p) (\<lambda>p. Inr (ActionNode line p))"
| "commit_node e a (BranchNode b line p ns es) =
     bindE (commit_list e (fst a) (snd a @ [0]) 0 ns) (\<lambda>ns.
     bindE (case es of None \<Rightarrow> Inr None
            | Some es \<Rightarrow> bindE (commit_list e (fst a) (snd a @ [1]) 0 es) (\<lambda>es. Inr (Some es))) (\<lambda>es.
       Inr (BranchNode b line p ns es)))"
| "commit_node e a (ListNode ns) = bindE (commit_list e (fst a) (snd a @ [0]) 0 ns) (\<lambda>ns. Inr (ListNode ns))"
| "commit_node e a (TemplateNode line name p) =
     Inr (TemplateNode line (case map_of (esc_templateEdits e) a of None \<Rightarrow> name | Some n \<Rightarrow> n) p)"
| "commit_node e a (TextNode t) = Inr (TextNode (case map_of (esc_textEdits e) a of None \<Rightarrow> t | Some b \<Rightarrow> b))"
| "commit_node e a (BlockNode line name p ns) =
     bindE (commit_list e (fst a) (snd a @ [0]) 0 ns) (\<lambda>ns. Inr (BlockNode line name p ns))"
| "commit_node e a (FillNode line name p ns) =
     bindE (commit_list e (fst a) (snd a @ [0]) 0 ns) (\<lambda>ns. Inr (FillNode line name p ns))"
| "commit_node e a endNode = Inr endNode"
| "commit_node e a (elseNode line) = Inr (elseNode line)"
| "commit_list e tname path k [] = Inr []"
| "commit_list e tname path k (n # ns) =
     bindE (commit_node e (tname, path @ [k]) n) (\<lambda>n. bindE (commit_list e tname path (k + 1) ns) (\<lambda>ns. Inr (n # ns)))"

fun commit_all :: "escaper \<Rightarrow> string list \<Rightarrow> Tree \<Rightarrow> Tree go" where
  "commit_all e [] tree = Inr tree"
| "commit_all e (name # names) tree = (case tree name of
     None \<Rightarrow> commit_all e names tree
   | Some t \<Rightarrow> bindE (commit_list e (def_Name t) [] 0 (def_List t)) (\<lambda>ns.
       commit_all e names (tree(name \<mapsto> t\<lparr>def_List := ns\<rparr>))))"

text \<open>\<open>commit\<close>, for a tree whose templates are \<open>names\<close>.\<close>

definition commit :: "escaper \<Rightarrow> string list \<Rightarrow> Tree go" where
  "commit e names =
     (case AddTree (esc_tmpl e) (map snd (esc_derived e)) of
        (tree, Some err) \<Rightarrow> Inl (Explicit ''error adding derived template'')
      | (tree, None) \<Rightarrow> commit_all e (names @ map fst (esc_derived e)) tree)"

text \<open>\<open>EscapeTree\<close>, for the templates in the order \<open>names\<close> in which the map is ranged over. An
  error leaves no tree.\<close>

fun escape_all :: "esc_env \<Rightarrow> nat \<Rightarrow> string list \<Rightarrow> escaper \<Rightarrow> (Error option) esc" where
  "escape_all env f [] e = ret None e"
| "escape_all env f (name # names) e =
     bindX (escapeTree env f context0 name 0 e) (\<lambda>(c, _) e.
       case ctx_err c of
         Some err \<Rightarrow> ret (Some (err\<lparr>err_Name := name\<rparr>)) e
       | None \<Rightarrow>
           if ctx_state c \<noteq> stateText
           then ret (Some \<lparr>err_Code = ErrEndContext, err_Name = name, err_Line = 0,
                  err_Description = (''ends in a non-text context: %v'', [context_String c])\<rparr>) e
           else escape_all env f names e)"

definition EscapeTree :: "esc_env \<Rightarrow> nat \<Rightarrow> string list \<Rightarrow> Tree \<Rightarrow> (Error + Tree) go option" where
  "EscapeTree env f names tree =
     (case escape_all env f names (newEscaper tree) of
        None \<Rightarrow> None
      | Some (Inl p) \<Rightarrow> Some (Inl p)
      | Some (Inr (Some err, e)) \<Rightarrow> Some (Inr (Inl err))
      | Some (Inr (None, e)) \<Rightarrow> Some (bindE (commit e names) (\<lambda>t. Inr (Inr t))))"

end
