(* ===== verification/Escape_Progress.thy ===== *)
theory Escape_Progress
  imports Escape_Transition Escape_Css_Correct
begin

text \<open>
  The contract of the transition functions: on text that is not empty, a transition returns, keeps
  the context well formed, consumes no more than the text, and makes progress, in that it consumes a
  byte or passes to a state of lower rank. The loops over template text rely on it.
\<close>

section \<open>Ranks\<close>

fun state_rank :: "state \<Rightarrow> nat" where
  "state_rank stateAttrName = 2"
| "state_rank stateAfterName = 1"
| "state_rank stateBeforeValue = 1"
| "state_rank stateRCDATA = 1"
| "state_rank stateJSLineCmt = 1"
| "state_rank stateCSSLineCmt = 1"
| "state_rank _ = 0"

text \<open>A step from \<open>c\<close> to \<open>c'\<close> that consumes \<open>n\<close> bytes of \<open>s\<close>.\<close>

definition good_step :: "Context \<Rightarrow> string \<Rightarrow> Context \<Rightarrow> nat \<Rightarrow> bool" where
  "good_step c s c' n \<longleftrightarrow> n \<le> length s \<and> context_ok c' \<and>
     (0 < n \<or> state_rank (ctx_state c') < state_rank (ctx_state c))"

locale transition =
  fixes step :: "Context \<Rightarrow> string \<Rightarrow> (Context \<times> nat) go" and pre :: "Context \<Rightarrow> bool"
  assumes good: "pre c \<Longrightarrow> context_ok c \<Longrightarrow> s \<noteq> [] \<Longrightarrow> \<exists>c' n. step c s = Inr (c', n) \<and> good_step c s c' n"
begin

lemma no_panic: "pre c \<Longrightarrow> context_ok c \<Longrightarrow> s \<noteq> [] \<Longrightarrow> \<exists>r. step c s = Inr r"
  using good by blast

lemma step_good: "pre c \<Longrightarrow> context_ok c \<Longrightarrow> s \<noteq> [] \<Longrightarrow> step c s = Inr (c', n) \<Longrightarrow> good_step c s c' n"
  using good by fastforce

end

lemma context_ok_simps [simp]:
  "context_ok context0" "context_ok (error_context err)"
  by (simp_all add: context_ok_def context0_def error_context_def)

lemma context_ok_update:
  "st \<noteq> stateError \<Longrightarrow> ctx_state c \<noteq> stateError \<Longrightarrow> context_ok c \<Longrightarrow> context_ok (c\<lparr>ctx_state := st\<rparr>)"
  "context_ok (c\<lparr>ctx_delim := d\<rparr>) = context_ok c" "context_ok (c\<lparr>ctx_urlPart := u\<rparr>) = context_ok c"
  "context_ok (c\<lparr>ctx_jsCtx := j\<rparr>) = context_ok c" "context_ok (c\<lparr>ctx_attr := a\<rparr>) = context_ok c"
  "context_ok (c\<lparr>ctx_element := e\<rparr>) = context_ok c"
  by (simp_all add: context_ok_def)

lemma context_ok_fresh: "st \<noteq> stateError \<Longrightarrow> context_ok (context0\<lparr>ctx_state := st\<rparr>)"
  by (simp add: context_ok_def context0_def)

lemmas context_ok_intros = context_ok_update context_ok_fresh

section \<open>HTML\<close>

lemma eatWhiteSpace_le: "i \<le> length s \<Longrightarrow> i \<le> eatWhiteSpace s i \<and> eatWhiteSpace s i \<le> length s"
  using length_takeWhile_le [of white_space "drop i s"] by (auto simp: eatWhiteSpace_def)

lemma eat_attr_loop_bound: "eat_attr_loop s j t = Inr k \<Longrightarrow> j \<le> k \<and> k \<le> j + length t"
  by (induction s j t rule: eat_attr_loop.induct) (auto split: if_splits)

lemma eatAttrName_bound: "eatAttrName s i = Inr j \<Longrightarrow> i \<le> length s \<Longrightarrow> i \<le> j \<and> j \<le> length s"
  using eat_attr_loop_bound [of s i "drop i s" j] by (auto simp: eatAttrName_def)

lemma tag_name_rest_le: "tag_name_rest s \<le> length s"
  by (induction s rule: tag_name_rest.induct) auto

lemma eatTagName_bound:
  "i \<le> length s \<Longrightarrow> i \<le> fst (eatTagName ul s i) \<and> fst (eatTagName ul s i) \<le> length s"
  using tag_name_rest_le [of "drop (i + 1) s"] by (auto simp: eatTagName_def Let_def)

lemma good_step_all: "s \<noteq> [] \<Longrightarrow> context_ok c' \<Longrightarrow> good_step c s c' (length s)"
  by (simp add: good_step_def)

lemma tText_loop_good:
  "k \<le> length s \<Longrightarrow> s \<noteq> [] \<Longrightarrow> context_ok c \<Longrightarrow> tText_loop ul c s k = (c', n) \<Longrightarrow> good_step c0 s c' n"
proof (induction "length s - k" arbitrary: k rule: less_induct)
  case less
  show ?case
  proof (cases "index_byte (drop k s) (CHR ''<'')")
    case None
    then have "tText_loop ul c s k = (c, length s)" by (subst tText_loop.simps) simp
    then show ?thesis using less.prems by (auto simp: good_step_all)
  next
    case (Some d)
    have i: "k + d < length s" using conjunct1 [OF index_where_Some [OF Some]] by simp
    let ?isEnd = "s ! (k + d + 1) = CHR ''/''"
    let ?i = "if ?isEnd then k + d + 2 else k + d + 1"
    let ?t = "eatTagName ul s ?i"
    have eq: "tText_loop ul c s k =
      (if k + d + 1 = length s then (c, length s)
       else if k + d + 4 \<le> length s \<and> take 4 (drop (k + d) s) = ''<!--''
       then (context0\<lparr>ctx_state := stateHTMLCmt\<rparr>, k + d + 4)
       else if ?isEnd \<and> k + d + 2 = length s then (c, length s)
       else if fst ?t \<noteq> ?i
       then (context0\<lparr>ctx_state := stateTag, ctx_element := if ?isEnd then elementNone else snd ?t\<rparr>, fst ?t)
       else tText_loop ul c s ?i)"
      by (subst tText_loop.simps) (simp add: Some Let_def case_prod_beta)
    have stop: "good_step c0 s c (length s)" using less.prems by (simp add: good_step_all)
    show ?thesis
    proof (cases "k + d + 1 = length s \<or> ?isEnd \<and> k + d + 2 = length s")
      case True
      then show ?thesis
        using less.prems(4) stop i unfolding eq by (auto simp: good_step_def context_ok_fresh split: if_splits)
    next
      case False
      then have ile: "?i \<le> length s" using i by auto
      have "good_step c0 s c' n" if "tText_loop ul c s ?i = (c', n)"
        using less.hyps [of ?i] less.prems that ile i by (auto split: if_splits)
      moreover have "0 < ?i" by simp
      ultimately show ?thesis
        using less.prems(4) stop False i eatTagName_bound [OF ile, of ul] unfolding eq
        by (auto simp: good_step_def context_ok_intros split: if_splits)
    qed
  qed
qed

interpretation tText: transition "\<lambda>c s. Inr (tText ul c s)" "\<lambda>c. ctx_state c = stateText" for ul
proof
  fix c :: Context and s :: string
  assume "context_ok c" "s \<noteq> []"
  then show "\<exists>c' n. Inr (tText ul c s) = Inr (c', n) \<and> good_step c s c' n"
    using tText_loop_good [of 0 s c ul] by (cases "tText ul c s") (simp add: tText_def)
qed

interpretation tTag: transition "\<lambda>c s. Inr (tTag ul c s)" "\<lambda>c. ctx_state c = stateTag" for ul
proof
  fix c :: Context and s :: string
  assume "context_ok c" "s \<noteq> []"
  then show "\<exists>c' n. Inr (tTag ul c s) = Inr (c', n) \<and> good_step c s c' n"
    using eatWhiteSpace_le [of 0 s] eatAttrName_bound [of s "eatWhiteSpace s 0"]
    by (cases "ctx_element c")
      (auto simp: tTag_def Let_def good_step_def context_ok_intros split: sum.split)
qed

interpretation tAttrName: transition "\<lambda>c s. Inr (tAttrName c s)" "\<lambda>c. ctx_state c = stateAttrName"
  using eatAttrName_bound [of _ 0]
  by unfold_locales (auto simp: tAttrName_def good_step_def context_ok_intros split: sum.split)

interpretation tAfterName: transition "\<lambda>c s. Inr (tAfterName c s)" "\<lambda>c. ctx_state c = stateAfterName"
proof
  fix c :: Context and s :: string
  assume "ctx_state c = stateAfterName" "context_ok c" "s \<noteq> []"
  then show "\<exists>c' n. Inr (tAfterName c s) = Inr (c', n) \<and> good_step c s c' n"
    using eatWhiteSpace_le [of 0 s] by (auto simp: tAfterName_def Let_def good_step_def context_ok_intros)
qed

interpretation tBeforeValue: transition "\<lambda>c s. Inr (tBeforeValue c s)" "\<lambda>c. ctx_state c = stateBeforeValue"
proof
  fix c :: Context and s :: string
  assume "ctx_state c = stateBeforeValue" "context_ok c" "s \<noteq> []"
  then show "\<exists>c' n. Inr (tBeforeValue c s) = Inr (c', n) \<and> good_step c s c' n"
    using eatWhiteSpace_le [of 0 s]
    by (cases "ctx_attr c") (auto simp: tBeforeValue_def Let_def good_step_def context_ok_intros)
qed

interpretation tHTMLCmt: transition "\<lambda>c s. Inr (tHTMLCmt c s)" "\<lambda>c. ctx_state c = stateHTMLCmt"
  using index_sub_Some [of "''-->''"]
  by unfold_locales (fastforce simp: tHTMLCmt_def good_step_def split: option.split)

interpretation tURL: transition "\<lambda>c s. Inr (tURL c s)" "\<lambda>c. True"
  by unfold_locales (auto simp: tURL_def good_step_def context_ok_intros)

interpretation tAttr: transition "\<lambda>c s. Inr (tAttr c s)" "\<lambda>c. True"
  by unfold_locales (auto simp: tAttr_def good_step_def)

interpretation tError: transition "\<lambda>c s. Inr (tError c s)" "\<lambda>c. True"
  by unfold_locales (auto simp: tError_def good_step_def)

section \<open>Searching for ASCII characters\<close>

text \<open>For a set of ASCII characters, \<open>IndexAny\<close> finds the first byte that is one of them.\<close>

lemma find_range_runes_ascii:
  assumes "\<forall>c \<in> set chars. byte_val c < 0x80"
  shows "map_option fst (find (\<lambda>(i, r). contains_rune chars r) (range_runes k s)) =
    map_option ((+) k) (index_where (\<lambda>c. c \<in> set chars) s)"
proof (induction k s rule: range_runes.induct)
  case (1 k s)
  show ?case
  proof (cases s)
    case (Cons a t)
    show ?thesis
    proof (cases "byte_val a < 0x80")
      case True
      then have "contains_rune chars (byte_val a) \<longleftrightarrow> a \<in> set chars"
        using contains_rune_chars [OF assms] by (auto simp: image_iff)
      then show ?thesis
        using 1 True by (auto simp: Cons option.map_comp o_def)
    next
      case False
      obtain r n where d: "decode_rune (a # t) = (r, n)" by fastforce
      note na = decode_rune_nonascii [OF False d]
      have "\<not> contains_rune chars r" using na(1) assms contains_rune_chars [OF assms] by auto
      moreover have "\<forall>x \<in> set (take n s). x \<notin> set chars" using na(5) assms by (fastforce simp: Cons)
      then have "index_where (\<lambda>c. c \<in> set chars) s =
          map_option ((+) n) (index_where (\<lambda>c. c \<in> set chars) (drop n s))"
        using index_where_append [of "take n s" "\<lambda>c. c \<in> set chars" "drop n s"] na(4) by (simp add: Cons min.absorb2)
      ultimately show ?thesis
        using 1 d by (subst range_runes.simps) (simp add: Cons option.map_comp o_def add.assoc)
    qed
  qed simp
qed

lemma index_any_ascii:
  "\<forall>c \<in> set chars. byte_val c < 0x80 \<Longrightarrow> index_any s chars = index_where (\<lambda>c. c \<in> set chars) s"
  using find_range_runes_ascii [of chars 0 s] by (cases "index_where (\<lambda>c. c \<in> set chars) s") (simp_all add: index_any_def)

section \<open>JavaScript and comments\<close>

interpretation tJS: transition "\<lambda>c s. Inr (tJS c s)" "\<lambda>c. ctx_state c = stateJS"
proof
  fix c :: Context and s :: string
  assume "ctx_state c = stateJS" "context_ok c" "s \<noteq> []"
  then show "\<exists>c' n. Inr (tJS c s) = Inr (c', n) \<and> good_step c s c' n"
    using index_any_less [of s "[CHR 0x22, CHR 0x27, CHR ''/'']"]
    by (cases "index_any s [CHR 0x22, CHR 0x27, CHR ''/'']")
      (simp_all add: tJS_def Let_def good_step_def context_ok_intros context_ok_update(1))
qed

lemma tJSDelimited_loop_good:
  "s \<noteq> [] \<Longrightarrow> context_ok c \<Longrightarrow> ctx_state c \<noteq> stateError \<Longrightarrow>
     tJSDelimited_loop specials c s k inCharset = (c', n) \<Longrightarrow> good_step c0 s c' n"
proof (induction "length s - k" arbitrary: k inCharset rule: less_induct)
  case less
  show ?case
  proof (cases "index_any (drop k s) specials")
    case None
    then have "tJSDelimited_loop specials c s k inCharset \<in>
        {(error_context (errorf ErrPartialCharset 0 ''unfinished JS regexp charset: %q'' [s]), length s), (c, length s)}"
      by (subst tJSDelimited_loop.simps) simp
    then show ?thesis using less.prems by (auto simp: good_step_all)
  next
    case (Some d)
    have i: "k + d < length s" using index_any_less [OF Some] by simp
    let ?L = "\<lambda>j b. tJSDelimited_loop specials c s j b"
    have ih: "good_step c0 s c' n" if "?L j b = (c', n)" "k < j" for j b
    proof (cases "j \<le> length s")
      case True
      then show ?thesis using less.hyps [of j b] less.prems(1-3) that i by simp
    next
      case False
      then show ?thesis using less.hyps [of j b] less.prems(1-3) that i by simp
    qed
    have eq: "?L k inCharset =
      (if s ! (k + d) = CHR 0x5C
       then if k + d + 1 = length s
            then (error_context (errorf ErrPartialEscape 0 ''unfinished escape sequence in JS string: %q'' [s]), length s)
            else ?L (k + d + 1 + 1) inCharset
       else if s ! (k + d) = CHR ''['' then ?L (k + d + 1) True
       else if s ! (k + d) = CHR '']'' then ?L (k + d + 1) False
       else if \<not> inCharset then (c\<lparr>ctx_state := stateJS, ctx_jsCtx := jsCtxDivOp\<rparr>, k + d + 1)
       else ?L (k + d + 1) inCharset)"
      by (subst tJSDelimited_loop.simps) (simp add: Some Let_def)
    have stop: "good_step c0 s (c\<lparr>ctx_state := stateJS, ctx_jsCtx := jsCtxDivOp\<rparr>) (k + d + 1)"
      "good_step c0 s (error_context e) (length s)" for e
      using less.prems i by (simp_all add: good_step_def context_ok_def error_context_def context0_def)
    have rec: "good_step c0 s c' n" if "?L (k + d + 1) b = (c', n) \<or> ?L (k + d + 1 + 1) b = (c', n)" for b
      using that ih [of "k + d + 1" b] ih [of "k + d + 1 + 1" b] by auto
    show ?thesis
      using less.prems(4) stop rec [of inCharset] rec [of True] rec [of False] unfolding eq
      by (simp split: if_splits) auto
  qed
qed

interpretation tJSDelimited: transition "\<lambda>c s. Inr (tJSDelimited c s)"
  "\<lambda>c. ctx_state c \<in> {stateJSDqStr, stateJSSqStr, stateJSRegexp}"
proof
  fix c :: Context and s :: string
  assume "ctx_state c \<in> {stateJSDqStr, stateJSSqStr, stateJSRegexp}" "context_ok c" "s \<noteq> []"
  then show "\<exists>c' n. Inr (tJSDelimited c s) = Inr (c', n) \<and> good_step c s c' n"
    using tJSDelimited_loop_good [of s c _ 0 False] by (cases "tJSDelimited c s") (auto simp: tJSDelimited_def Let_def)
qed

interpretation tBlockCmt: transition tBlockCmt "\<lambda>c. ctx_state c \<in> {stateJSBlockCmt, stateCSSBlockCmt}"
proof
  fix c :: Context and s :: string
  assume "ctx_state c \<in> {stateJSBlockCmt, stateCSSBlockCmt}" "context_ok c" "s \<noteq> []"
  then show "\<exists>c' n. tBlockCmt c s = Inr (c', n) \<and> good_step c s c' n"
    using index_sub_Some [of "''*/''" s]
    by (cases "index_sub ''*/'' s") (auto simp: tBlockCmt_def good_step_def context_ok_intros)
qed

interpretation tLineCmt: transition tLineCmt "\<lambda>c. ctx_state c \<in> {stateJSLineCmt, stateCSSLineCmt}"
proof
  fix c :: Context and s :: string
  assume a: "ctx_state c \<in> {stateJSLineCmt, stateCSSLineCmt}" "context_ok c" "s \<noteq> []"
  have good: "good_step c s (fst r) (snd r)"
    if "r = (case index_any s ts of None \<Rightarrow> (c, length s) | Some i \<Rightarrow> (c\<lparr>ctx_state := st\<rparr>, i))"
      "st \<in> {stateJS, stateCSS}" for r ts st
    using that a index_any_less [of s ts]
    by (cases "index_any s ts") (auto simp: good_step_def context_ok_intros)
  have "\<exists>r. tLineCmt c s = Inr r \<and> good_step c s (fst r) (snd r)"
  proof (cases "ctx_state c = stateJSLineCmt")
    case True
    then show ?thesis using good [OF refl, of stateJS js_line_terminators] by (simp add: tLineCmt_def)
  next
    case False
    then have "ctx_state c = stateCSSLineCmt" using a(1) by simp
    then show ?thesis using good [OF refl, of stateCSS "[CHR 0x0A, CHR 0x0C, CHR 0x0D]"] by (simp add: tLineCmt_def)
  qed
  then show "\<exists>c' n. tLineCmt c s = Inr (c', n) \<and> good_step c s c' n" by fastforce
qed

section \<open>CSS\<close>

lemma concat_dropWhile_chunks: "length (concat (map snd (dropWhile P cs))) \<le> length (concat (map snd cs))"
  by (induction cs) auto

lemma length_trim_left: "length (trim_left s cutset) \<le> length s"
  using concat_dropWhile_chunks [of "\<lambda>c. contains_rune cutset (fst c)" "chunks s"]
  by (simp add: trim_left_def concat_chunks)

lemma css_url_start_good:
  assumes "i < length s" "context_ok c" "ctx_state c \<noteq> stateError" "css_url_start c s i = (c', n)"
  shows "good_step c0 s c' n"
  using assms length_trim_left [of "drop (i + 1) s" css_spaces]
  by (auto simp: css_url_start_def Let_def good_step_def context_ok_intros split: if_splits)

lemma tCSS_loop_good:
  "s \<noteq> [] \<Longrightarrow> context_ok c \<Longrightarrow> ctx_state c \<noteq> stateError \<Longrightarrow>
     tCSS_loop ul c s k = (c', n) \<Longrightarrow> good_step c0 s c' n"
proof (induction "length s - k" arbitrary: k rule: less_induct)
  case less
  show ?case
  proof (cases "index_any (drop k s) [CHR ''('', CHR 0x22, CHR 0x27, CHR ''/'']")
    case None
    then have "tCSS_loop ul c s k = (c, length s)" by (subst tCSS_loop.simps) simp
    then show ?thesis using less.prems by (auto simp: good_step_all)
  next
    case (Some d)
    have i: "k + d < length s" using index_any_less [OF Some] by simp
    have ih: "good_step c0 s c' n" if "tCSS_loop ul c s (k + d + 1) = (c', n)"
      using less.hyps [of "k + d + 1"] less.prems(1-3) that i by simp
    have url: "good_step c0 s c' n" if "css_url_start c s (k + d) = (c', n)"
      using css_url_start_good [OF i less.prems(2,3) that] .
    have "tCSS_loop ul c s k \<in> {css_url_start c s (k + d), (c\<lparr>ctx_state := stateCSSDqStr\<rparr>, k + d + 1),
        (c\<lparr>ctx_state := stateCSSSqStr\<rparr>, k + d + 1), tCSS_loop ul c s (k + d + 1)} \<or>
        k + d + 1 < length s \<and> tCSS_loop ul c s k \<in> {(c\<lparr>ctx_state := stateCSSLineCmt\<rparr>, k + d + 2),
        (c\<lparr>ctx_state := stateCSSBlockCmt\<rparr>, k + d + 2)}"
      by (subst (1 2) tCSS_loop.simps) (simp add: Some Let_def)
    then show ?thesis
      using ih url less.prems i by (auto simp: good_step_def context_ok_intros)
  qed
qed

interpretation tCSS: transition "\<lambda>c s. Inr (tCSS ul c s)" "\<lambda>c. ctx_state c = stateCSS" for ul
proof
  fix c :: Context and s :: string
  assume "ctx_state c = stateCSS" "context_ok c" "s \<noteq> []"
  then show "\<exists>c' n. Inr (tCSS ul c s) = Inr (c', n) \<and> good_step c s c' n"
    using tCSS_loop_good [of s c ul 0] by (cases "tCSS ul c s") (simp add: tCSS_def)
qed

lemma tURL_keeps: "context_ok (fst (tURL c u)) = context_ok c" "ctx_state (fst (tURL c u)) = ctx_state c"
  "snd (tURL c u) = length u"
  by (simp_all add: tURL_def context_ok_intros)

lemma tCSSStr_loop_good:
  assumes "\<forall>x \<in> set esc. byte_val x < 0x80" "CHR 0x5C \<in> set esc"
  shows "s \<noteq> [] \<Longrightarrow> k \<le> length s \<Longrightarrow> context_ok c \<Longrightarrow> ctx_state c \<noteq> stateError \<Longrightarrow>
     \<exists>c' n. tCSSStr_loop esc c s k = Inr (c', n) \<and> good_step c0 s c' n"
proof (induction "length s - k" arbitrary: k c rule: less_induct)
  case less
  show ?case
  proof (cases "index_any (drop k s) esc")
    case None
    then have "CHR 0x5C \<notin> set (drop k s)"
      using assms by (auto simp: index_any_ascii index_where_None)
    then have "index_byte (drop k s) (CHR 0x5C) = None" by (auto simp: index_where_None)
    then have "tCSSStr_loop esc c s k = Inr (fst (tURL c (drop k s)), length s)"
      using None less.prems(2) tURL_keeps(3) [of c "drop k s"]
      by (subst tCSSStr_loop.simps) (simp add: decodeCSS_def case_prod_beta Let_def)
    then show ?thesis using less.prems by (simp add: good_step_all tURL_keeps)
  next
    case (Some d)
    have i: "k + d < length s" using index_any_less [OF Some] by simp
    obtain u where u: "decodeCSS (take (k + d + 1 + 1) s) = Inr u" using decodeCSS_bound by blast
    have "tCSSStr_loop esc c s k = (if s ! (k + d) = CHR 0x5C
       then if k + d + 1 = length s
            then Inr (error_context (errorf ErrPartialEscape 0 ''unfinished escape sequence in CSS string: %q'' [s]), length s)
            else tCSSStr_loop esc (fst (tURL c u)) s (k + d + 1 + 1)
       else Inr (c\<lparr>ctx_state := stateCSS\<rparr>, k + d + 1))"
      using u by (subst tCSSStr_loop.simps) (simp add: Some Let_def)
    moreover have "\<exists>c' n. tCSSStr_loop esc (fst (tURL c u)) s (k + d + 1 + 1) = Inr (c', n) \<and> good_step c0 s c' n"
      if "k + d + 1 \<noteq> length s"
      using that i less.prems by (intro less.hyps) (auto simp: tURL_keeps)
    ultimately show ?thesis
      using less.prems i by (auto simp: good_step_def context_ok_intros)
  qed
qed

definition css_str_states :: "state set" where
  "css_str_states = {stateCSSDqStr, stateCSSSqStr, stateCSSDqURL, stateCSSSqURL, stateCSSURL}"

interpretation tCSSStr: transition tCSSStr "\<lambda>c. ctx_state c \<in> css_str_states"
proof
  fix c :: Context and s :: string
  assume a: "ctx_state c \<in> css_str_states" "context_ok c" "s \<noteq> []"
  let ?esc = "if ctx_state c \<in> {stateCSSDqStr, stateCSSDqURL} then [CHR 0x5C, CHR 0x22]
    else if ctx_state c \<in> {stateCSSSqStr, stateCSSSqURL} then [CHR 0x5C, CHR 0x27]
    else [CHR 0x5C, CHR 0x09, CHR 0x0A, CHR 0x0C, CHR 0x0D, CHR '' '', CHR '')'']"
  have eq: "tCSSStr c s = tCSSStr_loop ?esc c s 0"
    using a(1) by (auto simp: tCSSStr_def css_str_states_def)
  have "ctx_state c \<noteq> stateError" using a(1) by (auto simp: css_str_states_def)
  then show "\<exists>c' n. tCSSStr c s = Inr (c', n) \<and> good_step c s c' n"
    unfolding eq by (intro tCSSStr_loop_good) (use a in \<open>simp_all add: byte_val_def\<close>)
qed

section \<open>The table\<close>

interpretation step: transition "\<lambda>c s. transitionFunc ul (ctx_state c) c s" "\<lambda>c. ctx_state c \<noteq> stateRCDATA" for ul
proof
  fix c :: Context and s :: string
  assume a: "ctx_state c \<noteq> stateRCDATA" "context_ok c" "s \<noteq> []"
  show "\<exists>c' n. transitionFunc ul (ctx_state c) c s = Inr (c', n) \<and> good_step c s c' n"
  proof (cases "ctx_state c")
    case stateRCDATA
    then show ?thesis using a(1) by simp
  qed (use a(2,3) tText.good [of c s ul] tTag.good [of c s ul] tAttrName.good [of c s] tAfterName.good [of c s]
      tBeforeValue.good [of c s] tHTMLCmt.good [of c s] tURL.good [of c s] tAttr.good [of c s] tError.good [of c s]
      tJS.good [of c s] tJSDelimited.good [of c s] tBlockCmt.good [of c s] tLineCmt.good [of c s]
      tCSS.good [of c s ul] tCSSStr.good [of c s] in \<open>simp_all add: css_str_states_def\<close>)
qed

text \<open>The search for the end of a special element is in the lower case form of the text, which can be
  longer than the text. The contract holds where it is not.\<close>

lemma tSpecialTagEnd_bound:
  assumes "length (to_lower ul s) \<le> length s" "tSpecialTagEnd ul c s = (c', n)"
  shows "n \<le> length s \<and> (c' = context0 \<and> ctx_element c \<noteq> elementNone \<or> c' = c \<and> n = length s)"
  using assms index_sub_Some [of "specialTagEndMarkers (ctx_element c)" "to_lower ul s"]
  by (fastforce simp: tSpecialTagEnd_def split: if_splits option.splits)

end
