(* ===== verification/Escape_Frame.thy ===== *)
theory Escape_Frame
  imports Escape_Text Escape_Progress
begin

text \<open>
  What the transition functions change of a context: which states they lead to, when they set a
  delimiter, and what they have read when they enter a comment.
\<close>

section \<open>The loops\<close>

lemma tText_loop_frame:
  "tText_loop ul c s k = (c', n) \<Longrightarrow>
     c' = c \<and> n = length s \<or> (\<exists>e. c' = context0\<lparr>ctx_state := stateTag, ctx_element := e\<rparr>) \<or>
     c' = context0\<lparr>ctx_state := stateHTMLCmt\<rparr> \<and> 4 \<le> n \<and> n \<le> length s \<and> take 4 (drop (n - 4) s) = ''<!--''"
proof (induction "length s - k" arbitrary: k rule: less_induct)
  case less
  show ?case
  proof (cases "index_byte (drop k s) (CHR ''<'')")
    case None
    then have "tText_loop ul c s k = (c, length s)" by (subst tText_loop.simps) simp
    then show ?thesis using less.prems by simp
  next
    case (Some d)
    have i: "k + d < length s" using conjunct1 [OF index_where_Some [OF Some]] by simp
    let ?isEnd = "s ! (k + d + 1) = CHR ''/''"
    let ?i = "if ?isEnd then k + d + 2 else k + d + 1"
    let ?t = "eatTagName ul s ?i"
    have eq: "tText_loop ul c s k =
      (if k + d + 1 = length s then (c, length s)
       else if k + d + 4 \<le> length s \<and> take 4 (drop (k + d) s) = ''<!--''
       then (context0\<lparr>ctx_state := stateHTMLCmt\<rparr>, k + d + 4)
       else if ?isEnd \<and> k + d + 2 = length s then (c, length s)
       else if fst ?t \<noteq> ?i
       then (context0\<lparr>ctx_state := stateTag, ctx_element := if ?isEnd then elementNone else snd ?t\<rparr>, fst ?t)
       else tText_loop ul c s ?i)"
      by (subst tText_loop.simps) (simp add: Some Let_def case_prod_beta)
    have smaller: "length s - (k + d + 2) < length s - k" "length s - (k + d + 1) < length s - k"
      using i by simp_all
    show ?thesis
      using less.prems less.hyps [OF smaller(1)] less.hyps [OF smaller(2)] unfolding eq
      by (simp split: if_splits) auto
  qed
qed

lemma tJSDelimited_loop_frame:
  "tJSDelimited_loop specials c s k inCharset = (c', n) \<Longrightarrow>
     c' = c \<or> c' = c\<lparr>ctx_state := stateJS, ctx_jsCtx := jsCtxDivOp\<rparr> \<or> (\<exists>e. c' = error_context e)"
proof (induction "length s - k" arbitrary: k inCharset rule: less_induct)
  case less
  show ?case
  proof (cases "index_any (drop k s) specials")
    case None
    then show ?thesis using less.prems by (subst (asm) tJSDelimited_loop.simps) (auto split: if_splits)
  next
    case (Some d)
    have i: "k + d < length s" using index_any_less [OF Some] by simp
    let ?L = "\<lambda>j b. tJSDelimited_loop specials c s j b"
    have eq: "?L k inCharset =
      (if s ! (k + d) = CHR 0x5C
       then if k + d + 1 = length s
            then (error_context (errorf ErrPartialEscape 0 ''unfinished escape sequence in JS string: %q'' [s]), length s)
            else ?L (k + d + 1 + 1) inCharset
       else if s ! (k + d) = CHR ''['' then ?L (k + d + 1) True
       else if s ! (k + d) = CHR '']'' then ?L (k + d + 1) False
       else if \<not> inCharset then (c\<lparr>ctx_state := stateJS, ctx_jsCtx := jsCtxDivOp\<rparr>, k + d + 1)
       else ?L (k + d + 1) inCharset)"
      by (subst tJSDelimited_loop.simps) (simp add: Some Let_def)
    have ih: "?L j b = (c', n) \<Longrightarrow> k < j \<Longrightarrow> ?thesis" for j b
      using less.hyps [of j b] i by (cases "j \<le> length s") auto
    show ?thesis
      using less.prems ih [of "k + d + 1 + 1" inCharset] ih [of "k + d + 1" True] ih [of "k + d + 1" False]
        ih [of "k + d + 1" inCharset] unfolding eq
      by (simp split: if_splits) auto
  qed
qed

definition css_states :: "state set" where
  "css_states = css_str_states \<union> {stateCSSLineCmt, stateCSSBlockCmt}"

lemma tCSS_loop_frame:
  "tCSS_loop ul c s k = (c', n) \<Longrightarrow>
     c' = c \<or> (\<exists>st \<in> css_states. c' = c\<lparr>ctx_state := st\<rparr> \<and> (isComment st \<longrightarrow> 2 \<le> n))"
proof (induction "length s - k" arbitrary: k rule: less_induct)
  case less
  show ?case
  proof (cases "index_any (drop k s) [CHR ''('', CHR 0x22, CHR 0x27, CHR ''/'']")
    case None
    then have "tCSS_loop ul c s k = (c, length s)" by (subst tCSS_loop.simps) simp
    then show ?thesis using less.prems by simp
  next
    case (Some d)
    have i: "k + d < length s" using index_any_less [OF Some] by simp
    have eq: "tCSS_loop ul c s k \<in> {css_url_start c s (k + d), (c\<lparr>ctx_state := stateCSSDqStr\<rparr>, k + d + 1),
        (c\<lparr>ctx_state := stateCSSSqStr\<rparr>, k + d + 1), tCSS_loop ul c s (k + d + 1),
        (c\<lparr>ctx_state := stateCSSLineCmt\<rparr>, k + d + 2), (c\<lparr>ctx_state := stateCSSBlockCmt\<rparr>, k + d + 2)}"
      by (subst tCSS_loop.simps) (simp add: Some Let_def)
    have url: "fst (css_url_start c s (k + d)) \<in> {c\<lparr>ctx_state := stateCSSDqURL\<rparr>, c\<lparr>ctx_state := stateCSSSqURL\<rparr>,
        c\<lparr>ctx_state := stateCSSURL\<rparr>}"
      by (auto simp: css_url_start_def Let_def)
    have in_css: "st \<in> css_states \<Longrightarrow> isComment st \<longrightarrow> 2 \<le> m \<Longrightarrow> (c', n) = (c\<lparr>ctx_state := st\<rparr>, m) \<Longrightarrow> ?thesis" for st m
      by auto
    have loop: ?thesis if "tCSS_loop ul c s (k + d + 1) = (c', n)"
      using less.hyps [OF _ that] i by simp
    have start: ?thesis if "css_url_start c s (k + d) = (c', n)"
      using url that by (auto simp: css_states_def css_str_states_def)
    have "(c', n) \<in> {css_url_start c s (k + d), (c\<lparr>ctx_state := stateCSSDqStr\<rparr>, k + d + 1),
        (c\<lparr>ctx_state := stateCSSSqStr\<rparr>, k + d + 1), tCSS_loop ul c s (k + d + 1),
        (c\<lparr>ctx_state := stateCSSLineCmt\<rparr>, k + d + 2), (c\<lparr>ctx_state := stateCSSBlockCmt\<rparr>, k + d + 2)}"
      using eq less.prems by simp
    then consider "css_url_start c s (k + d) = (c', n)" | "tCSS_loop ul c s (k + d + 1) = (c', n)"
      | "(c', n) = (c\<lparr>ctx_state := stateCSSDqStr\<rparr>, k + d + 1)" | "(c', n) = (c\<lparr>ctx_state := stateCSSSqStr\<rparr>, k + d + 1)"
      | "(c', n) = (c\<lparr>ctx_state := stateCSSLineCmt\<rparr>, k + d + 2)" | "(c', n) = (c\<lparr>ctx_state := stateCSSBlockCmt\<rparr>, k + d + 2)"
      unfolding insert_iff empty_iff by (elim disjE) (metis | simp)+
    then show ?thesis
    proof cases
      case 3 then show ?thesis by (rule in_css [rotated 2]) (simp_all add: css_states_def css_str_states_def)
    next
      case 4 then show ?thesis by (rule in_css [rotated 2]) (simp_all add: css_states_def css_str_states_def)
    next
      case 5 then show ?thesis by (rule in_css [rotated 2]) (simp_all add: css_states_def)
    next
      case 6 then show ?thesis by (rule in_css [rotated 2]) (simp_all add: css_states_def)
    qed (use start loop in blast)+
  qed
qed

lemma tURL_frame: "\<exists>u. fst (tURL c s) = c\<lparr>ctx_urlPart := u\<rparr>"
proof -
  have "c = c\<lparr>ctx_urlPart := ctx_urlPart c\<rparr>" by simp
  then have "\<exists>u. c = c\<lparr>ctx_urlPart := u\<rparr>" by blast
  then show ?thesis by (auto simp: tURL_def)
qed

lemma tCSSStr_loop_frame:
  "tCSSStr_loop esc c s k = Inr (c', n) \<Longrightarrow>
     \<exists>u. c' = c\<lparr>ctx_urlPart := u\<rparr> \<or> c' = c\<lparr>ctx_urlPart := u, ctx_state := stateCSS\<rparr> \<or> (\<exists>e. c' = error_context e)"
proof (induction "length s - k" arbitrary: k c rule: less_induct)
  case less
  show ?case
  proof (cases "index_any (drop k s) esc")
    case None
    then have "tCSSStr_loop esc c s k = bindE (decodeCSS (drop k s)) (\<lambda>u. Inr (fst (tURL c u), k + length u))"
      by (subst tCSSStr_loop.simps) (simp add: case_prod_beta Let_def tURL_keeps)
    moreover obtain v where "decodeCSS (drop k s) = Inr v" using decodeCSS_bound by blast
    ultimately obtain u where "c' = fst (tURL c u)" using less.prems by auto
    then show ?thesis using tURL_frame [of c u] by auto
  next
    case (Some d)
    have i: "k + d < length s" using index_any_less [OF Some] by simp
    obtain u where u: "decodeCSS (take (k + d + 1 + 1) s) = Inr u" using decodeCSS_bound by blast
    have eq: "tCSSStr_loop esc c s k = (if s ! (k + d) = CHR 0x5C
       then if k + d + 1 = length s
            then Inr (error_context (errorf ErrPartialEscape 0 ''unfinished escape sequence in CSS string: %q'' [s]), length s)
            else tCSSStr_loop esc (fst (tURL c u)) s (k + d + 1 + 1)
       else Inr (c\<lparr>ctx_state := stateCSS\<rparr>, k + d + 1))"
      using u by (subst tCSSStr_loop.simps) (simp add: Some Let_def)
    obtain v where v: "fst (tURL c u) = c\<lparr>ctx_urlPart := v\<rparr>" using tURL_frame by blast
    have "?thesis" if "tCSSStr_loop esc (c\<lparr>ctx_urlPart := v\<rparr>) s (k + d + 1 + 1) = Inr (c', n)"
      using less.hyps [OF _ that] i by auto
    moreover have "?thesis" if "c' = c\<lparr>ctx_state := stateCSS\<rparr>"
    proof -
      have "c' = c\<lparr>ctx_urlPart := ctx_urlPart c, ctx_state := stateCSS\<rparr>" using that by simp
      then show ?thesis by blast
    qed
    ultimately show ?thesis
      using less.prems unfolding eq v by (auto split: if_splits)
  qed
qed

section \<open>Inside values\<close>

text \<open>The states inside the value of an attribute or the body of a script or style element.\<close>

definition value_states :: "state set" where
  "value_states = {stateAttr, stateURL, stateJS, stateJSDqStr, stateJSSqStr, stateJSRegexp, stateJSBlockCmt,
     stateJSLineCmt, stateCSS, stateCSSDqStr, stateCSSSqStr, stateCSSDqURL, stateCSSSqURL, stateCSSURL,
     stateCSSLineCmt, stateCSSBlockCmt}"

definition value_step :: "Context \<Rightarrow> Context \<Rightarrow> nat \<Rightarrow> bool" where
  "value_step c c' n \<longleftrightarrow> (\<exists>e. c' = error_context e) \<or>
     ctx_state c' \<in> value_states \<and> (ctx_state c' = stateAttr \<longrightarrow> ctx_state c = stateAttr) \<and> ctx_delim c' = ctx_delim c \<and> ctx_element c' = ctx_element c \<and>
     (isComment (ctx_state c') \<and> ctx_state c' \<noteq> ctx_state c \<longrightarrow> \<not> isComment (ctx_state c) \<and> 2 \<le> n)"

lemma css_str_value_step:
  assumes "ctx_state c \<in> css_str_states" "tCSSStr c s = Inr (c', n)"
  shows "value_step c c' n"
proof -
  obtain esc where "tCSSStr_loop esc c s 0 = Inr (c', n)"
    using assms by (auto simp: tCSSStr_def css_str_states_def)
  from tCSSStr_loop_frame [OF this] show ?thesis
    using assms(1) by (auto simp: value_step_def value_states_def css_str_states_def)
qed

lemma css_value_step:
  assumes "ctx_state c = stateCSS" "tCSS ul c s = (c', n)"
  shows "value_step c c' n"
proof -
  have "css_states \<subseteq> value_states - {stateAttr}" by (auto simp: css_states_def css_str_states_def value_states_def)
  moreover from tCSS_loop_frame [of ul c s 0 c' n] assms(2)
  have "c' = c \<or> (\<exists>st \<in> css_states. c' = c\<lparr>ctx_state := st\<rparr> \<and> (isComment st \<longrightarrow> 2 \<le> n))"
    by (simp add: tCSS_def)
  ultimately show ?thesis using assms(1) by (auto simp: value_step_def value_states_def)
qed

lemma js_value_step:
  assumes "ctx_state c = stateJS" "tJS c s = (c', n)"
  shows "value_step c c' n"
proof (cases "index_any s [CHR 0x22, CHR 0x27, CHR ''/'']")
  case None
  then show ?thesis using assms by (auto simp: tJS_def value_step_def value_states_def)
next
  case (Some i)
  have err: "value_step c (error_context e) m" for e m by (auto simp: value_step_def)
  have upd: "value_step c (c\<lparr>ctx_jsCtx := j, ctx_state := st\<rparr>) m" "value_step c (c\<lparr>ctx_state := st, ctx_jsCtx := j\<rparr>) m"
    if "st \<in> {stateJS, stateJSDqStr, stateJSSqStr, stateJSRegexp} \<or> st \<in> {stateJSLineCmt, stateJSBlockCmt} \<and> 2 \<le> m" for st j m
    using that assms(1) by (auto simp: value_step_def value_states_def)
  have div: "value_step c (c\<lparr>ctx_jsCtx := j\<rparr>) m" for j m
    using assms(1) by (simp add: value_step_def value_states_def)
  have "value_step c (fst (tJS c s)) (snd (tJS c s))"
    unfolding tJS_def Some option.case Let_def
    by (simp only: if_distrib [of fst] if_distrib [of snd] fst_conv snd_conv split: if_split)
      (simp add: err upd div)
  then show ?thesis using assms(2) by simp
qed

lemma js_delimited_value_step:
  assumes "ctx_state c \<in> {stateJSDqStr, stateJSSqStr, stateJSRegexp}" "tJSDelimited c s = (c', n)"
  shows "value_step c c' n"
  using assms tJSDelimited_loop_frame [of _ c s 0 False c' n]
  by (fastforce simp: tJSDelimited_def Let_def value_step_def value_states_def)

lemma comment_value_step:
  "ctx_state c \<in> {stateJSBlockCmt, stateCSSBlockCmt} \<Longrightarrow> tBlockCmt c s = Inr (c', n) \<Longrightarrow> value_step c c' n"
  "ctx_state c \<in> {stateJSLineCmt, stateCSSLineCmt} \<Longrightarrow> tLineCmt c s = Inr (c', n) \<Longrightarrow> value_step c c' n"
  by (auto simp: tBlockCmt_def tLineCmt_def value_step_def value_states_def bindE_eq_Inr split: option.splits)

lemma url_value_step:
  "ctx_state c \<in> {stateURL, stateAttr} \<Longrightarrow> tURL c s = (c', n) \<or> tAttr c s = (c', n) \<Longrightarrow> value_step c c' n"
  using tURL_keeps [of c s] tURL_frame [of c s] by (auto simp: tAttr_def value_step_def value_states_def)

lemma transition_value_step:
  assumes "ctx_state c \<in> value_states" "transitionFunc ul (ctx_state c) c s = Inr (c', n)"
  shows "value_step c c' n"
proof -
  note facts = assms(2) css_str_value_step [of c s c' n] css_value_step [of c ul s c' n] js_value_step [of c s c' n]
    js_delimited_value_step [of c s c' n] comment_value_step [of c s c' n] url_value_step [of c s c' n]
  show ?thesis
    using assms(1) unfolding value_states_def insert_iff empty_iff
    by (elim disjE) (use facts in \<open>simp_all add: css_str_states_def\<close>)
qed

end
