(* ===== verification/Escape_Text_Correct.thy ===== *)
theory Escape_Text_Correct
  imports Escape_Frame
begin

text \<open>
  Properties of the escaping of text: every step over the text of a template makes progress and keeps
  the context well formed, so that the loops end, no slice is out of bounds and the panic for an
  infinite loop is never reached.
\<close>

section \<open>Well-formed contexts\<close>

text \<open>An error is there exactly in the error state, a delimiter only inside a value, the value of a
  plain attribute always has one, and plain text and the error state are in no special element.\<close>

definition ctx_wf :: "Context \<Rightarrow> bool" where
  "ctx_wf c \<longleftrightarrow> context_ok c \<and> (ctx_delim c \<noteq> delimNone \<longrightarrow> ctx_state c \<in> value_states) \<and>
     (ctx_state c = stateAttr \<longrightarrow> ctx_delim c \<noteq> delimNone) \<and>
     (ctx_state c \<in> {stateText, stateError} \<longrightarrow> ctx_element c = elementNone)"

definition ctx_rank :: "Context \<Rightarrow> nat" where
  "ctx_rank c = (if ctx_element c \<noteq> elementNone then 4 else 0) +
     (if ctx_delim c \<noteq> delimNone then 1
      else if ctx_state c = stateBeforeValue then 2 else state_rank (ctx_state c))"

text \<open>What has been read when a comment is entered.\<close>

definition comment_entry :: "Context \<Rightarrow> string \<Rightarrow> Context \<Rightarrow> nat \<Rightarrow> bool" where
  "comment_entry c s c' n \<longleftrightarrow>
     (ctx_state c' \<noteq> ctx_state c \<and> isComment (ctx_state c') \<and> ctx_delim c' = delimNone \<longrightarrow>
        (if ctx_state c' = stateHTMLCmt
         then ctx_state c = stateText \<and> 4 \<le> n \<and> take 4 (drop (n - 4) s) = ''<!--''
         else 2 \<le> n \<and> \<not> isComment (ctx_state c) \<and> ctx_state c \<notin> {stateText, stateRCDATA}))"

definition text_step :: "Context \<Rightarrow> string \<Rightarrow> Context \<Rightarrow> nat \<Rightarrow> bool" where
  "text_step c s c' n \<longleftrightarrow> n \<le> length s \<and> ctx_wf c' \<and>
     (n = 0 \<longrightarrow> ctx_rank c' < ctx_rank c \<and> ctx_state c' \<noteq> ctx_state c) \<and> comment_entry c s c' n"

lemma context0_simps [simp]:
  "ctx_state context0 = stateText" "ctx_delim context0 = delimNone" "ctx_element context0 = elementNone"
  "ctx_err context0 = None"
  "ctx_state (error_context e) = stateError" "ctx_delim (error_context e) = delimNone"
  "ctx_element (error_context e) = elementNone"
  by (simp_all add: context0_def error_context_def)

lemma no_comment_entry: "\<not> isComment (ctx_state c') \<or> ctx_state c' = ctx_state c \<Longrightarrow> comment_entry c s c' n"
  by (auto simp: comment_entry_def)

lemma error_step: "s \<noteq> [] \<Longrightarrow> text_step c s (error_context e) (length s)"
  by (simp add: text_step_def ctx_wf_def no_comment_entry)

lemma value_states_basic:
  "st \<in> value_states \<Longrightarrow> st \<noteq> stateHTMLCmt \<and> st \<noteq> stateText \<and> st \<noteq> stateRCDATA \<and> st \<noteq> stateError"
  by (auto simp: value_states_def)

lemma value_text_step:
  assumes c: "ctx_wf c" "ctx_delim c = delimNone" "ctx_state c \<in> value_states"
    and g: "good_step c s c' n" and v: "value_step c c' n"
  shows "text_step c s c' n"
proof -
  have rank: "ctx_rank c = (if ctx_element c \<noteq> elementNone then 4 else 0) + state_rank (ctx_state c)"
    using c by (auto simp: ctx_rank_def value_states_def)
  show ?thesis
  proof (cases "\<exists>e. c' = error_context e")
    case True
    then obtain e where e: "c' = error_context e" by blast
    then show ?thesis
      using g rank by (auto simp: text_step_def good_step_def ctx_wf_def no_comment_entry ctx_rank_def [of "error_context e"])
  next
    case False
    with v have v': "ctx_state c' \<in> value_states" "ctx_delim c' = ctx_delim c" "ctx_element c' = ctx_element c"
      "isComment (ctx_state c') \<and> ctx_state c' \<noteq> ctx_state c \<longrightarrow> \<not> isComment (ctx_state c) \<and> 2 \<le> n"
      "ctx_state c' = stateAttr \<longrightarrow> ctx_state c = stateAttr"
      by (auto simp: value_step_def)
    have "ctx_rank c' = (if ctx_element c \<noteq> elementNone then 4 else 0) + state_rank (ctx_state c')"
      using v' c(2) by (auto simp: ctx_rank_def value_states_def)
    then have "n = 0 \<longrightarrow> ctx_rank c' < ctx_rank c \<and> ctx_state c' \<noteq> ctx_state c"
      using g rank by (auto simp: good_step_def)
    moreover have "comment_entry c s c' n"
      using v'(4) value_states_basic [OF v'(1)] value_states_basic [OF c(3)] by (simp add: comment_entry_def)
    moreover have "ctx_wf c'"
      using g v'(1,2,5) c(1,2) by (auto simp: good_step_def ctx_wf_def value_states_def)
    ultimately show ?thesis using g by (simp add: text_step_def good_step_def)
  qed
qed

lemma tag_text_step:
  assumes c: "ctx_wf c" "ctx_delim c = delimNone" "s \<noteq> []"
    and st: "ctx_state c \<in> {stateTag, stateAttrName, stateAfterName, stateBeforeValue, stateHTMLCmt, stateError}"
    and t: "transitionFunc ul (ctx_state c) c s = Inr (c', n)"
  shows "text_step c s c' n"
proof -
  have g: "good_step c s c' n"
    using step.step_good [of c s ul c' n] c st t by (auto simp: ctx_wf_def)
  have pos: "n = 0 \<Longrightarrow> state_rank (ctx_state c') < state_rank (ctx_state c)" using g by (auto simp: good_step_def)
  have start: "attrStartStates a \<in> value_states \<and> \<not> isComment (attrStartStates a) \<and> attrStartStates a \<notin> {stateText, stateError}" for a
    by (cases a) (auto simp: value_states_def)
  have content: "\<not> isComment (elementContentType e) \<and> elementContentType e \<noteq> stateAttr \<and> (elementContentType e \<in> {stateText, stateError} \<longrightarrow> e = elementNone)" for e
    by (cases e) auto
  have elem: "ctx_state c = stateError \<longrightarrow> ctx_element c = elementNone" using c(1) by (simp add: ctx_wf_def)
  have frame: "(ctx_delim c' \<noteq> delimNone \<longrightarrow> ctx_state c = stateBeforeValue \<and> ctx_state c' \<in> value_states) \<and>
      (isComment (ctx_state c') \<longrightarrow> ctx_state c' = ctx_state c) \<and>
      (n = 0 \<longrightarrow> ctx_element c' = ctx_element c) \<and> (n = 0 \<longrightarrow> ctx_state c' \<noteq> stateBeforeValue) \<and>
      (ctx_state c' \<in> {stateText, stateError} \<longrightarrow> ctx_element c' = elementNone) \<and>
      (ctx_state c' = stateAttr \<longrightarrow> ctx_delim c' \<noteq> delimNone)"
    using st t c(2,3) start content pos elem
    by (auto simp: tTag_def tAttrName_def tAfterName_def tBeforeValue_def tHTMLCmt_def tError_def Let_def
        split: if_splits sum.splits option.splits)
  have "comment_entry c s c' n" using frame by (auto intro: no_comment_entry)
  moreover have "ctx_rank c' < ctx_rank c \<and> ctx_state c' \<noteq> ctx_state c" if "n = 0"
    using pos [OF that] that frame c(2) st by (auto simp: ctx_rank_def)
  moreover have "ctx_wf c'" using g frame by (auto simp: good_step_def ctx_wf_def)
  ultimately show ?thesis using g by (auto simp: text_step_def good_step_def)
qed

lemma text_text_step:
  assumes c: "ctx_wf c" "ctx_delim c = delimNone" "s \<noteq> []" "ctx_state c = stateText"
    and t: "tText ul c s = (c', n)"
  shows "text_step c s c' n"
proof -
  have g: "good_step c s c' n" using tText.step_good [of c s ul c' n] c t by (simp add: ctx_wf_def)
  then have "0 < n" using c(4) by (auto simp: good_step_def)
  moreover have "comment_entry c s c' n \<and> ctx_delim c' = delimNone \<and> ctx_state c' \<noteq> stateAttr \<and>
      (ctx_state c' \<in> {stateText, stateError} \<longrightarrow> ctx_element c' = elementNone)"
    using tText_loop_frame [of ul c s 0 c' n] t c by (auto simp: tText_def comment_entry_def ctx_wf_def)
  ultimately show ?thesis using g by (auto simp: text_step_def good_step_def ctx_wf_def)
qed

text \<open>The text is not longer in lower case, nor is any part of it.\<close>

definition lower_fits :: "(rune \<Rightarrow> rune) \<Rightarrow> string \<Rightarrow> bool" where
  "lower_fits ul s \<longleftrightarrow> (\<forall>t. sublist t s \<longrightarrow> length (to_lower ul t) \<le> length t)"

lemma lower_fits_sublist: "lower_fits ul s \<Longrightarrow> sublist t s \<Longrightarrow> lower_fits ul t"
  by (auto simp: lower_fits_def intro: sublist_order.order_trans)

lemma special_text_step:
  assumes c: "ctx_wf c" "ctx_delim c = delimNone" and s: "s \<noteq> []" "lower_fits ul s"
    and t: "tSpecialTagEnd ul c s = (c', n)"
  shows "n \<le> length s" "n = 0 \<or> ctx_state c = stateRCDATA \<Longrightarrow> text_step c s c' n"
proof -
  have "length (to_lower ul s) \<le> length s" using s(2) by (auto simp: lower_fits_def)
  from tSpecialTagEnd_bound [OF this t]
  have b: "n \<le> length s" "c' = context0 \<and> ctx_element c \<noteq> elementNone \<or> c' = c \<and> n = length s" by auto
  then show "n \<le> length s" by simp
  show "text_step c s c' n" if "n = 0 \<or> ctx_state c = stateRCDATA"
    using b c s(1) that
    by (auto simp: text_step_def ctx_wf_def ctx_rank_def [of context0] ctx_rank_def [of c] no_comment_entry)
qed

section \<open>Text outside values\<close>

lemma text_step_take:
  assumes "text_step c (take i s) c' n"
  shows "text_step c s c' n"
proof -
  have "n \<le> i" "n \<le> length s" using assms by (auto simp: text_step_def)
  then have "4 \<le> n \<Longrightarrow> take 4 (drop (n - 4) (take i s)) = take 4 (drop (n - 4) s)" by (simp add: drop_take min.absorb1)
  then show ?thesis
    using assms \<open>n \<le> length s\<close> by (auto simp: text_step_def comment_entry_def split: if_splits)
qed

lemma transition_text_step:
  assumes c: "ctx_wf c" "ctx_delim c = delimNone" and s: "s \<noteq> []" "lower_fits ul s"
  shows "\<exists>c' n. transitionFunc ul (ctx_state c) c s = Inr (c', n) \<and> text_step c s c' n"
proof (cases "ctx_state c = stateRCDATA")
  case True
  then show ?thesis
    using special_text_step(2) [OF c s] by (cases "tSpecialTagEnd ul c s") simp
next
  case False
  then obtain c' n where t: "transitionFunc ul (ctx_state c) c s = Inr (c', n)" and g: "good_step c s c' n"
    using step.good [of c s ul] c s(1) by (auto simp: ctx_wf_def)
  have "text_step c s c' n"
  proof (cases "ctx_state c \<in> value_states")
    case True
    then show ?thesis using value_text_step [OF c True g] transition_value_step [OF True t] by blast
  next
    case False
    then show ?thesis
      using tag_text_step [OF c s(1) _ t] text_text_step [OF c s(1)] t \<open>ctx_state c \<noteq> stateRCDATA\<close>
      by (cases "ctx_state c") (simp_all add: value_states_def)
  qed
  then show ?thesis using t by blast
qed

section \<open>Values of attributes\<close>

definition in_value :: "Context \<Rightarrow> Context \<Rightarrow> bool" where
  "in_value c c' \<longleftrightarrow> (\<exists>e. c' = error_context e) \<or>
     context_ok c' \<and> ctx_state c' \<in> value_states \<and> ctx_delim c' = ctx_delim c \<and> ctx_element c' = ctx_element c"

lemma in_value_step:
  assumes "in_value c0 c" "u \<noteq> []"
  shows "\<exists>c' n. transitionFunc ul (ctx_state c) c u = Inr (c', n) \<and> in_value c0 c' \<and> good_step c u c' n"
proof (cases "\<exists>e. c = error_context e")
  case True
  then show ?thesis using assms by (auto simp: tError_def good_step_all)
next
  case False
  then have c: "context_ok c" "ctx_state c \<in> value_states" using assms(1) by (auto simp: in_value_def)
  then obtain c' n where t: "transitionFunc ul (ctx_state c) c u = Inr (c', n)" "good_step c u c' n"
    using step.good [of c u ul] assms(2) value_states_basic by auto
  moreover have "in_value c0 c'"
    using transition_value_step [OF c(2) t(1)] t(2) assms(1) False by (auto simp: value_step_def in_value_def good_step_def)
  ultimately show ?thesis by blast
qed

lemma state_rank_le: "state_rank st \<le> 2"
  by (cases st) auto

lemma attr_loop_returns: "in_value c0 c \<Longrightarrow> \<exists>c'. attr_loop ul c u = Some (Inr c') \<and> in_value c0 c'"
proof (induction "3 * length u + state_rank (ctx_state c)" arbitrary: c u rule: less_induct)
  case less
  show ?case
  proof (cases "u = []")
    case True
    then show ?thesis using less.prems by (subst attr_loop.simps) simp
  next
    case False
    from in_value_step [OF less.prems this, of ul] obtain c' n where
      t: "transitionFunc ul (ctx_state c) c u = Inr (c', n)" "in_value c0 c'" "good_step c u c' n" by blast
    then have n: "n \<le> length u" by (simp add: good_step_def)
    have "3 * length (drop n u) + state_rank (ctx_state c') < 3 * length u + state_rank (ctx_state c)"
      using t(3) state_rank_le [of "ctx_state c'"] by (auto simp: good_step_def)
    from less.hyps [OF this t(2)] show ?thesis
      using False t(1) n by (subst attr_loop.simps) simp
  qed
qed

lemma value_text_after:
  assumes c: "ctx_wf c" "ctx_delim c \<noteq> delimNone" and s: "s \<noteq> []"
  shows "\<exists>c' n. contextAfterText ul unescape c s = Some (Inr (c', n)) \<and> text_step c s c' n"
proof -
  let ?i = "case index_any s (delimEnds (ctx_delim c)) of None \<Rightarrow> length s | Some i \<Rightarrow> i"
  have v: "in_value c c" "ctx_state c \<in> value_states" using c by (auto simp: ctx_wf_def in_value_def)
  have i: "?i \<le> length s" using index_any_less by (auto split: option.split intro: less_imp_le)
  obtain c' where c': "attr_loop ul c (unescape s) = Some (Inr c')" "in_value c c'"
    using attr_loop_returns [OF v(1)] by blast
  have whole: "text_step c s c' (length s)"
    using c'(2) c(2) s error_step [OF s, of c] value_states_basic [of "ctx_state c'"]
    by (auto simp: in_value_def text_step_def ctx_wf_def comment_entry_def)
  have close: "text_step c s (context0\<lparr>ctx_state := stateTag, ctx_element := ctx_element c\<rparr>) n"
    if "n \<le> length s" for n
    using that v(2) c by (auto simp: text_step_def ctx_wf_def comment_entry_def ctx_rank_def context_ok_fresh
        context_ok_update value_states_def)
  show ?thesis
    using c(2) i c'(1) whole close [of ?i] close [of "?i + 1"] error_step [OF s, of c]
    by (auto simp: contextAfterText_def Let_def split: option.split)
qed

lemma contextAfterText_step:
  assumes "ctx_wf c" "s \<noteq> []" "lower_fits ul s"
  shows "\<exists>c' n. contextAfterText ul unescape c s = Some (Inr (c', n)) \<and> text_step c s c' n"
proof (cases "ctx_delim c = delimNone")
  case True
  obtain c1 i where t: "tSpecialTagEnd ul c s = (c1, i)" by fastforce
  show ?thesis
  proof (cases "i = 0")
    case True
    then show ?thesis
      using special_text_step(2) [OF assms(1) \<open>ctx_delim c = delimNone\<close> assms(2,3) t] t \<open>ctx_delim c = delimNone\<close>
      by (simp add: contextAfterText_def)
  next
    case False
    have i: "i \<le> length s" using special_text_step(1) [OF assms(1) True assms(2,3) t] .
    have "sublist (take i s) s" by simp
    with transition_text_step [OF assms(1) True, of "take i s" ul] obtain c' n where
      "transitionFunc ul (ctx_state c) c (take i s) = Inr (c', n)" "text_step c (take i s) c' n"
      using assms False lower_fits_sublist by fastforce
    then show ?thesis using True False t i by (auto simp: contextAfterText_def intro: text_step_take)
  qed
qed (use assms value_text_after in blast)

section \<open>Text nodes\<close>

lemma lt_loop_returns:
  "sorted js \<Longrightarrow> \<forall>j \<in> set js. written \<le> j \<and> j < hi \<Longrightarrow> distinct js \<Longrightarrow> hi \<le> length s \<Longrightarrow> written \<le> hi \<Longrightarrow>
     \<exists>w b'. lt_loop uu s js written b = Inr (w, b') \<and> w \<le> hi"
proof (induction uu s js written b rule: lt_loop.induct)
  case (2 uu s j js written b)
  then have "j + 1 \<le> hi" "written \<le> j" "j \<le> length s" "sorted js" "distinct js"
    "\<forall>k \<in> set js. j + 1 \<le> k \<and> k < hi" by (auto simp: Suc_le_eq order_less_le)
  then show ?case using 2 by auto
qed simp

lemma last_lt_le: "i \<le> hi \<Longrightarrow> last_lt s i hi \<le> hi"
  by (simp add: last_lt_def split: option.split)

lemma last_lt_comment:
  assumes "4 \<le> n" "n \<le> length (drop i s)" "take 4 (drop (n - 4) (drop i s)) = ''<!--''"
  shows "last_lt s i (i + n) = i + n - 4"
proof -
  let ?t = "drop i s"
  have "take n ?t = take (n - 4 + 4) ?t" using assms(1) by simp
  also have "\<dots> = take (n - 4) ?t @ ''<!--''" using assms(3) by (simp only: take_add)
  finally have "rev (take n ?t) = ''--!<'' @ rev (take (n - 4) ?t)" by simp
  then show ?thesis by (simp add: last_lt_def)
qed

lemma text_body_returns:
  assumes step: "text_step c (drop i s) c' n" and i: "i \<le> length s" "written \<le> i"
  shows "\<exists>w b'. text_body uu s c c' i (i + n) written b = Inr (w, b') \<and> w \<le> i + n"
proof -
  let ?hi = "if ctx_state c' \<noteq> ctx_state c then last_lt s i (i + n) else i + n"
  have n: "i + n \<le> length s" using step i by (auto simp: text_step_def)
  have no_loop: "\<not> (i = i + n \<and> ctx_state c = ctx_state c')" using step by (auto simp: text_step_def)
  have hi: "?hi \<le> i + n" using last_lt_le [of i "i + n" s] by simp
  have edit: "\<exists>w b'. edit_text uu s c c' i (i + n) written b = Inr (w, b') \<and> w \<le> i + n \<and>
      (ctx_state c \<in> {stateText, stateRCDATA} \<longrightarrow> w \<le> max i ?hi) \<and>
      (ctx_state c \<notin> {stateText, stateRCDATA} \<and> \<not> isComment (ctx_state c) \<longrightarrow> w = written)"
  proof (cases "ctx_state c \<in> {stateText, stateRCDATA}")
    case True
    obtain w b' where w: "lt_loop uu s [i..<?hi] written b = Inr (w, b')" "w \<le> max i ?hi"
      using lt_loop_returns [of "[i..<?hi]" written "max i ?hi" s uu b] i n hi by fastforce
    have "max i ?hi \<le> i + n" using hi by simp
    then show ?thesis using True w by (auto simp: edit_text_def Let_def)
  next
    case False
    then show ?thesis using i n by (auto simp: edit_text_def split: state.split)
  qed
  then obtain w b' where w: "edit_text uu s c c' i (i + n) written b = Inr (w, b')" "w \<le> i + n"
    "ctx_state c \<in> {stateText, stateRCDATA} \<longrightarrow> w \<le> max i ?hi"
    "ctx_state c \<notin> {stateText, stateRCDATA} \<and> \<not> isComment (ctx_state c) \<longrightarrow> w = written" by blast
  have "\<exists>w2 b2. edit_comment s c c' (i + n) w b' = Inr (w2, b2) \<and> w2 \<le> i + n"
  proof (cases "ctx_state c' \<noteq> ctx_state c \<and> isComment (ctx_state c') \<and> ctx_delim c' = delimNone")
    case entry: True
    have ce: "comment_entry c (drop i s) c' n" using step by (simp add: text_step_def)
    show ?thesis
    proof (cases "ctx_state c' = stateHTMLCmt")
      case True
      then have "ctx_state c = stateText" "4 \<le> n" "take 4 (drop (n - 4) (drop i s)) = ''<!--''"
        using ce entry by (simp_all only: comment_entry_def simp_thms if_True)
      moreover from this have "last_lt s i (i + n) = i + n - 4" using n by (intro last_lt_comment) auto
      ultimately have "w \<le> i + n - 4" "4 \<le> n" using w(3) entry by auto
      then show ?thesis using True entry n by (auto simp: edit_comment_def Let_def)
    next
      case False
      then have "2 \<le> n" "w = written" using ce entry w(4) by (auto simp: comment_entry_def)
      then show ?thesis using False entry n i(2) by (auto simp: edit_comment_def Let_def)
    qed
  next
    case False
    then show ?thesis using w(2) by (auto simp: edit_comment_def)
  qed
  then show ?thesis using w(1) no_loop by (auto simp: text_body_def)
qed

lemma escapeText_loop_returns:
  "ctx_wf c \<Longrightarrow> lower_fits ul s \<Longrightarrow> i \<le> length s \<Longrightarrow> written \<le> i \<Longrightarrow>
     \<exists>c' w b'. escapeText_loop ul uu unescape s c i written b = Some (Inr (c', w, b')) \<and> ctx_wf c' \<and> w \<le> length s"
proof (induction "8 * (length s - i) + ctx_rank c" arbitrary: c i written b rule: less_induct)
  case less
  show ?case
  proof (cases "i = length s")
    case True
    then show ?thesis using less.prems by (subst escapeText_loop.simps) simp
  next
    case False
    have "drop i s \<noteq> []" "sublist (drop i s) s" using False less.prems(3) by auto
    with contextAfterText_step [OF less.prems(1), of "drop i s" ul unescape] obtain c' n where
      t: "contextAfterText ul unescape c (drop i s) = Some (Inr (c', n))" and st: "text_step c (drop i s) c' n"
      using lower_fits_sublist less.prems(2) by blast
    obtain w b' where w: "text_body uu s c c' i (i + n) written b = Inr (w, b')" "w \<le> i + n"
      using text_body_returns [OF st less.prems(3,4)] by blast
    have n: "i + n \<le> length s" "ctx_wf c'" "n = 0 \<longrightarrow> ctx_rank c' < ctx_rank c"
      using st less.prems(3) by (auto simp: text_step_def)
    have "ctx_rank c' \<le> 6" using state_rank_le [of "ctx_state c'"] by (simp add: ctx_rank_def)
    then have "8 * (length s - (i + n)) + ctx_rank c' < 8 * (length s - i) + ctx_rank c"
      using n by (cases "n = 0") auto
    from less.hyps [OF this n(2) less.prems(2) n(1) w(2), of b'] show ?thesis
      using False t w(1) by (subst escapeText_loop.simps) simp
  qed
qed


lemma lower_fits_ascii: "\<forall>x \<in> set s. byte_val x < 0x80 \<Longrightarrow> lower_fits ul s"
proof -
  assume a: "\<forall>x \<in> set s. byte_val x < 0x80"
  have "length (to_lower ul t) = length t" if "\<forall>x \<in> set t. byte_val x < 0x80" for t
    using that
  proof (induction t)
    case (Cons x t)
    have "length (encode_rune (lower_rune ul (byte_val x))) = 1"
      using Cons.prems by (auto simp: lower_rune_def encode_rune_def encode_valid_def valid_rune_def)
    then show ?case using Cons by (simp add: to_lower_def)
  qed (simp add: to_lower_def)
  then show ?thesis using a unfolding lower_fits_def by (metis order_refl set_mono_sublist subsetD)
qed


end
