(* ===== verification/Escape_Tree_Correct.thy ===== *)
theory Escape_Tree_Correct
  imports Escape_Tree Escape_Text_Correct
begin

text \<open>
  The escaping of a tree ends: the contexts the escaper follows stay well formed, and a template is escaped
  at most once for each context on a path of calls, so that the depth of the calls is bounded.
\<close>

section \<open>Contexts\<close>

lemma ctx_wf_error [simp]: "ctx_wf (error_context e)"
  by (simp add: ctx_wf_def)

lemma ctx_wf_context0 [simp]: "ctx_wf context0"
  by (simp add: ctx_wf_def)

lemma nudge_wf:
  assumes "ctx_wf c"
  shows "ctx_wf (nudge c)"
proof -
  have "attrStartStates a \<in> value_states" "attrStartStates a \<noteq> stateError" "attrStartStates a \<noteq> stateText" for a
    by (cases a; simp add: value_states_def)+
  then show ?thesis
    using assms by (cases "ctx_state c") (auto simp: nudge_def ctx_wf_def context_ok_def value_states_def)
qed

lemma join_wf: "ctx_wf a \<Longrightarrow> ctx_wf b \<Longrightarrow> ctx_wf (join a b line name)"
proof (induction a b line name rule: join.induct)
  case (1 a b line name)
  have upd: "ctx_wf (a\<lparr>ctx_urlPart := u\<rparr>)" "ctx_wf (a\<lparr>ctx_jsCtx := j\<rparr>)" for u j
    using 1(2) by (simp_all add: ctx_wf_def context_ok_def)
  show ?case
    using 1 upd nudge_wf [OF 1(2)] nudge_wf [OF 1(3)] by (subst join.simps) (simp add: Let_def)
qed

lemma escapeAction_returns:
  assumes "ctx_wf c"
  shows "\<exists>c' s. escapeAction c d line node = Inr (c', s) \<and> ctx_wf c'"
proof (cases d)
  case False
  have wf: "ctx_wf (nudge c)" using nudge_wf [OF assms] .
  have url: "\<exists>r. url_sanitizers (nudge c) line node = r \<and> (\<forall>e. r = Inl e \<longrightarrow> ctx_wf e)"
    by (auto simp: url_sanitizers_def Let_def split: urlPart.splits)
  have "ctx_state (nudge c) \<notin> {stateAfterName, stateBeforeValue}"
    by (cases "ctx_state c"; cases "ctx_attr c") (simp_all add: nudge_def)
  then have "\<exists>r. state_sanitizers (nudge c) line node = Inr r \<and>
      (case r of Inl e \<Rightarrow> ctx_wf e | Inr (c', s) \<Rightarrow> ctx_wf c')"
    using wf url
    by (cases "ctx_state (nudge c)")
      (auto simp: state_sanitizers_def Let_def ctx_wf_def context_ok_def value_states_def split: sum.splits)
  then obtain r where r: "state_sanitizers (nudge c) line node = Inr r"
    "case r of Inl e \<Rightarrow> ctx_wf e | Inr (c', s) \<Rightarrow> ctx_wf c'" by blast
  show ?thesis
  proof (cases r)
    case (Inr y)
    then show ?thesis using False r by (cases y) (simp add: escapeAction_def)
  qed (use False r in \<open>simp add: escapeAction_def\<close>)
qed (use assms in \<open>simp add: escapeAction_def\<close>)

lemma escapeText_ends:
  assumes "ctx_wf c" "lower_fits ul s"
  shows "\<exists>c' edited. escapeText ul uu unescape c s = Some (Inr (c', edited)) \<and> ctx_wf c'"
proof -
  obtain c' w b where "escapeText_loop ul uu unescape s c 0 0 [] = Some (Inr (c', w, b))" "ctx_wf c'" "w \<le> length s"
    using escapeText_loop_returns [OF assms, of 0 0] by blast
  then show ?thesis by (auto simp: escapeText_def)
qed

section \<open>Errors\<close>

lemma join_error: "ctx_state (join a b line name) \<noteq> stateError \<Longrightarrow> ctx_state a \<noteq> stateError \<and> ctx_state b \<noteq> stateError"
  by (subst (asm) join.simps) (auto split: if_splits)

lemma text_error:
  assumes "ctx_wf c" "ctx_state c = stateError"
  shows "escapeText ul uu unescape c s = Some (Inr (c, None))"
proof -
  have c: "ctx_delim c = delimNone" "ctx_element c = elementNone" using assms by (auto simp: ctx_wf_def value_states_def)
  have "escapeText_loop ul uu unescape s c i 0 [] = Some (Inr (c, 0, []))" if "i \<in> {0, length s}" for i
  proof (cases "i = length s")
    case True
    then show ?thesis by (subst escapeText_loop.simps) simp
  next
    case False
    then have "i = 0" "s \<noteq> []" using that by auto
    moreover have "contextAfterText ul unescape c s = Some (Inr (c, length s))"
      using c assms(2) \<open>s \<noteq> []\<close> by (simp add: contextAfterText_def tSpecialTagEnd_def tError_def)
    moreover have "text_body uu s c c 0 (length s) 0 [] = Inr (0, [])"
      using assms(2) \<open>s \<noteq> []\<close> by (simp add: text_body_def edit_text_def edit_comment_def)
    moreover have "escapeText_loop ul uu unescape s c (length s) 0 [] = Some (Inr (c, 0, []))"
      by (subst escapeText_loop.simps) simp
    ultimately show ?thesis by (subst escapeText_loop.simps) simp
  qed
  from this [of 0] show ?thesis by (simp add: escapeText_def)
qed

lemma nudge_error: "ctx_state (nudge c) = stateError \<longleftrightarrow> ctx_state c = stateError"
proof -
  have "attrStartStates a \<noteq> stateError" for a by (cases a) simp_all
  then show ?thesis by (cases "ctx_state c") (simp_all add: nudge_def)
qed

lemma url_sanitizers_error: "url_sanitizers c line node = Inl e \<Longrightarrow> ctx_state e = stateError"
  by (auto simp: url_sanitizers_def Let_def split: urlPart.splits)

lemma escapeAction_safe:
  assumes r: "escapeAction c d line node = Inr (c', s)" and ok: "ctx_state c' \<noteq> stateError"
  shows "ctx_state c \<noteq> stateError" "\<not> d \<Longrightarrow> \<exists>s'. s = Some s'"
proof -
  have "ctx_state c \<noteq> stateError \<and> (\<not> d \<longrightarrow> (\<exists>s'. s = Some s'))"
  proof (cases d)
    case False
    obtain x where x: "state_sanitizers (nudge c) line node = Inr x" using r False by (auto simp: escapeAction_def)
    show ?thesis
    proof (cases x)
      case (Inl e)
      then have "ctx_state e = stateError"
        using x url_sanitizers_error by (auto simp: state_sanitizers_def Let_def split: state.splits sum.splits if_splits)
      then show ?thesis using r x Inl False ok by (simp add: escapeAction_def)
    next
      case (Inr y)
      then have "ctx_state (nudge c) \<noteq> stateError" using x by (auto simp: state_sanitizers_def)
      then show ?thesis using r x Inr False by (cases y) (auto simp: escapeAction_def nudge_error)
    qed
  qed (use r ok in \<open>auto simp: escapeAction_def\<close>)
  then show "ctx_state c \<noteq> stateError" "\<not> d \<Longrightarrow> \<exists>s'. s = Some s'" by auto
qed

section \<open>Trees\<close>

text \<open>The texts of the nodes and the templates they call.\<close>

fun node_texts :: "node \<Rightarrow> string list" and list_texts :: "node list \<Rightarrow> string list" where
  "node_texts (TextNode t) = [t]"
| "node_texts (ListNode ns) = list_texts ns"
| "node_texts (BranchNode b line p ns es) = list_texts ns @ (case es of None \<Rightarrow> [] | Some es \<Rightarrow> list_texts es)"
| "node_texts (BlockNode line name p ns) = list_texts ns"
| "node_texts (FillNode line name p ns) = list_texts ns"
| "node_texts (ActionNode line p) = []"
| "node_texts (TemplateNode line name p) = []"
| "node_texts endNode = []"
| "node_texts (elseNode line) = []"
| "list_texts [] = []"
| "list_texts (n # ns) = node_texts n @ list_texts ns"

fun node_calls :: "node \<Rightarrow> string list" and list_calls :: "node list \<Rightarrow> string list" where
  "node_calls (TextNode t) = []"
| "node_calls (ListNode ns) = list_calls ns"
| "node_calls (BranchNode b line p ns es) = list_calls ns @ (case es of None \<Rightarrow> [] | Some es \<Rightarrow> list_calls es)"
| "node_calls (BlockNode line name p ns) = list_calls ns"
| "node_calls (FillNode line name p ns) = list_calls ns"
| "node_calls (ActionNode line p) = []"
| "node_calls (TemplateNode line name p) = [name]"
| "node_calls endNode = []"
| "node_calls (elseNode line) = []"
| "list_calls [] = []"
| "list_calls (n # ns) = node_calls n @ list_calls ns"

text \<open>A template under its name, with text that fits and calls of templates in \<open>N\<close> only.\<close>

definition define_wf :: "esc_env \<Rightarrow> string set \<Rightarrow> string \<Rightarrow> DefineNode \<Rightarrow> bool" where
  "define_wf env N name t \<longleftrightarrow> def_Name t = name \<and> (\<forall>s \<in> set (list_texts (def_List t)). lower_fits (ee_lower env) s) \<and>
     set (list_calls (def_List t)) \<subseteq> N"

definition tree_wf :: "esc_env \<Rightarrow> string set \<Rightarrow> Tree \<Rightarrow> bool" where
  "tree_wf env N tree \<longleftrightarrow> (\<forall>name t. tree name = Some t \<longrightarrow> define_wf env N name t)"

text \<open>The names templates have in error contexts. They are \<open>clean\<close> if no other context gives such a name, as when
  no name has a dollar sign.\<close>

definition error_names :: "string set \<Rightarrow> string set" where
  "error_names N = {mangle c n |c n. ctx_state c = stateError \<and> n \<in> N}"

definition clean :: "string set \<Rightarrow> bool" where
  "clean N \<longleftrightarrow> (\<forall>c n. n \<in> N \<longrightarrow> mangle c n \<in> error_names N \<longrightarrow> ctx_state c = stateError)"

text \<open>The context \<open>c'\<close> is well formed and does not lose an error of \<open>c\<close>.\<close>

definition follows :: "string set \<Rightarrow> Context \<Rightarrow> Context \<Rightarrow> bool" where
  "follows N c c' \<longleftrightarrow> ctx_wf c' \<and> (clean N \<longrightarrow> ctx_state c = stateError \<longrightarrow> ctx_state c' = stateError)"

lemma follows_refl [simp]: "ctx_wf c \<Longrightarrow> follows N c c"
  by (simp add: follows_def)

lemma follows_trans: "follows N c c' \<Longrightarrow> follows N c' c'' \<Longrightarrow> follows N c c''"
  by (simp add: follows_def)

definition esc_wf :: "esc_env \<Rightarrow> string set \<Rightarrow> escaper \<Rightarrow> bool" where
  "esc_wf env N e \<longleftrightarrow> tree_wf env N (esc_tmpl e) \<and> (\<forall>(k, t) \<in> set (esc_derived e). define_wf env N k t) \<and>
     (\<forall>c \<in> ran (esc_output e). ctx_wf c) \<and>
     (clean N \<longrightarrow> (\<forall>k c. esc_output e k = Some c \<longrightarrow> k \<in> error_names N \<longrightarrow> ctx_state c = stateError))"

section \<open>The contract of a step\<close>

text \<open>A step from the escaper \<open>e\<close> returns, perhaps with a panic; without one the escaper stays well formed
  and knows at least the outputs it knew.\<close>

definition okX :: "esc_env \<Rightarrow> string set \<Rightarrow> escaper \<Rightarrow> ('a \<Rightarrow> bool) \<Rightarrow> 'a esc \<Rightarrow> bool" where
  "okX env N e P m \<longleftrightarrow> (\<exists>r. m = Some r \<and> (\<forall>x e'. r = Inr (x, e') \<longrightarrow>
     esc_wf env N e' \<and> dom (esc_output e) \<subseteq> dom (esc_output e') \<and> P x))"

lemma okX_panic [simp]: "okX env N e P (Some (Inl p))"
  by (simp add: okX_def)

lemma okX_ret: "esc_wf env N e' \<Longrightarrow> dom (esc_output e) \<subseteq> dom (esc_output e') \<Longrightarrow> P x \<Longrightarrow> okX env N e P (ret x e')"
  by (simp add: okX_def ret_def)

lemma okX_bind:
  assumes "okX env N e P m"
    and "\<And>x e'. esc_wf env N e' \<Longrightarrow> dom (esc_output e) \<subseteq> dom (esc_output e') \<Longrightarrow> P x \<Longrightarrow> okX env N e Q (f x e')"
  shows "okX env N e Q (bindX m f)"
proof -
  from assms(1) obtain r where r: "m = Some r" "\<And>x e'. r = Inr (x, e') \<Longrightarrow>
      esc_wf env N e' \<and> dom (esc_output e) \<subseteq> dom (esc_output e') \<and> P x" by (auto simp: okX_def)
  show ?thesis
  proof (cases r)
    case (Inr y)
    then show ?thesis using r assms(2) by (cases y) simp
  qed (simp add: r)
qed

lemma okX_weaken: "okX env N e' P m \<Longrightarrow> dom (esc_output e) \<subseteq> dom (esc_output e') \<Longrightarrow> (\<And>x. P x \<Longrightarrow> Q x) \<Longrightarrow> okX env N e Q m"
  by (fastforce simp: okX_def)

lemma edits_ok:
  assumes "esc_wf env N e" "dom (esc_output e0) \<subseteq> dom (esc_output e)"
  shows "okX env N e0 (\<lambda>_. True) (editActionNode n s e)" "okX env N e0 (\<lambda>_. True) (editTemplateNode n name e)"
    "okX env N e0 (\<lambda>_. True) (editTextNode n t e)"
  using assms by (auto simp: editActionNode_def editTemplateNode_def editTextNode_def esc_wf_def intro!: okX_ret)

lemma each_ok:
  assumes "\<And>k v e'. esc_wf env N e' \<Longrightarrow> dom (esc_output e0) \<subseteq> dom (esc_output e') \<Longrightarrow> okX env N e0 (\<lambda>_. True) (f k v e')"
  shows "esc_wf env N e \<Longrightarrow> dom (esc_output e0) \<subseteq> dom (esc_output e) \<Longrightarrow> okX env N e0 (\<lambda>_. True) (each f kvs e)"
proof (induction kvs arbitrary: e)
  case (Cons kv kvs)
  then show ?case using assms by (cases kv) (auto intro!: okX_bind)
qed (simp add: okX_ret)

lemma set_put_all: "set (put_all new old) \<subseteq> set new \<union> set old"
proof (induction new arbitrary: old)
  case (Cons kv new)
  have "set (AList.update k v al) \<subseteq> insert (k, v) (set al)" for k v and al :: "('a \<times> 'b) list"
    by (induction al) auto
  then show ?case using Cons [of "AList.update (fst kv) (snd kv) old"] by (cases kv) (fastforce simp: put_all_def)
qed (simp add: put_all_def)

lemma merge_trial_ok:
  assumes "esc_wf env N e" "esc_wf env N e1"
  shows "okX env N e (\<lambda>_. True) (merge_trial e e1)"
proof -
  let ?e = "e\<lparr>esc_output := esc_output e ++ esc_output e1, esc_derived := put_all (esc_derived e1) (esc_derived e),
    esc_called := esc_called e \<union> esc_called e1\<rparr>"
  have wf: "esc_wf env N ?e"
    using assms set_put_all [of "esc_derived e1" "esc_derived e"] by (fastforce simp: esc_wf_def ran_def map_add_Some_iff)
  have texts: "okX env N e (\<lambda>_. True) (each editTextNode (esc_textEdits e1) e3)"
    if "esc_wf env N e3" "dom (esc_output e) \<subseteq> dom (esc_output e3)" for e3
    by (rule each_ok [OF edits_ok(3)]) (use that in auto)
  have templates: "okX env N e (\<lambda>_. True) (bindX (each editTemplateNode (esc_templateEdits e1) e2)
      (\<lambda>_ e. each editTextNode (esc_textEdits e1) e))"
    if "esc_wf env N e2" "dom (esc_output e) \<subseteq> dom (esc_output e2)" for e2
    by (rule okX_bind [OF each_ok [OF edits_ok(2)]]) (use that texts in auto)
  show ?thesis
    unfolding merge_trial_def
    by (rule okX_bind [OF each_ok [OF edits_ok(1)]]) (use wf templates in auto)
qed

text \<open>The escaping of a called template, once the outputs of the templates in \<open>D\<close> are known.\<close>

locale tree_step =
  fixes env :: esc_env and N D :: "string set" and et :: escape_tree
  assumes et_ok: "esc_wf env N e \<Longrightarrow> D \<subseteq> dom (esc_output e) \<Longrightarrow> ctx_wf c \<Longrightarrow> name \<in> N \<Longrightarrow>
    okX env N e (\<lambda>r. follows N c (fst r)) (et c name line e)"
begin

lemma escapeTemplateNode_ok:
  assumes "esc_wf env N e" "D \<subseteq> dom (esc_output e)" "ctx_wf c" "name \<in> N"
  shows "okX env N e (follows N c) (escapeTemplateNode et c n line name e)"
  unfolding escapeTemplateNode_def
  by (rule okX_bind [OF et_ok [OF assms]]) (auto intro!: okX_bind [OF edits_ok(2)] okX_ret)

lemma escapeActionNode_ok:
  assumes "esc_wf env N e" "ctx_wf c"
  shows "okX env N e (follows N c) (escapeActionNode env c n line p e)"
proof -
  obtain c' s where r: "escapeAction c (pipe_Decl p \<noteq> []) line (tnode_String (ee_quote env) (ActionNode line p)) = Inr (c', s)"
    "ctx_wf c'" using escapeAction_returns [OF assms(2)] by blast
  then have "follows N c c'" using escapeAction_safe(1) [OF r(1)] by (auto simp: follows_def)
  then show ?thesis
    using assms(1) r unfolding escapeActionNode_def
    by (cases s) (auto intro!: okX_ret okX_bind [OF edits_ok(1)])
qed

lemma escapeTextNode_ok:
  assumes "esc_wf env N e" "ctx_wf c" "lower_fits (ee_lower env) t"
  shows "okX env N e (follows N c) (escapeTextNode env c n t e)"
proof -
  obtain c' b where r: "escapeText (ee_lower env) (ee_upper env) (ee_unescape env) c t = Some (Inr (c', b))" "ctx_wf c'"
    using escapeText_ends [OF assms(2,3)] by blast
  then have "follows N c c'" using text_error [OF assms(2)] by (auto simp: follows_def)
  then show ?thesis
    using assms(1) r unfolding escapeTextNode_def liftX_def
    by (cases b) (auto intro!: okX_ret okX_bind [OF edits_ok(3)])
qed

lemma trial_wf: "esc_wf env N e \<Longrightarrow> esc_wf env N (trial e)" "esc_output (trial e) = esc_output e"
  by (auto simp: esc_wf_def trial_def newEscaper_def tree_wf_def)

lemma range_error_wf: "ctx_wf c \<Longrightarrow> ctx_state c = stateError \<Longrightarrow> ctx_wf (range_error line c)"
  by (auto simp: ctx_wf_def range_error_def context_ok_def)

definition fits :: "node list \<Rightarrow> bool" where
  "fits ns \<longleftrightarrow> (\<forall>s \<in> set (list_texts ns). lower_fits (ee_lower env) s) \<and> set (list_calls ns) \<subseteq> N"

lemma join_follows: "follows N c a \<Longrightarrow> follows N d b \<Longrightarrow> follows N c (join a b line name)"
  using join_wf join_error [of a b line name] by (auto simp: follows_def)

lemma range_error_follows: "follows N c a \<Longrightarrow> ctx_state a = stateError \<Longrightarrow> follows N c (range_error line a)"
  using range_error_wf by (auto simp: follows_def range_error_def)

definition node_ok :: "node \<Rightarrow> bool" where
  "node_ok n \<longleftrightarrow> (\<forall>c a e. esc_wf env N e \<longrightarrow> D \<subseteq> dom (esc_output e) \<longrightarrow> ctx_wf c \<longrightarrow> fits [n] \<longrightarrow>
     okX env N e (follows N c) (escape env et c a n e))"

lemma escapeList_ok:
  assumes "\<forall>n \<in> set ns. node_ok n" "fits ns"
  shows "esc_wf env N e \<Longrightarrow> D \<subseteq> dom (esc_output e) \<Longrightarrow> ctx_wf c \<Longrightarrow>
    okX env N e (follows N c) (escapeList env et c tname path k ns e)"
  using assms
proof (induction ns arbitrary: c k e)
  case (Cons n ns)
  have f: "fits [n]" "fits ns" using Cons.prems(5) by (auto simp: fits_def)
  have "okX env N e (follows N c) (escape env et c (tname, path @ [k]) n e)"
    using Cons.prems f(1) by (auto simp: node_ok_def)
  then show ?case unfolding escapeList.simps
  proof (rule okX_bind)
    fix c' e'
    assume e': "esc_wf env N e'" "dom (esc_output e) \<subseteq> dom (esc_output e')" "follows N c c'"
    show "okX env N e (follows N c) (escapeList env et c' tname path (k + 1) ns e')"
      by (rule okX_weaken [OF Cons.IH e'(2)]) (use e' Cons.prems f follows_trans in \<open>auto simp: follows_def\<close>)
  qed
qed (simp add: okX_ret)

lemma escapeBranch_ok:
  assumes ns: "\<forall>n \<in> set ns. node_ok n" "fits ns" and es: "\<forall>es'. es = Some es' \<longrightarrow> (\<forall>n \<in> set es'. node_ok n) \<and> fits es'"
    and e: "esc_wf env N e" "D \<subseteq> dom (esc_output e)" "ctx_wf c"
  shows "okX env N e (follows N c) (escape env et c a (BranchNode b line p ns es) e)"
  unfolding escape.simps
proof (rule okX_bind [OF escapeList_ok [OF ns e]], goal_cases)
  case (1 c0 e0)
  have again: "okX env N e (\<lambda>r. follows N c (snd r)) (if b = NodeRange \<and> ctx_state c0 \<noteq> stateError
      then (case escapeList env et c0 (fst a) (snd a @ [0]) 0 ns (trial e0) of
              None \<Rightarrow> None
            | Some (Inl p) \<Rightarrow> Some (Inl p)
            | Some (Inr (c1, _)) \<Rightarrow> ret (True, join c0 c1 line (branch_name b)) e0)
      else ret (False, c0) e0)"
  proof -
    have "okX env N (trial e0) (follows N c0) (escapeList env et c0 (fst a) (snd a @ [0]) 0 ns (trial e0))"
      by (rule escapeList_ok [OF ns]) (use 1 e trial_wf in \<open>auto simp: follows_def\<close>)
    then show ?thesis using 1 by (auto simp: okX_def ret_def join_follows split: sum.split)
  qed
  show ?case
  proof (rule okX_bind [OF again], goal_cases)
    case (1 x e1)
    then obtain tried c1 where x: "x = (tried, c1)" "follows N c c1" by (cases x) simp
    have els: "okX env N e (follows N c) (case es of None \<Rightarrow> ret c e1 | Some es \<Rightarrow> escapeList env et c (fst a) (snd a @ [1]) 0 es e1)"
    proof (cases es)
      case None
      then show ?thesis using 1 e by (simp add: okX_ret)
    next
      case (Some es')
      have "okX env N e1 (follows N c) (escapeList env et c (fst a) (snd a @ [1]) 0 es' e1)"
        by (rule escapeList_ok) (use Some es 1 e in auto)
      then show ?thesis using Some okX_weaken [OF _ 1(2)] by simp
    qed
    show ?case
      unfolding x(1) prod.case
      using 1 x(2) okX_bind [OF els, of "follows N c" "\<lambda>c2 e2. ret (join c1 c2 line (branch_name b)) e2"]
      by (auto intro!: okX_ret range_error_follows join_follows)
  qed
qed

lemma all_nodes_ok: "node_ok n"
proof (induction n)
  case (BranchNode b line p ns es)
  show ?case
    unfolding node_ok_def
  proof (intro allI impI)
    fix c a e
    assume a: "esc_wf env N e" "D \<subseteq> dom (esc_output e)" "ctx_wf c" "fits [BranchNode b line p ns es]"
    then have "fits ns" "\<forall>es'. es = Some es' \<longrightarrow> fits es'" by (auto simp: fits_def)
    then show "okX env N e (follows N c) (escape env et c a (BranchNode b line p ns es) e)"
      using BranchNode a(1-3) by (intro escapeBranch_ok) auto
  qed
qed (auto simp: node_ok_def fits_def escapeActionNode_ok escapeTextNode_ok escapeTemplateNode_ok
    intro!: escapeList_ok [unfolded node_ok_def fits_def])

lemma escapeTemplateBody_ok:
  assumes e: "esc_wf env N e" "D \<subseteq> insert (def_Name t) (dom (esc_output e))" "ctx_wf c" and t: "fits (def_List t)"
    "clean N \<longrightarrow> def_Name t \<in> error_names N \<longrightarrow> ctx_state c = stateError"
  shows "okX env N e (\<lambda>r. follows N c (fst r)) (escapeTemplateBody env et c t e)"
proof -
  let ?e = "e\<lparr>esc_output := (esc_output e)(def_Name t \<mapsto> c)\<rparr>"
  have wf: "esc_wf env N ?e" using e t(2) by (auto simp: esc_wf_def ran_def)
  have "okX env N (trial ?e) (follows N c) (escapeList env et c (def_Name t) [] 0 (def_List t) (trial ?e))"
    by (rule escapeList_ok) (use e wf t trial_wf all_nodes_ok in auto)
  then obtain r where r: "escapeList env et c (def_Name t) [] 0 (def_List t) (trial ?e) = Some r"
    "\<And>c1 e1. r = Inr (c1, e1) \<Longrightarrow> esc_wf env N e1 \<and> follows N c c1" by (auto simp: okX_def)
  show ?thesis
  proof (cases r)
    case (Inl p)
    then show ?thesis using r(1) by (simp add: escapeTemplateBody_def escapeListConditionally_def)
  next
    case (Inr y)
    then obtain c1 e1 where y: "r = Inr (c1, e1)" by (cases y) simp
    have "okX env N e (\<lambda>_. True) (merge_trial ?e e1)" using merge_trial_ok [OF wf, of e1] r(2) [OF y]
      by (auto elim!: okX_weaken)
    then show ?thesis
      using r y wf unfolding escapeTemplateBody_def escapeListConditionally_def
      by (auto intro!: okX_ret okX_bind)
  qed
qed

lemma computeOutCtx_ok:
  assumes e: "esc_wf env N e" "D \<subseteq> insert (def_Name t) (dom (esc_output e))" "ctx_wf c" and t: "fits (def_List t)"
    "clean N \<longrightarrow> def_Name t \<in> error_names N \<longrightarrow> ctx_state c = stateError"
  shows "okX env N e (follows N c) (computeOutCtx env et c t e)"
  unfolding computeOutCtx_def
proof (rule okX_bind [OF escapeTemplateBody_ok [OF e t]], goal_cases)
  case (1 r e1)
  obtain c1 ok where r: "r = (c1, ok)" by fastforce
  have "okX env N e (\<lambda>r. follows N c (fst r)) (bindX (escapeTemplateBody env et c1 t e1) (\<lambda>(c2, ok2) e.
      ret (if ok2 then (c2, True) else (c1, False)) e))"
  proof (rule okX_bind)
    show "okX env N e (\<lambda>r. follows N c (fst r)) (escapeTemplateBody env et c1 t e1)"
    proof (rule okX_weaken [OF escapeTemplateBody_ok 1(2)])
      show "\<And>r2. follows N c1 (fst r2) \<Longrightarrow> follows N c (fst r2)" using 1(3) r by (auto intro: follows_trans)
      show "D \<subseteq> insert (def_Name t) (dom (esc_output e1))" using e(2) 1(2) by blast
    qed (use 1 r e t in \<open>auto simp: follows_def\<close>)
  qed (use 1 r in \<open>auto intro!: okX_ret\<close>)
  then have "okX env N e (\<lambda>r. follows N c (fst r)) (if ok then ret (c1, True) e1
      else bindX (escapeTemplateBody env et c1 t e1) (\<lambda>(c2, ok2) e. ret (if ok2 then (c2, True) else (c1, False)) e))"
    using 1 r by (simp add: okX_ret)
  then show ?case unfolding r prod.case by (rule okX_bind) (auto intro!: okX_ret simp: follows_def)
qed

end

section \<open>Calls\<close>

lemma derive_ok:
  assumes e: "esc_wf env N e" and t: "lookup_template e name = Some t"
  shows "okX env N e (\<lambda>t. define_wf env N dname t) (derive t name dname e)"
proof -
  have wf: "define_wf env N n u" if "lookup_template e n = Some u" for n u
    using that e by (auto simp: lookup_template_def esc_wf_def tree_wf_def dest: map_of_SomeD split: option.splits)
  have copy: "define_wf env N dname ((CopyDefine t)\<lparr>def_Name := dname\<rparr>)"
    using wf [OF t] by (simp add: define_wf_def CopyDefine_def CopyList_eq)
  then have "esc_wf env N (e\<lparr>esc_derived := esc_derived e @ [(dname, (CopyDefine t)\<lparr>def_Name := dname\<rparr>)]\<rparr>)"
    using e by (auto simp: esc_wf_def)
  then show ?thesis
    using e wf [OF t] wf copy by (auto simp: derive_def Let_def intro!: okX_ret split: option.split)
qed

text \<open>The names templates called \<open>N\<close> are escaped under are finitely many, since the name for a context does not
  mention its error.\<close>

lemma finite_contexts: "finite {c :: Context. ctx_err c = None}"
proof -
  have fin: "finite (UNIV :: state set)" "finite (UNIV :: delim set)" "finite (UNIV :: urlPart set)" "finite (UNIV :: jsCtx set)"
    "finite (UNIV :: attr set)" "finite (UNIV :: element set)"
  proof -
    have "(UNIV :: state set) = {stateText, stateTag, stateAttrName, stateAfterName, stateBeforeValue, stateHTMLCmt, stateRCDATA,
        stateAttr, stateURL, stateJS, stateJSDqStr, stateJSSqStr, stateJSRegexp, stateJSBlockCmt, stateJSLineCmt, stateCSS,
        stateCSSDqStr, stateCSSSqStr, stateCSSDqURL, stateCSSSqURL, stateCSSURL, stateCSSBlockCmt, stateCSSLineCmt, stateError}"
      using state.exhaust by auto
    then show "finite (UNIV :: state set)" by (metis finite.emptyI finite_insert)
    have "(UNIV :: delim set) = {delimNone, delimDoubleQuote, delimSingleQuote, delimSpaceOrTagEnd}" using delim.exhaust by auto
    then show "finite (UNIV :: delim set)" by (metis finite.emptyI finite_insert)
    have "(UNIV :: urlPart set) = {urlPartNone, urlPartPreQuery, urlPartQueryOrFrag, urlPartUnknown}" using urlPart.exhaust by auto
    then show "finite (UNIV :: urlPart set)" by (metis finite.emptyI finite_insert)
    have "(UNIV :: jsCtx set) = {jsCtxRegexp, jsCtxDivOp, jsCtxUnknown}" using jsCtx.exhaust by auto
    then show "finite (UNIV :: jsCtx set)" by (metis finite.emptyI finite_insert)
    have "(UNIV :: attr set) = {attrNone, attrScript, attrStyle, attrURL}" using attr.exhaust by auto
    then show "finite (UNIV :: attr set)" by (metis finite.emptyI finite_insert)
    have "(UNIV :: element set) = {elementNone, elementScript, elementStyle, elementTextarea, elementTitle}"
      using element.exhaust by auto
    then show "finite (UNIV :: element set)" by (metis finite.emptyI finite_insert)
  qed
  let ?f = "\<lambda>(s, d, u, j, a, el). \<lparr>ctx_state = s, ctx_delim = d, ctx_urlPart = u, ctx_jsCtx = j, ctx_attr = a, ctx_element = el,
    ctx_err = None\<rparr>"
  have "c \<in> range ?f" if "ctx_err c = None" for c :: Context
    using that by (intro range_eqI [of _ _ "(ctx_state c, ctx_delim c, ctx_urlPart c, ctx_jsCtx c, ctx_attr c, ctx_element c)"]) simp
  then have "{c :: Context. ctx_err c = None} \<subseteq> range ?f" by blast
  moreover have "finite (UNIV :: (state \<times> delim \<times> urlPart \<times> jsCtx \<times> attr \<times> element) set)"
    using fin by (simp add: finite_prod)
  ultimately show ?thesis by (meson finite_imageI finite_subset)
qed

definition derived_names :: "string set \<Rightarrow> string set" where
  "derived_names N = {mangle c n |c n. n \<in> N}"

lemma finite_derived_names: "finite N \<Longrightarrow> finite (derived_names N)"
proof -
  assume "finite N"
  have "derived_names N \<subseteq> (\<lambda>(c, n). mangle c n) ` ({c. ctx_err c = None} \<times> N)"
  proof
    fix x
    assume "x \<in> derived_names N"
    then obtain c n where x: "x = mangle c n" "n \<in> N" by (auto simp: derived_names_def)
    moreover have "mangle c n = mangle (c\<lparr>ctx_err := None\<rparr>) n" by (simp add: mangle_def)
    ultimately show "x \<in> (\<lambda>(c, n). mangle c n) ` ({c. ctx_err c = None} \<times> N)"
      by (intro image_eqI [of _ _ "(c\<lparr>ctx_err := None\<rparr>, n)"]) auto
  qed
  then show ?thesis using finite_contexts \<open>finite N\<close> finite_subset by blast
qed

lemma escapeTree_step:
  assumes "finite N"
  shows "card (derived_names N - D) < f \<Longrightarrow> tree_step env N D (escapeTree env f)"
proof (induction f arbitrary: D)
  case (Suc f)
  show ?case
  proof
    fix e c name line
    assume e: "esc_wf env N e" "D \<subseteq> dom (esc_output e)" "ctx_wf c" "name \<in> N"
    define e1 where "e1 = e\<lparr>esc_called := insert (mangle c name) (esc_called e)\<rparr>"
    let ?d = "mangle c name"
    have e1: "esc_wf env N e1" "esc_output e1 = esc_output e" using e(1) by (simp_all add: e1_def esc_wf_def)
    have new: "okX env N e (\<lambda>r. follows N c (fst r)) (bindX (derive t name ?d e1) (\<lambda>t e.
        bindX (computeOutCtx env (escapeTree env f) c t e) (\<lambda>c e. ret (c, ?d) e)))"
      if "esc_output e ?d = None" "lookup_template e1 name = Some t" for t
    proof -
      have "?d \<in> derived_names N - D" using e(2,4) that(1) by (auto simp: derived_names_def)
      then have "card (derived_names N - insert ?d D) < card (derived_names N - D)"
        using finite_derived_names [OF assms] by (intro psubset_card_mono) auto
      then have step: "tree_step env N (insert ?d D) (escapeTree env f)" using Suc by (intro Suc.IH) simp
      have d: "okX env N e (\<lambda>t. define_wf env N ?d t) (derive t name ?d e1)"
        by (rule okX_weaken [OF derive_ok [OF e1(1) that(2)]]) (simp_all add: e1(2))
      show ?thesis
      proof (rule okX_bind [OF d])
        fix t' e'
        assume e': "esc_wf env N e'" "dom (esc_output e) \<subseteq> dom (esc_output e')" "define_wf env N ?d t'"
        have "okX env N e' (follows N c) (computeOutCtx env (escapeTree env f) c t' e')"
        proof (rule tree_step.computeOutCtx_ok [OF step e'(1) _ e(3)])
          have name: "def_Name t' = ?d" using e'(3) by (simp add: define_wf_def)
          moreover have "D \<subseteq> dom (esc_output e')" using e(2) e'(2) by (rule subset_trans)
          ultimately show "insert ?d D \<subseteq> insert (def_Name t') (dom (esc_output e'))" by (simp add: insert_mono subset_insertI2)
          show "clean N \<longrightarrow> def_Name t' \<in> error_names N \<longrightarrow> ctx_state c = stateError"
            unfolding name clean_def using e(4) by blast
          show "tree_step.fits env N (def_List t')" using e'(3) by (simp add: define_wf_def tree_step.fits_def [OF step])
        qed
        then have "okX env N e (follows N c) (computeOutCtx env (escapeTree env f) c t' e')" using e'(2) okX_weaken by blast
        then show "okX env N e (\<lambda>r. follows N c (fst r)) (bindX (computeOutCtx env (escapeTree env f) c t' e') (\<lambda>c e. ret (c, ?d) e))"
          by (rule okX_bind) (simp add: okX_ret)
      qed
    qed
    have known: "follows N c out" if "esc_output e ?d = Some out" for out
      using e(1,4) that by (fastforce simp: esc_wf_def ran_def follows_def error_names_def)
    have error: "follows N c (error_context er)" for er by (simp add: follows_def)
    show "okX env N e (\<lambda>r. follows N c (fst r)) (escapeTree env (Suc f) c name line e)"
      using new known e1 error unfolding escapeTree.simps Let_def e1_def [symmetric]
      by (auto intro!: okX_ret split: option.split)
  qed
qed simp

text \<open>Fuel for every name under which a template can be escaped, and more.\<close>

interpretation calls: tree_step env "set names" "{}" "escapeTree env (Suc (card (derived_names (set names)) + k))"
  for env names k
  by (rule escapeTree_step) simp_all

lemma escape_all_ok:
  assumes step: "tree_step env N {} (escapeTree env f)" and names: "set names \<subseteq> N"
  shows "esc_wf env N e \<Longrightarrow> okX env N e (\<lambda>_. True) (escape_all env f names e)"
  using names
proof (induction names arbitrary: e)
  case (Cons name names)
  have "okX env N e (\<lambda>r. follows N context0 (fst r)) (escapeTree env f context0 name 0 e)"
    using tree_step.et_ok [OF step Cons.prems(1), of context0 name 0] Cons.prems(2) by simp
  then show ?case
    unfolding escape_all.simps
  proof (rule okX_bind)
    fix x e'
    assume e': "esc_wf env N e'" "dom (esc_output e) \<subseteq> dom (esc_output e')"
    have "okX env N e (\<lambda>_. True) (escape_all env f names e')"
      using okX_weaken [OF Cons.IH [OF e'(1)] e'(2)] Cons.prems(2) by auto
    then show "okX env N e (\<lambda>_. True) ((\<lambda>(c, _) e. case ctx_err c of
        Some err \<Rightarrow> ret (Some (err\<lparr>err_Name := name\<rparr>)) e
      | None \<Rightarrow> if ctx_state c \<noteq> stateText
          then ret (Some \<lparr>err_Code = ErrEndContext, err_Name = name, err_Line = 0,
                 err_Description = (''ends in a non-text context: %v'', [context_String c])\<rparr>) e
          else escape_all env f names e) x e')"
      using e' by (cases x) (auto intro!: okX_ret split: option.split)
  qed
qed (simp add: okX_ret)

text \<open>All the names the templates of a tree call, and their own.\<close>

definition tree_names :: "string list \<Rightarrow> Tree \<Rightarrow> string list" where
  "tree_names names tree = names @ concat (map (\<lambda>n. case tree n of None \<Rightarrow> [] | Some t \<Rightarrow> list_calls (def_List t)) names)"

definition tree_fits :: "esc_env \<Rightarrow> string list \<Rightarrow> Tree \<Rightarrow> bool" where
  "tree_fits env names tree \<longleftrightarrow> dom tree \<subseteq> set names \<and> (\<forall>name t. tree name = Some t \<longrightarrow> def_Name t = name \<and>
     (\<forall>s \<in> set (list_texts (def_List t)). lower_fits (ee_lower env) s))"

lemma newEscaper_wf:
  assumes "tree_fits env names tree"
  shows "esc_wf env (set (tree_names names tree)) (newEscaper tree)"
proof -
  have "set (list_calls (def_List t)) \<subseteq> set (tree_names names tree)" if "tree n = Some t" for n t
    using that assms by (fastforce simp: tree_names_def tree_fits_def split: option.splits)
  then show ?thesis using assms by (auto simp: esc_wf_def newEscaper_def tree_wf_def define_wf_def tree_fits_def)
qed

text \<open>Fuel for a tree: one more than the names under which its templates can be escaped.\<close>

definition enough :: "string list \<Rightarrow> Tree \<Rightarrow> nat" where
  "enough names tree = Suc (card (derived_names (set (tree_names names tree))))"



end
