(* ===== verification/Escape_Tree_Fuel.thy ===== *)
theory Escape_Tree_Fuel
  imports Escape_Tree
begin

text \<open>
  More fuel gives the same answer: the escaping of a tree is monotone in the escaping of the templates it
  calls, for the order in which no answer is below every answer.
\<close>

definition below :: "'a option \<Rightarrow> 'a option \<Rightarrow> bool" where
  "below m m' \<longleftrightarrow> m = None \<or> m' = m"

lemma below_refl [simp]: "below m m"
  by (simp add: below_def)

lemma below_Some: "below m m' \<Longrightarrow> m = Some r \<Longrightarrow> m' = Some r"
  by (simp add: below_def)

lemma below_bindX:
  assumes "below m m'" "\<And>x e. below (f x e) (f' x e)"
  shows "below (bindX m f) (bindX m' f')"
  using assms by (cases m) (auto simp: below_def bindX_def split: sum.split)

lemma below_case:
  assumes "below m m'" "\<And>p. below (f p) (f' p)"
  shows "below (case m of None \<Rightarrow> None | Some r \<Rightarrow> f r) (case m' of None \<Rightarrow> None | Some r \<Rightarrow> f' r)"
  using assms by (cases m) (auto simp: below_def)

lemma below_branch:
  assumes ns: "\<And>c e. below (escapeList env et c (fst a) (snd a @ [0]) 0 ns e) (escapeList env et' c (fst a) (snd a @ [0]) 0 ns e)"
    and es: "\<And>c e es'. es = Some es' \<Longrightarrow>
      below (escapeList env et c (fst a) (snd a @ [1]) 0 es' e) (escapeList env et' c (fst a) (snd a @ [1]) 0 es' e)"
  shows "below (escape env et c a (BranchNode b line p ns es) e) (escape env et' c a (BranchNode b line p ns es) e)"
  unfolding escape.simps
proof (rule below_bindX [OF ns], rule below_bindX, goal_cases)
  case (1 c0 e0)
  show ?case using ns [of c0 "trial e0"] by (auto intro!: below_case)
next
  case (2 c0 e0 x e1)
  show ?case using es by (auto intro!: below_bindX split: prod.split option.split)
qed

lemma below_escape:
  assumes et: "\<And>c name line e. below (et c name line e) (et' c name line e)"
  shows "below (escape env et c a n e) (escape env et' c a n e)"
proof (induction n arbitrary: c a e)
  have list: "below (escapeList env et c tname path k ns e) (escapeList env et' c tname path k ns e)"
    if "\<And>n c a e. n \<in> set ns \<Longrightarrow> below (escape env et c a n e) (escape env et' c a n e)" for c tname path k ns e
    using that by (induction ns arbitrary: c k e) (auto intro!: below_bindX)
  {
    case (BranchNode b line p ns es)
    show ?case
    proof (rule below_branch)
      show "below (escapeList env et c (fst a) (snd a @ [0]) 0 ns e) (escapeList env et' c (fst a) (snd a @ [0]) 0 ns e)" for c e
        by (rule list) (use BranchNode in auto)
      show "below (escapeList env et c (fst a) (snd a @ [1]) 0 es' e) (escapeList env et' c (fst a) (snd a @ [1]) 0 es' e)"
        if "es = Some es'" for c e es' by (rule list) (use BranchNode that in auto)
    qed
  next
    case (TemplateNode line name p)
    show ?case using et by (auto simp: escapeTemplateNode_def intro!: below_bindX)
  next
    case (ListNode ns)
    then show ?case by (simp add: list)
  next
    case (BlockNode line name p ns)
    then show ?case by (simp add: list)
  next
    case (FillNode line name p ns)
    then show ?case by (simp add: list)
  }
qed simp_all

lemma below_escapeList:
  assumes "\<And>c name line e. below (et c name line e) (et' c name line e)"
  shows "below (escapeList env et c tname path k ns e) (escapeList env et' c tname path k ns e)"
  by (induction ns arbitrary: c k e) (auto intro!: below_bindX below_escape assms)

lemma below_computeOutCtx:
  assumes "\<And>c name line e. below (et c name line e) (et' c name line e)"
  shows "below (computeOutCtx env et c t e) (computeOutCtx env et' c t e)"
proof -
  have body: "below (escapeTemplateBody env et c t e) (escapeTemplateBody env et' c t e)" for c e
    unfolding escapeTemplateBody_def escapeListConditionally_def
    by (auto intro!: below_case below_escapeList assms)
  show ?thesis unfolding computeOutCtx_def by (auto intro!: below_bindX body)
qed

lemma escapeTree_below: "below (escapeTree env f c name line e) (escapeTree env (f + k) c name line e)"
proof (induction f arbitrary: c name line e)
  case (Suc f)
  then show ?case by (auto simp: Let_def intro!: below_bindX below_computeOutCtx split: option.split)
qed (simp add: below_def)

lemma escape_all_below: "below (escape_all env f names e) (escape_all env (f + k) names e)"
  by (induction names arbitrary: e) (auto intro!: below_bindX escapeTree_below split: option.split)

lemma EscapeTree_more:
  assumes "EscapeTree env f names tree = Some r"
  shows "EscapeTree env (f + k) names tree = Some r"
proof -
  have "below (EscapeTree env f names tree) (EscapeTree env (f + k) names tree)"
    unfolding EscapeTree_def by (rule below_case [OF escape_all_below]) simp
  then show ?thesis using assms by (rule below_Some)
qed

end
