(* ===== verification/Escape_Tree_Safe.thy ===== *)
theory Escape_Tree_Safe
  imports Escape_Tree_Correct Escape_Tree_Fuel
begin

text \<open>
  What an accepted tree is worth: when the escaping of a tree succeeds, no action of a template is left
  unescaped. Errors are never lost on the way, and the trials whose edits are dropped are those that end in
  an error.
\<close>

section \<open>Actions\<close>

text \<open>The addresses of the actions that are no declarations.\<close>

fun node_actions :: "addr \<Rightarrow> node \<Rightarrow> addr list" and
    list_actions :: "string \<Rightarrow> nat list \<Rightarrow> nat \<Rightarrow> node list \<Rightarrow> addr list" where
  "node_actions a (ActionNode line p) = (if pipe_Decl p = [] then [a] else [])"
| "node_actions a (BranchNode b line p ns es) = list_actions (fst a) (snd a @ [0]) 0 ns @
     (case es of None \<Rightarrow> [] | Some es \<Rightarrow> list_actions (fst a) (snd a @ [1]) 0 es)"
| "node_actions a (ListNode ns) = list_actions (fst a) (snd a @ [0]) 0 ns"
| "node_actions a (BlockNode line name p ns) = list_actions (fst a) (snd a @ [0]) 0 ns"
| "node_actions a (FillNode line name p ns) = list_actions (fst a) (snd a @ [0]) 0 ns"
| "node_actions a (TextNode t) = []"
| "node_actions a (TemplateNode line name p) = []"
| "node_actions a endNode = []"
| "node_actions a (elseNode line) = []"
| "list_actions tname path k [] = []"
| "list_actions tname path k (n # ns) = node_actions (tname, path @ [k]) n @ list_actions tname path (k + 1) ns"

text \<open>The sanitizers of an action in some context.\<close>

definition sanitizers :: "string list \<Rightarrow> bool" where
  "sanitizers s \<longleftrightarrow> (\<exists>c line node c'. ctx_wf c \<and> escapeAction c False line node = Inr (c', Some s))"

lemma sanitizers_some: "sanitizers s \<Longrightarrow> s \<noteq> []"
proof -
  assume "sanitizers s"
  then obtain c line node c' where c: "ctx_wf c" "escapeAction c False line node = Inr (c', Some s)" by (auto simp: sanitizers_def)
  then obtain x where x: "state_sanitizers (nudge c) line node = Inr x" by (auto simp: escapeAction_def bindE_eq_Inr)
  then obtain t where t: "state_sanitizers (nudge c) line node = Inr (Inr (c', t))"
    "s = t @ (case ctx_delim c' of delimNone \<Rightarrow> [] | delimSpaceOrTagEnd \<Rightarrow> [''html_template_nospaceescaper'']
      | _ \<Rightarrow> [''html_template_attrescaper''])"
    using c by (cases x) (auto simp: escapeAction_def)
  have "t \<noteq> []" if "ctx_state (nudge c) \<noteq> stateAttr"
    using t(1) that by (auto simp: state_sanitizers_def url_sanitizers_def Let_def
      split: state.splits sum.splits if_splits urlPart.splits)
  moreover have "ctx_delim c' \<noteq> delimNone" if "ctx_state (nudge c) = stateAttr"
    using t(1) that nudge_wf [OF c(1)] by (auto simp: state_sanitizers_def ctx_wf_def)
  ultimately show ?thesis unfolding t(2) by (cases "ctx_state (nudge c) = stateAttr") (auto split: delim.split)
qed

definition edited :: "escaper \<Rightarrow> addr set" where
  "edited e = fst ` set (esc_actionEdits e)"

text \<open>What the escaper has gained from \<open>e\<close> to \<open>e'\<close>: the templates whose output is new, and those that are
  derived, have all their actions edited.\<close>

definition gain :: "escaper \<Rightarrow> escaper \<Rightarrow> bool" where
  "gain e e' \<longleftrightarrow> esc_tmpl e' = esc_tmpl e \<and> edited e \<subseteq> edited e' \<and>
     (\<forall>a s. (a, s) \<in> set (esc_actionEdits e') \<longrightarrow> (a, s) \<notin> set (esc_actionEdits e) \<longrightarrow> sanitizers s) \<and>
     (\<forall>name t. name \<in> dom (esc_output e') \<longrightarrow> name \<notin> dom (esc_output e) \<longrightarrow> esc_tmpl e name = Some t \<longrightarrow>
        set (list_actions name [] 0 (def_List t)) \<subseteq> edited e') \<and>
     (\<forall>name t. (name, t) \<in> set (esc_derived e') \<longrightarrow> (name, t) \<notin> set (esc_derived e) \<longrightarrow>
        set (list_actions name [] 0 (def_List t)) \<subseteq> edited e')"

lemma gain_refl [simp]: "gain e e"
  unfolding gain_def by blast

lemma gainD:
  assumes "gain e e'"
  shows "esc_tmpl e' = esc_tmpl e" "edited e \<subseteq> edited e'"
    "(a, s) \<in> set (esc_actionEdits e') \<Longrightarrow> (a, s) \<notin> set (esc_actionEdits e) \<Longrightarrow> sanitizers s"
    "name \<in> dom (esc_output e') \<Longrightarrow> name \<notin> dom (esc_output e) \<Longrightarrow> esc_tmpl e name = Some t \<Longrightarrow>
       set (list_actions name [] 0 (def_List t)) \<subseteq> edited e'"
    "(name, t) \<in> set (esc_derived e') \<Longrightarrow> (name, t) \<notin> set (esc_derived e) \<Longrightarrow>
       set (list_actions name [] 0 (def_List t)) \<subseteq> edited e'"
  using assms unfolding gain_def by blast+

lemma gainI:
  assumes "esc_tmpl e' = esc_tmpl e" "edited e \<subseteq> edited e'"
    "\<And>a s. (a, s) \<in> set (esc_actionEdits e') \<Longrightarrow> (a, s) \<notin> set (esc_actionEdits e) \<Longrightarrow> sanitizers s"
    "\<And>name t. name \<in> dom (esc_output e') \<Longrightarrow> name \<notin> dom (esc_output e) \<Longrightarrow> esc_tmpl e name = Some t \<Longrightarrow>
       set (list_actions name [] 0 (def_List t)) \<subseteq> edited e'"
    "\<And>name t. (name, t) \<in> set (esc_derived e') \<Longrightarrow> (name, t) \<notin> set (esc_derived e) \<Longrightarrow>
       set (list_actions name [] 0 (def_List t)) \<subseteq> edited e'"
  shows "gain e e'"
  using assms unfolding gain_def by blast

lemma gain_trans:
  assumes g: "gain e e1" "gain e1 e2"
  shows "gain e e2"
proof (rule gainI)
  show "esc_tmpl e2 = esc_tmpl e" "edited e \<subseteq> edited e2" using gainD(1,2) [OF g(1)] gainD(1,2) [OF g(2)] by auto
  show "sanitizers s" if "(a, s) \<in> set (esc_actionEdits e2)" "(a, s) \<notin> set (esc_actionEdits e)" for a s
    using that gainD(3) [OF g(1)] gainD(3) [OF g(2)] by blast
  show "set (list_actions name [] 0 (def_List t)) \<subseteq> edited e2"
    if "name \<in> dom (esc_output e2)" "name \<notin> dom (esc_output e)" "esc_tmpl e name = Some t" for name t
  proof (cases "name \<in> dom (esc_output e1)")
    case True
    show ?thesis by (rule subset_trans [OF gainD(4) [OF g(1) True that(2,3)] gainD(2) [OF g(2)]])
  next
    case False
    show ?thesis by (rule gainD(4) [OF g(2) that(1) False]) (simp add: gainD(1) [OF g(1)] that(3))
  qed
  show "set (list_actions name [] 0 (def_List t)) \<subseteq> edited e2"
    if "(name, t) \<in> set (esc_derived e2)" "(name, t) \<notin> set (esc_derived e)" for name t
  proof (cases "(name, t) \<in> set (esc_derived e1)")
    case True
    show ?thesis by (rule subset_trans [OF gainD(5) [OF g(1) True that(2)] gainD(2) [OF g(2)]])
  next
    case False
    show ?thesis by (rule gainD(5) [OF g(2) that(1) False])
  qed
qed

lemma bindX_Inr: "bindX m f = Some (Inr (y, e2)) \<longleftrightarrow> (\<exists>x e1. m = Some (Inr (x, e1)) \<and> f x e1 = Some (Inr (y, e2)))"
  by (auto simp: bindX_def split: option.splits sum.splits)

lemma ret_Inr: "ret x e = Some (Inr (y, e')) \<longleftrightarrow> y = x \<and> e' = e"
  by (auto simp: ret_def)

lemmas step_simps = bindX_Inr ret_Inr

lemma okX_D: "okX env N e P m \<Longrightarrow> m = Some (Inr (x, e')) \<Longrightarrow> esc_wf env N e' \<and> dom (esc_output e) \<subseteq> dom (esc_output e') \<and> P x"
  by (simp add: okX_def)

section \<open>Edits\<close>

lemma editText_gain: "editTextNode n t e = Some (Inr (u, e')) \<Longrightarrow> gain e e'"
  "editTemplateNode n name e = Some (Inr (v, e')) \<Longrightarrow> gain e e'"
  by (auto simp: editTextNode_def editTemplateNode_def ret_Inr gain_def edited_def split: if_splits)

lemma editAction_gain:
  assumes "editActionNode n s e = Some (Inr (u, e'))" "sanitizers s"
  shows "gain e e'" "n \<in> edited e'"
  using assms by (auto simp: editActionNode_def ret_Inr gain_def edited_def split: if_splits)

section \<open>Merges\<close>

lemma each_edits:
  "each editActionNode kvs e = Some (Inr (u, e')) \<Longrightarrow> e' = e\<lparr>esc_actionEdits := esc_actionEdits e @ kvs\<rparr>"
  "each editTemplateNode tvs e = Some (Inr (u, e')) \<Longrightarrow> e' = e\<lparr>esc_templateEdits := esc_templateEdits e @ tvs\<rparr>"
  "each editTextNode tvs e = Some (Inr (u, e')) \<Longrightarrow> e' = e\<lparr>esc_textEdits := esc_textEdits e @ tvs\<rparr>"
proof -
  show "each editActionNode kvs e = Some (Inr (u, e')) \<Longrightarrow> e' = e\<lparr>esc_actionEdits := esc_actionEdits e @ kvs\<rparr>"
    by (induction kvs arbitrary: e) (fastforce simp: step_simps editActionNode_def split: if_splits)+
  show "each editTemplateNode tvs e = Some (Inr (u, e')) \<Longrightarrow> e' = e\<lparr>esc_templateEdits := esc_templateEdits e @ tvs\<rparr>"
    by (induction tvs arbitrary: e) (fastforce simp: step_simps editTemplateNode_def split: if_splits)+
  show "each editTextNode tvs e = Some (Inr (u, e')) \<Longrightarrow> e' = e\<lparr>esc_textEdits := esc_textEdits e @ tvs\<rparr>"
    by (induction tvs arbitrary: e) (fastforce simp: step_simps editTextNode_def split: if_splits)+
qed

lemma put_all_origin: "x \<in> set (put_all new old) \<Longrightarrow> x \<in> set new \<or> x \<in> set old"
proof -
  have upd: "x \<in> set (AList.update k v m) \<Longrightarrow> x = (k, v) \<or> x \<in> set m" for x :: "'a \<times> 'b" and k v m
    by (induction m) (auto split: if_splits)
  show "x \<in> set (put_all new old) \<Longrightarrow> x \<in> set new \<or> x \<in> set old"
    unfolding put_all_def by (induction new arbitrary: old) (use upd in fastforce)+
qed

lemma merge_trial_eq:
  assumes "merge_trial e e1 = Some (Inr (u, e'))"
  shows "esc_tmpl e' = esc_tmpl e" "esc_output e' = esc_output e ++ esc_output e1"
    "esc_derived e' = put_all (esc_derived e1) (esc_derived e)"
    "esc_actionEdits e' = esc_actionEdits e @ esc_actionEdits e1"
  using assms unfolding merge_trial_def bindX_Inr by (auto dest!: each_edits)

text \<open>The edits of a trial are gained by the escaper they are merged into.\<close>

lemma merge_gain:
  assumes g: "gain (trial e) e1" and m: "merge_trial e e1 = Some (Inr (u, e'))"
  shows "gain e e'" "edited e1 \<subseteq> edited e'"
proof -
  note m' = merge_trial_eq [OF m]
  have t: "esc_actionEdits (trial e) = []" "esc_derived (trial e) = []" "esc_output (trial e) = esc_output e"
    "esc_tmpl (trial e) = esc_tmpl e" by (simp_all add: trial_def newEscaper_def)
  show sub: "edited e1 \<subseteq> edited e'" by (auto simp: edited_def m')
  show "gain e e'"
  proof (rule gainI)
    show "esc_tmpl e' = esc_tmpl e" "edited e \<subseteq> edited e'" by (auto simp: edited_def m')
    show "sanitizers s" if "(a, s) \<in> set (esc_actionEdits e')" "(a, s) \<notin> set (esc_actionEdits e)" for a s
      using gainD(3) [OF g, of a s] that by (simp add: m' t)
    show "set (list_actions name [] 0 (def_List t)) \<subseteq> edited e'"
      if "name \<in> dom (esc_output e')" "name \<notin> dom (esc_output e)" "esc_tmpl e name = Some t" for name t
      by (rule subset_trans [OF gainD(4) [OF g] sub]) (use that in \<open>auto simp: m' t\<close>)
    show "set (list_actions name [] 0 (def_List t)) \<subseteq> edited e'"
      if "(name, t) \<in> set (esc_derived e')" "(name, t) \<notin> set (esc_derived e)" for name t
      by (rule subset_trans [OF gainD(5) [OF g] sub]) (use that in \<open>auto simp: m' t dest: put_all_origin\<close>)
  qed
qed

text \<open>The output assumed for a template is settled once the template is edited.\<close>

lemma assumed_gain:
  assumes g: "gain (e\<lparr>esc_output := (esc_output e)(name \<mapsto> c)\<rparr>) e'"
    and t: "\<forall>t'. esc_tmpl e name = Some t' \<longrightarrow> t' = t" "set (list_actions name [] 0 (def_List t)) \<subseteq> edited e'"
  shows "gain e e'"
proof (rule gainI)
  have ed: "edited (e\<lparr>esc_output := m\<rparr>) = edited e" for m by (simp add: edited_def)
  show "esc_tmpl e' = esc_tmpl e" "edited e \<subseteq> edited e'" using gainD(1,2) [OF g] by (simp_all add: ed)
  show "sanitizers s" if "(a, s) \<in> set (esc_actionEdits e')" "(a, s) \<notin> set (esc_actionEdits e)" for a s
    using gainD(3) [OF g, of a s] that by simp
  show "set (list_actions n [] 0 (def_List t')) \<subseteq> edited e'"
    if "n \<in> dom (esc_output e')" "n \<notin> dom (esc_output e)" "esc_tmpl e n = Some t'" for n t'
  proof (cases "n = name")
    case True
    then show ?thesis using t that(3) by auto
  next
    case False
    show ?thesis by (rule gainD(4) [OF g that(1)]) (use False that in auto)
  qed
  show "set (list_actions n [] 0 (def_List t')) \<subseteq> edited e'"
    if "(n, t') \<in> set (esc_derived e')" "(n, t') \<notin> set (esc_derived e)" for n t'
    using gainD(5) [OF g, of n t'] that by simp
qed

section \<open>Nodes\<close>

locale safe_tree_step = tree_step +
  assumes clean: "clean N" and et_safe: "esc_wf env N e \<Longrightarrow> D \<subseteq> dom (esc_output e) \<Longrightarrow> ctx_wf c \<Longrightarrow> name \<in> N \<Longrightarrow>
    et c name line e = Some (Inr ((c', d), e')) \<Longrightarrow> ctx_state c' \<noteq> stateError \<Longrightarrow> gain e e' \<and> mangle c name \<in> dom (esc_output e')"
begin

lemma action_safe:
  assumes wf: "ctx_wf c" and "escapeActionNode env c a line p e = Some (Inr (c', e'))" "ctx_state c' \<noteq> stateError"
  shows "ctx_state c \<noteq> stateError \<and> gain e e' \<and> set (node_actions a (ActionNode line p)) \<subseteq> edited e'"
proof -
  let ?node = "tnode_String (ee_quote env) (ActionNode line p)"
  obtain c1 s where r: "escapeAction c (pipe_Decl p \<noteq> []) line ?node = Inr (c1, s)"
    using assms(2) by (auto simp: escapeActionNode_def split: sum.splits)
  have "c1 = c'" using assms(2) r by (auto simp: escapeActionNode_def step_simps split: option.splits)
  then have ok: "ctx_state c1 \<noteq> stateError" using assms(3) by simp
  note safe = escapeAction_safe [OF r ok]
  show ?thesis
  proof (cases s)
    case None
    then have "pipe_Decl p \<noteq> []" using safe(2) by auto
    then show ?thesis using assms(2) r None safe(1) by (simp add: escapeActionNode_def ret_Inr)
  next
    case (Some s')
    then have "pipe_Decl p = []" using r by (auto simp: escapeAction_def split: if_splits)
    then have "sanitizers s'" using r Some wf by (auto simp: sanitizers_def)
    moreover obtain u where "editActionNode a s' e = Some (Inr (u, e'))"
      using assms(2) r Some by (auto simp: escapeActionNode_def step_simps)
    ultimately show ?thesis using editAction_gain safe(1) by auto
  qed
qed

lemma text_safe:
  assumes "ctx_wf c" "escapeTextNode env c a t e = Some (Inr (c', e'))" "ctx_state c' \<noteq> stateError"
  shows "ctx_state c \<noteq> stateError \<and> gain e e'"
proof -
  obtain b where r: "escapeText (ee_lower env) (ee_upper env) (ee_unescape env) c t = Some (Inr (c', b))"
    "(case b of None \<Rightarrow> ret c' e | Some b \<Rightarrow> bindX (editTextNode a b e) (\<lambda>_ e. ret c' e)) = Some (Inr (c', e'))"
    using assms(2) by (auto simp: escapeTextNode_def step_simps liftX_def split: option.splits sum.splits)
  have "ctx_state c \<noteq> stateError" using text_error [OF assms(1)] r(1) assms(3) by auto
  moreover have "gain e e'" using r(2) editText_gain by (auto simp: step_simps split: option.splits)
  ultimately show ?thesis by simp
qed

lemma template_safe:
  assumes "esc_wf env N e" "D \<subseteq> dom (esc_output e)" "ctx_wf c" "name \<in> N"
    "escapeTemplateNode et c a line name e = Some (Inr (c', e'))" "ctx_state c' \<noteq> stateError"
  shows "ctx_state c \<noteq> stateError \<and> gain e e'"
proof -
  obtain d e1 where r: "et c name line e = Some (Inr ((c', d), e1))"
    "(if d \<noteq> name then bindX (editTemplateNode a d e1) (\<lambda>_ e. ret c' e) else ret c' e1) = Some (Inr (c', e'))"
    using assms(5) by (auto simp: escapeTemplateNode_def step_simps split: if_splits)
  have "gain e1 e'" using r(2) editText_gain(2) by (auto simp: step_simps split: if_splits)
  then have "gain e e'" using et_safe [OF assms(1-4) r(1) assms(6)] gain_trans by blast
  moreover have "follows N c c'" using okX_D [OF et_ok [OF assms(1-4)] r(1)] by simp
  ultimately show ?thesis using clean assms(6) by (auto simp: follows_def)
qed

definition node_safe :: "node \<Rightarrow> bool" where
  "node_safe n \<longleftrightarrow> (\<forall>c a e c' e'. esc_wf env N e \<longrightarrow> D \<subseteq> dom (esc_output e) \<longrightarrow> ctx_wf c \<longrightarrow> fits [n] \<longrightarrow>
     escape env et c a n e = Some (Inr (c', e')) \<longrightarrow> ctx_state c' \<noteq> stateError \<longrightarrow>
     ctx_state c \<noteq> stateError \<and> gain e e' \<and> set (node_actions a n) \<subseteq> edited e')"

lemma escapeList_safe:
  assumes "\<forall>n \<in> set ns. node_safe n" "fits ns" "esc_wf env N e" "D \<subseteq> dom (esc_output e)" "ctx_wf c"
    "escapeList env et c tname path k ns e = Some (Inr (c', e'))" "ctx_state c' \<noteq> stateError"
  shows "ctx_state c \<noteq> stateError \<and> gain e e' \<and> set (list_actions tname path k ns) \<subseteq> edited e'"
  using assms
proof (induction ns arbitrary: c k e)
  case (Cons n ns)
  have f: "fits [n]" "fits ns" using Cons.prems(2) by (auto simp: fits_def)
  obtain c1 e1 where s: "escape env et c (tname, path @ [k]) n e = Some (Inr (c1, e1))"
    "escapeList env et c1 tname path (k + 1) ns e1 = Some (Inr (c', e'))"
    using Cons.prems(6) by (auto simp: step_simps)
  have "okX env N e (follows N c) (escape env et c (tname, path @ [k]) n e)"
    using all_nodes_ok [of n] Cons.prems(3-5) f(1) by (simp add: node_ok_def)
  from okX_D [OF this s(1)] Cons.prems(4)
  have ok: "esc_wf env N e1" "D \<subseteq> dom (esc_output e1)" "ctx_wf c1" by (auto simp: follows_def)
  have ih: "ctx_state c1 \<noteq> stateError \<and> gain e1 e' \<and> set (list_actions tname path (k + 1) ns) \<subseteq> edited e'"
    by (rule Cons.IH [OF _ f(2) ok s(2) Cons.prems(7)]) (use Cons.prems(1) in simp)
  have "node_safe n" using Cons.prems(1) by simp
  then have n: "ctx_state c \<noteq> stateError" "gain e e1" "set (node_actions (tname, path @ [k]) n) \<subseteq> edited e1"
    using Cons.prems(3-5) f(1) s(1) ih unfolding node_safe_def by blast+
  have "edited e1 \<subseteq> edited e'" using gainD(2) ih by blast
  then show ?case using n ih gain_trans [OF n(2)] by (auto simp del: split_paired_All)
qed (simp add: ret_Inr)

lemma escapeList_keeps:
  assumes "fits ns" "esc_wf env N e" "D \<subseteq> dom (esc_output e)" "ctx_wf c"
    "escapeList env et c tname path k ns e = Some (Inr (c', e'))"
  shows "esc_wf env N e'" "D \<subseteq> dom (esc_output e')" "ctx_wf c'"
proof -
  have "okX env N e (follows N c) (escapeList env et c tname path k ns e)"
    by (rule escapeList_ok) (use all_nodes_ok assms in auto)
  from okX_D [OF this assms(5)] show "esc_wf env N e'" "D \<subseteq> dom (esc_output e')" "ctx_wf c'"
    using subset_trans [OF assms(3)] by (auto simp: follows_def)
qed

lemma branch_safe:
  assumes ns: "\<forall>n \<in> set ns. node_safe n" "fits ns" and es: "\<forall>es'. es = Some es' \<longrightarrow> (\<forall>n \<in> set es'. node_safe n) \<and> fits es'"
    and e: "esc_wf env N e" "D \<subseteq> dom (esc_output e)" "ctx_wf c"
    and r: "escape env et c a (BranchNode b line p ns es) e = Some (Inr (c', e'))" "ctx_state c' \<noteq> stateError"
  shows "ctx_state c \<noteq> stateError \<and> gain e e' \<and> set (node_actions a (BranchNode b line p ns es)) \<subseteq> edited e'"
proof -
  let ?els = "\<lambda>e. case es of None \<Rightarrow> ret c e | Some es \<Rightarrow> escapeList env et c (fst a) (snd a @ [1]) 0 es e"
  let ?trial = "\<lambda>c0 e0. if b = NodeRange \<and> ctx_state c0 \<noteq> stateError
      then (case escapeList env et c0 (fst a) (snd a @ [0]) 0 ns (trial e0) of
              None \<Rightarrow> None
            | Some (Inl p) \<Rightarrow> Some (Inl p)
            | Some (Inr (c1, _)) \<Rightarrow> ret (True, join c0 c1 line (branch_name b)) e0)
      else ret (False, c0) e0"
  obtain c0 e0 where l: "escapeList env et c (fst a) (snd a @ [0]) 0 ns e = Some (Inr (c0, e0))"
    and rest: "bindX (?trial c0 e0) (\<lambda>(tried, c1) e.
      if tried \<and> ctx_state c1 = stateError then ret (range_error line c1) e
      else bindX (?els e) (\<lambda>c2 e. ret (join c1 c2 line (branch_name b)) e)) = Some (Inr (c', e'))"
    using r(1) [unfolded escape.simps bindX_Inr [of "escapeList env et c (fst a) (snd a @ [0]) 0 ns e"]] by (elim exE conjE)
  obtain x e1 where x: "?trial c0 e0 = Some (Inr (x, e1))"
    "(\<lambda>(tried, c1) e. if tried \<and> ctx_state c1 = stateError then ret (range_error line c1) e
      else bindX (?els e) (\<lambda>c2 e. ret (join c1 c2 line (branch_name b)) e)) x e1 = Some (Inr (c', e'))"
    using rest [unfolded bindX_Inr [of "?trial c0 e0"]] by (elim exE conjE)
  obtain tried c1 where pair: "x = (tried, c1)" by (rule prod.exhaust)
  note t = x(1) [unfolded pair] and f1 = x(2) [unfolded pair prod.case]
  have e1: "e1 = e0" using t by (auto simp: ret_Inr split: option.splits sum.splits if_splits)
  note f = f1 [unfolded e1]
  note keep = escapeList_keeps [OF ns(2) e l]
  have "\<not> (tried \<and> ctx_state c1 = stateError)" using f r(2) by (auto simp: ret_Inr range_error_def)
  then obtain c2 where c2: "(case es of None \<Rightarrow> ret c e0 | Some es \<Rightarrow> escapeList env et c (fst a) (snd a @ [1]) 0 es e0) =
      Some (Inr (c2, e'))" "c' = join c1 c2 line (branch_name b)"
    using f by (auto simp: step_simps split: if_splits)
  have st: "ctx_state c1 \<noteq> stateError" "ctx_state c2 \<noteq> stateError" 
    using join_error [of c1 c2 line "branch_name b"] r(2) c2(2) by simp_all
  have "ctx_state c0 \<noteq> stateError"
  proof
    assume "ctx_state c0 = stateError"
    then show False using t st(1) by (simp add: ret_Inr)
  qed
  from escapeList_safe [OF ns e l this]
  have first: "ctx_state c \<noteq> stateError" "gain e e0" "set (list_actions (fst a) (snd a @ [0]) 0 ns) \<subseteq> edited e0" by auto
  show ?thesis
  proof (cases es)
    case None
    then show ?thesis using first c2(1) by (simp add: ret_Inr)
  next
    case (Some es')
    then have l2: "escapeList env et c (fst a) (snd a @ [1]) 0 es' e0 = Some (Inr (c2, e'))" using c2(1) by simp
    have second: "ctx_state c \<noteq> stateError \<and> gain e0 e' \<and> set (list_actions (fst a) (snd a @ [1]) 0 es') \<subseteq> edited e'"
      by (rule escapeList_safe [OF _ _ keep(1,2) e(3) l2 st(2)]) (use es Some in auto)
    then have "gain e e'" "edited e0 \<subseteq> edited e'" using gain_trans [OF first(2)] gainD(2) by blast+
    then show ?thesis using first second Some by auto
  qed
qed

lemma list_node_safe:
  assumes "\<And>n. n \<in> set ns \<Longrightarrow> node_safe n"
  shows "node_safe (ListNode ns)" "node_safe (BlockNode line name p ns)" "node_safe (FillNode line name p ns)"
proof -
  have "ctx_state c \<noteq> stateError \<and> gain e e' \<and> set (list_actions tname path k ns) \<subseteq> edited e'"
    if "esc_wf env N e" "D \<subseteq> dom (esc_output e)" "ctx_wf c" "fits ns"
      "escapeList env et c tname path k ns e = Some (Inr (c', e'))" "ctx_state c' \<noteq> stateError" for c tname path k e c' e'
    by (rule escapeList_safe [OF _ that(4,1,2,3,5,6)]) (use assms in simp)
  moreover have "fits [ListNode ns] = fits ns" "fits [BlockNode line name p ns] = fits ns" "fits [FillNode line name p ns] = fits ns"
    by (simp_all add: fits_def)
  ultimately show "node_safe (ListNode ns)" "node_safe (BlockNode line name p ns)" "node_safe (FillNode line name p ns)"
    unfolding node_safe_def escape.simps node_actions.simps by blast+
qed

lemma all_nodes_safe: "node_safe n"
proof (induction n)
  case (BranchNode b line p ns es)
  show ?case
    unfolding node_safe_def
  proof (intro allI impI)
    fix c a e c' e'
    assume a: "esc_wf env N e" "D \<subseteq> dom (esc_output e)" "ctx_wf c" "fits [BranchNode b line p ns es]"
      "escape env et c a (BranchNode b line p ns es) e = Some (Inr (c', e'))" "ctx_state c' \<noteq> stateError"
    then have "fits ns" "\<forall>es'. es = Some es' \<longrightarrow> fits es'" by (auto simp: fits_def)
    then show "ctx_state c \<noteq> stateError \<and> gain e e' \<and> set (node_actions a (BranchNode b line p ns es)) \<subseteq> edited e'"
      using BranchNode by (intro branch_safe [OF _ _ _ a(1-3,5,6)]) auto
  qed
next
  case (ActionNode line p)
  then show ?case using action_safe by (simp add: node_safe_def)
next
  case (TextNode t)
  then show ?case using text_safe by (auto simp: node_safe_def)
next
  case (TemplateNode line name p)
  then show ?case using template_safe by (auto simp: node_safe_def fits_def)
next
  case (ListNode ns)
  then show ?case using list_node_safe by blast
next
  case (BlockNode line name p ns)
  then show ?case using list_node_safe by blast
next
  case (FillNode line name p ns)
  then show ?case using list_node_safe by blast
qed (simp_all add: node_safe_def)

lemma body_safe:
  assumes e: "esc_wf env N e" "D \<subseteq> insert (def_Name t) (dom (esc_output e))" "ctx_wf c" and t: "fits (def_List t)"
    "clean N \<longrightarrow> def_Name t \<in> error_names N \<longrightarrow> ctx_state c = stateError"
    "\<forall>t'. esc_tmpl e (def_Name t) = Some t' \<longrightarrow> t' = t"
    and r: "escapeTemplateBody env et c t e = Some (Inr ((c1, ok), e'))"
  shows "ctx_state c1 \<noteq> stateError \<Longrightarrow> ctx_state c \<noteq> stateError" "def_Name t \<in> dom (esc_output e')"
    "ok \<Longrightarrow> ctx_state c1 \<noteq> stateError \<and> gain e e' \<and> set (list_actions (def_Name t) [] 0 (def_List t)) \<subseteq> edited e'"
    "\<not> ok \<Longrightarrow> e' = e\<lparr>esc_output := (esc_output e)(def_Name t \<mapsto> c)\<rparr>"
proof -
  define e0 where "e0 = e\<lparr>esc_output := (esc_output e)(def_Name t \<mapsto> c)\<rparr>"
  have e0: "esc_wf env N e0" "D \<subseteq> dom (esc_output (trial e0))"
    using e t(2) by (auto simp: e0_def esc_wf_def ran_def trial_def newEscaper_def)
  obtain e1 where l: "escapeList env et c (def_Name t) [] 0 (def_List t) (trial e0) = Some (Inr (c1, e1))"
    and f: "(if body_filter c (def_Name t) e1 c1 then bindX (merge_trial e0 e1) (\<lambda>_ e. ret (c1, True) e) else ret (c1, False) e0) =
      Some (Inr ((c1, ok), e'))"
    using r by (auto simp: escapeTemplateBody_def escapeListConditionally_def e0_def [symmetric] step_simps
      split: option.splits sum.splits if_splits)
  have list: "ctx_state c \<noteq> stateError \<and> gain (trial e0) e1 \<and> set (list_actions (def_Name t) [] 0 (def_List t)) \<subseteq> edited e1"
    if "ctx_state c1 \<noteq> stateError"
    by (rule escapeList_safe [OF _ t(1) trial_wf(1) [OF e0(1)] e0(2) e(3) l that]) (simp add: all_nodes_safe)
  then show "ctx_state c1 \<noteq> stateError \<Longrightarrow> ctx_state c \<noteq> stateError" by simp
  show "ctx_state c1 \<noteq> stateError \<and> gain e e' \<and> set (list_actions (def_Name t) [] 0 (def_List t)) \<subseteq> edited e'" if ok
  proof -
    have b: "body_filter c (def_Name t) e1 c1" using f that by (simp add: ret_Inr split: if_splits)
    then have st: "ctx_state c1 \<noteq> stateError" by (simp add: body_filter_def)
    obtain u where m: "merge_trial e0 e1 = Some (Inr (u, e'))" using f b by (auto simp: step_simps)
    note g = merge_gain [OF conjunct1 [OF conjunct2 [OF list [OF st]]] m]
    have acts: "set (list_actions (def_Name t) [] 0 (def_List t)) \<subseteq> edited e'" using list [OF st] g(2) by (meson subset_trans)
    moreover have "gain e e'" by (rule assumed_gain [OF g(1) [unfolded e0_def] t(3) acts])
    ultimately show ?thesis using st by simp
  qed
  show "def_Name t \<in> dom (esc_output e')"
    using f by (auto simp: step_simps e0_def map_add_def dest!: merge_trial_eq(2) split: if_splits option.split)
  show "\<not> ok \<Longrightarrow> e' = e\<lparr>esc_output := (esc_output e)(def_Name t \<mapsto> c)\<rparr>"
    using f by (auto simp: step_simps e0_def split: if_splits)
qed

lemma computeOutCtx_safe:
  assumes e: "esc_wf env N e" "D \<subseteq> insert (def_Name t) (dom (esc_output e))" "ctx_wf c" and t: "fits (def_List t)"
    "clean N \<longrightarrow> def_Name t \<in> error_names N \<longrightarrow> ctx_state c = stateError"
    "\<forall>t'. esc_tmpl e (def_Name t) = Some t' \<longrightarrow> t' = t"
    and r: "computeOutCtx env et c t e = Some (Inr (c', e'))" "ctx_state c' \<noteq> stateError"
  shows "gain e e' \<and> set (list_actions (def_Name t) [] 0 (def_List t)) \<subseteq> edited e' \<and> def_Name t \<in> dom (esc_output e')"
proof -
  let ?again = "\<lambda>c1 e1. bindX (escapeTemplateBody env et c1 t e1) (\<lambda>(c2, ok2) e. ret (if ok2 then (c2, True) else (c1, False)) e)"
  obtain c1 ok e1 where b: "escapeTemplateBody env et c t e = Some (Inr ((c1, ok), e1))"
    and rest: "bindX (if ok then ret (c1, True) e1 else ?again c1 e1) (\<lambda>(c1, ok) e.
       if \<not> ok \<and> ctx_state c1 \<noteq> stateError
       then ret (error_context (errorf ErrOutputContext 0
              ''cannot compute output context for template %s'' [def_Name t])) e
       else ret c1 e) = Some (Inr (c', e'))"
    using r(1) unfolding computeOutCtx_def bindX_Inr [of "escapeTemplateBody env et c t e"] by fastforce
  note first = body_safe [OF e t b]
  show ?thesis
  proof (cases ok)
    case True
    then have "c' = c1" "e' = e1" using rest by (simp_all add: ret_Inr)
    then show ?thesis using first(2,3) True by simp
  next
    case False
    have e1: "e1 = e\<lparr>esc_output := (esc_output e)(def_Name t \<mapsto> c)\<rparr>" by (rule first(4) [OF False])
    obtain c2 ok2 e2 where b2: "escapeTemplateBody env et c1 t e1 = Some (Inr ((c2, ok2), e2))"
      using rest False by (auto simp: bindX_def split: option.splits sum.splits)
    have ok2: "ok2 \<and> c' = c2 \<and> e' = e2"
      using rest False r(2) by (auto simp: b2 ret_Inr error_context_def split: if_splits)
    from okX_D [OF escapeTemplateBody_ok [OF e t(1,2)] b]
    have w: "esc_wf env N e1" "D \<subseteq> insert (def_Name t) (dom (esc_output e1))" "ctx_wf c1"
      "clean N \<longrightarrow> def_Name t \<in> error_names N \<longrightarrow> ctx_state c1 = stateError"
      using e(2) t(2) by (auto simp: e1 follows_def)
    have tm: "\<forall>t'. esc_tmpl e1 (def_Name t) = Some t' \<longrightarrow> t' = t" using t(3) by (simp add: e1)
    note second = body_safe [OF w(1-3) t(1) w(4) tm b2]
    have s: "ctx_state c1 \<noteq> stateError" "gain e1 e'" "set (list_actions (def_Name t) [] 0 (def_List t)) \<subseteq> edited e'"
      using second ok2 r(2) by auto
    have "gain e e'" by (rule assumed_gain [OF s(2) [unfolded e1] t(3) s(3)])
    then show ?thesis using s second(2) ok2 by simp
  qed
qed

end

section \<open>Calls\<close>

lemma derive_cases:
  assumes d: "derive t name dname e = Some (Inr (t', e'))" and t: "lookup_template e name = Some t"
  shows "\<forall>t''. esc_tmpl e dname = Some t'' \<longrightarrow> t'' = t'"
    "e' = e \<or> e' = e\<lparr>esc_derived := esc_derived e @ [(dname, t')]\<rparr>"
  using d t by (auto simp: derive_def Let_def ret_Inr lookup_template_def split: if_splits option.splits)

lemma derived_gain:
  assumes g: "gain e1 e'" and e: "e1 = e \<or> e1 = e\<lparr>esc_derived := esc_derived e @ [(dname, t)]\<rparr>"
    and t: "set (list_actions dname [] 0 (def_List t)) \<subseteq> edited e'"
  shows "gain e e'"
proof (rule gainI)
  have same: "esc_tmpl e1 = esc_tmpl e" "esc_output e1 = esc_output e" "esc_actionEdits e1 = esc_actionEdits e" "edited e1 = edited e"
    using e by (auto simp: edited_def)
  show "esc_tmpl e' = esc_tmpl e" "edited e \<subseteq> edited e'" using gainD(1,2) [OF g] by (simp_all add: same)
  show "sanitizers s" if "(a, s) \<in> set (esc_actionEdits e')" "(a, s) \<notin> set (esc_actionEdits e)" for a s
    using gainD(3) [OF g, of a s] that by (simp add: same)
  show "set (list_actions n [] 0 (def_List t')) \<subseteq> edited e'"
    if "n \<in> dom (esc_output e')" "n \<notin> dom (esc_output e)" "esc_tmpl e n = Some t'" for n t'
    using gainD(4) [OF g that(1)] that by (simp add: same)
  show "set (list_actions n [] 0 (def_List t')) \<subseteq> edited e'"
    if "(n, t') \<in> set (esc_derived e')" "(n, t') \<notin> set (esc_derived e)" for n t'
    using gainD(5) [OF g that(1)] that t e by (cases "(n, t') = (dname, t)") auto
qed

lemma escapeTree_safe_step:
  assumes "finite N" "clean N"
  shows "card (derived_names N - D) < f \<Longrightarrow> safe_tree_step env N D (escapeTree env f)"
proof (induction f arbitrary: D)
  case (Suc f)
  show ?case
  proof (intro safe_tree_step.intro safe_tree_step_axioms.intro)
    show "tree_step env N D (escapeTree env (Suc f))" by (rule escapeTree_step [OF assms(1) Suc.prems])
    show "clean N" by (rule assms(2))
    fix e c name line c' d e'
    assume e: "esc_wf env N e" "D \<subseteq> dom (esc_output e)" "ctx_wf c" "name \<in> N"
      and r: "escapeTree env (Suc f) c name line e = Some (Inr ((c', d), e'))" "ctx_state c' \<noteq> stateError"
    define e1 where "e1 = e\<lparr>esc_called := insert (mangle c name) (esc_called e)\<rparr>"
    let ?d = "mangle c name"
    have e1: "esc_wf env N e1" "esc_output e1 = esc_output e" "gain e e1"
      using e(1) by (simp_all add: e1_def esc_wf_def gain_def edited_def)
    show "gain e e' \<and> ?d \<in> dom (esc_output e')"
    proof (cases "esc_output e ?d")
      case (Some out)
      then have "e' = e1" using r(1) e1(2) by (simp add: e1_def [symmetric] Let_def ret_Inr)
      then show ?thesis using e1 Some by auto
    next
      case None
      then obtain t where t: "lookup_template e1 name = Some t"
        using r e1(2) by (auto simp: e1_def [symmetric] Let_def ret_Inr split: option.splits)
      obtain t' e2 where d: "derive t name ?d e1 = Some (Inr (t', e2))"
        and c: "computeOutCtx env (escapeTree env f) c t' e2 = Some (Inr (c', e'))"
        using r(1) None e1(2) t by (auto simp: e1_def [symmetric] Let_def step_simps)
      from okX_D [OF derive_ok [OF e1(1) t] d]
      have e2: "esc_wf env N e2" "dom (esc_output e) \<subseteq> dom (esc_output e2)" "define_wf env N ?d t'" by (auto simp: e1(2))
      have name: "def_Name t' = ?d" using e2(3) by (simp add: define_wf_def)
      have "?d \<in> derived_names N - D" using e(2,4) None by (auto simp: derived_names_def)
      then have "card (derived_names N - insert ?d D) < card (derived_names N - D)"
        using finite_derived_names [OF assms(1)] by (intro psubset_card_mono) auto
      then have step: "safe_tree_step env N (insert ?d D) (escapeTree env f)" using Suc by (intro Suc.IH) simp
      then have base: "tree_step env N (insert ?d D) (escapeTree env f)" by (rule safe_tree_step.axioms(1))
      note dc = derive_cases [OF d t]
      have tm: "esc_tmpl e2 = esc_tmpl e1" using dc(2) by auto
      have out: "gain e2 e' \<and> set (list_actions (def_Name t') [] 0 (def_List t')) \<subseteq> edited e' \<and> def_Name t' \<in> dom (esc_output e')"
      proof (rule safe_tree_step.computeOutCtx_safe [OF step e2(1) _ e(3) _ _ _ c r(2)])
        have "D \<subseteq> dom (esc_output e2)" using e(2) e2(2) by (rule subset_trans)
        then show "insert ?d D \<subseteq> insert (def_Name t') (dom (esc_output e2))" by (simp add: name insert_mono subset_insertI2)
        show "tree_step.fits env N (def_List t')" using e2(3) by (simp add: define_wf_def tree_step.fits_def [OF base])
        show "clean N \<longrightarrow> def_Name t' \<in> error_names N \<longrightarrow> ctx_state c = stateError"
          unfolding name clean_def using e(4) by blast
        show "\<forall>t''. esc_tmpl e2 (def_Name t') = Some t'' \<longrightarrow> t'' = t'" using dc(1) by (simp add: name tm)
      qed
      have "gain e1 e'" by (rule derived_gain [OF conjunct1 [OF out] dc(2)]) (use out name in simp)
      then show ?thesis using gain_trans [OF e1(3)] out name by simp
    qed
  qed
qed simp

text \<open>Names without a dollar sign are clean: the name for an error context is told apart by the first letter of
  its state.\<close>

lemma split_dollar: "a @ CHR ''$'' # x = b @ CHR ''$'' # y \<Longrightarrow> CHR ''$'' \<notin> set a \<Longrightarrow> CHR ''$'' \<notin> set b \<Longrightarrow> a = b \<and> x = y"
  by (induction a arbitrary: b) (case_tac b; auto)+

lemma mangle_shape: "ctx_state c \<noteq> stateText \<Longrightarrow> \<exists>rest. mangle c n = n @ CHR ''$'' # ''htmltemplate_'' @ state_String (ctx_state c) @ rest"
  by (simp add: mangle_def Let_def)

lemma clean_no_dollar:
  assumes "\<forall>n \<in> N. CHR ''$'' \<notin> set n"
  shows "clean N"
  unfolding clean_def
proof (intro allI impI)
  fix c n
  assume n: "n \<in> N" "mangle c n \<in> error_names N"
  then obtain c1 n1 where c1: "mangle c n = mangle c1 n1" "ctx_state c1 = stateError" "n1 \<in> N" by (auto simp: error_names_def)
  then obtain rest where m: "mangle c n = n1 @ CHR ''$'' # ''htmltemplate_'' @ ''stateError'' @ rest"
    using mangle_shape [of c1 n1] by auto
  show "ctx_state c = stateError"
  proof (cases "ctx_state c = stateText")
    case True
    then have "CHR ''$'' \<in> set n" using m by (simp add: mangle_def)
    then show ?thesis using assms n(1) by blast
  next
    case False
    then obtain rest' where "n @ CHR ''$'' # ''htmltemplate_'' @ state_String (ctx_state c) @ rest' =
        n1 @ CHR ''$'' # ''htmltemplate_'' @ ''stateError'' @ rest"
      using mangle_shape [of c n] m by auto
    from split_dollar [OF this] have "state_String (ctx_state c) @ rest' = ''stateError'' @ rest" using assms n(1) c1(3) by simp
    then show ?thesis by (cases "ctx_state c") simp_all
  qed
qed

section \<open>Trees\<close>

lemma escape_all_safe:
  assumes step: "safe_tree_step env N {} (escapeTree env f)" and names: "set names \<subseteq> N"
  shows "esc_wf env N e \<Longrightarrow> escape_all env f names e = Some (Inr (None, e')) \<Longrightarrow>
    gain e e' \<and> esc_wf env N e' \<and> set names \<union> dom (esc_output e) \<subseteq> dom (esc_output e')"
  using names
proof (induction names arbitrary: e)
  case (Cons name names)
  have base: "tree_step env N {} (escapeTree env f)" using step by (rule safe_tree_step.axioms(1))
  obtain c d e1 where t: "escapeTree env f context0 name 0 e = Some (Inr ((c, d), e1))"
    and rest: "ctx_err c = None" "ctx_state c = stateText" "escape_all env f names e1 = Some (Inr (None, e'))"
    using Cons.prems(2) by (fastforce simp: step_simps split: option.splits if_splits)
  have n: "name \<in> N" "set names \<subseteq> N" using Cons.prems(3) by auto
  from okX_D [OF tree_step.et_ok [OF base Cons.prems(1) _ _ n(1)] t]
  have e1: "esc_wf env N e1" "dom (esc_output e) \<subseteq> dom (esc_output e1)" by auto
  have g: "gain e e1 \<and> mangle context0 name \<in> dom (esc_output e1)"
    by (rule safe_tree_step.et_safe [OF step Cons.prems(1) _ _ n(1) t]) (simp_all add: rest)
  moreover have "mangle context0 name = name" by (simp add: mangle_def)
  moreover note ih = Cons.IH [OF e1(1) rest(3) n(2)]
  ultimately have "gain e e'" "name \<in> dom (esc_output e')" using gain_trans by auto
  moreover have "dom (esc_output e) \<subseteq> dom (esc_output e')" by (rule subset_trans [OF e1(2)]) (use ih in blast)
  ultimately show ?case using ih by simp
qed (simp add: ret_Inr)

text \<open>A node and its escaped form. Actions that declare no variable are rewritten with the sanitizers of a
  context; texts and the names of called templates may change.\<close>

definition rewritten :: "PipeNode \<Rightarrow> PipeNode \<Rightarrow> bool" where
  "rewritten p p' \<longleftrightarrow> (\<exists>s cmds. sanitizers s \<and> s \<noteq> [] \<and> ensurePipelineContains (pipe_Cmds p) s = Inr cmds \<and> p' = p\<lparr>pipe_Cmds := cmds\<rparr>)"

inductive escaped :: "node \<Rightarrow> node \<Rightarrow> bool" and escaped_list :: "node list \<Rightarrow> node list \<Rightarrow> bool" where
  "rewritten p p' \<Longrightarrow> escaped (ActionNode line p) (ActionNode line p')"
| "pipe_Decl p \<noteq> [] \<Longrightarrow> escaped (ActionNode line p) (ActionNode line p)"
| "escaped_list ns ns' \<Longrightarrow> escaped (BranchNode b line p ns None) (BranchNode b line p ns' None)"
| "escaped_list ns ns' \<Longrightarrow> escaped_list es es' \<Longrightarrow>
     escaped (BranchNode b line p ns (Some es)) (BranchNode b line p ns' (Some es'))"
| "escaped_list ns ns' \<Longrightarrow> escaped (ListNode ns) (ListNode ns')"
| "escaped_list ns ns' \<Longrightarrow> escaped (BlockNode line name p ns) (BlockNode line name p ns')"
| "escaped_list ns ns' \<Longrightarrow> escaped (FillNode line name p ns) (FillNode line name p ns')"
| "escaped (TextNode t) (TextNode t')"
| "escaped (TemplateNode line name p) (TemplateNode line name' p)"
| "escaped endNode endNode"
| "escaped (elseNode line) (elseNode line)"
| "escaped_list [] []"
| "escaped n n' \<Longrightarrow> escaped_list ns ns' \<Longrightarrow> escaped_list (n # ns) (n' # ns')"

lemma commit_pipe_rewrites:
  assumes "commit_pipe edits a p = Inr p'" "\<forall>(a, s) \<in> set edits. sanitizers s" "pipe_Decl p \<noteq> [] \<or> a \<in> fst ` set edits"
  shows "rewritten p p' \<or> pipe_Decl p \<noteq> [] \<and> p' = p"
proof (cases "map_of edits a")
  case None
  then have "p' = p" using assms(1) by (simp add: commit_pipe_def)
  moreover have "a \<notin> fst ` set edits" using None by (simp add: map_of_eq_None_iff)
  ultimately show ?thesis using assms(3) by simp
next
  case (Some s)
  then have "sanitizers s" using assms(2) map_of_SomeD by fastforce
  then show ?thesis using assms(1) Some sanitizers_some by (auto simp: commit_pipe_def bindE_eq_Inr rewritten_def)
qed

lemma commit_escaped:
  "commit_node e a n = Inr n' \<Longrightarrow> set (node_actions a n) \<subseteq> edited e \<Longrightarrow>
     \<forall>(a, s) \<in> set (esc_actionEdits e). sanitizers s \<Longrightarrow> escaped n n'"
  "commit_list e tname path k ns = Inr ns' \<Longrightarrow> set (list_actions tname path k ns) \<subseteq> edited e \<Longrightarrow>
     \<forall>(a, s) \<in> set (esc_actionEdits e). sanitizers s \<Longrightarrow> escaped_list ns ns'"
proof (induction e a n and e tname path k ns arbitrary: n' and ns' rule: commit_node_commit_list.induct)
  case (1 e a line p)
  then obtain p' where p: "commit_pipe (esc_actionEdits e) a p = Inr p'" "n' = ActionNode line p'" by (auto simp: bindE_eq_Inr)
  have "pipe_Decl p \<noteq> [] \<or> a \<in> fst ` set (esc_actionEdits e)" using 1 by (auto simp: edited_def split: if_splits)
  from commit_pipe_rewrites [OF p(1) 1(3) this] show ?case using p(2) escaped_escaped_list.intros(1,2) by auto
next
  case (2 e a b line p ns es)
  then show ?case
    by (cases es) (auto simp: bindE_eq_Inr intro!: escaped_escaped_list.intros)
qed (auto simp: bindE_eq_Inr intro!: escaped_escaped_list.intros)

lemma AddTree_adds:
  "AddTree tree ds = (tree1, None) \<Longrightarrow> distinct (map def_Name ds) \<and> (\<forall>d \<in> set ds. tree (def_Name d) = None \<and> tree1 (def_Name d) = Some d) \<and>
     (\<forall>n. n \<notin> def_Name ` set ds \<longrightarrow> tree1 n = tree n)"
proof (induction ds arbitrary: tree)
  case (Cons d ds)
  then have n: "tree (def_Name d) = None" "AddTree (tree(def_Name d \<mapsto> d)) ds = (tree1, None)"
    by (auto simp: Tree_Add_def split: if_splits)
  from Cons.IH [OF n(2)] have ih: "distinct (map def_Name ds)" "\<forall>n. n \<notin> def_Name ` set ds \<longrightarrow> tree1 n = (tree(def_Name d \<mapsto> d)) n"
    "\<And>d'. d' \<in> set ds \<Longrightarrow> (tree(def_Name d \<mapsto> d)) (def_Name d') = None \<and> tree1 (def_Name d') = Some d'" by blast+
  have "def_Name d \<noteq> def_Name d'" if "d' \<in> set ds" for d' using ih(3) [OF that] by auto
  then have "def_Name d \<notin> def_Name ` set ds" by blast
  then have "distinct (map def_Name (d # ds))" "tree1 (def_Name d) = Some d" using ih(1,2) by auto
  moreover have "tree (def_Name d') = None \<and> tree1 (def_Name d') = Some d'" if "d' \<in> set ds" for d'
    using ih(3) [OF that] by (simp split: if_splits)
  ultimately show ?case using n(1) ih(2) by auto
qed simp

lemma commit_all_templates:
  assumes "commit_all e names tree = Inr tree'" "distinct names" "tree' name = Some t'"
  shows "\<exists>t. tree name = Some t \<and> (if name \<in> set names
    then commit_list e (def_Name t) [] 0 (def_List t) = Inr (def_List t') else t' = t)"
  using assms
proof (induction names arbitrary: tree)
  case (Cons n names)
  show ?case
  proof (cases "tree n")
    case None
    then have "commit_all e names tree = Inr tree'" using Cons.prems(1) by simp
    from Cons.IH [OF this] show ?thesis using Cons.prems(2,3) None by (cases "name = n") auto
  next
    case (Some t)
    then obtain ns where ns: "commit_list e (def_Name t) [] 0 (def_List t) = Inr ns"
      "commit_all e names (tree(n \<mapsto> t\<lparr>def_List := ns\<rparr>)) = Inr tree'"
      using Cons.prems(1) by (auto simp: bindE_eq_Inr)
    from Cons.IH [OF ns(2)] Cons.prems Some ns(1) show ?thesis by (auto split: if_splits)
  qed
qed simp

text \<open>What is committed after all templates have been escaped.\<close>

lemma commit_sanitizes:
  assumes g: "gain (newEscaper tree) e" "esc_wf env N e" "set names \<subseteq> dom (esc_output e)" and c: "commit e names = Inr tree'"
    and fits: "tree_fits env names tree" and names: "distinct names" "set names = dom tree" and t': "tree' name = Some t'"
  shows "\<exists>ns. escaped_list ns (def_List t') \<and> (\<forall>t. tree name = Some t \<longrightarrow> ns = def_List t)"
proof -
  have new: "esc_tmpl (newEscaper tree) = tree" "esc_actionEdits (newEscaper tree) = []" "esc_derived (newEscaper tree) = []"
    "esc_output (newEscaper tree) = Map.empty" by (simp_all add: newEscaper_def)
  have tmpl: "esc_tmpl e = tree" using gainD(1) [OF g(1)] by (simp add: new)
  have edits: "\<forall>(a, s) \<in> set (esc_actionEdits e). sanitizers s" using gainD(3) [OF g(1)] by (auto simp: new)
  have key: "def_Name t = n" if "(n, t) \<in> set (esc_derived e)" for n t
    using g(2) that by (auto simp: esc_wf_def define_wf_def)
  then have keys: "map fst (esc_derived e) = map def_Name (map snd (esc_derived e))" by auto
  obtain tree1 where a: "AddTree tree (map snd (esc_derived e)) = (tree1, None)"
    and all: "commit_all e (names @ map fst (esc_derived e)) tree1 = Inr tree'"
    using c by (auto simp: commit_def tmpl split: prod.splits option.splits)
  note added = AddTree_adds [OF a]
  have orig: "def_Name t = n \<and> set (list_actions n [] 0 (def_List t)) \<subseteq> edited e" if "tree n = Some t" for n t
  proof -
    have "n \<in> dom (esc_output e)" using g(3) names(2) that by blast
    then show ?thesis using gainD(4) [OF g(1), of n t] fits that by (simp add: new tree_fits_def)
  qed
  have deriv: "set (list_actions (def_Name d) [] 0 (def_List d)) \<subseteq> edited e" if "d \<in> set (map snd (esc_derived e))" for d
    using that gainD(5) [OF g(1)] key by (fastforce simp: new)
  have "distinct (names @ map fst (esc_derived e))"
    using names added by (fastforce simp: keys simp del: map_map)
  from commit_all_templates [OF all this t'] obtain t where t: "tree1 name = Some t"
    "if name \<in> set (names @ map fst (esc_derived e)) then commit_list e (def_Name t) [] 0 (def_List t) = Inr (def_List t') else t' = t"
    by blast
  have n: "def_Name t = name \<and> name \<in> set (names @ map fst (esc_derived e)) \<and> set (list_actions name [] 0 (def_List t)) \<subseteq> edited e \<and>
      (\<forall>t0. tree name = Some t0 \<longrightarrow> t0 = t)"
  proof (cases "name \<in> def_Name ` set (map snd (esc_derived e))")
    case True
    then obtain d where d: "name = def_Name d" "d \<in> set (map snd (esc_derived e))" by blast
    then have "t = d" "tree name = None" using added t(1) by auto
    moreover have "name \<in> set (map fst (esc_derived e))" using d unfolding keys by auto
    ultimately show ?thesis using deriv d by simp
  next
    case False
    then have "tree name = Some t" using added t(1) by auto
    then show ?thesis using orig [of name t] names(2) by auto
  qed
  then have "escaped_list (def_List t) (def_List t')" using commit_escaped(2) [OF _ _ edits] t(2) by auto
  then show ?thesis using n by blast
qed

definition plain_name :: "string \<Rightarrow> bool" where
  "plain_name n \<longleftrightarrow> CHR ''$'' \<notin> set n"

interpretation plain_calls: safe_tree_step env "set (filter plain_name names)" "{}"
  "escapeTree env (Suc (card (derived_names (set (filter plain_name names))) + k))" for env names k
  by (rule escapeTree_safe_step) (auto simp: plain_name_def intro: clean_no_dollar)


definition sample_env :: esc_env where
  "sample_env = \<lparr>ee_lower = id, ee_upper = id, ee_unescape = id, ee_quote = id\<rparr>"

definition sample_tree :: Tree where
  "sample_tree = [''t'' \<mapsto> \<lparr>def_Line = 1, def_Name = ''t'', def_List = [TextNode ''<b>'',
     ActionNode 1 \<lparr>pipe_Line = 1, pipe_Decl = [], pipe_Cmds = [[FieldNode [''X'']]]\<rparr>]\<rparr>]"

lemma sample_escapes: "case EscapeTree sample_env 2 [''t''] sample_tree of Some (Inr (Inr tree)) \<Rightarrow> tree ''t'' \<noteq> None | _ \<Rightarrow> False"
  by code_simp


end
