(* ===== verification/Escape_Strip.thy ===== *)
theory Escape_Strip
  imports Escape_Text_Correct
begin

text \<open>
  HTML values inside attributes (\<open>stripTags\<close>, \<open>attrEscaper\<close> and \<open>htmlNospaceEscaper\<close> of
  \<open>template/escape/html.go\<close>). The loop over the transitions may take an empty step, so it is a partial
  function, with \<open>None\<close> for a loop that does not end; it is shown to end.
\<close>

section \<open>Stripping tags\<close>

text \<open>The text a step over \<open>s[i:i1]\<close> from \<open>c\<close> to \<open>d\<close> emits: up to the start of the tag or comment.\<close>

definition strip_text :: "string \<Rightarrow> Context \<Rightarrow> Context \<Rightarrow> nat \<Rightarrow> nat \<Rightarrow> string go" where
  "strip_text s c d i i1 =
     (if ctx_state d \<noteq> ctx_state c
      then if i1 \<le> length s then slice s i (last_lt s i i1) else Inl IndexOutOfRange
      else slice s i i1)"

definition is_text :: "Context \<Rightarrow> bool" where
  "is_text c \<longleftrightarrow> ctx_state c = stateText \<or> ctx_state c = stateRCDATA"

definition strip_state :: "Context \<Rightarrow> state" where
  "strip_state c = (if ctx_element c \<noteq> elementNone \<and> \<not> isInTag (ctx_state c) then stateRCDATA else ctx_state c)"

partial_function (option) strip_loop ::
  "(rune \<Rightarrow> rune) \<Rightarrow> string \<Rightarrow> Context \<Rightarrow> nat \<Rightarrow> string \<Rightarrow> bool \<Rightarrow> (Context \<times> nat \<times> string \<times> bool) go option" where
  "strip_loop ul s c i b allText =
     (if i = length s then Some (Inr (c, i, b, allText))
      else if ctx_delim c = delimNone
      then
        (case transitionFunc ul (strip_state c) c (drop i s) of
           Inl p \<Rightarrow> Some (Inl p)
         | Inr (d, nread) \<Rightarrow>
             if is_text c
             then (case strip_text s c d i (i + nread) of
                     Inl p \<Rightarrow> Some (Inl p)
                   | Inr t \<Rightarrow> strip_loop ul s d (i + nread) (b @ t) allText)
             else strip_loop ul s d (i + nread) b False)
      else
        (case index_any (drop i s) (delimEnds (ctx_delim c)) of
           None \<Rightarrow> Some (Inr (c, i, b, allText))
         | Some k \<Rightarrow>
             strip_loop ul s (context0\<lparr>ctx_state := stateTag, ctx_element := ctx_element c\<rparr>)
               (if ctx_delim c \<noteq> delimSpaceOrTagEnd then i + k + 1 else i + k) b allText))"

declare strip_loop.simps [code]

definition stripTags :: "(rune \<Rightarrow> rune) \<Rightarrow> string \<Rightarrow> string go option" where
  "stripTags ul html =
     map_option (\<lambda>r. bindE r (\<lambda>(c, i, b, allText).
       if allText then Inr html
       else if is_text c then bindE (slice html i (length html)) (\<lambda>t. Inr (b @ t))
       else Inr b)) (strip_loop ul html context0 0 [] True)"

definition attrEscaper ::
  "(rune \<Rightarrow> rune) \<Rightarrow> ('v arg list \<Rightarrow> string) \<Rightarrow> ('v arg \<Rightarrow> bool) \<Rightarrow> 'v arg list \<Rightarrow> string go option" where
  "attrEscaper ul Sprint impl args =
     (case stringify Sprint impl args of
        Inl p \<Rightarrow> Some (Inl p)
      | Inr (s, t) \<Rightarrow>
          if t = contentTypeHTML
          then map_option (\<lambda>r. bindE r (\<lambda>s. htmlReplacer s htmlNormReplacementTable True)) (stripTags ul s)
          else Some (htmlReplacer s htmlReplacementTable True))"

definition htmlNospaceEscaper ::
  "(rune \<Rightarrow> rune) \<Rightarrow> ('v arg list \<Rightarrow> string) \<Rightarrow> ('v arg \<Rightarrow> bool) \<Rightarrow> 'v arg list \<Rightarrow> string go option" where
  "htmlNospaceEscaper ul Sprint impl args =
     (case stringify Sprint impl args of
        Inl p \<Rightarrow> Some (Inl p)
      | Inr (s, t) \<Rightarrow>
          if t = contentTypeHTML
          then map_option (\<lambda>r. bindE r (\<lambda>s. htmlReplacer s htmlNospaceNormReplacementTable False)) (stripTags ul s)
          else Some (htmlReplacer s htmlNospaceReplacementTable False))"

section \<open>The loop ends\<close>

lemma strip_step:
  assumes c: "ctx_wf c" "ctx_delim c = delimNone" and s: "s \<noteq> []" "lower_fits ul s"
  shows "\<exists>c' n. transitionFunc ul (strip_state c) c s = Inr (c', n) \<and> n \<le> length s \<and> ctx_wf c' \<and>
    (n = 0 \<longrightarrow> ctx_rank c' < ctx_rank c)"
proof (cases "strip_state c = ctx_state c")
  case True
  then show ?thesis using transition_text_step [OF c s] by (fastforce simp: text_step_def)
next
  case False
  then have st: "strip_state c = stateRCDATA" "ctx_element c \<noteq> elementNone" by (auto simp: strip_state_def split: if_splits)
  obtain c' n where t: "tSpecialTagEnd ul c s = (c', n)" by fastforce
  have "length (to_lower ul s) \<le> length s" using s(2) by (auto simp: lower_fits_def)
  from tSpecialTagEnd_bound [OF this t]
  have "n \<le> length s" "c' = context0 \<or> c' = c \<and> n = length s" by auto
  then show ?thesis using st t c s(1) by (auto simp: ctx_rank_def [of context0] ctx_rank_def [of c] ctx_wf_def)
qed

lemma last_lt_range: "i \<le> hi \<Longrightarrow> hi \<le> length s \<Longrightarrow> i \<le> last_lt s i hi \<and> last_lt s i hi \<le> hi"
proof (cases "index_byte (rev (take (hi - i) (drop i s))) (CHR ''<'')")
  case (Some k)
  assume "i \<le> hi" "hi \<le> length s"
  then have "k < hi - i" using index_where_Some [OF Some] by simp
  then show ?thesis using Some by (simp add: last_lt_def)
qed (simp add: last_lt_def)

lemma strip_text_slice:
  assumes "i \<le> i1" "i1 \<le> length s"
  shows "\<exists>j. i \<le> j \<and> j \<le> i1 \<and> strip_text s c d i i1 = Inr (take (j - i) (drop i s))"
proof (cases "ctx_state d = ctx_state c")
  case False
  then show ?thesis using last_lt_range [OF assms] assms by (intro exI [of _ "last_lt s i i1"]) (simp add: strip_text_def)
qed (use assms in \<open>auto simp: strip_text_def\<close>)

text \<open>What has been emitted is a part of what has been read, in the same order.\<close>

lemma emitted_part:
  assumes "subseq b (take i s)" "i \<le> j" "j \<le> i1"
  shows "subseq (b @ take (j - i) (drop i s)) (take i1 s)"
proof -
  have "subseq (b @ take (j - i) (drop i s)) (take i s @ take (j - i) (drop i s))" using assms(1) by (rule list_emb_append_mono) simp
  moreover have "take i s @ take (j - i) (drop i s) = take j s" using assms(2) by (metis le_add_diff_inverse take_add)
  moreover have "prefix (take j s) (take i1 s)" using assms(3) by (metis min.absorb1 take_is_prefix take_take)
  ultimately show ?thesis by (metis prefix_imp_subseq subseq_order.order_trans)
qed

lemma strip_loop_returns:
  assumes "lower_fits ul s"
  shows "ctx_wf c \<Longrightarrow> i \<le> length s \<Longrightarrow> subseq b (take i s) \<Longrightarrow>
    \<exists>c' i' b' a'. strip_loop ul s c i b a = Some (Inr (c', i', b', a')) \<and> i' \<le> length s \<and> subseq b' (take i' s)"
proof (induction "(length s - i) * 7 + ctx_rank c" arbitrary: c i b a rule: less_induct)
  case less
  note IH = less.hyps
  have rank: "ctx_rank d \<le> 6" for d using state_rank_le [of "ctx_state d"] by (simp add: ctx_rank_def)
  show ?case
  proof (cases "i = length s")
    case True
    then show ?thesis using less.prems by (subst strip_loop.simps) auto
  next
    case False
    then have s: "drop i s \<noteq> []" "lower_fits ul (drop i s)" using less.prems(2) lower_fits_sublist [OF assms] by auto
    show ?thesis
    proof (cases "ctx_delim c = delimNone")
      case True
      obtain d n where t: "transitionFunc ul (strip_state c) c (drop i s) = Inr (d, n)" "n \<le> length s - i" "ctx_wf d"
        "n = 0 \<longrightarrow> ctx_rank d < ctx_rank c" using strip_step [OF less.prems(1) True s] by auto
      have i1: "i + n \<le> length s" using t(2) less.prems(2) by simp
      have m: "(length s - (i + n)) * 7 + ctx_rank d < (length s - i) * 7 + ctx_rank c"
        using t(2,4) rank [of d] by (cases "n = 0") auto
      obtain j where j: "i \<le> j" "j \<le> i + n" "strip_text s c d i (i + n) = Inr (take (j - i) (drop i s))"
        using strip_text_slice [of i "i + n" s c d] i1 by auto
      note part = emitted_part [OF less.prems(3)]
      show ?thesis
        using IH [OF m t(3) i1 part [OF j(1,2)]] IH [OF m t(3) i1, of b] part [of i "i + n"] t(1) j(3) True False
        by (subst strip_loop.simps) auto
    next
      case False
      let ?tag = "context0\<lparr>ctx_state := stateTag, ctx_element := ctx_element c\<rparr>"
      show ?thesis
      proof (cases "index_any (drop i s) (delimEnds (ctx_delim c))")
        case None
        then show ?thesis using False \<open>i \<noteq> length s\<close> less.prems by (subst strip_loop.simps) auto
      next
        case (Some k)
        then have k: "i + k < length s" using index_any_less by fastforce
        define i1 where "i1 = (if ctx_delim c \<noteq> delimSpaceOrTagEnd then i + k + 1 else i + k)"
        have i1: "i \<le> i1" "i1 \<le> length s" using k by (auto simp: i1_def)
        have wf: "ctx_wf ?tag" by (simp add: ctx_wf_def context_ok_def)
        have "ctx_rank ?tag < ctx_rank c" using False by (simp add: ctx_rank_def)
        then have m: "(length s - i1) * 7 + ctx_rank ?tag < (length s - i) * 7 + ctx_rank c"
          using i1 by (meson add_le_less_mono diff_le_mono2 mult_le_mono1)
        have "subseq b (take i1 s)" using emitted_part [OF less.prems(3), of i i1] i1 by simp
        from IH [OF m wf i1(2) this, of a] show ?thesis
          using Some False \<open>i \<noteq> length s\<close> by (subst strip_loop.simps) (simp add: i1_def)
      qed
    qed
  qed
qed

lemma stripTags_part:
  assumes "lower_fits ul html"
  shows "\<exists>t. stripTags ul html = Some (Inr t) \<and> subseq t html"
proof -
  obtain c i b a where r: "strip_loop ul html context0 0 [] True = Some (Inr (c, i, b, a))" "i \<le> length html" "subseq b (take i html)"
    using strip_loop_returns [OF assms, of context0 0 "[]" True] by (auto simp: ctx_wf_def)
  have "subseq (b @ drop i html) html" using r(2) emitted_part [OF r(3), of "length html" "length html"] by simp
  moreover have "subseq b html" using r(3) by (metis prefix_imp_subseq subseq_order.order_trans take_is_prefix)
  ultimately show ?thesis using r(1,2) by (auto simp: stripTags_def)
qed

section \<open>Tables that remove special characters\<close>

locale safe_table =
  fixes table :: table and special :: "char \<Rightarrow> bool"
  assumes covered: "special c \<Longrightarrow> byte_val c < 0x80 \<and> map_of table c \<noteq> None"
    and replaced: "(c, t) \<in> set table \<Longrightarrow> x \<in> set t \<Longrightarrow> \<not> special x"

sublocale safe_table \<subseteq> safe_choice "\<lambda>r i. table_repl table r" special
proof
  fix c i r t
  show "special c \<Longrightarrow> byte_val c < 0x80" "special c \<Longrightarrow> table_repl table (byte_val c) \<noteq> None"
    using covered [of c] by (auto simp: table_repl_char)
  show "table_repl table RuneError = None" by (simp add: table_repl_def RuneError_def)
  show "table_repl table r = Some t \<Longrightarrow> c \<in> set t \<Longrightarrow> \<not> special c"
    using replaced map_of_SomeD by (fastforce simp: table_repl_def split: if_splits)
qed

text \<open>The characters that end a text, a tag or a quoted value of HTML.\<close>

definition html_special :: "char \<Rightarrow> bool" where
  "html_special c \<longleftrightarrow> c \<in> set ([CHR 0x00, CHR 0x22, CHR 0x27] @ ''+<>'')"

interpretation html: safe_table htmlReplacementTable html_special
  by unfold_locales (auto simp: html_special_def htmlReplacementTable_def utf8_fffd_def byte_val_def)

interpretation html_norm: safe_table htmlNormReplacementTable html_special
  by unfold_locales (auto simp: html_special_def htmlNormReplacementTable_def utf8_fffd_def byte_val_def)

lemma html_pick_table: "html_pick table True = (\<lambda>r i. table_repl table r)"
  by (auto simp: html_pick_def fun_eq_iff split: option.split)

lemma htmlReplacer_safe:
  assumes "table \<in> {htmlReplacementTable, htmlNormReplacementTable}"
  shows "\<exists>t. htmlReplacer s table True = Inr t \<and> list_all (\<lambda>c. \<not> html_special c) t"
  using assms html.no_panic [of s] html.replace_clean [of s] html_norm.no_panic [of s] html_norm.replace_clean [of s]
  by (auto simp: htmlReplacer_def html_pick_table list_all_iff)



text \<open>Stripping the tags of a piece of HTML always ends without a panic, and its result is a part of the HTML
  with its characters in the same order: nothing is invented and nothing is repeated.\<close>

theorem stripTags_ends:
  assumes "lower_fits ul html"
  shows "\<exists>t. stripTags ul html = Some (Inr t) \<and> subseq t html \<and> length t \<le> length html"
  using stripTags_part [OF assms] list_emb_length by blast

theorem stripTags_ends_witness:
  "\<exists>t. stripTags id ''<b>Hi!</b> <script>x</script>'' = Some (Inr t) \<and> subseq t ''<b>Hi!</b> <script>x</script>'' \<and>
     length t \<le> length ''<b>Hi!</b> <script>x</script>''"
  by (rule stripTags_ends) (rule lower_fits_ascii, simp add: byte_val_def)

text \<open>After the invalid byte the replacer takes to be written more than the string has.\<close>

lemma nospace_loop_overrun:
  assumes "list_all (\<lambda>c. byte_val c < 0x80) s" "v = p @ s @ [CHR 0xFF]" "written \<le> length p"
  shows "\<exists>b'. replace_loop (html_pick table False) v (range_runes (length p) (s @ [CHR 0xFF])) written b = Inr (length v + 2, b')"
  using assms
proof (induction s arbitrary: p written b)
  case Nil
  have "range_runes (length p) [CHR 0xFF] = [(length p, RuneError)]" by (simp add: range_runes.simps decode_rune_def)
  moreover have "RuneLen RuneError = 3" by (simp add: RuneLen_def encode_rune_def encode_valid_def valid_rune_def RuneError_def)
  moreover have "\<exists>t. html_pick table False RuneError i = Some t" for i by (simp add: html_pick_def table_repl_def RuneError_def)
  ultimately show ?case using Nil by (auto split: option.split)
next
  case (Cons c s)
  have c: "byte_val c < 0x80" "list_all (\<lambda>c. byte_val c < 0x80) s" using Cons.prems(1) by simp_all
  have "RuneLen (byte_val c) = 1" using encode_rune_ascii [OF c(1)] by (simp add: RuneLen_def)
  moreover have v: "v = (p @ [c]) @ s @ [CHR 0xFF]" using Cons.prems(2) by simp
  moreover have "slice v written (length p) = Inr (take (length p - written) (drop written v))" using Cons.prems(2,3) by simp
  ultimately show ?case
    using Cons.IH [OF c(2) v, of written] Cons.IH [OF c(2) v, of "length p + 1"] Cons.prems(3) c(1) by (auto split: option.split)
qed

text \<open>In an unquoted attribute a value that ends in a byte that is no UTF-8 makes the escaper panic: the
  replacement character the byte is decoded to is three bytes long, the byte is one.\<close>

theorem nospace_invalid_byte_panics:
  assumes "list_all (\<lambda>c. byte_val c < 0x80) s"
  shows "htmlNospaceEscaper ul Sprint impl [Str (s @ [CHR 0xFF])] = Some (Inl SliceBoundsOutOfRange)"
proof -
  obtain b where "replace_loop (html_pick htmlNospaceReplacementTable False) (s @ [CHR 0xFF]) (range_runes 0 (s @ [CHR 0xFF])) 0 [] =
      Inr (length (s @ [CHR 0xFF]) + 2, b)"
    using nospace_loop_overrun [OF assms, of _ "[]" 0] by fastforce
  then show ?thesis by (simp add: htmlNospaceEscaper_def htmlReplacer_def replace_runes_def slice_def)
qed

theorem nospace_invalid_byte_panics_witness:
  "htmlNospaceEscaper id (\<lambda>_. []) (\<lambda>_. False) [Str (''caf'' @ [CHR 0xFF]) :: unit arg] = Some (Inl SliceBoundsOutOfRange)"
  by (rule nospace_invalid_byte_panics) (simp add: byte_val_def)

end
