(* ===== verification/Escape_Funcs.thy ===== *)
theory Escape_Funcs
  imports Escape_Replace
begin

text \<open>
  The escapers of the template language (\<open>template/escape/funcs.go\<close>): HTML, JavaScript and the query of a
  URL. A writer is the text written to it. \<open>fmt.Sprint\<close> and, for runes outside ASCII, \<open>unicode.IsPrint\<close> are
  parameters. The loops with their buffered copies are shown equal to a replacement of each character.
\<close>

section \<open>HTML\<close>

definition html_entity :: "char \<Rightarrow> string option" where
  "html_entity c =
     (if c = CHR 0x22 then Some ''&#34;'' else if c = CHR 0x27 then Some ''&#39;''
      else if c = CHR ''&'' then Some ''&amp;'' else if c = CHR ''<'' then Some ''&lt;''
      else if c = CHR ''>'' then Some ''&gt;'' else None)"

fun HTMLEscape_loop :: "string \<Rightarrow> nat \<Rightarrow> string \<Rightarrow> nat \<Rightarrow> string \<Rightarrow> (nat \<times> string) go" where
  "HTMLEscape_loop b i [] done_to w = Inr (done_to, w)"
| "HTMLEscape_loop b i (c # cs) done_to w =
     (case html_entity c of
        None \<Rightarrow> HTMLEscape_loop b (i + 1) cs done_to w
      | Some html \<Rightarrow> bindE (slice b done_to i) (\<lambda>t. HTMLEscape_loop b (i + 1) cs (i + 1) (w @ t @ html)))"

definition HTMLEscape :: "string \<Rightarrow> string go" where
  "HTMLEscape b = bindE (HTMLEscape_loop b 0 b 0 []) (\<lambda>(done_to, w). bindE (slice b done_to (length b)) (\<lambda>t. Inr (w @ t)))"

definition HTMLEscapeString :: "string \<Rightarrow> string go" where
  "HTMLEscapeString s =
     (if index_any s [CHR 0x27, CHR 0x22, CHR ''&'', CHR ''<'', CHR ''>''] = None then Inr s else HTMLEscape s)"

datatype 'v farg = FString string | FOther 'v

definition arg_text :: "('v farg list \<Rightarrow> string) \<Rightarrow> 'v farg list \<Rightarrow> string" where
  "arg_text Sprint args = (case args of [FString s] \<Rightarrow> s | _ \<Rightarrow> Sprint args)"

definition HTMLEscaper :: "('v farg list \<Rightarrow> string) \<Rightarrow> 'v farg list \<Rightarrow> string go" where
  "HTMLEscaper Sprint args = HTMLEscapeString (arg_text Sprint args)"

section \<open>JavaScript\<close>

definition jsIsSpecial :: "rune \<Rightarrow> bool" where
  "jsIsSpecial r \<longleftrightarrow> r \<in> {0x5C, 0x27, 0x22, 0x3C, 0x3E} \<or> r < 0x20 \<or> 0x80 \<le> r"

definition hex_upper :: "nat \<Rightarrow> char" where
  "hex_upper d = char_of (if d < 10 then 48 + d else 55 + d)"

fun show_hex_upper :: "nat \<Rightarrow> string" where
  "show_hex_upper n = (if n < 16 then [hex_upper n] else show_hex_upper (n div 16) @ [hex_upper (n mod 16)])"

declare show_hex_upper.simps [simp del]

text \<open>The verb \<open>%04X\<close>.\<close>

definition hex4 :: "nat \<Rightarrow> string" where
  "hex4 n = (let s = show_hex_upper n in replicate (4 - length s) (CHR ''0'') @ s)"

text \<open>What is written for a special byte below 0x80 and for a rune from 0x80 on.\<close>

definition js_low :: "char \<Rightarrow> string" where
  "js_low c =
     (if c = CHR 0x5C then [CHR 0x5C, CHR 0x5C]
      else if c = CHR 0x27 then [CHR 0x5C, CHR 0x27]
      else if c = CHR 0x22 then [CHR 0x5C, CHR 0x22]
      else if c = CHR ''<'' then CHR 0x5C # ''x3C''
      else if c = CHR ''>'' then CHR 0x5C # ''x3E''
      else CHR 0x5C # ''u00'' @ [hex_upper (nat (byte_val c) div 16), hex_upper (nat (byte_val c) mod 16)])"

definition js_rune :: "(rune \<Rightarrow> bool) \<Rightarrow> rune \<Rightarrow> string \<Rightarrow> string" where
  "js_rune isPrint r bs = (if isPrint r then bs else CHR 0x5C # ''u'' @ hex4 (nat r))"

function (sequential) JSEscape_loop :: "(rune \<Rightarrow> bool) \<Rightarrow> string \<Rightarrow> nat \<Rightarrow> nat \<Rightarrow> string \<Rightarrow> (nat \<times> string) go" where
  "JSEscape_loop isPrint b i done_to w =
     (if i \<ge> length b then Inr (done_to, w)
      else
        let c = b ! i in
        if \<not> jsIsSpecial (byte_val c) then JSEscape_loop isPrint b (i + 1) done_to w
        else
          bindE (slice b done_to i) (\<lambda>t.
            if byte_val c < 0x80 then JSEscape_loop isPrint b (i + 1) (i + 1) (w @ t @ js_low c)
            else
              let (r, size) = decode_rune (drop i b) in
              bindE (slice b i (i + size)) (\<lambda>bs.
                JSEscape_loop isPrint b (i + size) (i + size) (w @ t @ js_rune isPrint r bs))))"
  by pat_completeness auto
termination
proof (relation "measure (\<lambda>(p, b, i, l, w). length b - i)", goal_cases)
  case (4 isPrint b i done_to w c x x1 y z xa)
  then have "drop i b \<noteq> []" by simp
  then have "0 < z" using decode_rune_pos [of "drop i b"] 4 by (metis snd_conv)
  then show ?case using 4 by simp
qed auto

declare JSEscape_loop.simps [simp del]

definition JSEscape :: "(rune \<Rightarrow> bool) \<Rightarrow> string \<Rightarrow> string go" where
  "JSEscape isPrint b =
     bindE (JSEscape_loop isPrint b 0 0 []) (\<lambda>(done_to, w). bindE (slice b done_to (length b)) (\<lambda>t. Inr (w @ t)))"

definition JSEscapeString :: "(rune \<Rightarrow> bool) \<Rightarrow> string \<Rightarrow> string go" where
  "JSEscapeString isPrint s =
     (if find (\<lambda>(i, r). jsIsSpecial r) (range_runes 0 s) = None then Inr s else JSEscape isPrint s)"

definition JSEscaper :: "(rune \<Rightarrow> bool) \<Rightarrow> ('v farg list \<Rightarrow> string) \<Rightarrow> 'v farg list \<Rightarrow> string go" where
  "JSEscaper isPrint Sprint args = JSEscapeString isPrint (arg_text Sprint args)"

section \<open>URLs\<close>

text \<open>\<open>url.QueryEscape\<close>: a space is a plus sign, unreserved characters stay, other bytes are escaped.\<close>

definition unreserved :: "char \<Rightarrow> bool" where
  "unreserved c \<longleftrightarrow> (let x = byte_val c in 0x61 \<le> x \<and> x \<le> 0x7A \<or> 0x41 \<le> x \<and> x \<le> 0x5A \<or> 0x30 \<le> x \<and> x \<le> 0x39) \<or>
     c \<in> set ''-_.~''"

definition query_byte :: "char \<Rightarrow> string" where
  "query_byte c =
     (if c = CHR '' '' then ''+'' else if unreserved c then [c]
      else [CHR ''%'', hex_upper (nat (byte_val c) div 16), hex_upper (nat (byte_val c) mod 16)])"

definition QueryEscape :: "string \<Rightarrow> string" where
  "QueryEscape s = concat (map query_byte s)"

definition URLQueryEscaper :: "('v farg list \<Rightarrow> string) \<Rightarrow> 'v farg list \<Rightarrow> string" where
  "URLQueryEscaper Sprint args = QueryEscape (arg_text Sprint args)"

section \<open>The loops as replacements\<close>

lemma range_runes_chunks: "map snd (range_runes i s) = map fst (chunks s)"
  by (induction s arbitrary: i rule: chunks.induct) (subst chunks.simps, subst range_runes.simps, simp)

lemma ascii_byte_rune:
  assumes "c \<in> set s" "byte_val c < 0x80"
  shows "(byte_val c, [c]) \<in> set (chunks s)"
proof -
  have "c \<in> set (concat (map snd (chunks s)))" using assms(1) by (simp only: concat_chunks)
  then obtain r bs where "(r, bs) \<in> set (chunks s)" "c \<in> set bs" by auto
  then show ?thesis using chunks_cases [of r bs s] assms(2) by auto
qed

definition html_char :: "char \<Rightarrow> string" where
  "html_char c = (case html_entity c of None \<Rightarrow> [c] | Some html \<Rightarrow> html)"

lemma HTMLEscape_loop_map:
  assumes "drop i b = cs" "i \<le> length b" "d \<le> i"
  shows "\<exists>d' w'. HTMLEscape_loop b i cs d w = Inr (d', w') \<and> d' \<le> length b \<and>
    w' @ drop d' b = w @ take (i - d) (drop d b) @ concat (map html_char cs)"
  using assms
proof (induction cs arbitrary: i d w)
  case (Cons c cs)
  have n: "drop (i + 1) b = cs" "i + 1 \<le> length b" "b ! i = c"
    using drop_eq_ConsD [OF Cons.prems(1)] by simp_all
  have t: "take (i + 1 - d) (drop d b) = take (i - d) (drop d b) @ [c]"
    using Cons.prems(3) n by (simp add: Suc_diff_le take_Suc_conv_app_nth)
  show ?case
  proof (cases "html_entity c")
    case None
    then show ?thesis using Cons.IH [OF n(1,2), of d w] Cons.prems(3) t by (simp add: html_char_def)
  next
    case (Some e)
    then show ?thesis
      using Cons.IH [OF n(1,2), of "i + 1" "w @ take (i - d) (drop d b) @ e"] Cons.prems n by (simp add: html_char_def)
  qed
qed auto

lemma HTMLEscapeString_map: "HTMLEscapeString s = Inr (concat (map html_char s))"
proof (cases "index_any s [CHR 0x27, CHR 0x22, CHR ''&'', CHR ''<'', CHR ''>''] = None")
  case True
  let ?chars = "[CHR 0x27, CHR 0x22, CHR ''&'', CHR ''<'', CHR ''>'']"
  have "html_char c = [c]" if "c \<in> set s" for c
  proof (rule ccontr)
    assume "html_char c \<noteq> [c]"
    then have c: "c \<in> set ?chars" by (auto simp: html_char_def html_entity_def split: if_splits)
    then have "byte_val c < 0x80" by (auto simp: byte_val_def)
    from ascii_byte_rune [OF that this] have "byte_val c \<in> snd ` set (range_runes 0 s)"
      using range_runes_chunks [of 0 s] by (metis fst_conv image_eqI image_set)
    moreover have "contains_rune ?chars (byte_val c)"
      using c contains_rune_chars [of ?chars "byte_val c"] by (auto simp: byte_val_def)
    ultimately show False using True by (fastforce simp: index_any_def find_None_iff)
  qed
  then have "concat (map html_char s) = s" by (induction s) auto
  then show ?thesis using True by (simp add: HTMLEscapeString_def)
next
  case False
  then show ?thesis using HTMLEscape_loop_map [of 0 s s 0 "[]"] by (auto simp: HTMLEscapeString_def HTMLEscape_def)
qed

definition js_chunk :: "(rune \<Rightarrow> bool) \<Rightarrow> rune \<times> string \<Rightarrow> string" where
  "js_chunk isPrint x = (let (r, bs) = x in
     if \<not> jsIsSpecial r then bs else if r < 0x80 then js_low (char_of r) else js_rune isPrint r bs)"

lemma js_chunk_pair:
  "js_chunk isPrint (r, bs) = (if \<not> jsIsSpecial r then bs else if r < 0x80 then js_low (char_of r) else js_rune isPrint r bs)"
  by (simp add: js_chunk_def)

lemma JSEscape_loop_map:
  assumes "drop i b = t" "i \<le> length b" "d \<le> i"
  shows "\<exists>d' w'. JSEscape_loop isPrint b i d w = Inr (d', w') \<and> d' \<le> length b \<and>
    w' @ drop d' b = w @ take (i - d) (drop d b) @ concat (map (js_chunk isPrint) (chunks t))"
  using assms
proof (induction t arbitrary: i d w rule: chunks.induct)
  case (1 t)
  show ?case
  proof (cases "t = []")
    case True
    then show ?thesis using "1.prems" by (subst JSEscape_loop.simps) auto
  next
    case False
    obtain r n where rn: "decode_rune t = (r, n)" by fastforce
    have n: "1 \<le> n" "n \<le> length t" using decode_rune_width [OF False rn] by auto
    have lt: "length t = length b - i" "i < length b" using "1.prems" False by auto
    have nx: "drop (i + n) b = drop n t" "i + n \<le> length b" using "1.prems"(1) n lt by (auto simp: add.commute)
    have c: "b ! i = hd t" using "1.prems"(1) lt by (simp add: hd_drop_conv_nth [symmetric])
    have ch: "chunks t = (r, take n t) # chunks (drop n t)" using False rn by (subst chunks.simps) simp
    note IH = "1.IH" [OF False, unfolded rn snd_conv, OF nx]
    obtain a t' where t: "t = a # t'" "b ! i = a" using False c by (cases t) auto
    have sl: "slice b d i = Inr (take (i - d) (drop d b))" using "1.prems"(3) lt by simp
    have grow: "take (i + 1 - d) (drop d b) = take (i - d) (drop d b) @ [a]"
      using "1.prems"(3) lt(2) t(2) by (simp add: Suc_diff_le take_Suc_conv_app_nth)
    show ?thesis
    proof (cases "byte_val a < 0x80")
      case True
      then have r: "r = byte_val a" "n = 1" using rn by (simp_all add: t)
      show ?thesis
        using IH [of d w] IH [of "i + 1" "w @ take (i - d) (drop d b) @ js_low a"] lt sl grow "1.prems"(3) True t r
        by (subst JSEscape_loop.simps) (auto simp: ch js_chunk_pair)
    next
      case False
      have "0x80 \<le> r" using decode_rune_nonascii(1) [OF False rn [unfolded t]] .
      then have sp: "jsIsSpecial r" "jsIsSpecial (byte_val a)" using False by (auto simp: jsIsSpecial_def)
      have sl2: "slice b i (i + n) = Inr (take n t)" using nx(2) "1.prems"(1) by simp
      show ?thesis
        using IH [of "i + n" "w @ take (i - d) (drop d b) @ js_rune isPrint r (take n t)"] lt sl sl2 False t sp rn ch "1.prems"(1) \<open>0x80 \<le> r\<close>
        by (subst JSEscape_loop.simps) (auto simp: js_chunk_pair)
    qed
  qed
qed

text \<open>C25: The escapers of HTML and JavaScript text, with their fast path and their buffered copies, replace the
  text character by character and never panic: HTML by bytes, JavaScript by runes, where a rune that is
  not printable is written as an escape.\<close>

theorem escape_strings_map:
  "HTMLEscapeString s = Inr (concat (map html_char s)) \<and>
   JSEscapeString isPrint s = Inr (concat (map (js_chunk isPrint) (chunks s)))"
proof
  show "HTMLEscapeString s = Inr (concat (map html_char s))" by (rule HTMLEscapeString_map)
  show "JSEscapeString isPrint s = Inr (concat (map (js_chunk isPrint) (chunks s)))"
  proof (cases "find (\<lambda>(i, r). jsIsSpecial r) (range_runes 0 s) = None")
    case True
    then have "\<forall>r \<in> set (map snd (range_runes 0 s)). \<not> jsIsSpecial r" by (auto simp: find_None_iff)
    then have "\<forall>x \<in> set (chunks s). js_chunk isPrint x = snd x" by (auto simp: range_runes_chunks js_chunk_def)
    then have "concat (map (js_chunk isPrint) (chunks s)) = concat (map snd (chunks s))" by (metis map_eq_conv)
    then show ?thesis using True by (simp add: JSEscapeString_def concat_chunks)
  next
    case False
    then show ?thesis
      using JSEscape_loop_map [of 0 s s 0 isPrint "[]"] by (auto simp: JSEscapeString_def JSEscape_def)
  qed
qed

end
