(* ===== verification/Http_Headers.thy ===== *)
theory Http_Headers
  imports Go_Strings
begin

text \<open>
  Header values (\<open>http/parser/parser.go\<close>) and the \<open>Authorization\<close> header (\<open>http/auth/auth.go\<close>). A request
  is its header, a map from names to values. \<open>base64.StdEncoding.DecodeString\<close> is the parameter \<open>decode\<close>,
  with \<open>None\<close> for its error. A list printed with quoted values is read back, and two short values
  make the parser panic.
\<close>

section \<open>Lists and pairs\<close>

text \<open>The loop of \<open>ParseList\<close> over the runes of the value: \<open>escape\<close>, \<open>quote\<close>, the buffer and the list.\<close>

fun ParseList_loop :: "rune list \<Rightarrow> bool \<Rightarrow> bool \<Rightarrow> string \<Rightarrow> string list \<Rightarrow> string \<times> string list" where
  "ParseList_loop [] escape quote b list = (b, list)"
| "ParseList_loop (r # rs) escape quote b list =
     (if escape then ParseList_loop rs False quote (b @ encode_rune r) list
      else if quote then
        (if r = 0x5C then ParseList_loop rs True quote b list
         else ParseList_loop rs escape (r \<noteq> 0x22) (b @ encode_rune r) list)
      else if r = 0x2C then ParseList_loop rs escape quote [] (list @ [trim_space b])
      else ParseList_loop rs escape (r = 0x22) (b @ encode_rune r) list)"

definition ParseList :: "string \<Rightarrow> string list" where
  "ParseList value =
     (let (b, list) = ParseList_loop (map snd (range_runes 0 value)) False False [] []
      in if b \<noteq> [] then list @ [trim_space b] else list)"

text \<open>One pair: the key and the value after the first \<open>=\<close>, without the quotes around it.\<close>

definition ParsePair :: "string \<Rightarrow> (string \<times> string) go" where
  "ParsePair pair =
     (case index_byte pair (CHR ''='') of
        None \<Rightarrow> Inr (pair, [])
      | Some i \<Rightarrow>
          let v = drop (i + 1) pair in
          if v = [] then Inl IndexOutOfRange
          else if v ! 0 = CHR 0x22 \<and> v ! (length v - 1) = CHR 0x22
          then bindE (slice v 1 (length v - 1)) (\<lambda>v. Inr (take i pair, v))
          else Inr (take i pair, v))"

fun ParsePairs_loop :: "string list \<Rightarrow> (string \<rightharpoonup> string) \<Rightarrow> (string \<rightharpoonup> string) go" where
  "ParsePairs_loop [] m = Inr m"
| "ParsePairs_loop (pair # pairs) m =
     bindE (ParsePair pair) (\<lambda>(k, v). ParsePairs_loop pairs (m(k \<mapsto> v)))"

definition ParsePairs :: "string \<Rightarrow> (string \<rightharpoonup> string) go" where
  "ParsePairs value = ParsePairs_loop (ParseList value) Map.empty"

section \<open>The Authorization header\<close>

type_synonym header = "string \<rightharpoonup> string list"

definition auth_Parse :: "string \<Rightarrow> string + string \<times> string" where
  "auth_Parse value =
     (case split2 (CHR '' '') value of
        [scheme, credentials] \<Rightarrow> Inr (scheme, credentials)
      | _ \<Rightarrow> Inl ''The authorization header is malformed.'')"

definition ParseRequest :: "header \<Rightarrow> string + string \<times> string" where
  "ParseRequest h =
     (case h ''Authorization'' of
        Some (v # _) \<Rightarrow> auth_Parse v
      | _ \<Rightarrow> Inl ''The authorization header is not set.'')"

record Basic =
  Username :: string
  Password :: string

definition NewBasic :: "(string \<Rightarrow> string option) \<Rightarrow> string \<Rightarrow> string + Basic" where
  "NewBasic decode credentials =
     (case decode credentials of
        None \<Rightarrow> Inl ''The basic authentication header is malformed.''
      | Some b \<Rightarrow>
          (case split_on (CHR '':'') b of
             [u, p] \<Rightarrow> Inr \<lparr>Username = u, Password = p\<rparr>
           | _ \<Rightarrow> Inl ''The basic authentication header is malformed.''))"

definition NewBasicFromRequest :: "(string \<Rightarrow> string option) \<Rightarrow> header \<Rightarrow> string + Basic" where
  "NewBasicFromRequest decode h =
     bindE (ParseRequest h) (\<lambda>(scheme, credentials).
       if scheme = ''Basic'' then NewBasic decode credentials
       else Inl ''The basic authentication header is invalid.'')"

record Digest =
  Values :: "string \<rightharpoonup> string"

definition NewDigest :: "string \<Rightarrow> Digest go" where
  "NewDigest credentials = bindE (ParsePairs credentials) (\<lambda>m. Inr \<lparr>Values = m\<rparr>)"

definition NewDigestFromRequest :: "header \<Rightarrow> (string + Digest) go" where
  "NewDigestFromRequest h =
     (case ParseRequest h of
        Inl err \<Rightarrow> Inr (Inl err)
      | Inr (scheme, credentials) \<Rightarrow>
          if scheme = ''Digest'' then bindE (NewDigest credentials) (\<lambda>d. Inr (Inr d))
          else Inr (Inl ''The digest authentication header is invalid.''))"

section \<open>Printing\<close>

text \<open>A list of pairs with quoted values, as a client sends it.\<close>

fun quote_value :: "string \<Rightarrow> string" where
  "quote_value [] = []"
| "quote_value (c # s) = (if c = CHR 0x5C \<or> c = CHR 0x22 then [CHR 0x5C, c] else [c]) @ quote_value s"

definition print_pair :: "string \<times> string \<Rightarrow> string" where
  "print_pair kv = fst kv @ ''='' @ [CHR 0x22] @ quote_value (snd kv) @ [CHR 0x22]"

fun print_pairs :: "(string \<times> string) list \<Rightarrow> string" where
  "print_pairs [] = []"
| "print_pairs [kv] = print_pair kv"
| "print_pairs (kv # kvs) = print_pair kv @ '', '' @ print_pairs kvs"

definition token_char :: "char \<Rightarrow> bool" where
  "token_char c \<longleftrightarrow> byte_val c < 0x80 \<and> \<not> is_space (byte_val c) \<and> c \<notin> {CHR '','', CHR 0x22, CHR ''=''}"

definition token :: "string \<Rightarrow> bool" where
  "token k \<longleftrightarrow> k \<noteq> [] \<and> list_all token_char k"

lemma loop_token:
  "list_all token_char k \<Longrightarrow> ParseList_loop (map byte_val k @ rs) False False b list = ParseList_loop rs False False (b @ k) list"
proof (induction k arbitrary: b)
  case (Cons c k)
  have "byte_val c < 0x80" "byte_val c \<noteq> byte_val (CHR '','')" "byte_val c \<noteq> byte_val (CHR 0x22)"
    using Cons.prems unfolding byte_val_eq_iff by (auto simp: token_char_def)
  then show ?case using Cons by (simp add: encode_rune_ascii)
qed simp

lemma loop_value:
  "ascii v \<Longrightarrow> ParseList_loop (map byte_val (quote_value v) @ rs) False True b list = ParseList_loop rs False True (b @ v) list"
proof (induction v arbitrary: b)
  case (Cons c v)
  have c: "byte_val c < 0x80" "ascii v" using Cons.prems by (simp_all add: ascii_def)
  have "c \<noteq> CHR 0x5C \<Longrightarrow> byte_val c \<noteq> byte_val (CHR 0x5C)" "c \<noteq> CHR 0x22 \<Longrightarrow> byte_val c \<noteq> byte_val (CHR 0x22)"
    unfolding byte_val_eq_iff by simp_all
  then show ?case using Cons.IH [OF c(2)] c(1) by (auto simp: encode_rune_ascii)
qed simp

lemma loop_pair:
  assumes "token (fst kv)" "ascii (snd kv)"
  shows "ParseList_loop (map byte_val (print_pair kv) @ rs) False False b list =
    ParseList_loop rs False False (b @ fst kv @ ''='' @ [CHR 0x22] @ snd kv @ [CHR 0x22]) list"
proof -
  have eq: "ParseList_loop (0x3D # rs) False False b list = ParseList_loop rs False False (b @ ''='') list" for rs b
    using encode_rune_ascii [of "CHR ''=''"] by simp
  have quote: "ParseList_loop (0x22 # rs) False q b list = ParseList_loop rs False (\<not> q) (b @ [CHR 0x22]) list" for rs b q
    using encode_rune_ascii [of "CHR 0x22"] by simp
  show ?thesis using assms by (simp add: print_pair_def token_def loop_token loop_value eq quote del: ParseList_loop.simps)
qed

text \<open>Text that neither starts nor ends with a space is not trimmed.\<close>

lemma trim_solid:
  assumes "ascii s" "s \<noteq> []" "\<not> is_space (byte_val (hd s))" "\<not> is_space (byte_val (last s))"
  shows "trim_space s = s" "trim_space ('' '' @ s) = s"
proof -
  let ?f = "\<lambda>c. (byte_val c, [c])" and ?drop = "dropWhile (\<lambda>c. is_space (fst c))"
  have id: "concat (map snd (map ?f t)) = t" for t by (induction t) auto
  have d: "?drop (map ?f s) = map ?f s" using assms(2,3) by (cases s) auto
  have r: "rev (?drop (rev (map ?f s))) = map ?f s" using assms(2,4) by (cases s rule: rev_cases) auto
  show "trim_space s = s" unfolding trim_space_def Let_def chunks_ascii_list [OF assms(1)] d r id ..
  have "?drop (chunks ('' '' @ s)) = map ?f s" using d by (simp add: chunks_ascii_list [OF assms(1)] is_space_def [of 32])
  then show "trim_space ('' '' @ s) = s" unfolding trim_space_def Let_def by (simp only: r id)
qed

lemma token_solid: "token k \<Longrightarrow> ascii k \<and> \<not> is_space (byte_val (hd k))"
  by (cases k) (auto simp: token_def token_char_def ascii_def list_all_iff)

lemma not_space [simp]: "\<not> is_space (byte_val (CHR ''=''))" "\<not> is_space (byte_val (CHR 0x22))"
  by (simp_all add: is_space_def)

definition raw_pair :: "string \<times> string \<Rightarrow> string" where
  "raw_pair kv = fst kv @ ''='' @ [CHR 0x22] @ snd kv @ [CHR 0x22]"

lemma trim_raw_pair:
  assumes "token (fst kv)" "ascii (snd kv)"
  shows "trim_space (raw_pair kv) = raw_pair kv" "trim_space ('' '' @ raw_pair kv) = raw_pair kv"
proof -
  have "fst kv \<noteq> []" using assms(1) by (simp add: token_def)
  then have "ascii (raw_pair kv)" "raw_pair kv \<noteq> []" "hd (raw_pair kv) = hd (fst kv)" "last (raw_pair kv) = CHR 0x22"
    using token_solid [OF assms(1)] assms(2) by (auto simp: raw_pair_def ascii_def)
  with token_solid [OF assms(1)] show "trim_space (raw_pair kv) = raw_pair kv" "trim_space ('' '' @ raw_pair kv) = raw_pair kv"
    using trim_solid [of "raw_pair kv"] by (simp_all only: not_space simp_thms)
qed

lemma loop_pairs:
  assumes "kvs \<noteq> []" "\<forall>kv \<in> set kvs. token (fst kv) \<and> ascii (snd kv)" "b \<in> {[], '' ''}"
  shows "(let (b, list) = ParseList_loop (map byte_val (print_pairs kvs)) False False b list in
    if b \<noteq> [] then list @ [trim_space b] else list) = list @ map raw_pair kvs"
  using assms
proof (induction kvs arbitrary: b list rule: print_pairs.induct)
  case (2 kv)
  then show ?case using loop_pair [of kv "[]" b list] trim_raw_pair [of kv] by (auto simp: raw_pair_def)
next
  case (3 kv kv2 kvs)
  have kv: "token (fst kv)" "ascii (snd kv)" using "3.prems"(2) by auto
  have t: "trim_space (b @ raw_pair kv) = raw_pair kv" using trim_raw_pair [OF kv] "3.prems"(3) by auto
  have sep: "ParseList_loop (map byte_val ('', '' @ rest)) False False b' list =
      ParseList_loop (map byte_val rest) False False '' '' (list @ [trim_space b'])" for rest b'
    using encode_rune_ascii [of "CHR '' ''"] by simp
  have "ParseList_loop (map byte_val (print_pairs (kv # kv2 # kvs))) False False b list =
      ParseList_loop (map byte_val (print_pairs (kv2 # kvs))) False False '' '' (list @ [raw_pair kv])"
    unfolding print_pairs.simps map_append [of _ "print_pair kv"] loop_pair [OF kv] sep
    using t by (simp add: raw_pair_def)
  moreover note "3.IH" [of "'' ''" "list @ [raw_pair kv]"]
  ultimately show ?case using "3.prems"(2) by simp
qed simp

lemma ascii_print_pairs:
  assumes "\<forall>kv \<in> set kvs. token (fst kv) \<and> ascii (snd kv)"
  shows "ascii (print_pairs kvs)"
proof -
  have q: "ascii v \<Longrightarrow> ascii (quote_value v)" for v by (induction v) (auto simp: ascii_def)
  have t: "token k \<Longrightarrow> ascii k" for k by (auto simp: token_def token_char_def ascii_def list_all_iff)
  have p: "ascii (print_pair kv)" if "token (fst kv)" "ascii (snd kv)" for kv
    using q [OF that(2)] t [OF that(1)] by (simp add: print_pair_def ascii_def)
  have app: "ascii (a @ b) \<longleftrightarrow> ascii a \<and> ascii b" for a b by (simp add: ascii_def)
  show ?thesis using assms by (induction kvs rule: print_pairs.induct) (auto simp: p app, simp_all add: ascii_def)
qed

lemma ParsePair_raw: "token (fst kv) \<Longrightarrow> ParsePair (raw_pair kv) = Inr kv"
proof -
  assume "token (fst kv)"
  then have "\<forall>c \<in> set (fst kv). c \<noteq> CHR ''=''" by (auto simp: token_def token_char_def list_all_iff)
  then have i: "index_byte (raw_pair kv) (CHR ''='') = Some (length (fst kv))"
    by (simp add: raw_pair_def index_where_append)
  have d: "drop (length (fst kv) + 1) (raw_pair kv) = CHR 0x22 # snd kv @ [CHR 0x22]" by (simp add: raw_pair_def)
  show ?thesis unfolding ParsePair_def i using d by (simp add: raw_pair_def nth_append)
qed

lemma ParsePairs_loop_raw:
  "\<forall>kv \<in> set kvs. token (fst kv) \<Longrightarrow> ParsePairs_loop (map raw_pair kvs) m = Inr (m(map fst kvs [\<mapsto>] map snd kvs))"
  by (induction kvs arbitrary: m) (auto simp: ParsePair_raw)



text \<open>A digest header with an empty or half-quoted value makes the server panic instead of returning an
  error: the code indexes the first byte of the value, and cuts the quotes off a value that is one quote.\<close>

theorem digest_header_panics:
  assumes "token k" "q \<in> {[], [CHR 0x22]}" "h ''Authorization'' = Some [''Digest '' @ k @ ''='' @ q]"
  shows "NewDigestFromRequest h = Inl (if q = [] then IndexOutOfRange else SliceBoundsOutOfRange)"
proof -
  let ?v = "k @ ''='' @ q"
  have tc: "list_all token_char k" using assms(1) by (simp add: token_def)
  have "ascii k" using tc by (auto simp: token_char_def ascii_def list_all_iff)
  then have av: "ascii ?v" using assms(2) by (auto simp: ascii_def)
  have loop: "ParseList_loop (map byte_val ?v) False False [] [] = (?v, [])"
    using assms(2) loop_token [OF tc, of "map byte_val (''='' @ q)" "[]" "[]"]
      encode_rune_ascii [of "CHR ''=''"] encode_rune_ascii [of "CHR 0x22"] by auto
  have trim: "trim_space ?v = ?v"
    using assms(2) token_solid [OF assms(1)] av by (intro trim_solid) (use assms(1) in \<open>auto simp: token_def is_space_def [of 61] is_space_def [of 34]\<close>)
  have list: "ParseList ?v = [?v]"
    unfolding ParseList_def range_runes_ascii_list [OF av] loop prod.case Let_def trim by simp
  have "\<forall>c \<in> set k. c \<noteq> CHR ''=''" using tc by (auto simp: token_char_def list_all_iff)
  then have i: "index_byte ?v (CHR ''='') = Some (length k)" by (simp add: index_where_append)
  have "ParsePair ?v = Inl (if q = [] then IndexOutOfRange else SliceBoundsOutOfRange)"
    unfolding ParsePair_def i using assms(2) by (auto simp: slice_def)
  then have "ParsePairs ?v = Inl (if q = [] then IndexOutOfRange else SliceBoundsOutOfRange)"
    unfolding ParsePairs_def list by simp
  moreover have "ParseRequest h = Inr (''Digest'', ?v)"
    using assms(3) by (simp add: ParseRequest_def auth_Parse_def split2_def)
  ultimately show ?thesis by (simp add: NewDigestFromRequest_def NewDigest_def)
qed

theorem digest_header_panics_witness:
  "NewDigestFromRequest [''Authorization'' \<mapsto> [''Digest nonce='']] = Inl IndexOutOfRange"
  using digest_header_panics [of "''nonce''" "[]" "[''Authorization'' \<mapsto> [''Digest nonce='']]"]
  by (simp add: token_def token_char_def is_space_def)

text \<open>Basic credentials are split at every colon: a user name and a password are found exactly when neither
  holds a colon, so that a password with a colon, which the scheme allows, is rejected as malformed.\<close>

theorem NewBasic_splits:
  assumes "decode c = Some (u @ '':'' @ p)"
  shows "NewBasic decode c = (if CHR '':'' \<in> set u \<union> set p then Inl ''The basic authentication header is malformed.''
    else Inr \<lparr>Username = u, Password = p\<rparr>)"
proof -
  have len: "length (split_on (CHR '':'') s) = Suc (count_list s (CHR '':''))" for s by (induction s) auto
  have parts: "split_on (CHR '':'') (u @ '':'' @ p) = [u, p]" if "CHR '':'' \<notin> set u \<union> set p"
    using that by (simp add: split_on_append split_on_no_sep)
  show ?thesis
  proof (cases "CHR '':'' \<in> set u \<union> set p")
    case True
    then have "2 < length (split_on (CHR '':'') (u @ '':'' @ p))"
      unfolding len by (auto simp: count_list_0_iff gr0_conv_Suc [symmetric] simp flip: neq0_conv)
    then show ?thesis using True by (auto simp: NewBasic_def assms split: list.split)
  qed (use parts in \<open>simp add: NewBasic_def assms\<close>)
qed

theorem NewBasic_splits_witness:
  "NewBasic (\<lambda>c. Some ''aladdin:open:sesame'') ''x'' = Inl ''The basic authentication header is malformed.''"
  using NewBasic_splits [of "\<lambda>c. Some ''aladdin:open:sesame''" "''x''" "''aladdin''" "''open:sesame''"] by simp

end
