(* ===== verification/Color_Hex.thy ===== *)
theory Color_Hex
  imports Go_Prelude
begin

text \<open>
  Hexadecimal colors (\<open>color/hex.go\<close>). Components of a color are 8-bit words, the results of \<open>RGBA\<close> 32-bit
  words. A \<open>color.Color\<close> is a \<open>Hex\<close> or another color, known by the words its \<open>RGBA\<close> method returns.
\<close>

unbundle bit_operations_syntax

type_synonym uint8 = "8 word"

type_synonym rgba = "uint32 \<times> uint32 \<times> uint32 \<times> uint32"

datatype Color = Hex string | OtherColor rgba

text \<open>The verb \<open>%02X\<close> of a byte.\<close>

definition upper_hex :: "nat \<Rightarrow> char" where
  "upper_hex d = char_of (if d < 10 then 48 + d else 55 + d)"

definition hex_byte :: "uint8 \<Rightarrow> string" where
  "hex_byte w = [upper_hex (unat w div 16), upper_hex (unat w mod 16)]"

definition RGBToHex :: "uint8 \<Rightarrow> uint8 \<Rightarrow> uint8 \<Rightarrow> string" where
  "RGBToHex r g b = ''#'' @ hex_byte r @ hex_byte g @ hex_byte b"

definition HexToRGB :: "string \<Rightarrow> uint8 \<times> uint8 \<times> uint8" where
  "HexToRGB h =
     (let h = (if h \<noteq> [] \<and> h ! 0 = CHR ''#'' then drop 1 h else h);
          h = (if length h = 3
               then take 1 h @ take 1 h @ take 1 (drop 1 h) @ take 1 (drop 1 h) @ drop 2 h @ drop 2 h else h)
      in if length h = 6
         then case parse_uint 16 (2 ^ 32 - 1) h of
                Inr x \<Rightarrow> let rgb = (word_of_int x :: 64 word) in
                  (ucast (drop_bit 16 rgb), ucast (drop_bit 8 rgb AND 0xFF), ucast (rgb AND 0xFF))
              | Inl _ \<Rightarrow> (0, 0, 0)
         else (0, 0, 0))"

definition Hex_RGBA :: "string \<Rightarrow> rgba" where
  "Hex_RGBA c =
     (let (r, g, b) = HexToRGB c in (ucast r * 0x101, ucast g * 0x101, ucast b * 0x101, 0xFFFF))"

fun RGBA :: "Color \<Rightarrow> rgba" where
  "RGBA (Hex h) = Hex_RGBA h"
| "RGBA (OtherColor c) = c"

fun hexModel :: "Color \<Rightarrow> Color" where
  "hexModel (Hex h) = Hex h"
| "hexModel c = (let (r, g, b, _) = RGBA c in Hex (RGBToHex (ucast (drop_bit 8 r)) (ucast (drop_bit 8 g)) (ucast (drop_bit 8 b))))"

section \<open>Round trips\<close>

lemma digit_value_upper_hex: "d < 16 \<Longrightarrow> digit_value (upper_hex d) = Some (int d)"
proof -
  assume "d < 16"
  then have "d \<in> set [0..<16]" by simp
  moreover have "list_all (\<lambda>d. digit_value (upper_hex d) = Some (int d)) [0..<16]" by code_simp
  ultimately show ?thesis unfolding list_all_iff by blast
qed

lemma unat_byte: "unat (w :: uint8) < 256"
proof -
  have "unat w < 2 ^ LENGTH(8)" by (rule unsigned_less)
  then show ?thesis by simp
qed

lemma parse_two_digits:
  assumes "a < 16" "b < 16" "0 \<le> n" "(n * 16 + int a) * 16 + int b \<le> m"
  shows "parse_uint_loop 16 m n (upper_hex a # upper_hex b # s) = parse_uint_loop 16 m ((n * 16 + int a) * 16 + int b) s"
  using assms by (simp add: digit_value_upper_hex)

lemma parse_hex_byte:
  assumes "0 \<le> n" "n * 256 + 255 \<le> m"
  shows "parse_uint_loop 16 m n (hex_byte w @ s) = parse_uint_loop 16 m (n * 256 + int (unat w)) s"
proof -
  have w: "unat w < 256" by (rule unat_byte)
  have q: "unat w div 16 < 16" "unat w mod 16 < 16" using w by auto
  have "int (unat w) = 16 * int (unat w div 16) + int (unat w mod 16)"
    by (metis mult_div_mod_eq of_nat_add of_nat_mult of_nat_numeral)
  then have e: "(n * 16 + int (unat w div 16)) * 16 + int (unat w mod 16) = n * 256 + int (unat w)" by (simp only: distrib_right mult.assoc)
  have "n * 256 + int (unat w) \<le> m" using w assms by linarith
  then show ?thesis unfolding hex_byte_def append.simps by (subst parse_two_digits [OF q assms(1)]) (simp_all only: e)
qed

lemma hex_byte_length [simp]: "length (hex_byte w) = 2"
  by (simp add: hex_byte_def)

text \<open>The three bytes of a 24-bit number.\<close>

lemma low_byte: "(ucast (x AND 0xFF) :: uint8) = ucast (x :: 64 word)"
proof -
  have "(0xFF :: 64 word) = mask 8" by (simp add: mask_eq_exp_minus_1)
  then have "x AND 0xFF = take_bit 8 x" by (simp add: take_bit_eq_mask)
  then have "unat (ucast (x AND 0xFF) :: uint8) = unat (ucast x :: uint8)" by (simp add: unsigned_ucast_eq unsigned_take_bit_eq)
  then show ?thesis by (simp add: word_unat_eq_iff)
qed

lemma byte_at:
  assumes "unat x = n" "n div 2 ^ k mod 256 = unat w"
  shows "(ucast (drop_bit k (x :: 64 word)) :: uint8) = w"
proof -
  have "unat (ucast (drop_bit k x) :: uint8) = unat w"
    unfolding unsigned_ucast_eq unat_drop_bit_eq using assms by (simp add: take_bit_eq_mod drop_bit_eq_div)
  then show ?thesis by (simp add: word_unat_eq_iff)
qed

lemma bytes24:
  fixes r g b :: uint8
  defines "x \<equiv> (word_of_int ((int (unat r) * 256 + int (unat g)) * 256 + int (unat b)) :: 64 word)"
  shows "ucast (drop_bit 16 x) = r" "ucast (drop_bit 8 x AND 0xFF) = g" "ucast (x AND 0xFF) = b"
proof -
  note l = unat_byte [of r] unat_byte [of g] unat_byte [of b]
  define n where "n = (unat r * 256 + unat g) * 256 + unat b"
  have n: "n div 65536 = unat r" "n div 256 = unat r * 256 + unat g" "n mod 256 = unat b"
    using l mod_mult_self3 [of "unat r * 256 + unat g" 256 "unat b"] by (simp_all add: n_def)
  have "n < 2 ^ 24" using l by (simp add: n_def)
  moreover have "x = of_nat n" by (simp add: x_def n_def)
  ultimately have x: "unat x = n" by (simp add: unat_of_nat)
  show "ucast (drop_bit 16 x) = r" using l by (intro byte_at [OF x]) (simp add: n)
  show "ucast (drop_bit 8 x AND 0xFF) = g" unfolding low_byte using l by (intro byte_at [OF x]) (simp add: n)
  show "ucast (x AND 0xFF) = b" unfolding low_byte using byte_at [OF x, of 0 b] by (simp add: n)
qed

text \<open>C26: A color printed in hexadecimal is read back as the same color, whatever its components.\<close>

theorem HexToRGB_roundtrip:
  "HexToRGB (RGBToHex r g b) = (r, g, b)"
proof -
  have "parse_uint 16 (2 ^ 32 - 1) (hex_byte r @ hex_byte g @ hex_byte b) =
      Inr ((int (unat r) * 256 + int (unat g)) * 256 + int (unat b))"
  proof -
    have l: "int (unat r) < 256" "int (unat g) < 256" using unat_byte [of r] unat_byte [of g] by linarith+
    then have "parse_uint_loop 16 (2 ^ 32 - 1) 0 (hex_byte r @ hex_byte g @ hex_byte b) =
        parse_uint_loop 16 (2 ^ 32 - 1) (int (unat r) * 256 + int (unat g)) (hex_byte b @ [])"
      using parse_hex_byte [of 0 "2 ^ 32 - 1" r] parse_hex_byte [of "int (unat r)" "2 ^ 32 - 1" g] by simp
    also have "\<dots> = Inr ((int (unat r) * 256 + int (unat g)) * 256 + int (unat b))"
      using l by (subst parse_hex_byte) simp_all
    finally show ?thesis by (simp add: parse_uint_def hex_byte_def)
  qed
  then have "HexToRGB (RGBToHex r g b) = (let rgb = word_of_int ((int (unat r) * 256 + int (unat g)) * 256 + int (unat b)) :: 64 word
      in (ucast (drop_bit 16 rgb), ucast (drop_bit 8 rgb AND 0xFF), ucast (rgb AND 0xFF)))"
    by (simp add: HexToRGB_def RGBToHex_def)
  then show ?thesis unfolding Let_def bytes24 .
qed

end
