(* ===== verification/Css_Regexp.thy ===== *)
theory Css_Regexp
  imports Go_Strings
begin

text \<open>
  The part of the package \<open>regexp\<close> that the CSS scanner uses: expressions anchored at the start of the text, made
  of character classes, sequences, alternatives and greedy repetitions, with leftmost-first matching. The text
  is a list of runes with the bytes they were decoded from; an invalid byte is the rune U+FFFD.
\<close>

section \<open>Expressions\<close>

datatype re =
    Eps
  | Cls "(rune \<times> rune) list"
  | NotCls "(rune \<times> rune) list"
  | Cat re re
  | Alt re re
  | Star re

definition in_ranges :: "(rune \<times> rune) list \<Rightarrow> rune \<Rightarrow> bool" where
  "in_ranges rs r \<longleftrightarrow> (\<exists>(lo, hi) \<in> set rs. lo \<le> r \<and> r \<le> hi)"

definition Lit :: "rune \<Rightarrow> re" where "Lit r = Cls [(r, r)]"

text \<open>\<open>r+\<close>, \<open>r?\<close> and \<open>r{1,n}\<close>.\<close>

definition Plus :: "re \<Rightarrow> re" where "Plus r = Cat r (Star r)"
definition Opt :: "re \<Rightarrow> re" where "Opt r = Alt r Eps"

fun Rep1 :: "nat \<Rightarrow> re \<Rightarrow> re" where
  "Rep1 0 r = Eps"
| "Rep1 (Suc 0) r = r"
| "Rep1 (Suc (Suc n)) r = Cat r (Opt (Rep1 (Suc n) r))"

fun cats :: "re list \<Rightarrow> re" where
  "cats [] = Eps"
| "cats [r] = r"
| "cats (r # s # rs) = Cat r (cats (s # rs))"

fun alts :: "re list \<Rightarrow> re" where
  "alts [] = Cls []"
| "alts [r] = r"
| "alts (r # s # rs) = Alt r (alts (s # rs))"

section \<open>Matching\<close>

text \<open>What is left of the text after each match, the preferred match first. A repetition prefers more rounds, and
  a round that matches nothing is not repeated.\<close>

fun rests :: "re \<Rightarrow> (rune \<times> 'a) list \<Rightarrow> (rune \<times> 'a) list list" where
  "rests Eps s = [s]"
| "rests (Cls rs) s = (case s of [] \<Rightarrow> [] | c # t \<Rightarrow> if in_ranges rs (fst c) then [t] else [])"
| "rests (NotCls rs) s = (case s of [] \<Rightarrow> [] | c # t \<Rightarrow> if in_ranges rs (fst c) then [] else [t])"
| "rests (Cat r q) s = concat (map (rests q) (rests r s))"
| "rests (Alt r q) s = rests r s @ rests q s"
| "rests (Star r) s = concat (map (rests (Star r)) (filter (\<lambda>t. length t < length s) (rests r s))) @ [s]"

declare rests.simps(6) [simp del]

text \<open>\<open>Regexp.FindString\<close> for an expression that is anchored at the start.\<close>

definition FindString :: "re \<Rightarrow> string \<Rightarrow> string" where
  "FindString r s = (let cs = chunks s in case rests r cs of
     [] \<Rightarrow> []
   | t # _ \<Rightarrow> concat (map snd (take (length cs - length t) cs)))"

lemma chunks_nonempty: "c \<in> set (chunks s) \<Longrightarrow> snd c \<noteq> []"
  by (induction s rule: chunks.induct) (subst (asm) (2) chunks.simps, auto dest: decode_rune_pos split: if_splits)

section \<open>The language of an expression\<close>

inductive matches :: "re \<Rightarrow> rune list \<Rightarrow> bool" where
  matches_Eps: "matches Eps []"
| matches_Cls: "in_ranges rs r \<Longrightarrow> matches (Cls rs) [r]"
| matches_NotCls: "\<not> in_ranges rs r \<Longrightarrow> matches (NotCls rs) [r]"
| matches_Cat: "matches r u \<Longrightarrow> matches q v \<Longrightarrow> matches (Cat r q) (u @ v)"
| matches_Alt1: "matches r u \<Longrightarrow> matches (Alt r q) u"
| matches_Alt2: "matches q u \<Longrightarrow> matches (Alt r q) u"
| matches_Star0: "matches (Star r) []"
| matches_Star1: "matches r u \<Longrightarrow> u \<noteq> [] \<Longrightarrow> matches (Star r) v \<Longrightarrow> matches (Star r) (u @ v)"

inductive_simps matches_simps:
  "matches Eps w" "matches (Cls rs) w" "matches (NotCls rs) w" "matches (Cat r q) w" "matches (Alt r q) w"

inductive_cases matches_StarE: "matches (Star r) w"

text \<open>The matcher finds the words of the language at the start of the text, and no others.\<close>

lemma rests_sound:
  "t \<in> set (rests r s) \<Longrightarrow> \<exists>w. s = w @ t \<and> matches r (map fst w)"
proof (induction r s arbitrary: t rule: rests.induct)
  case (2 rs s)
  then show ?case by (cases s) (auto simp: matches_simps split: if_splits)
next
  case (3 rs s)
  then show ?case by (cases s) (auto simp: matches_simps split: if_splits)
next
  case (4 r q s)
  from 4(3) obtain u where u: "u \<in> set (rests r s)" "t \<in> set (rests q u)" by auto
  from 4(1) [OF u(1)] 4(2) [OF u] show ?case by (fastforce intro: matches_Cat)
next
  case (5 r q s)
  from 5(3) consider "t \<in> set (rests r s)" | "t \<in> set (rests q s)" by auto
  then obtain w where "s = w @ t" "matches r (map fst w) \<or> matches q (map fst w)"
    using 5(1,2) by cases blast+
  then show ?case by (auto simp: matches_simps)
next
  case (6 r s)
  show ?case
  proof (cases "t = s")
    case True
    then show ?thesis by (auto intro: matches_Star0)
  next
    case False
    then obtain u where u: "u \<in> set (rests r s)" "length u < length s" "t \<in> set (rests (Star r) u)"
      using 6(3) by (auto simp: rests.simps(6) [of r s])
    obtain w where w: "s = w @ u" "matches r (map fst w)" using 6(1) [OF u(1)] by blast
    obtain v where v: "u = v @ t" "matches (Star r) (map fst v)" using 6(2) u by auto
    have "w \<noteq> []" using w(1) u(2) by auto
    then have "matches (Star r) (map fst w @ map fst v)" using w(2) v(2) by (intro matches_Star1) auto
    then show ?thesis using w(1) v(1) by (intro exI [of _ "w @ v"]) simp
  qed
qed (auto simp: matches_Eps)

lemma rests_complete:
  "matches r w \<Longrightarrow> w = map fst u \<Longrightarrow> t \<in> set (rests r (u @ t))"
proof (induction arbitrary: u t rule: matches.induct)
  case (matches_Cat r x q y)
  from matches_Cat.prems [symmetric] obtain a b where u: "u = a @ b" "x = map fst a" "y = map fst b"
    by (auto simp: map_eq_append_conv)
  have "b @ t \<in> set (rests r (a @ b @ t))" "t \<in> set (rests q (b @ t))"
    using matches_Cat.IH u by auto
  then show ?case using u by auto
next
  case (matches_Star1 r x y)
  from matches_Star1.prems [symmetric] obtain a b where u: "u = a @ b" "x = map fst a" "y = map fst b"
    by (auto simp: map_eq_append_conv)
  have "b @ t \<in> set (rests r (a @ b @ t))" "t \<in> set (rests (Star r) (b @ t))"
    using matches_Star1.IH u by auto
  moreover have "length (b @ t) < length (a @ b @ t)" using matches_Star1.hyps(2) u by simp
  ultimately show ?case using u by (auto simp: rests.simps(6) [of r "a @ b @ t"])
next
  case (matches_Star0 r)
  then show ?case by (simp add: rests.simps(6) [of r t])
next
  case (matches_NotCls rs r)
  then obtain c where "u = [c]" "r = fst c" by (auto simp: Cons_eq_map_conv)
  then show ?case using matches_NotCls by simp
qed (auto simp: Cons_eq_map_conv)

lemma rests_iff: "t \<in> set (rests r s) \<longleftrightarrow> (\<exists>w. s = w @ t \<and> matches r (map fst w))"
  using rests_sound rests_complete by blast

text \<open>The match is a word of the language at the start of the text, and it is empty only when there is no other
  or the preferred word is empty.\<close>

lemma FindString_match:
  assumes "FindString r s \<noteq> []"
  obtains w t where "chunks s = w @ t" "matches r (map fst w)" "FindString r s = concat (map snd w)"
    "s = FindString r s @ concat (map snd t)"
proof -
  obtain t ts where t: "rests r (chunks s) = t # ts" using assms by (auto simp: FindString_def Let_def split: list.splits)
  then have "t \<in> set (rests r (chunks s))" by simp
  then obtain w where w: "chunks s = w @ t" "matches r (map fst w)" using rests_sound by blast
  moreover have f: "FindString r s = concat (map snd w)" using t w(1) by (simp add: FindString_def)
  moreover have "s = concat (map snd w) @ concat (map snd t)" using concat_chunks [of s] w(1) by simp
  ultimately show thesis using that by simp
qed

lemma FindString_prefix: "prefix (FindString r s) s"
  by (cases "FindString r s = []") (auto intro: FindString_match prefixI)

lemma FindString_none:
  assumes "\<not> matches r []"
  shows "FindString r s = [] \<longleftrightarrow> (\<nexists>w t. chunks s = w @ t \<and> matches r (map fst w))"
proof -
  have "concat (map snd (take (length (chunks s) - length t) (chunks s))) \<noteq> []"
    if "rests r (chunks s) = t # ts" for t ts
  proof -
    have "t \<in> set (rests r (chunks s))" using that by simp
    then obtain w where w: "chunks s = w @ t" "matches r (map fst w)" using rests_sound by blast
    then have "w \<noteq> []" using assms by auto
    then have "take (length (chunks s) - length t) (chunks s) = hd w # tl w" using w(1) by simp
    moreover have "snd (hd w) \<noteq> []" using chunks_nonempty [of "hd w" s] w(1) \<open>w \<noteq> []\<close> by simp
    ultimately show ?thesis by simp
  qed
  moreover have "rests r (chunks s) = [] \<longleftrightarrow> (\<nexists>w t. chunks s = w @ t \<and> matches r (map fst w))"
    using rests_iff [of _ r "chunks s"] by (metis ex_in_conv set_empty)
  ultimately show ?thesis by (auto simp: FindString_def Let_def split: list.splits)
qed

end
