(* ===== verification/Css_Scanner.thy ===== *)
theory Css_Scanner
  imports Css_Regexp
begin

text \<open>
  The scanner of CSS (\<open>css/scanner/scanner.go\<close>): the productions, the scanner and its method \<open>Next\<close>. The macros
  are expressions, so that their expansion by \<open>init\<close> is the use of one in another; \<open>matcher\<close> is the map
  \<open>matchers\<close>. Positions, rows and columns are naturals. No index or slice of \<open>Next\<close> is out of range: each
  is behind a test of the length.
\<close>

section \<open>Tokens\<close>

datatype tokenType =
    TokenError | TokenEOF | TokenIdent | TokenAtKeyword | TokenString | TokenHash | TokenNumber | TokenPercentage
  | TokenDimension | TokenURI | TokenUnicodeRange | TokenCDO | TokenCDC | TokenS | TokenComment | TokenFunction
  | TokenIncludes | TokenDashMatch | TokenPrefixMatch | TokenSuffixMatch | TokenSubstringMatch | TokenChar | TokenBOM

record Token =
  tk_Type :: tokenType
  tk_Value :: string
  tk_Line :: nat
  tk_Column :: nat

fun tokenNames :: "tokenType \<Rightarrow> string" where
  "tokenNames TokenError = ''error''"
| "tokenNames TokenEOF = ''EOF''"
| "tokenNames TokenIdent = ''IDENT''"
| "tokenNames TokenAtKeyword = ''ATKEYWORD''"
| "tokenNames TokenString = ''STRING''"
| "tokenNames TokenHash = ''HASH''"
| "tokenNames TokenNumber = ''NUMBER''"
| "tokenNames TokenPercentage = ''PERCENTAGE''"
| "tokenNames TokenDimension = ''DIMENSION''"
| "tokenNames TokenURI = ''URI''"
| "tokenNames TokenUnicodeRange = ''UNICODE-RANGE''"
| "tokenNames TokenCDO = ''CDO''"
| "tokenNames TokenCDC = ''CDC''"
| "tokenNames TokenS = ''S''"
| "tokenNames TokenComment = ''COMMENT''"
| "tokenNames TokenFunction = ''FUNCTION''"
| "tokenNames TokenIncludes = ''INCLUDES''"
| "tokenNames TokenDashMatch = ''DASHMATCH''"
| "tokenNames TokenPrefixMatch = ''PREFIXMATCH''"
| "tokenNames TokenSuffixMatch = ''SUFFIXMATCH''"
| "tokenNames TokenSubstringMatch = ''SUBSTRINGMATCH''"
| "tokenNames TokenChar = ''CHAR''"
| "tokenNames TokenBOM = ''BOM''"

text \<open>\<open>Token.String\<close>; \<open>q\<close> and \<open>q10\<close> are the verbs \<open>%q\<close> and \<open>%.10q\<close> of \<open>fmt\<close>.\<close>

definition Token_String :: "(string \<Rightarrow> string) \<Rightarrow> (string \<Rightarrow> string) \<Rightarrow> Token \<Rightarrow> string" where
  "Token_String q q10 t =
     tokenNames (tk_Type t) @ '' (line: '' @ show_nat (tk_Line t) @ '', column: '' @ show_nat (tk_Column t) @ ''): '' @
     (if length (tk_Value t) > 10 then q10 (tk_Value t) @ ''...'' else q (tk_Value t))"

section \<open>Macros and productions\<close>

definition nonascii :: re where
  "nonascii = Cls [(0x80, 0xD7FF), (0xE000, 0xFFFD), (0x10000, 0x10FFFF)]"

definition wc :: re where "wc = Cls [(0x09, 0x09), (0x0A, 0x0A), (0x0C, 0x0C), (0x0D, 0x0D), (0x20, 0x20)]"

definition ws_re :: re where "ws_re = Star wc"

definition nl :: re where "nl = Alt (Cls [(0x0A, 0x0A), (0x0D, 0x0D), (0x0C, 0x0C)]) (Cat (Lit 0x0D) (Lit 0x0A))"

definition unicode :: re where
  "unicode = cats [Lit 0x5C, Rep1 6 (Cls [(0x30, 0x39), (0x61, 0x66), (0x41, 0x46)]), Opt wc]"

text \<open>The pattern is an interpreted string literal: its \<open>\\\<close> is one backslash, which makes the bracket after it a
  literal, so that the second alternative is a sequence of literals and not a class.\<close>

definition escape :: re where
  "escape = Alt unicode (cats (map Lit [0x5B, 0x20, 0x2D, 0x7E, 0x80, 0x2D, 0xD7FF, 0xE000, 0x2D, 0xFFFD, 0x10000,
     0x2D, 0x10FFFF, 0x5D]))"

definition nmstart :: re where
  "nmstart = alts [Cls [(0x61, 0x7A), (0x41, 0x5A), (0x5F, 0x5F)], nonascii, escape]"

definition nmchar :: re where
  "nmchar = alts [Cls [(0x61, 0x7A), (0x41, 0x5A), (0x30, 0x39), (0x5F, 0x5F), (0x2D, 0x2D)], nonascii, escape]"

definition ident :: re where "ident = cats [Opt (Lit 0x2D), nmstart, Star nmchar]"

definition name_re :: re where "name_re = Plus nmchar"

definition digit :: re where "digit = Cls [(0x30, 0x39)]"

definition num :: re where "num = Alt (Plus digit) (cats [Star digit, Lit 0x2E, Plus digit])"

definition urlchar :: re where
  "urlchar = alts [Cls [(0x09, 0x09), (0x21, 0x21), (0x23, 0x26), (0x27, 0x7E)], nonascii, escape]"

definition stringchar :: re where "stringchar = alts [urlchar, Lit 0x20, Cat (Lit 0x5C) nl]"

definition string_re :: re where
  "string_re = Alt (cats [Lit 0x22, Star (Alt stringchar (Lit 0x27)), Lit 0x22])
                   (cats [Lit 0x27, Star (Alt stringchar (Lit 0x22)), Lit 0x27])"

definition hex_upper :: "(rune \<times> rune) list" where "hex_upper = [(0x30, 0x39), (0x41, 0x46)]"

definition comment_re :: re where
  "comment_re = cats [Lit 0x2F, Lit 0x2A, Star (NotCls [(0x2A, 0x2A)]), Plus (Lit 0x2A),
     Star (cats [NotCls [(0x2F, 0x2F)], Star (NotCls [(0x2A, 0x2A)]), Plus (Lit 0x2A)]), Lit 0x2F]"

definition uri_re :: re where
  "uri_re = cats [Lit 0x75, Lit 0x72, Lit 0x6C, Lit 0x28, ws_re, Alt string_re (Star urlchar), ws_re, Lit 0x29]"

definition unicode_range :: re where
  "unicode_range = cats [Lit 0x55, Lit 0x2B, Rep1 6 (Cls (hex_upper @ [(0x3F, 0x3F)])),
     Opt (Cat (Lit 0x2D) (Rep1 6 (Cls hex_upper)))]"

fun matcher :: "tokenType \<Rightarrow> re option" where
  "matcher TokenIdent = Some ident"
| "matcher TokenAtKeyword = Some (Cat (Lit 0x40) ident)"
| "matcher TokenString = Some string_re"
| "matcher TokenHash = Some (Cat (Lit 0x23) name_re)"
| "matcher TokenNumber = Some num"
| "matcher TokenPercentage = Some (Cat num (Lit 0x25))"
| "matcher TokenDimension = Some (Cat num ident)"
| "matcher TokenURI = Some uri_re"
| "matcher TokenUnicodeRange = Some unicode_range"
| "matcher TokenCDC = Some (cats [Lit 0x2D, Lit 0x2D, Lit 0x3E])"
| "matcher TokenS = Some (Plus wc)"
| "matcher TokenComment = Some comment_re"
| "matcher TokenFunction = Some (Cat ident (Lit 0x28))"
| "matcher _ = None"

text \<open>\<open>matchers[t].FindString(input)\<close>. The scanner only asks for tokens that have a matcher.\<close>

definition match_token :: "tokenType \<Rightarrow> string \<Rightarrow> string" where
  "match_token t s = (case matcher t of None \<Rightarrow> [] | Some r \<Rightarrow> FindString r s)"

definition matchOrder :: "tokenType list" where
  "matchOrder = [TokenURI, TokenFunction, TokenUnicodeRange, TokenIdent, TokenDimension, TokenPercentage, TokenNumber,
     TokenCDC]"

section \<open>The scanner\<close>

record Scanner =
  sc_input :: string
  sc_pos :: nat
  sc_row :: nat
  sc_col :: nat
  sc_err :: "Token option"

text \<open>\<open>strings.Replace(input, "\r\n", "\n", -1)\<close>.\<close>

fun normalize :: "string \<Rightarrow> string" where
  "normalize (a # b # s) =
     (if a = CHR 0x0D \<and> b = CHR 0x0A then CHR 0x0A # normalize s else a # normalize (b # s))"
| "normalize s = s"

definition New :: "string \<Rightarrow> Scanner" where
  "New input = \<lparr>sc_input = normalize input, sc_pos = 0, sc_row = 1, sc_col = 1, sc_err = None\<rparr>"

definition rune_count :: "string \<Rightarrow> nat" where "rune_count s = length (chunks s)"

text \<open>The part of the text from its last line break on.\<close>

definition last_line :: "string \<Rightarrow> string" where
  "last_line v = CHR 0x0A # rev (takeWhile (\<lambda>c. c \<noteq> CHR 0x0A) (rev v))"

definition updatePosition :: "string \<Rightarrow> Scanner \<Rightarrow> Scanner" where
  "updatePosition v s =
     (let width = rune_count v; lines = count_list v (CHR 0x0A) in
      s\<lparr>sc_row := sc_row s + lines,
        sc_col := (if lines = 0 then sc_col s + width else rune_count (last_line v)),
        sc_pos := sc_pos s + width\<rparr>)"

definition token_at :: "tokenType \<Rightarrow> string \<Rightarrow> Scanner \<Rightarrow> Token" where
  "token_at t v s = \<lparr>tk_Type = t, tk_Value = v, tk_Line = sc_row s, tk_Column = sc_col s\<rparr>"

definition emitToken :: "tokenType \<Rightarrow> string \<Rightarrow> Scanner \<Rightarrow> Token \<times> Scanner" where
  "emitToken t v s = (token_at t v s, updatePosition v s)"

definition emitSimple :: "tokenType \<Rightarrow> string \<Rightarrow> Scanner \<Rightarrow> Token \<times> Scanner" where
  "emitSimple t v s = (token_at t v s, s\<lparr>sc_col := sc_col s + length v, sc_pos := sc_pos s + length v\<rparr>)"

definition emitPrefixOrChar :: "tokenType \<Rightarrow> string \<Rightarrow> Scanner \<Rightarrow> Token \<times> Scanner" where
  "emitPrefixOrChar t p s =
     (if prefix p (drop (sc_pos s) (sc_input s)) then emitSimple t p s else emitSimple TokenChar (take 1 p) s)"

definition set_err :: "tokenType \<Rightarrow> string \<Rightarrow> Scanner \<Rightarrow> Token \<times> Scanner" where
  "set_err t v s = (token_at t v s, s\<lparr>sc_err := Some (token_at t v s)\<rparr>)"

text \<open>The end of \<open>Next\<close>: all expressions in order, and then a character.\<close>

fun match_all :: "tokenType list \<Rightarrow> string \<Rightarrow> Scanner \<Rightarrow> Token \<times> Scanner" where
  "match_all [] input s =
     (let (r, width) = decode_rune input in
      (token_at TokenChar (encode_rune r) s, s\<lparr>sc_col := sc_col s + width, sc_pos := sc_pos s + width\<rparr>))"
| "match_all (t # ts) input s =
     (let m = match_token t input in if m \<noteq> [] then emitToken t m s else match_all ts input s)"

definition BOM :: string where "BOM = [CHR 0xEF, CHR 0xBB, CHR 0xBF]"

text \<open>The switch on the first byte \<open>c\<close> of the text that is left.\<close>

definition scan :: "char \<Rightarrow> string \<Rightarrow> Scanner \<Rightarrow> Token \<times> Scanner" where
  "scan c input s =
     (let match_or_char = (\<lambda>t. let m = match_token t input in
            if m \<noteq> [] then emitSimple t m s else emitSimple TokenChar [c] s);
          match_or_error = (\<lambda>t e. let m = match_token t input in
            if m \<noteq> [] then emitToken t m s else set_err TokenError e s);
          rest = match_all matchOrder input s in
      if c \<in> {CHR 0x09, CHR 0x0A, CHR 0x0C, CHR 0x0D, CHR 0x20} then emitToken TokenS (match_token TokenS input) s
      else if c = CHR ''.''
      then (if length input > 1 \<and> \<not> (CHR ''0'' \<le> input ! 1 \<and> input ! 1 \<le> CHR ''9'')
            then emitSimple TokenChar ''.'' s else rest)
      else if c = CHR ''#'' then match_or_char TokenHash
      else if c = CHR ''@'' then match_or_char TokenAtKeyword
      else if c \<in> set '':,;%&+=>()[]{}'' then emitSimple TokenChar [c] s
      else if c = CHR 0x22 \<or> c = CHR 0x27 then match_or_error TokenString ''unclosed quotation mark''
      else if c = CHR ''/''
      then (if length input > 1 \<and> input ! 1 = CHR ''*'' then match_or_error TokenComment ''unclosed comment''
            else emitSimple TokenChar ''/'' s)
      else if c = CHR ''~'' then emitPrefixOrChar TokenIncludes ''~='' s
      else if c = CHR ''|'' then emitPrefixOrChar TokenDashMatch ''|='' s
      else if c = CHR ''^'' then emitPrefixOrChar TokenPrefixMatch ''^='' s
      else if c = CHR ''$'' then emitPrefixOrChar TokenSuffixMatch ''$='' s
      else if c = CHR ''*'' then emitPrefixOrChar TokenSubstringMatch ''*='' s
      else if c = CHR ''<'' then emitPrefixOrChar TokenCDO ''<!--'' s
      else rest)"

definition Next :: "Scanner \<Rightarrow> Token \<times> Scanner" where
  "Next s = (case sc_err s of
     Some e \<Rightarrow> (e, s)
   | None \<Rightarrow>
       if sc_pos s \<ge> length (sc_input s) then set_err TokenEOF [] s
       else if sc_pos s = 0 \<and> prefix BOM (sc_input s) then emitSimple TokenBOM BOM s
       else let input = drop (sc_pos s) (sc_input s) in scan (input ! 0) input s)"

text \<open>The use of the scanner in the documentation of the package: the tokens up to the end or an error.\<close>

partial_function (option) tokens :: "Scanner \<Rightarrow> Token list option" where
  "tokens s = (case Next s of (t, s') \<Rightarrow>
     if tk_Type t = TokenEOF \<or> tk_Type t = TokenError then Some [t]
     else Option.bind (tokens s') (\<lambda>ts. Some (t # ts)))"

declare tokens.simps [code]

end
