(* ===== verification/Css_Scanner_Correct.thy ===== *)
theory Css_Scanner_Correct
  imports Css_Scanner
begin

text \<open>
  Properties of the CSS scanner: it ends on every input, its tokens are words of their productions, and on ASCII
  text they are the text, at the positions they have in it. A comment is the text up to the first closing mark.
\<close>

section \<open>Emitting tokens\<close>

lemma rune_count_le: "rune_count v \<le> length v"
proof (induction v rule: chunks.induct)
  case (1 v)
  show ?case
  proof (cases "v = []")
    case False
    then have "length (drop (snd (decode_rune v)) v) < length v" using decode_rune_pos [OF False] by simp
    then show ?thesis using 1 [OF False] False by (simp add: rune_count_def chunks.simps [of v])
  qed (simp add: rune_count_def)
qed

lemma rune_count_pos: "v \<noteq> [] \<Longrightarrow> 0 < rune_count v"
  by (simp add: rune_count_def chunks.simps [of v])

lemma rune_count_ascii: "ascii v \<Longrightarrow> rune_count v = length v"
  by (simp add: rune_count_def chunks_ascii_list)

lemma encode_rune_nonempty: "encode_rune r \<noteq> []"
  by (simp add: encode_rune_def encode_valid_def)

text \<open>A step of the scanner: the token it returns starts where the scanner is, and the scanner moves forward inside
  its input.\<close>

definition rest_of :: "Scanner \<Rightarrow> string" where "rest_of s = drop (sc_pos s) (sc_input s)"

text \<open>The row and the column after the text \<open>v\<close>.\<close>

definition placed :: "Scanner \<Rightarrow> string \<Rightarrow> Scanner \<Rightarrow> bool" where
  "placed s v s' \<longleftrightarrow> sc_row s' = sc_row s + count_list v (CHR 0x0A) \<and>
     sc_col s' = (if CHR 0x0A \<in> set v then 1 + length (takeWhile (\<lambda>c. c \<noteq> CHR 0x0A) (rev v)) else sc_col s + length v)"

definition plain_text :: "string \<Rightarrow> bool" where "plain_text v \<longleftrightarrow> ascii v \<and> CHR 0x5C \<notin> set v"

definition steps :: "Scanner \<Rightarrow> Token \<Rightarrow> Scanner \<Rightarrow> bool" where
  "steps s t s' \<longleftrightarrow> tk_Type t \<notin> {TokenEOF, TokenError} \<and> tk_Value t \<noteq> [] \<and> tk_Line t = sc_row s \<and> tk_Column t = sc_col s \<and>
     sc_input s' = sc_input s \<and> sc_err s' = None \<and> sc_pos s < sc_pos s' \<and> sc_pos s' \<le> length (sc_input s) \<and>
     (ascii (rest_of s) \<longrightarrow> rest_of s = tk_Value t @ rest_of s') \<and>
     (plain_text (rest_of s) \<longrightarrow> placed s (tk_Value t) s')"

text \<open>The ways to emit a token, which differ in how they count.\<close>

locale emitter =
  fixes emit :: "tokenType \<Rightarrow> string \<Rightarrow> Scanner \<Rightarrow> Token \<times> Scanner"
    and width :: "string \<Rightarrow> nat"
    and flat :: "string \<Rightarrow> bool"
  assumes emit_token: "fst (emit t v s) = token_at t v s"
    and emit_state: "sc_input (snd (emit t v s)) = sc_input s" "sc_err (snd (emit t v s)) = sc_err s"
      "sc_pos (snd (emit t v s)) = sc_pos s + width v"
    and width_pos: "v \<noteq> [] \<Longrightarrow> 0 < width v"
    and width_le: "width v \<le> length v"
    and width_ascii: "ascii v \<Longrightarrow> width v = length v"
    and emit_placed: "ascii v \<Longrightarrow> flat v \<Longrightarrow> placed s v (snd (emit t v s))"
begin

lemma emit_steps:
  assumes "v \<noteq> []" "prefix v (rest_of s)" "t \<notin> {TokenEOF, TokenError}" "sc_err s = None"
    "plain_text (rest_of s) \<Longrightarrow> flat v" "emit t v s = (tok, s')"
  shows "steps s tok s'"
proof -
  have e: "tok = token_at t v s" "sc_input s' = sc_input s" "sc_err s' = None" "sc_pos s' = sc_pos s + width v"
    using emit_token [of t v s] emit_state [of t v s] assms(4,6) by simp_all
  obtain u where u: "drop (sc_pos s) (sc_input s) = v @ u" using assms(2) by (auto simp: rest_of_def prefix_def)
  then have len: "sc_pos s + length v \<le> length (sc_input s)"
    using assms(1) by (metis add.commute append_is_Nil_conv diff_add_inverse drop_eq_Nil2 le_diff_conv2 length_append length_drop
        le_add1 nat_le_linear)
  have "rest_of s = v @ rest_of s'" if "ascii (rest_of s)"
  proof -
    have "ascii v" using that u by (simp add: rest_of_def ascii_def)
    then have "rest_of s' = drop (length v) (drop (sc_pos s) (sc_input s))"
      using e width_ascii by (simp add: rest_of_def add.commute)
    then show ?thesis using u by (simp add: rest_of_def)
  qed
  moreover have "placed s v s'" if "plain_text (rest_of s)"
  proof -
    have "ascii v" using that u by (simp add: rest_of_def ascii_def plain_text_def)
    then show ?thesis using emit_placed [OF _ assms(5), of s t] that assms(6) by simp
  qed
  ultimately show ?thesis using e len assms(1,3) width_pos [of v] width_le [of v]
    by (auto simp: steps_def token_at_def)
qed

end

lemma count_list_zero: "count_list v c = 0 \<longleftrightarrow> c \<notin> set v"
  by (induction v) auto

interpretation counted: emitter emitToken rune_count "\<lambda>_. True"
proof unfold_locales
  fix v s t assume a: "ascii v"
  then have "ascii (last_line v)" by (auto simp: last_line_def ascii_def list_all_iff dest: set_takeWhileD)
  then show "placed s v (snd (emitToken t v s))" using a
    by (simp add: placed_def emitToken_def updatePosition_def Let_def rune_count_ascii count_list_zero) (simp add: last_line_def)
qed (auto simp: emitToken_def updatePosition_def Let_def rune_count_le rune_count_ascii intro: rune_count_pos)

interpretation simple: emitter emitSimple length "\<lambda>v. CHR 0x0A \<notin> set v"
  by unfold_locales (auto simp: emitSimple_def placed_def count_list_zero)

lemma match_token_prefix: "prefix (match_token t s) s"
  by (simp add: match_token_def FindString_prefix split: option.split)

lemma emitPrefixOrChar_steps:
  assumes "prefix [c] (rest_of s)" "p = c # q" "CHR 0x0A \<notin> set p" "t \<notin> {TokenEOF, TokenError}" "sc_err s = None"
    "emitPrefixOrChar t p s = (tok, s')"
  shows "steps s tok s'"
  using assms simple.emit_steps [of p s t tok s'] simple.emit_steps [of "[c]" s TokenChar tok s']
  by (auto simp: emitPrefixOrChar_def rest_of_def split: if_splits)

lemma match_all_steps:
  assumes "rest_of s \<noteq> []" "hd (rest_of s) \<noteq> CHR 0x0A" "set ts \<inter> {TokenEOF, TokenError} = {}" "sc_err s = None" "match_all ts (rest_of s) s = (tok, s')"
  shows "steps s tok s'"
  using assms
proof (induction ts)
  case Nil
  obtain r n where d: "decode_rune (rest_of s) = (r, n)" by force
  note wd = decode_rune_width [OF Nil(1) d]
  have e: "tok = token_at TokenChar (encode_rune r) s" "s' = s\<lparr>sc_col := sc_col s + n, sc_pos := sc_pos s + n\<rparr>"
    using Nil(5) d by simp_all
  have "rest_of s = encode_rune r @ rest_of s' \<and> placed s (encode_rune r) s'" if "ascii (rest_of s)"
  proof -
    obtain a u where u: "rest_of s = a # u" using Nil(1) by (cases "rest_of s") auto
    then have a: "byte_val a < 0x80" using that by (simp add: ascii_def)
    then have "r = byte_val a" "n = 1" using d u by auto
    moreover have "rest_of s' = drop n (rest_of s)" using e(2) by (simp add: rest_of_def add.commute)
    ultimately show ?thesis using u a e(2) Nil(2) by (simp add: encode_rune_ascii placed_def)
  qed
  then show ?case using e wd Nil(1,4) encode_rune_nonempty
    by (auto simp: steps_def token_at_def rest_of_def plain_text_def)
next
  case (Cons t ts)
  let ?m = "match_token t (rest_of s)"
  show ?case
  proof (cases "?m = []")
    case True
    then show ?thesis using Cons by simp
  next
    case False
    then have "emitToken t ?m s = (tok, s')" using Cons.prems(5) by (simp add: Let_def)
    then show ?thesis using counted.emit_steps [OF False match_token_prefix, of t tok s'] Cons.prems(3,4) by auto
  qed
qed

section \<open>The letters of a word\<close>

text \<open>The runes in the words of an expression that do not have the rune \<open>b\<close>; \<open>None\<close> when all its words have it.\<close>

fun letters :: "rune \<Rightarrow> re \<Rightarrow> (rune \<Rightarrow> bool) option" where
  "letters b Eps = Some (\<lambda>_. False)"
| "letters b (Cls rs) = (if rs = [(b, b)] then None else Some (in_ranges rs))"
| "letters b (NotCls rs) = Some (\<lambda>x. \<not> in_ranges rs x)"
| "letters b (Cat r q) = (case letters b r of None \<Rightarrow> None | Some f \<Rightarrow> map_option (\<lambda>g x. f x \<or> g x) (letters b q))"
| "letters b (Alt r q) = (case letters b r of None \<Rightarrow> letters b q | Some f \<Rightarrow>
     (case letters b q of None \<Rightarrow> Some f | Some g \<Rightarrow> Some (\<lambda>x. f x \<or> g x)))"
| "letters b (Star r) = (case letters b r of None \<Rightarrow> Some (\<lambda>_. False) | Some f \<Rightarrow> Some f)"

lemma letters_sound:
  "matches r v \<Longrightarrow> b \<notin> set v \<Longrightarrow> \<exists>f. letters b r = Some f \<and> (\<forall>x \<in> set v. f x)"
proof (induction rule: matches.induct)
  case (matches_Cls rs r)
  then show ?case by (auto simp: in_ranges_def)
qed (auto split: option.splits)

text \<open>A match in ASCII text is a word of its production.\<close>

lemma match_token_matches:
  assumes "match_token t s \<noteq> []" "ascii s" "matcher t = Some r"
  shows "matches r (map byte_val (match_token t s))"
proof -
  have "FindString r s \<noteq> []" using assms by (simp add: match_token_def)
  then obtain u v where u: "chunks s = u @ v" "matches r (map fst u)" "FindString r s = concat (map snd u)"
    by (rule FindString_match)
  from u(1) have "map (\<lambda>c. (byte_val c, [c])) s = u @ v" by (simp add: chunks_ascii_list [OF assms(2)])
  then obtain a where "u = map (\<lambda>c. (byte_val c, [c])) a" by (metis map_eq_append_conv)
  then have "map fst u = map byte_val (concat (map snd u))" by (induction a arbitrary: u) auto
  then show ?thesis using u assms(3) by (simp add: match_token_def)
qed

lemma name_no_newline:
  assumes "t = TokenHash \<or> t = TokenAtKeyword" "plain_text s"
  shows "CHR 0x0A \<notin> set (match_token t s)"
proof
  assume nl: "CHR 0x0A \<in> set (match_token t s)"
  then have ne: "match_token t s \<noteq> []" by auto
  obtain r where m: "matcher t = Some r" using assms(1) by auto
  from match_token_matches [OF ne _ m] assms(2)
  have r: "matcher t = Some r" "matches r (map byte_val (match_token t s))" using m by (auto simp: plain_text_def)
  have "CHR 0x5C \<notin> set (match_token t s)"
    using assms(2) match_token_prefix [of t s] set_mono_prefix by (auto simp: plain_text_def)
  then have "byte_val (CHR 0x5C) \<notin> set (map byte_val (match_token t s))" by (auto simp: byte_val_eq_iff simp del: byte_val_Char)
  then have "0x5C \<notin> set (map byte_val (match_token t s))" by simp
  from letters_sound [OF r(2) this] obtain f where f: "letters 0x5C r = Some f" "f (byte_val (CHR 0x0A))"
    using nl by auto
  show False using f r(1) assms(1)
    by (auto simp: name_re_def nmchar_def nmstart_def ident_def escape_def unicode_def nonascii_def Lit_def Plus_def Opt_def in_ranges_def
        split: option.splits)
qed

section \<open>The next token\<close>

lemma white_space_matches:
  assumes "c \<in> {CHR 0x09, CHR 0x0A, CHR 0x0C, CHR 0x0D, CHR 0x20}"
  shows "match_token TokenS (c # u) \<noteq> []"
proof -
  have b: "byte_val c < 0x80" "in_ranges [(0x09, 0x09), (0x0A, 0x0A), (0x0C, 0x0C), (0x0D, 0x0D), (0x20, 0x20)] (byte_val c)"
    using assms by (auto simp: in_ranges_def)
  then have "matches (Plus wc) ([byte_val c] @ [])"
    unfolding Plus_def wc_def by (intro matches_Cat matches_Cls matches_Star0)
  then have m: "matches (Plus wc) (map fst [(byte_val c, [c])])" by simp
  have ch: "chunks (c # u) = [(byte_val c, [c])] @ chunks u" using b(1) by simp
  have "\<not> matches (Plus wc) []" by (auto simp: Plus_def wc_def matches_simps)
  from FindString_none [OF this, of "c # u"] show ?thesis using m ch unfolding match_token_def matcher.simps option.case by blast
qed

definition scan_error :: "string \<Rightarrow> string \<Rightarrow> bool" where
  "scan_error e rest \<longleftrightarrow>
     e = ''unclosed quotation mark'' \<and> rest \<noteq> [] \<and> hd rest \<in> {CHR 0x22, CHR 0x27} \<and> match_token TokenString rest = [] \<or>
     e = ''unclosed comment'' \<and> prefix ''/*'' rest \<and> match_token TokenComment rest = []"

definition stepped :: "Scanner \<Rightarrow> Token \<times> Scanner \<Rightarrow> bool" where
  "stepped s r \<longleftrightarrow> steps s (fst r) (snd r) \<or> (\<exists>e. r = set_err TokenError e s \<and> scan_error e (rest_of s))"

lemma stepped_if: "(b \<Longrightarrow> stepped s x) \<Longrightarrow> (\<not> b \<Longrightarrow> stepped s y) \<Longrightarrow> stepped s (if b then x else y)"
  by simp

lemma scan_steps:
  assumes "rest_of s = c # u" "sc_err s = None"
  shows "stepped s (scan c (c # u) s)"
proof -
  have p: "prefix [c] (rest_of s)" and ne: "rest_of s \<noteq> []" using assms(1) by simp_all
  have mp: "prefix (match_token t (c # u)) (rest_of s)" for t using match_token_prefix assms(1) by metis
  have char: "stepped s (emitSimple TokenChar [c] s)"
    if "c \<noteq> CHR 0x0A"
    using simple.emit_steps [OF _ p, of TokenChar] assms(2) that by (simp add: stepped_def prod_eq_iff)
  have simples: "stepped s (emitSimple t (match_token t (c # u)) s)"
    if "match_token t (c # u) \<noteq> []" "t = TokenHash \<or> t = TokenAtKeyword" for t
    using simple.emit_steps [OF that(1) mp _ assms(2), of t] name_no_newline [OF that(2)] that(2) assms(1)
    by (auto simp: stepped_def prod_eq_iff)
  have counts: "stepped s (emitToken t (match_token t (c # u)) s)"
    if "match_token t (c # u) \<noteq> []" "t \<notin> {TokenEOF, TokenError}" for t
    using counted.emit_steps [OF that(1) mp that(2) assms(2)] by (simp add: stepped_def prod_eq_iff)
  have ws: "stepped s (emitToken TokenS (match_token TokenS (c # u)) s)"
    if "c \<in> {CHR 0x09, CHR 0x0A, CHR 0x0C, CHR 0x0D, CHR 0x20}"
    using counts white_space_matches [OF that] by simp
  have pre: "stepped s (emitPrefixOrChar t q s)" if "c = hd q" "q \<noteq> []" "CHR 0x0A \<notin> set q" "t \<notin> {TokenEOF, TokenError}" for t q
    using emitPrefixOrChar_steps [OF p, of q "tl q" t] that assms(2) by (simp add: stepped_def prod_eq_iff)
  have rest: "stepped s (match_all matchOrder (c # u) s)" if "c \<noteq> CHR 0x0A"
    using match_all_steps [OF ne _ _ assms(2), of matchOrder] assms(1) that by (simp add: matchOrder_def stepped_def prod_eq_iff)
  have quote: "stepped s (set_err TokenError ''unclosed quotation mark'' s)"
    if "c = CHR 0x22 \<or> c = CHR 0x27" "match_token TokenString (c # u) = []"
    using that assms(1) by (auto simp: stepped_def scan_error_def)
  have comment: "stepped s (set_err TokenError ''unclosed comment'' s)"
    if "c = CHR ''/''" "length (c # u) > 1" "(c # u) ! 1 = CHR ''*''" "match_token TokenComment (c # u) = []"
    using that assms(1) by (cases u) (auto simp: stepped_def scan_error_def)
  show ?thesis
    unfolding scan_def Let_def
    by (intro stepped_if) (use char simples counts pre rest quote comment ws in simp_all)
qed

lemma BOM_steps: "sc_err s = None \<Longrightarrow> prefix BOM (rest_of s) \<Longrightarrow> stepped s (emitSimple TokenBOM BOM s)"
  using simple.emit_steps [of BOM s TokenBOM] by (simp add: stepped_def prod_eq_iff BOM_def)

lemma Next_steps:
  assumes "sc_err s = None" "sc_pos s < length (sc_input s)"
  shows "stepped s (Next s)"
proof -
  obtain c u where u: "rest_of s = c # u" using assms(2) by (cases "rest_of s") (auto simp: rest_of_def)
  then show ?thesis using scan_steps [OF u assms(1)] BOM_steps [OF assms(1)] assms
    by (auto simp: Next_def rest_of_def Let_def)
qed

lemma Next_end: "sc_err s = None \<Longrightarrow> length (sc_input s) \<le> sc_pos s \<Longrightarrow> Next s = set_err TokenEOF [] s"
  by (simp add: Next_def)

section \<open>The tokens of an input\<close>

text \<open>The outcome of a scan from a scanner on: tokens that start where the scanner is, and at last the end or an
  error.\<close>

inductive scans :: "Scanner \<Rightarrow> Token list \<Rightarrow> bool" where
  scans_end: "length (sc_input s) \<le> sc_pos s \<Longrightarrow> scans s [token_at TokenEOF [] s]"
| scans_error: "scan_error e (rest_of s) \<Longrightarrow> scans s [token_at TokenError e s]"
| scans_step: "steps s t s' \<Longrightarrow> Next s = (t, s') \<Longrightarrow> scans s' ts \<Longrightarrow> scans s (t # ts)"

lemma tokens_scans:
  assumes "sc_err s = None"
  shows "\<exists>ts. tokens s = Some ts \<and> scans s ts"
  using assms
proof (induction "length (sc_input s) - sc_pos s" arbitrary: s rule: less_induct)
  case less
  show ?case
  proof (cases "length (sc_input s) \<le> sc_pos s")
    case True
    then show ?thesis using Next_end [OF less.prems True]
      by (subst tokens.simps) (auto simp: set_err_def token_at_def intro: scans_end [unfolded token_at_def])
  next
    case False
    then have "stepped s (Next s)" using Next_steps less.prems by simp
    then consider (step) "steps s (fst (Next s)) (snd (Next s))" | (err) e where "Next s = set_err TokenError e s" "scan_error e (rest_of s)"
      by (auto simp: stepped_def)
    then show ?thesis
    proof cases
      case step
      obtain t s' where n: "Next s = (t, s')" by force
      with step have st: "steps s t s'" by simp
      then have "length (sc_input s') - sc_pos s' < length (sc_input s) - sc_pos s" "sc_err s' = None"
        by (auto simp: steps_def)
      from less.hyps [OF this] obtain ts where ts: "tokens s' = Some ts" "scans s' ts" by blast
      then have "tokens s = Some (t # ts)" using n st by (subst tokens.simps) (auto simp: steps_def)
      then show ?thesis using scans_step [OF st n ts(2)] by blast
    next
      case err
      then show ?thesis by (subst tokens.simps) (auto simp: set_err_def token_at_def intro: scans_error [unfolded token_at_def])
    qed
  qed
qed

text \<open>C19: The scanner returns a token for every call and reaches the end of every input or an error: there are at
  most as many tokens as bytes, none of them is empty, and the only errors are an unclosed quotation mark and
  an unclosed comment.\<close>

theorem css_scan_ends:
  "\<exists>ts t. tokens (New input) = Some (ts @ [t]) \<and> set (map tk_Type ts) \<inter> {TokenEOF, TokenError} = {} \<and>
     [] \<notin> set (map tk_Value ts) \<and> length ts \<le> length (normalize input) \<and>
     (tk_Type t, tk_Value t) \<in> {(TokenEOF, []), (TokenError, ''unclosed quotation mark''), (TokenError, ''unclosed comment'')}"
proof -
  have "\<exists>us t. ts = us @ [t] \<and> set (map tk_Type us) \<inter> {TokenEOF, TokenError} = {} \<and>
     [] \<notin> set (map tk_Value us) \<and> length us \<le> length (rest_of s) \<and>
     (tk_Type t, tk_Value t) \<in> {(TokenEOF, []), (TokenError, ''unclosed quotation mark''), (TokenError, ''unclosed comment'')}"
    if "scans s ts" for s ts
    using that
  proof (induction rule: scans.induct)
    case (scans_step s t s' ts)
    then obtain us t' where us: "ts = us @ [t']" "set (map tk_Type us) \<inter> {TokenEOF, TokenError} = {}"
      "[] \<notin> set (map tk_Value us)" "length us \<le> length (rest_of s')"
      "(tk_Type t', tk_Value t') \<in> {(TokenEOF, []), (TokenError, ''unclosed quotation mark''), (TokenError, ''unclosed comment'')}"
      by blast
    have "Suc (length (rest_of s')) \<le> length (rest_of s)" using scans_step(1) by (auto simp: steps_def rest_of_def)
    then show ?case using us scans_step(1) by (intro exI [of _ "t # us"] exI [of _ t']) (auto simp: steps_def)
  qed (auto simp: token_at_def scan_error_def)
  moreover have "rest_of (New input) = normalize input" by (simp add: rest_of_def New_def)
  ultimately show ?thesis using tokens_scans [of "New input"] by (fastforce simp: New_def)
qed

lemma ascii_append: "ascii (u @ v) \<longleftrightarrow> ascii u \<and> ascii v"
  by (simp add: ascii_def)

lemma scans_tile: "scans s ts \<Longrightarrow> ascii (rest_of s) \<Longrightarrow> ts = us @ t # vs \<Longrightarrow>
    prefix (concat (map tk_Value us)) (rest_of s) \<and>
    (tk_Type t = TokenEOF \<longrightarrow> rest_of s = concat (map tk_Value us))"
proof (induction arbitrary: us rule: scans.induct)
  case (scans_step s u s' ts)
  have r: "rest_of s = tk_Value u @ rest_of s'" using scans_step by (simp add: steps_def)
  show ?case
  proof (cases us)
    case Nil
    then show ?thesis using scans_step by (simp add: steps_def)
  next
    case (Cons u' us')
    then show ?thesis using scans_step.IH [of us'] scans_step.prems r by (auto simp: ascii_append)
  qed
qed (auto simp: Cons_eq_append_conv rest_of_def token_at_def)

text \<open>C20: The tokens of an ASCII text are the text: their values one after the other are a prefix of the text, and all
  of it when the scan reaches the end.\<close>

theorem css_scan_tiles:
  assumes "ascii (normalize input)" "tokens (New input) = Some (ts @ [t])"
  shows "prefix (concat (map tk_Value ts)) (normalize input) \<and>
     (tk_Type t = TokenEOF \<longrightarrow> concat (map tk_Value ts) = normalize input)"
proof -
  have "scans (New input) (ts @ [t])" using tokens_scans [of "New input"] assms(2) by (simp add: New_def)
  from scans_tile [OF this, of ts t "[]"] assms(1)
  show ?thesis by (simp add: rest_of_def New_def)
qed

theorem css_scan_tiles_witness:
  "concat (map tk_Value (butlast (the (tokens (New ''a{b:1px}''))))) = normalize ''a{b:1px}''"
proof -
  have t: "map_option (map tk_Type) (tokens (New ''a{b:1px}'')) =
      Some [TokenIdent, TokenChar, TokenIdent, TokenChar, TokenDimension, TokenChar, TokenEOF]" by code_simp
  then obtain ts where ts: "tokens (New ''a{b:1px}'') = Some ts"
    "map tk_Type ts = [TokenIdent, TokenChar, TokenIdent, TokenChar, TokenDimension, TokenChar] @ [TokenEOF]" by auto
  then have l: "ts = butlast ts @ [last ts]" "tk_Type (last ts) = TokenEOF"
    by (metis append_butlast_last_id append_is_Nil_conv list.distinct(1) map_is_Nil_conv, metis last_map last_snoc list.map_disc_iff snoc_eq_iff_butlast)
  have a: "ascii (normalize ''a{b:1px}'')" by (simp add: ascii_def)
  have "tokens (New ''a{b:1px}'') = Some (butlast ts @ [last ts])" using ts(1) l(1) by simp
  from css_scan_tiles [OF a this] show ?thesis using ts(1) l(2) by simp
qed

lemma placed_after:
  assumes "placed s v s'" "sc_row s = 1 + count_list u (CHR 0x0A)" "sc_col s = 1 + length (takeWhile (\<lambda>c. c \<noteq> CHR 0x0A) (rev u))"
  shows "sc_row s' = 1 + count_list (u @ v) (CHR 0x0A)"
    "sc_col s' = 1 + length (takeWhile (\<lambda>c. c \<noteq> CHR 0x0A) (rev (u @ v)))"
  using assms by (auto simp: placed_def takeWhile_append)

lemma scans_placed: "scans s ts \<Longrightarrow> plain_text (rest_of s) \<Longrightarrow> ts = us @ t # vs \<Longrightarrow>
    sc_row s = 1 + count_list p (CHR 0x0A) \<Longrightarrow> sc_col s = 1 + length (takeWhile (\<lambda>c. c \<noteq> CHR 0x0A) (rev p)) \<Longrightarrow>
    tk_Line t = 1 + count_list (p @ concat (map tk_Value us)) (CHR 0x0A) \<and>
    tk_Column t = 1 + length (takeWhile (\<lambda>c. c \<noteq> CHR 0x0A) (rev (p @ concat (map tk_Value us))))"
proof (induction arbitrary: us p rule: scans.induct)
  case (scans_step s u s' ts)
  have a: "ascii (rest_of s)" using scans_step.prems(1) by (simp add: plain_text_def)
  have r: "rest_of s = tk_Value u @ rest_of s'" "placed s (tk_Value u) s'" using scans_step a by (simp_all add: steps_def)
  show ?case
  proof (cases us)
    case Nil
    then show ?thesis using scans_step by (simp add: steps_def)
  next
    case (Cons u' us')
    have pl: "plain_text (rest_of s')" using scans_step.prems(1) r(1) by (simp add: plain_text_def ascii_append)
    have us': "u' = u" "ts = us' @ t # vs" using Cons scans_step.prems(2) by simp_all
    from scans_step.IH [OF pl us'(2) placed_after [OF r(2) scans_step.prems(3,4)]] show ?thesis using Cons us' by simp
  qed
qed (auto simp: Cons_eq_append_conv token_at_def)

text \<open>C29: On ASCII text without backslashes every token has the line and the column at which its value starts, counted
  from one.\<close>

theorem css_positions:
  assumes "ascii (normalize input)" "CHR 0x5C \<notin> set (normalize input)" "tokens (New input) = Some (us @ t # vs)"
  shows "tk_Line t = 1 + count_list (concat (map tk_Value us)) (CHR 0x0A) \<and>
     tk_Column t = 1 + length (takeWhile (\<lambda>c. c \<noteq> CHR 0x0A) (rev (concat (map tk_Value us))))"
proof -
  have "scans (New input) (us @ t # vs)" using tokens_scans [of "New input"] assms(3) by (simp add: New_def)
  from scans_placed [OF this, of us t vs "[]"] assms(1,2) show ?thesis by (simp add: rest_of_def New_def plain_text_def)
qed

theorem css_positions_witness:
  "let input = ''a'' @ [CHR 0x0D, CHR 0x0A] @ ''  b'' in
   case tokens (New input) of Some [a, ws, b, e] \<Rightarrow> tk_Value b = ''b'' \<and> tk_Line b = 2 \<and> tk_Column b = 3 | _ \<Rightarrow> False"
proof -
  let ?i = "''a'' @ [CHR 0x0D, CHR 0x0A] @ ''  b''"
  have "map_option (map tk_Value) (tokens (New ?i)) = Some [''a'', CHR 0x0A # ''  '', ''b'', []]" by code_simp
  then obtain a ws b e where ts: "tokens (New ?i) = Some [a, ws, b, e]"
    "tk_Value a = ''a''" "tk_Value ws = CHR 0x0A # ''  ''" "tk_Value b = ''b''"
    by (auto simp: map_eq_Cons_conv)
  have n: "ascii (normalize ?i)" "CHR 0x5C \<notin> set (normalize ?i)" by (simp_all add: ascii_def)
  have "tokens (New ?i) = Some ([a, ws] @ b # [e])" using ts(1) by simp
  from css_positions [OF n this] show ?thesis using ts by simp
qed

section \<open>Tokens and their productions\<close>

definition produced :: "Token \<Rightarrow> bool" where
  "produced t \<longleftrightarrow> (\<forall>r. matcher (tk_Type t) = Some r \<longrightarrow> matches r (map byte_val (tk_Value t)))"

lemma produced_match: "ascii i \<Longrightarrow> match_token t i \<noteq> [] \<Longrightarrow> produced (token_at t (match_token t i) s)"
  using match_token_matches by (simp add: produced_def token_at_def)

lemma produced_other: "matcher t = None \<Longrightarrow> produced (token_at t v s)"
  by (simp add: produced_def token_at_def)

lemma match_all_produced: "ascii i \<Longrightarrow> produced (fst (match_all ts i s))"
  by (induction ts) (auto simp: Let_def produced_match produced_other emitToken_def split: prod.split)

lemma produced_if: "(b \<Longrightarrow> produced (fst x)) \<Longrightarrow> (\<not> b \<Longrightarrow> produced (fst y)) \<Longrightarrow> produced (fst (if b then x else y))"
  by simp

lemma scan_produced:
  assumes "ascii i" "hd i = c" "i \<noteq> []"
  shows "produced (fst (scan c i s))"
proof -
  have ws: "produced (token_at TokenS (match_token TokenS i) s)"
    if "c \<in> {CHR 0x09, CHR 0x0A, CHR 0x0C, CHR 0x0D, CHR 0x20}"
  proof (rule produced_match [OF assms(1)])
    show "match_token TokenS i \<noteq> []" using white_space_matches [OF that, of "tl i"] assms(2,3) by (cases i) auto
  qed
  note m = produced_match [OF assms(1)] match_all_produced [OF assms(1)] produced_other ws
  show ?thesis
    unfolding scan_def Let_def
    by (intro produced_if) (simp_all add: m emitToken_def emitSimple_def emitPrefixOrChar_def set_err_def)
qed

lemma Next_produced:
  assumes "ascii (rest_of s)" "sc_err s = None" "Next s = (t, s')"
  shows "produced t"
proof -
  have "t = fst (scan (rest_of s ! 0) (rest_of s) s) \<and> rest_of s \<noteq> [] \<or> tk_Type t = TokenEOF \<or> tk_Type t = TokenBOM"
    using assms(2,3) by (auto simp: Next_def rest_of_def Let_def set_err_def emitSimple_def token_at_def split: if_splits)
  then show ?thesis using scan_produced [OF assms(1), of "rest_of s ! 0" s]
    by (auto simp: hd_conv_nth produced_def)
qed

lemma scans_produced: "scans s ts \<Longrightarrow> sc_err s = None \<Longrightarrow> ascii (rest_of s) \<Longrightarrow> t \<in> set ts \<Longrightarrow> produced t"
proof (induction rule: scans.induct)
  case (scans_step s u s' ts)
  have "rest_of s = tk_Value u @ rest_of s'" "sc_err s' = None" using scans_step by (auto simp: steps_def)
  then show ?case using scans_step Next_produced [of s u s'] by (auto simp: ascii_append)
qed (auto simp: produced_other)

text \<open>C21: On ASCII text the value of every token that has a production is a word of it.\<close>

theorem css_tokens_match:
  assumes "ascii (normalize input)" "tokens (New input) = Some ts" "t \<in> set ts" "matcher (tk_Type t) = Some r"
  shows "matches r (map byte_val (tk_Value t))"
proof -
  have "scans (New input) ts" using tokens_scans [of "New input"] assms(2) by (simp add: New_def)
  from scans_produced [OF this _ _ assms(3)] show ?thesis using assms(1,4) by (simp add: New_def rest_of_def produced_def)
qed

theorem css_tokens_match_witness: "matches (Cat num ident) (map byte_val ''1.5em'')"
proof -
  have "map_option (map (\<lambda>t. (tk_Type t, tk_Value t))) (tokens (New ''1.5em'')) =
      Some [(TokenDimension, ''1.5em''), (TokenEOF, [])]" by code_simp
  then obtain t e where t: "tokens (New ''1.5em'') = Some [t, e]" "tk_Type t = TokenDimension" "tk_Value t = ''1.5em''"
    by (auto simp: map_eq_Cons_conv)
  have a: "ascii (normalize ''1.5em'')" by (simp add: ascii_def)
  from css_tokens_match [OF a t(1), of t "Cat num ident"] t(2,3) show ?thesis by simp
qed

section \<open>Comments\<close>

text \<open>What follows the first closing mark.\<close>

fun after_comment :: "string \<Rightarrow> string option" where
  "after_comment (a # b # s) = (if a = CHR ''*'' \<and> b = CHR ''/'' then Some s else after_comment (b # s))"
| "after_comment s = None"

abbreviation runes :: "string \<Rightarrow> (rune \<times> string) list" where "runes \<equiv> map (\<lambda>c. (byte_val c, [c]))"

abbreviation NotStar :: re where "NotStar \<equiv> NotCls [(0x2A, 0x2A)]"

text \<open>The parts of the expression: after the stars, and after the opening mark.\<close>

definition after_stars :: re where
  "after_stars = Cat (Star (cats [NotCls [(0x2F, 0x2F)], Star NotStar, Plus (Lit 0x2A)])) (Lit 0x2F)"

definition comment_body :: re where "comment_body = Cat (Star NotStar) (Cat (Plus (Lit 0x2A)) after_stars)"

lemma rests_Star_Cons: "rests (Star (Lit r)) (c # s) = (if fst c = r then rests (Star (Lit r)) s else []) @ [c # s]"
  by (subst rests.simps(6)) (auto simp: Lit_def in_ranges_def)

lemma rests_NotStar:
  assumes "\<And>c s. fst c \<noteq> 0x2A \<Longrightarrow> k (c # s) = []" "k [] = []"
  shows "concat (map k (rests (Star NotStar) s)) = k (dropWhile (\<lambda>c. fst c \<noteq> 0x2A) s)"
proof (induction s)
  case Nil
  show ?case using assms(2) by (subst rests.simps(6)) simp
next
  case (Cons c s)
  show ?case using Cons assms(1) by (subst rests.simps(6)) (auto simp: in_ranges_def)
qed

lemma concat_map_concat: "concat (map f (concat xss)) = concat (map (\<lambda>xs. concat (map f xs)) xss)"
  by (induction xss) auto

lemma rests_stars:
  "rests (Cat (Plus (Lit 0x2A)) r) (c # s) = (if fst c = 0x2A then concat (map (rests r) (rests (Star (Lit 0x2A)) s)) else [])"
  by (simp add: Plus_def Lit_def in_ranges_def) auto

lemma rests_comment_body:
  "rests comment_body s = (case dropWhile (\<lambda>c. fst c \<noteq> 0x2A) s of [] \<Rightarrow> []
     | c # t \<Rightarrow> concat (map (rests after_stars) (rests (Star (Lit 0x2A)) t)))"
proof -
  let ?k = "rests (Cat (Plus (Lit 0x2A)) after_stars)"
  have "?k [] = []" by (simp add: Plus_def Lit_def)
  then have "rests comment_body s = ?k (dropWhile (\<lambda>c. fst c \<noteq> 0x2A) s)"
    unfolding comment_body_def rests.simps(4) [of "Star NotStar"] by (intro rests_NotStar) (simp_all add: rests_stars del: rests.simps(4))
  moreover have "fst c = 0x2A" if "dropWhile (\<lambda>c. fst c \<noteq> 0x2A) s = c # t" for c t
    using hd_dropWhile [of "\<lambda>c. fst c \<noteq> 0x2A" s] that by simp
  ultimately show ?thesis using \<open>?k [] = []\<close>
    by (metis (no_types, lifting) list.exhaust list.simps(4,5) rests_stars)
qed

lemma rests_after_stars:
  "rests after_stars (c # s) = (if fst c = 0x2F then [s] else rests comment_body s)"
proof -
  let ?g = "cats [NotCls [(0x2F, 0x2F)], Star NotStar, Plus (Lit 0x2A)]"
  let ?b = "Cat (Star NotStar) (Plus (Lit 0x2A))"
  have g: "rests ?g (c # s) = (if fst c = 0x2F then [] else rests ?b s)" by (auto simp: in_ranges_def)
  have "length t < length (c # s)" if "t \<in> set (rests ?b s)" for t
    using rests_sound [OF that] by auto
  then have "filter (\<lambda>t. length t < length (c # s)) (rests ?g (c # s)) = rests ?g (c # s)"
    using g by (auto simp: filter_id_conv)
  then have "rests (Star ?g) (c # s) = concat (map (rests (Star ?g)) (rests ?g (c # s))) @ [c # s]"
    by (simp only: rests.simps(6) [of ?g "c # s"])
  then have "rests after_stars (c # s) = concat (map (rests after_stars) (rests ?g (c # s))) @ rests (Lit 0x2F) (c # s)"
    unfolding after_stars_def rests.simps(4) [abs_def] by (simp only: map_append concat_append concat_map_concat map_map comp_def list.map concat.simps append_Nil2)
  moreover have "concat (map (rests after_stars) (rests ?b s)) = rests comment_body s"
    unfolding comment_body_def rests.simps(4) [abs_def] by (simp only: concat_map_concat map_map comp_def)
  ultimately show ?thesis using g by (auto simp: Lit_def in_ranges_def)
qed

lemma after_comment_skip: "a \<noteq> CHR ''*'' \<Longrightarrow> after_comment (a # s) = after_comment s"
  by (cases s) auto

lemma byte_star: "byte_val a = 0x2A \<longleftrightarrow> a = CHR ''*''" and byte_slash: "byte_val a = 0x2F \<longleftrightarrow> a = CHR ''/''"
  using byte_val_eq_iff [of a "CHR ''*''"] byte_val_eq_iff [of a "CHR ''/''"] by simp_all

lemma comment_first:
  "(after_comment s = Some t \<longrightarrow> (\<exists>more. rests comment_body (runes s) = runes t # more)) \<and>
   (after_comment (CHR ''*'' # s) = Some t \<longrightarrow>
     (\<exists>more. concat (map (rests after_stars) (rests (Star (Lit 0x2A)) (runes s))) = runes t # more))"
proof (induction s)
  case Nil
  show ?case by simp
next
  case (Cons a s)
  have stars: "concat (map (rests after_stars) (rests (Star (Lit 0x2A)) (runes (a # s)))) =
      (if a = CHR ''*'' then concat (map (rests after_stars) (rests (Star (Lit 0x2A)) (runes s))) else []) @
      (if a = CHR ''/'' then [runes s] else rests comment_body (runes s))"
    by (simp add: rests_Star_Cons rests_after_stars byte_star byte_slash)
  have body: "rests comment_body (runes (a # s)) =
      (if a = CHR ''*'' then concat (map (rests after_stars) (rests (Star (Lit 0x2A)) (runes s))) else rests comment_body (runes s))"
    by (simp add: rests_comment_body [of "(byte_val a, [a]) # runes s"] rests_comment_body [of "runes s"] byte_star)
  show ?case unfolding stars body using Cons by (cases "a = CHR ''*''") (auto simp: after_comment_skip)
qed

lemma after_comment_length: "after_comment s = Some t \<Longrightarrow> length t \<le> length s"
  by (induction s rule: after_comment.induct) (auto split: if_splits)

lemma after_comment_found: "after_comment (u @ CHR ''*'' # CHR ''/'' # v) \<noteq> None"
proof (induction u)
  case (Cons a u)
  then show ?case by (cases u) auto
qed simp

lemma stars_end: "matches (Plus (Lit 0x2A)) v \<Longrightarrow> \<exists>u. v = u @ [0x2A]"
proof -
  have rep: "matches r v \<Longrightarrow> r = Star (Lit 0x2A) \<Longrightarrow> v = replicate (length v) 0x2A" for r v
    by (induction rule: matches.induct) (auto simp: Lit_def matches_simps in_ranges_def)
  assume "matches (Plus (Lit 0x2A)) v"
  then obtain u where "v = 0x2A # u" "matches (Star (Lit 0x2A)) u"
    by (auto simp: Plus_def Lit_def matches_simps in_ranges_def)
  then obtain n where "v = 0x2A # replicate n 0x2A" using rep by blast
  then show ?thesis by (metis replicate_Suc replicate_append_same)
qed

lemma rounds_end:
  "matches r v \<Longrightarrow> r = Star (cats [NotCls [(0x2F, 0x2F)], Star NotStar, Plus (Lit 0x2A)]) \<Longrightarrow> v = [] \<or> (\<exists>u. v = u @ [0x2A])"
proof (induction rule: matches.induct)
  case (matches_Star1 r u v)
  have "matches (Cat (NotCls [(0x2F, 0x2F)]) (Cat (Star NotStar) (Plus (Lit 0x2A)))) u" using matches_Star1 by simp
  then obtain a b where "u = a @ b" "matches (Plus (Lit 0x2A)) b"
    unfolding matches_simps(4) by (metis append.assoc)
  then obtain c where "u = (a @ c) @ [0x2A]" using stars_end by fastforce
  then show ?case using matches_Star1 by auto
qed auto

lemma comment_end: "matches comment_body v \<Longrightarrow> \<exists>u. v = u @ [0x2A, 0x2F]"
proof -
  assume "matches comment_body v"
  then obtain a b c where v: "v = a @ b @ c @ [0x2F]" "matches (Plus (Lit 0x2A)) b"
    "matches (Star (cats [NotCls [(0x2F, 0x2F)], Star NotStar, Plus (Lit 0x2A)])) c"
    unfolding comment_body_def after_stars_def by (auto simp: matches_simps Lit_def in_ranges_def simp del: cats.simps)
  from stars_end [OF v(2)] obtain d where "b = d @ [0x2A]" by blast
  with rounds_end [OF v(3)] v(1) show ?thesis by auto
qed

lemma comment_match:
  assumes "ascii s"
  shows "match_token TokenComment (''/*'' @ s) =
     (case after_comment s of None \<Rightarrow> [] | Some t \<Rightarrow> ''/*'' @ take (length s - length t) s)"
proof -
  let ?s = "''/*'' @ s"
  have ch: "chunks ?s = runes ?s" using assms by (intro chunks_ascii_list) (simp add: ascii_def)
  have c: "comment_re = Cat (Lit 0x2F) (Cat (Lit 0x2A) comment_body)"
    by (simp add: comment_re_def comment_body_def after_stars_def)
  have r: "rests comment_re (chunks ?s) = rests comment_body (runes s)"
    unfolding ch c by (simp add: Lit_def in_ranges_def)
  show ?thesis
  proof (cases "after_comment s")
    case None
    have "rests comment_body (runes s) = []"
    proof (rule ccontr)
      assume "rests comment_body (runes s) \<noteq> []"
      then obtain t where "t \<in> set (rests comment_body (runes s))" by (cases "rests comment_body (runes s)") auto
      from rests_sound [OF this] obtain v where v: "runes s = v @ t" "matches comment_body (map fst v)" by blast
      obtain a b where ab: "s = a @ b" "v = runes a" using v(1) unfolding map_eq_append_conv by blast
      obtain u where "map byte_val a = u @ [0x2A, 0x2F]" using comment_end [OF v(2)] ab(2) by (auto simp: comp_def)
      then obtain a' where "a = a' @ [CHR ''*'', CHR ''/'']"
        by (auto simp: map_eq_append_conv map_eq_Cons_conv byte_star byte_slash)
      then show False using after_comment_found [of a' b] None ab(1) by simp
    qed
    then have "rests comment_re (chunks ?s) = []" using r by (simp only:)
    then show ?thesis using None by (simp add: match_token_def FindString_def Let_def del: append.simps)
  next
    case (Some t)
    then obtain more where m: "rests comment_re (chunks ?s) = runes t # more" using comment_first [of s t] r by auto
    have tk: "concat (map snd (take k (runes u))) = take k u" for k u
      by (simp add: take_map comp_def)
    have "length t \<le> length s" by (rule after_comment_length [OF Some])
    then have k: "length (chunks ?s) - length (runes t) = Suc (Suc (length s - length t))" unfolding ch by simp
    have "match_token TokenComment ?s = concat (map snd (take (length (chunks ?s) - length (runes t)) (chunks ?s)))"
      unfolding match_token_def FindString_def Let_def by (simp only: matcher.simps option.case m list.case)
    also have "\<dots> = take (Suc (Suc (length s - length t))) ?s" unfolding k unfolding ch by (rule tk)
    finally have "match_token TokenComment ?s = take (Suc (Suc (length s - length t))) ?s" .
    then show ?thesis using Some by simp
  qed
qed

text \<open>A comment is the text up to the first closing mark, and the error for an unclosed comment comes exactly
  when there is none.\<close>

theorem css_comment_exact:
  assumes "sc_err s = None" "rest_of s = ''/*'' @ u" "ascii u"
  shows "Next s = (case after_comment u of
     None \<Rightarrow> set_err TokenError ''unclosed comment'' s
   | Some t \<Rightarrow> emitToken TokenComment (''/*'' @ take (length u - length t) u) s)"
proof -
  have p: "sc_pos s < length (sc_input s)" using assms(2) by (cases "sc_pos s < length (sc_input s)") (auto simp: rest_of_def)
  have b: "\<not> (sc_pos s = 0 \<and> prefix BOM (sc_input s))" using assms(2) by (auto simp: BOM_def rest_of_def prefix_Cons)
  have "Next s = scan (CHR ''/'') (''/*'' @ u) s" using assms(1,2) p b by (auto simp: Next_def rest_of_def Let_def)
  then show ?thesis using comment_match [OF assms(3)] by (simp add: scan_def split: option.split)
qed

theorem css_comment_exact_witness:
  "Next (New ''/* a **/ b */'') = emitToken TokenComment ''/* a **/'' (New ''/* a **/ b */'')"
proof -
  let ?s = "New ''/* a **/ b */''"
  have "sc_err ?s = None" "rest_of ?s = ''/*'' @ '' a **/ b */''" "ascii '' a **/ b */''"
    by (simp_all add: New_def rest_of_def ascii_def)
  from css_comment_exact [OF this] show ?thesis by simp
qed

section \<open>Behaviours of the scanner\<close>

text \<open>A rune of several bytes is read again: the position moves on by the number of runes, so that the rest of the
  bytes of an identifier is another token.\<close>

theorem css_multibyte_rescanned:
  "map_option (map (\<lambda>t. (tk_Type t, tk_Value t))) (tokens (New [CHR 0xC3, CHR 0xA9])) =
     Some [(TokenIdent, [CHR 0xC3, CHR 0xA9]), (TokenIdent, [CHR 0xA9]), (TokenEOF, [])]"
  by code_simp

text \<open>A decimal number is two tokens: the first alternative of the expression is preferred.\<close>

theorem css_decimal_split:
  "map_option (map (\<lambda>t. (tk_Type t, tk_Value t))) (tokens (New ''4.2'')) =
     Some [(TokenNumber, ''4''), (TokenNumber, ''.2''), (TokenEOF, [])]"
  by code_simp

text \<open>Two strings in single quotes are one token.\<close>

theorem css_strings_joined:
  "map_option (map tk_Type) (tokens (New [CHR 0x27, CHR ''a'', CHR 0x27, CHR 0x20, CHR 0x27, CHR ''b'', CHR 0x27])) =
     Some [TokenString, TokenEOF]"
  by code_simp

text \<open>A line break at the end of an escape in a hash is not counted.\<close>

theorem css_hash_line_lost:
  "map_option (map tk_Line) (tokens (New (''#'' @ [CHR 0x5C, CHR ''4'', CHR 0x0A]))) = Some [1, 1]"
  by code_simp

end
