(* ===== verification/Template_Parse.thy ===== *)
theory Template_Parse
  imports Template_Node
begin

text \<open>
  The parser of templates (\<open>template/parse/parse.go\<close>). The panics with which the parser leaves its
  recursion are values of \<open>perror\<close>: an error that \<open>Parse\<close> recovers and returns, a run-time panic that it
  lets through, or the end of the fuel, which bounds the recursion of \<open>itemList\<close> and of the loop over
  definitions. The lexer goroutine is run before the parser: the parser sees the same items in the same
  order, and the position for line numbers is set as items are received.
\<close>

section \<open>State\<close>

datatype perror =
    Errorf int string "string list"
  | PlainError string "string list"
  | Panic go_panic
  | OutOfFuel

record parser =
  pr_tree :: Tree
  pr_input :: string
  pr_endPos :: nat
  pr_lastPos :: nat
  pr_items :: "item list"
  pr_token0 :: item
  pr_token1 :: item
  pr_peekCount :: nat
  pr_vars :: "string list"

record parse_env =
  pe_lex :: lex_env
  pe_num :: num_env
  pe_Unquote :: "string \<Rightarrow> string option"
  pe_funcs :: "(string \<Rightarrow> bool) option list"

type_synonym 'a parsed = "perror + 'a \<times> parser"

definition lift_go :: "'a go \<Rightarrow> parser \<Rightarrow> 'a parsed" where
  "lift_go m p = (case m of Inl e \<Rightarrow> Inl (Panic e) | Inr x \<Rightarrow> Inr (x, p))"

text \<open>\<open>lexer.nextItem\<close>: when the channel is closed, the item for the end of the input.\<close>

definition nextItem :: "parser \<Rightarrow> item \<times> parser" where
  "nextItem p = (case pr_items p of
     [] \<Rightarrow> (\<lparr>it_typ = itemEOF, it_pos = pr_endPos p, it_val = []\<rparr>, p)
   | i # rest \<Rightarrow> (i, p\<lparr>pr_lastPos := it_pos i, pr_items := rest\<rparr>))"

definition lineNumber :: "parser \<Rightarrow> int" where
  "lineNumber p = 1 + int (length (filter (\<lambda>c. c = CHR 0x0A) (take (pr_lastPos p) (pr_input p))))"

definition token_at :: "nat \<Rightarrow> parser \<Rightarrow> item" where
  "token_at k p = (if k = 0 then pr_token0 p else pr_token1 p)"

definition next_token :: "parser \<Rightarrow> item \<times> parser" where
  "next_token p =
     (let p = (if pr_peekCount p > 0 then p\<lparr>pr_peekCount := pr_peekCount p - 1\<rparr>
               else let (i, p) = nextItem p in p\<lparr>pr_token0 := i\<rparr>)
      in (token_at (pr_peekCount p) p, p))"

definition backup :: "parser \<Rightarrow> parser" where
  "backup p = p\<lparr>pr_peekCount := pr_peekCount p + 1\<rparr>"

definition backup2 :: "item \<Rightarrow> parser \<Rightarrow> parser" where
  "backup2 t1 p = p\<lparr>pr_token1 := t1, pr_peekCount := 2\<rparr>"

definition peek_token :: "parser \<Rightarrow> item \<times> parser" where
  "peek_token p =
     (if pr_peekCount p > 0 then (token_at (pr_peekCount p - 1) p, p)
      else let (i, p) = nextItem p in (i, p\<lparr>pr_token0 := i, pr_peekCount := 1\<rparr>))"

text \<open>The number of items still to be read; the end of the input does not count, since it can be read
  again.\<close>

definition remaining :: "parser \<Rightarrow> nat" where
  "remaining p = length (filter (\<lambda>k. it_typ (token_at k p) \<noteq> itemEOF) [0..<pr_peekCount p]) + length (pr_items p)"

lemma token_at_cong [simp]:
  "token_at k (p\<lparr>pr_peekCount := c\<rparr>) = token_at k p" "token_at k (p\<lparr>pr_items := is\<rparr>) = token_at k p"
  "token_at k (p\<lparr>pr_vars := vs\<rparr>) = token_at k p" "token_at k (p\<lparr>pr_tree := tr\<rparr>) = token_at k p"
  "token_at k (p\<lparr>pr_lastPos := i\<rparr>) = token_at k p" "token_at 0 (p\<lparr>pr_token0 := t\<rparr>) = t"
  by (simp_all add: token_at_def)

lemma next_token_remaining:
  assumes "next_token p = (t, p')"
  shows "remaining p = remaining p' + (if it_typ t = itemEOF \<and> (pr_peekCount p > 0 \<or> pr_items p = []) then 0 else 1)"
proof (cases "pr_peekCount p")
  case 0
  then show ?thesis
    using assms by (auto simp: next_token_def nextItem_def remaining_def Let_def split: list.splits)
next
  case (Suc c)
  then have "t = token_at c p" "p' = p\<lparr>pr_peekCount := c\<rparr>" using assms by (auto simp: next_token_def Let_def)
  then show ?thesis using Suc by (simp add: remaining_def)
qed

lemma next_token_less:
  "next_token p = (t, p') \<Longrightarrow> it_typ t \<noteq> itemEOF \<Longrightarrow> remaining p' < remaining p"
  using next_token_remaining [of p t p'] by simp

lemma next_token_le: "next_token p = (t, p') \<Longrightarrow> remaining p' \<le> remaining p"
  using next_token_remaining [of p t p'] by simp

section \<open>Errors\<close>

definition errorf_at :: "string \<Rightarrow> string list \<Rightarrow> parser \<Rightarrow> perror" where
  "errorf_at fmt args p = Errorf (lineNumber p) fmt args"

definition expect :: "parse_env \<Rightarrow> itemType \<Rightarrow> string \<Rightarrow> parser \<Rightarrow> item parsed" where
  "expect env expected ctx p =
     (let (t, p) = next_token p in
      if it_typ t \<noteq> expected
      then Inl (errorf_at ''expected %s in %s; got %s'' [itemType_String expected, ctx, item_String (pe_lex env) t] p)
      else Inr (t, p))"

definition expectOneOf :: "parse_env \<Rightarrow> itemType \<Rightarrow> itemType \<Rightarrow> string \<Rightarrow> parser \<Rightarrow> item parsed" where
  "expectOneOf env expected1 expected2 ctx p =
     (let (t, p) = next_token p in
      if it_typ t \<noteq> expected1 \<and> it_typ t \<noteq> expected2
      then Inl (errorf_at ''expected %s or %s in %s; got %s''
             [itemType_String expected1, itemType_String expected2, ctx, item_String (pe_lex env) t] p)
      else Inr (t, p))"

definition unexpected :: "parse_env \<Rightarrow> item \<Rightarrow> string \<Rightarrow> parser \<Rightarrow> perror" where
  "unexpected env t ctx p = errorf_at ''unexpected %s in %s'' [item_String (pe_lex env) t, ctx] p"

section \<open>Commands and pipelines\<close>

definition hasFunction :: "parse_env \<Rightarrow> string \<Rightarrow> bool" where
  "hasFunction env name \<longleftrightarrow>
     list_ex (\<lambda>m. case m of None \<Rightarrow> False | Some funcMap \<Rightarrow> funcMap name) (pe_funcs env)"

definition useVar :: "string \<Rightarrow> parser \<Rightarrow> arg_node parsed" where
  "useVar name p =
     (let v = newVariable name in
      if hd v \<in> set (pr_vars p) then Inr (VariableNode v, p)
      else Inl (errorf_at ''undefined variable %q'' [hd v] p))"

definition unquoted :: "parse_env \<Rightarrow> string \<Rightarrow> parser \<Rightarrow> string parsed" where
  "unquoted env s p = (case pe_Unquote env s of
     None \<Rightarrow> Inl (errorf_at ''%s'' [''invalid syntax''] p) | Some t \<Rightarrow> Inr (t, p))"

text \<open>The argument a token stands for.\<close>

definition argument :: "parse_env \<Rightarrow> item \<Rightarrow> parser \<Rightarrow> arg_node parsed" where
  "argument env t p = (case it_typ t of
     itemError \<Rightarrow> Inl (errorf_at ''%s'' [it_val t] p)
   | itemIdentifier \<Rightarrow>
       if \<not> hasFunction env (it_val t) then Inl (errorf_at ''function %q not defined'' [it_val t] p)
       else Inr (IdentifierNode (it_val t), p)
   | itemDot \<Rightarrow> Inr (DotNode, p)
   | itemNil \<Rightarrow> Inr (NilNode, p)
   | itemVariable \<Rightarrow> useVar (it_val t) p
   | itemField \<Rightarrow> lift_go (newField (it_val t)) p
   | itemBool \<Rightarrow> Inr (BoolNode (it_val t = ''true''), p)
   | itemString \<Rightarrow> bindE (unquoted env (it_val t) p) (\<lambda>(s, p). Inr (StringNode (it_val t) s, p))
   | itemRawString \<Rightarrow> bindE (unquoted env (it_val t) p) (\<lambda>(s, p). Inr (StringNode (it_val t) s, p))
   | ty \<Rightarrow>
       if ty \<in> {itemCharConstant, itemComplex, itemNumber}
       then bindE (lift_go (newNumber (pe_num env) (it_val t) ty) p) (\<lambda>(r, p). case r of
              Inl (fmt, args) \<Rightarrow> Inl (errorf_at fmt args p)
            | Inr n \<Rightarrow> Inr (NumberArg n, p))
       else Inl (unexpected env t ''command'' p))"

lemma argument_remaining: "argument env t p = Inr (a, p') \<Longrightarrow> p' = p \<and> it_typ t \<noteq> itemEOF"
  by (auto simp: argument_def useVar_def unquoted_def lift_go_def Let_def unexpected_def
      split: itemType.splits if_splits option.splits sum.splits)

function command_loop :: "parse_env \<Rightarrow> CommandNode \<Rightarrow> parser \<Rightarrow> CommandNode parsed" where
  "command_loop env cmd p =
     (let (t, p1) = next_token p in
      if it_typ t = itemRightDelim then Inr (cmd, backup p1)
      else if it_typ t = itemPipe then Inr (cmd, p1)
      else case argument env t p1 of
        Inl e \<Rightarrow> Inl e
      | Inr r \<Rightarrow> command_loop env (cmd @ [fst r]) (snd r))"
  by pat_completeness auto
termination
proof (relation "measure (\<lambda>(env, cmd, p). remaining p)", goal_cases)
  case (2 env cmd p x t p1 r)
  then show ?case using argument_remaining [of env t p1 "fst r" "snd r"] next_token_less [of p t p1] by simp
qed simp

declare command_loop.simps [simp del]

definition command :: "parse_env \<Rightarrow> parser \<Rightarrow> CommandNode parsed" where
  "command env p = bindE (command_loop env [] p) (\<lambda>(cmd, p).
     if cmd = [] then Inl (errorf_at ''empty command'' [] p) else Inr (cmd, p))"

text \<open>The declarations at the start of a pipeline; \<open>k\<close> bounds the rounds of the loop, of which there
  are at most two.\<close>

fun declarations :: "nat \<Rightarrow> string \<Rightarrow> string list list \<Rightarrow> parser \<Rightarrow> string list list parsed" where
  "declarations k ctx decl p =
     (let (v, p) = peek_token p in
      if it_typ v \<noteq> itemVariable then Inr (decl, p)
      else
        let p = snd (next_token p); (nxt, p) = peek_token p;
            comma = (it_typ nxt = itemChar \<and> it_val nxt = '','') in
        if it_typ nxt = itemColonEquals \<or> comma
        then
          let p = snd (next_token p); variable = newVariable (it_val v) in
          if length variable \<noteq> 1 then Inl (errorf_at ''illegal variable in declaration: %s'' [it_val v] p)
          else
            let decl = decl @ [variable]; p = p\<lparr>pr_vars := pr_vars p @ [it_val v]\<rparr> in
            if comma
            then (if ctx = ''range'' \<and> length decl < 2
                  then (case k of 0 \<Rightarrow> Inl OutOfFuel | Suc k \<Rightarrow> declarations k ctx decl p)
                  else Inl (errorf_at ''too many declarations in %s'' [ctx] p))
            else Inr (decl, p)
        else Inr (decl, backup2 v p))"

declare declarations.simps [simp del]

definition starts_command :: "itemType \<Rightarrow> bool" where
  "starts_command t \<longleftrightarrow> t \<in> {itemBool, itemCharConstant, itemComplex, itemDot, itemField, itemIdentifier, itemNumber,
     itemNil, itemRawString, itemString, itemVariable}"

lemma backup_next:
  assumes "next_token p = (t, p1)"
  shows "next_token (backup p1) = (t, p1)" "remaining (backup p1) \<le> remaining p"
proof -
  have t: "t = token_at (pr_peekCount p1) p1" using assms by (auto simp: next_token_def Let_def)
  then show "next_token (backup p1) = (t, p1)" by (simp add: next_token_def backup_def token_at_def)
  have "remaining (backup p1) = remaining p1 + (if it_typ t = itemEOF then 0 else 1)"
    using t by (simp add: remaining_def backup_def)
  then show "remaining (backup p1) \<le> remaining p" using next_token_remaining [OF assms] by (auto split: if_splits)
qed

lemma command_loop_le: "command_loop env cmd p = Inr (c, p') \<Longrightarrow> remaining p' \<le> remaining p"
proof (induction env cmd p rule: command_loop.induct)
  case (1 env cmd p)
  obtain t p1 where n: "next_token p = (t, p1)" by fastforce
  consider "it_typ t = itemRightDelim" | "it_typ t = itemPipe" | "it_typ t \<noteq> itemRightDelim" "it_typ t \<noteq> itemPipe" by blast
  then show ?case
  proof cases
    case 1
    then show ?thesis
      using \<open>command_loop env cmd p = Inr (c, p')\<close> n next_token_less [OF n] backup_next [OF n]
      by (subst (asm) command_loop.simps) auto
  next
    case 2
    then show ?thesis
      using \<open>command_loop env cmd p = Inr (c, p')\<close> n next_token_le [OF n] by (subst (asm) command_loop.simps) auto
  next
    case 3
    then obtain a p2 where a: "argument env t p1 = Inr (a, p2)" "command_loop env (cmd @ [a]) p2 = Inr (c, p')"
      using 1(2) n by (subst (asm) command_loop.simps) (auto split: sum.splits)
    then have "remaining p' \<le> remaining p2" using 1(1) [OF n [symmetric] refl 3 a(1)] by simp
    then show ?thesis using argument_remaining [OF a(1)] next_token_le [OF n] by simp
  qed
qed

lemma command_less:
  assumes "next_token p = (t, p1)" "starts_command (it_typ t)" "command env (backup p1) = Inr (c, p')"
  shows "remaining p' < remaining p"
proof -
  have l: "command_loop env [] (backup p1) = Inr (c, p')"
    using assms(3) by (auto simp: command_def split: if_splits)
  have t: "it_typ t \<noteq> itemRightDelim" "it_typ t \<noteq> itemPipe" "it_typ t \<noteq> itemEOF"
    using assms(2) by (auto simp: starts_command_def)
  obtain a p2 where a: "argument env t p1 = Inr (a, p2)" "command_loop env ([] @ [a]) p2 = Inr (c, p')"
    using l t backup_next(1) [OF assms(1)] by (subst (asm) command_loop.simps) (auto split: sum.splits)
  have "remaining p' \<le> remaining p1" using command_loop_le [OF a(2)] argument_remaining [OF a(1)] by simp
  then show ?thesis using next_token_less [OF assms(1) t(3)] by simp
qed

function pipeline_loop :: "parse_env \<Rightarrow> string \<Rightarrow> PipeNode \<Rightarrow> parser \<Rightarrow> PipeNode parsed" where
  "pipeline_loop env ctx pipe p =
     (let (t, p1) = next_token p in
      if it_typ t = itemRightDelim
      then (if pipe_Cmds pipe = [] then Inl (errorf_at ''missing value for %s'' [ctx] p1) else Inr (pipe, p1))
      else if starts_command (it_typ t)
      then (case command env (backup p1) of
              Inl e \<Rightarrow> Inl e
            | Inr r \<Rightarrow> pipeline_loop env ctx (PipeNode_append pipe (fst r)) (snd r))
      else Inl (unexpected env t ctx p1))"
  by pat_completeness auto
termination
proof (relation "measure (\<lambda>(env, ctx, pipe, p). remaining p)", goal_cases)
  case (2 env ctx pipe p x t p1 r)
  then show ?case using command_less [of p t p1 env "fst r" "snd r"] by simp
qed simp

declare pipeline_loop.simps [simp del]

definition pipeline :: "parse_env \<Rightarrow> string \<Rightarrow> parser \<Rightarrow> PipeNode parsed" where
  "pipeline env ctx p = bindE (declarations 2 ctx [] p) (\<lambda>(decl, p).
     pipeline_loop env ctx (newPipeline (lineNumber p) decl) p)"

section \<open>Lists and controls\<close>

text \<open>The controls call \<open>itemList\<close>, which calls them: they take it as the argument \<open>il\<close>. A list is
  returned with the end or else node that ends it.\<close>

type_synonym item_list = "parser \<Rightarrow> (node list \<times> node) parsed"

definition is_end :: "node \<Rightarrow> bool" where "is_end n \<longleftrightarrow> n = endNode"
definition is_else :: "node \<Rightarrow> bool" where "is_else n \<longleftrightarrow> (case n of elseNode _ \<Rightarrow> True | _ \<Rightarrow> False)"

definition popVars :: "nat \<Rightarrow> parser \<Rightarrow> unit parsed" where
  "popVars n p =
     (if n \<le> length (pr_vars p) then Inr ((), p\<lparr>pr_vars := take n (pr_vars p)\<rparr>)
      else Inl (Panic SliceBoundsOutOfRange))"

definition parseControl ::
  "parse_env \<Rightarrow> item_list \<Rightarrow> branch \<Rightarrow> parser \<Rightarrow> node parsed" where
  "parseControl env il b p =
     (let line = lineNumber p; nvars = length (pr_vars p) in
      bindE (pipeline env (branch_name b) p) (\<lambda>(pipe, p).
      bindE (il p) (\<lambda>((ns, nxt), p).
      bindE (if is_else nxt
             then bindE (il p) (\<lambda>((es, nxt), p).
               if \<not> is_end nxt
               then Inl (errorf_at ''expected end; found %s'' [tnode_String (fmt_q (pe_lex env)) nxt] p)
               else Inr (Some es, p))
             else Inr (None, p)) (\<lambda>(es, p).
      bindE (popVars nvars p) (\<lambda>(_, p).
        Inr (BranchNode b line pipe ns es, p))))))"

definition endControl :: "parse_env \<Rightarrow> parser \<Rightarrow> node parsed" where
  "endControl env p = bindE (expect env itemRightDelim ''end'' p) (\<lambda>(_, p). Inr (endNode, p))"

definition elseControl :: "parse_env \<Rightarrow> parser \<Rightarrow> node parsed" where
  "elseControl env p = bindE (expect env itemRightDelim ''else'' p) (\<lambda>(_, p). Inr (elseNode (lineNumber p), p))"

text \<open>The optional pipeline up to the right delimiter.\<close>

definition optional_pipeline :: "parse_env \<Rightarrow> string \<Rightarrow> parser \<Rightarrow> PipeNode option parsed" where
  "optional_pipeline env ctx p =
     (let (t, p) = next_token p in
      if it_typ t \<noteq> itemRightDelim
      then bindE (pipeline env ctx (backup p)) (\<lambda>(pipe, p). Inr (Some pipe, p))
      else Inr (None, p))"

definition templateControl :: "parse_env \<Rightarrow> parser \<Rightarrow> node parsed" where
  "templateControl env p =
     (let (t, p) = next_token p in
      bindE (if it_typ t = itemString \<or> it_typ t = itemRawString then unquoted env (it_val t) p
             else Inl (unexpected env t ''template invocation'' p)) (\<lambda>(name, p).
      bindE (optional_pipeline env ''template'' p) (\<lambda>(pipe, p).
        Inr (TemplateNode (lineNumber p) name pipe, p))))"

definition blockOrFill ::
  "parse_env \<Rightarrow> item_list \<Rightarrow> string \<Rightarrow> parser \<Rightarrow> (int \<times> string \<times> PipeNode option \<times> node list) parsed" where
  "blockOrFill env il ctx p =
     (let line = lineNumber p in
      bindE (expectOneOf env itemString itemRawString ctx p) (\<lambda>(t, p).
      bindE (unquoted env (it_val t) p) (\<lambda>(name, p).
      bindE (optional_pipeline env ctx p) (\<lambda>(pipe, p).
      bindE (il p) (\<lambda>((ns, nxt), p).
        if \<not> is_end nxt then Inl (errorf_at ''expected <end> in %s'' [ctx] p)
        else Inr ((line, name, pipe, ns), p))))))"

definition blockControl :: "parse_env \<Rightarrow> item_list \<Rightarrow> parser \<Rightarrow> node parsed" where
  "blockControl env il p = bindE (blockOrFill env il ''block'' p) (\<lambda>((line, name, pipe, ns), p).
     Inr (BlockNode line name pipe ns, p))"

definition fillControl :: "parse_env \<Rightarrow> item_list \<Rightarrow> parser \<Rightarrow> node parsed" where
  "fillControl env il p = bindE (blockOrFill env il ''fill'' p) (\<lambda>((line, name, pipe, ns), p).
     case validate ns of
       Inl (InvalidAction n) \<Rightarrow>
         Inl (PlainError ''invalid action inside <fill>: %s'' [tnode_String (fmt_q (pe_lex env)) n])
     | Inl (FillPanic e) \<Rightarrow> Inl (Panic e)
     | Inr _ \<Rightarrow> Inr (FillNode line name pipe ns, p))"

definition action :: "parse_env \<Rightarrow> item_list \<Rightarrow> parser \<Rightarrow> node parsed" where
  "action env il p =
     (let (t, p) = next_token p in
      case it_typ t of
        itemElse \<Rightarrow> elseControl env p
      | itemEnd \<Rightarrow> endControl env p
      | itemIf \<Rightarrow> parseControl env il NodeIf p
      | itemRange \<Rightarrow> parseControl env il NodeRange p
      | itemTemplate \<Rightarrow> templateControl env p
      | itemWith \<Rightarrow> parseControl env il NodeWith p
      | itemBlock \<Rightarrow> blockControl env il p
      | itemFill \<Rightarrow> fillControl env il p
      | _ \<Rightarrow>
          let p = backup p; line = lineNumber p in
          bindE (pipeline env ''command'' p) (\<lambda>(pipe, p). Inr (ActionNode line pipe, p)))"

definition textOrAction :: "parse_env \<Rightarrow> item_list \<Rightarrow> parser \<Rightarrow> node parsed" where
  "textOrAction env il p =
     (let (t, p) = next_token p in
      case it_typ t of
        itemText \<Rightarrow> Inr (TextNode (it_val t), p)
      | itemLeftDelim \<Rightarrow> action env il p
      | _ \<Rightarrow> Inl (unexpected env t ''input'' p))"

fun itemList :: "parse_env \<Rightarrow> nat \<Rightarrow> node list \<Rightarrow> item_list" where
  "itemList env 0 ns p = Inl OutOfFuel"
| "itemList env (Suc f) ns p =
     (let (t, p) = peek_token p in
      if it_typ t = itemEOF then Inl (errorf_at ''unexpected EOF'' [] p)
      else bindE (textOrAction env (itemList env f []) p) (\<lambda>(n, p).
        if is_end n \<or> is_else n then Inr ((ns, n), p) else itemList env f (ns @ [n]) p))"

section \<open>Definitions\<close>

definition parseDefinition :: "parse_env \<Rightarrow> nat \<Rightarrow> parser \<Rightarrow> DefineNode parsed" where
  "parseDefinition env f p =
     (let line = lineNumber p in
      bindE (expectOneOf env itemString itemRawString ''define clause'' p) (\<lambda>(t, p).
      bindE (unquoted env (it_val t) p) (\<lambda>(name, p).
      bindE (expect env itemRightDelim ''define clause'' p) (\<lambda>(_, p).
      bindE (itemList env f [] p) (\<lambda>((ns, nxt), p).
        if \<not> is_end nxt
        then Inl (errorf_at ''unexpected %s in %s'' [tnode_String (fmt_q (pe_lex env)) nxt, ''define clause''] p)
        else bindE (popVars 1 p) (\<lambda>(_, p). Inr (\<lparr>def_Line = line, def_Name = name, def_List = ns\<rparr>, p)))))))"

text \<open>The loop of \<open>parse\<close>: outside definitions every item but a left delimiter is skipped.\<close>

fun parse_loop :: "parse_env \<Rightarrow> nat \<Rightarrow> parser \<Rightarrow> Tree parsed" where
  "parse_loop env 0 p = Inl OutOfFuel"
| "parse_loop env (Suc f) p =
     (let (t, p) = next_token p in
      if it_typ t = itemEOF then Inr (pr_tree p, p)
      else if it_typ t = itemLeftDelim
      then bindE (expect env itemDefine ''template root'' p) (\<lambda>(_, p).
           bindE (parseDefinition env f p) (\<lambda>(d, p).
           case Tree_Add (pr_tree p) d of
             Inl (fmt, args) \<Rightarrow> Inl (errorf_at fmt args p)
           | Inr tree \<Rightarrow> parse_loop env f (p\<lparr>pr_tree := tree\<rparr>)))
      else parse_loop env f p)"

definition no_item :: item where "no_item = \<lparr>it_typ = itemError, it_pos = 0, it_val = []\<rparr>"

definition new_parser :: "lexer \<Rightarrow> parser" where
  "new_parser l =
     \<lparr>pr_tree = Map.empty, pr_input = lx_input l, pr_endPos = lx_pos l, pr_lastPos = 0, pr_items = lx_items l,
      pr_token0 = no_item, pr_token1 = no_item, pr_peekCount = 0, pr_vars = [''$'']\<rparr>"

text \<open>\<open>Parse\<close>: the tree, or the error of the parser. One unit of fuel for each item is enough.\<close>

definition template_Parse :: "parse_env \<Rightarrow> string \<Rightarrow> string \<Rightarrow> string \<Rightarrow> (perror + Tree) option" where
  "template_Parse env txt left right =
     (case template_lex (pe_lex env) [] txt left right of
        None \<Rightarrow> None
      | Some (Inl e) \<Rightarrow> Some (Inl (Panic e))
      | Some (Inr l) \<Rightarrow> Some (bindE (parse_loop env (Suc (length (lx_items l))) (new_parser l)) (\<lambda>(t, p). Inr t)))"

end
