(* ===== verification/Template_Scan_Correct.thy ===== *)
theory Template_Scan_Correct
  imports Template_Scan
begin

text \<open>
  What the shared scanner guarantees: the loops move the cursor forward inside the input, and the state
  functions keep an invariant and come closer to the end. The two lexers use these facts at their item
  types.
\<close>

section \<open>Moving through the input\<close>

text \<open>The cursor moves forward inside the input; nothing else of the lexer changes but the width.\<close>

definition moves :: "('t, 'z) scanner_scheme \<Rightarrow> ('t, 'z) scanner_scheme \<Rightarrow> bool" where
  "moves l l' \<longleftrightarrow> lx_pos l \<le> lx_pos l' \<and> lx_pos l' \<le> length (lx_input l) \<and> lx_input l' = lx_input l \<and>
     lx_leftDelim l' = lx_leftDelim l \<and> lx_rightDelim l' = lx_rightDelim l \<and> lx_start l' = lx_start l \<and>
     lx_items l' = lx_items l"

lemma moves_trans: "moves l l1 \<Longrightarrow> moves l1 l2 \<Longrightarrow> moves l l2"
  by (simp add: moves_def)

lemma moves_refl: "lx_pos l \<le> length (lx_input l) \<Longrightarrow> moves l l"
  by (simp add: moves_def)

lemmas movesD = moves_def [THEN iffD1]

locale cursor =
  fixes op :: "('t, 'z) scanner_scheme \<Rightarrow> ('t, 'z) scanner_scheme"
  assumes op_moves: "lx_pos l \<le> length (lx_input l) \<Longrightarrow> moves l (op l)"
begin

lemma op_then: "moves l0 l \<Longrightarrow> moves l0 (op l)"
  using op_moves [of l] by (simp add: moves_def)

end

lemma lex_next_moves:
  fixes l :: "('t, 'z) scanner_scheme"
  assumes "lx_pos l \<le> length (lx_input l)" "lex_next l = (r, l')"
  shows "moves l l'" "moves l (lex_backup l')" "lx_pos (lex_backup l') = lx_pos l"
  using assms decode_rune_width(2) [of "drop (lx_pos l) (lx_input l)"]
  by (auto simp: lex_next_def lex_backup_def moves_def split: if_splits prod.splits)

lemma next_then: "moves l0 l \<Longrightarrow> moves l0 (snd (lex_next l))"
  using lex_next_moves(1) [of l] moves_trans by (cases "lex_next l") (auto simp: moves_def)

interpretation peek: cursor "\<lambda>l. snd (lex_peek l)"
  by unfold_locales (auto simp: lex_peek_def lex_next_moves split: prod.splits)

interpretation accept: cursor "\<lambda>l. snd (accept valid l)" for valid
  by unfold_locales (auto simp: accept_def lex_next_moves split: prod.splits)

interpretation acceptRun: cursor "acceptRun valid" for valid
proof
  fix l :: "('t, 'z) scanner_scheme"
  assume "lx_pos l \<le> length (lx_input l)"
  then show "moves l (acceptRun valid l)"
  proof (induction valid l rule: acceptRun.induct)
    case (1 valid l)
    obtain r l1 where n: "lex_next l = (r, l1)" by fastforce
    have m: "moves l l1" using lex_next_moves(1) [OF 1(2) n] .
    show ?case
    proof (cases "contains_rune valid r")
      case True
      then have "moves l1 (acceptRun valid l1)" using 1(1) [OF n [symmetric] refl] True movesD [OF m] by simp
      then show ?thesis using True n moves_trans [OF m] by (subst acceptRun.simps) simp
    next
      case False
      then show ?thesis using n lex_next_moves [OF 1(2) n] by (subst acceptRun.simps) simp
    qed
  qed
qed

lemma quoted_moves:
  fixes l :: "('t, 'z) scanner_scheme"
  shows "lx_pos l \<le> length (lx_input l) \<Longrightarrow> moves l (snd (lexQuoted_loop q l))"
proof (induction q l rule: lexQuoted_loop.induct)
  case (1 q l)
  obtain r l1 where n: "lex_next l = (r, l1)" by fastforce
  obtain r2 l2 where n2: "lex_next l1 = (r2, l2)" by fastforce
  have m: "moves l l1" using lex_next_moves(1) [OF 1(3) n] .
  then have m2: "moves l1 l2" using lex_next_moves [OF _ n2] movesD [OF m] by simp
  have ih1: "moves l (snd (lexQuoted_loop q l2))" if "r = 0x5C" "r2 \<noteq> eof \<and> r2 \<noteq> 0x0A"
    using 1(1) [OF n [symmetric] refl that(1) n2 [symmetric] refl that(2)] m m2 movesD [OF m] movesD [OF m2] moves_trans by metis
  have ih2: "moves l (snd (lexQuoted_loop q l1))" if "r \<noteq> 0x5C" "\<not> (r = eof \<or> r = 0x0A)" "r \<noteq> q"
    using 1(2) [OF n [symmetric] refl that] m movesD [OF m] moves_trans by metis
  show ?case
    using ih1 ih2 m moves_trans [OF m m2] by (subst lexQuoted_loop.simps) (simp add: n n2)
qed

interpretation quoted: cursor "\<lambda>l. snd (lexQuoted_loop q l)" for q
  by unfold_locales (rule quoted_moves)

interpretation raw: cursor "\<lambda>l. snd (lexRawQuote_loop l)"
proof
  fix l :: "('t, 'z) scanner_scheme"
  assume "lx_pos l \<le> length (lx_input l)"
  then show "moves l (snd (lexRawQuote_loop l))"
  proof (induction l rule: lexRawQuote_loop.induct)
    case (1 l)
    obtain r l1 where n: "lex_next l = (r, l1)" by fastforce
    have m: "moves l l1" using lex_next_moves(1) [OF 1(2) n] .
    have "moves l (snd (lexRawQuote_loop l1))" if "\<not> (r = eof \<or> r = 0x0A)" "r \<noteq> 0x60"
      using 1(1) [OF n [symmetric] refl that] m movesD [OF m] moves_trans by metis
    then show ?case using m by (subst lexRawQuote_loop.simps) (simp add: n)
  qed
qed

text \<open>A number starts with a sign, a digit or a dot, so that scanning it consumes a byte.\<close>

definition number_start :: string where "number_start = ''+-.0123456789''"

lemma lex_next_ascii:
  assumes "lex_next l = (r, l')" "0 \<le> r" "r < 0x80"
  shows "lx_pos l < length (lx_input l)" "byte_val (lx_input l ! lx_pos l) = r" "lx_pos l' = lx_pos l + 1"
    "lx_input l' = lx_input l"
proof -
  have p: "lx_pos l < length (lx_input l)" using assms by (auto simp: lex_next_def eof_def split: if_splits)
  then obtain a t where at: "drop (lx_pos l) (lx_input l) = a # t" by (metis Cons_nth_drop_Suc)
  have a: "lx_input l ! lx_pos l = a" using drop_eq_ConsD [OF at] by simp
  have d: "decode_rune (a # t) = (r, lx_pos l' - lx_pos l)" "lx_pos l \<le> lx_pos l'" "lx_input l' = lx_input l"
    using assms p at by (auto simp: lex_next_def split: prod.splits if_splits)
  have "byte_val a < 0x80" using decode_rune_nonascii(1) [OF _ d(1)] assms(3) by force
  then show "lx_pos l < length (lx_input l)" "byte_val (lx_input l ! lx_pos l) = r" "lx_pos l' = lx_pos l + 1"
    "lx_input l' = lx_input l"
    using d a p by auto
qed

lemma lex_next_at:
  assumes "lx_pos l < length (lx_input l)" "byte_val (lx_input l ! lx_pos l) < 0x80"
  shows "lex_next l = (byte_val (lx_input l ! lx_pos l), l\<lparr>lx_width := 1, lx_pos := lx_pos l + 1\<rparr>)"
  using assms by (simp add: lex_next_def Cons_nth_drop_Suc [symmetric])

lemma accept_at:
  assumes "lx_pos l < length (lx_input l)" "lx_input l ! lx_pos l \<in> set valid" "\<forall>c \<in> set valid. byte_val c < 0x80"
  shows "lx_pos (snd (accept valid l)) = lx_pos l + 1" "fst (accept valid l)"
  using assms lex_next_at [of l] by (auto simp: accept_def contains_rune_chars)

lemma accept_not_at:
  assumes "lx_pos l < length (lx_input l)" "lx_input l ! lx_pos l \<notin> set valid"
    "byte_val (lx_input l ! lx_pos l) < 0x80" "\<forall>c \<in> set valid. byte_val c < 0x80"
  shows "lx_pos (snd (accept valid l)) = lx_pos l" "\<not> fst (accept valid l)" "lx_input (snd (accept valid l)) = lx_input l"
  using assms lex_next_at [of l] by (auto simp: accept_def contains_rune_chars lex_backup_def)

lemma accept_pos: "lx_pos l \<le> length (lx_input l) \<Longrightarrow> lx_pos l \<le> lx_pos (snd (accept valid l))"
  "lx_pos l \<le> length (lx_input l) \<Longrightarrow> lx_pos (snd (accept valid l)) \<le> length (lx_input l)"
  "lx_pos l \<le> length (lx_input l) \<Longrightarrow> lx_input (snd (accept valid l)) = lx_input l"
  using accept.op_moves [of l valid] by (simp_all add: moves_def)

lemma acceptRun_at:
  assumes "lx_pos l < length (lx_input l)" "lx_input l ! lx_pos l \<in> set valid" "\<forall>c \<in> set valid. byte_val c < 0x80"
  shows "lx_pos l < lx_pos (acceptRun valid l)"
proof -
  let ?l1 = "l\<lparr>lx_width := 1, lx_pos := lx_pos l + 1\<rparr>"
  have "acceptRun valid l = acceptRun valid ?l1"
    using lex_next_at [of l] assms by (subst acceptRun.simps) (simp add: contains_rune_chars)
  then show ?thesis using acceptRun.op_moves [of ?l1 valid] assms(1) by (auto simp: moves_def)
qed

lemma scan_mantissa_steps:
  assumes "lx_pos l \<le> length (lx_input l)"
  obtains l1 zero l2 x l3 l4 dot l5 digits where
    "l1 = snd (accept ''+-'' l)" "accept ''0'' l1 = (zero, l2)"
    "(if zero then accept ''xX'' l2 else (False, l2)) = (x, l3)"
    "digits = (if x then ''0123456789abcdefABCDEF'' else ''0123456789'')"
    "l4 = acceptRun digits l3" "accept ''.'' l4 = (dot, l5)"
    "scan_mantissa l = (if dot then acceptRun digits l5 else l5)"
    "moves l l1" "moves l1 l2" "moves l2 l3" "moves l3 l4" "moves l4 l5" "moves l5 (scan_mantissa l)"
proof -
  define l1 where "l1 = snd (accept ''+-'' l)"
  obtain zero l2 where z: "accept ''0'' l1 = (zero, l2)" by fastforce
  obtain x l3 where x: "(if zero then accept ''xX'' l2 else (False, l2)) = (x, l3)" by fastforce
  define digits where "digits = (if x then ''0123456789abcdefABCDEF'' else ''0123456789'')"
  define l4 where "l4 = acceptRun (if x then ''0123456789abcdefABCDEF'' else ''0123456789'') l3"
  obtain dot l5 where d: "accept ''.'' l4 = (dot, l5)" by fastforce
  have eq: "scan_mantissa l = (if dot then acceptRun digits l5 else l5)"
    unfolding digits_def
    by (simp add: scan_mantissa_def Let_def l1_def [symmetric] z x l4_def [symmetric] d split del: if_split)
  have m: "moves l l1" using accept.op_moves [OF assms] by (simp add: l1_def)
  have m2: "moves l1 l2" using accept.op_moves [of l1 "''0''"] m z by (simp add: moves_def)
  have m3: "moves l2 l3" using accept.op_moves [of l2 "''xX''"] m2 x by (auto simp: moves_def split: if_splits)
  have m4: "moves l3 l4" using acceptRun.op_moves [of l3 digits] m3 by (simp add: l4_def digits_def moves_def)
  have m5: "moves l4 l5" using accept.op_moves [of l4 "''.''"] m4 d by (simp add: moves_def)
  have "moves l5 (scan_mantissa l)" using acceptRun.op_moves [of l5 digits] m5 by (simp add: eq moves_def)
  then show thesis using that [OF l1_def z x digits_def l4_def [folded digits_def] d eq m m2 m3 m4 m5] by blast
qed

interpretation mantissa: cursor scan_mantissa
proof
  fix l :: "('t, 'z) scanner_scheme"
  assume "lx_pos l \<le> length (lx_input l)"
  then show "moves l (scan_mantissa l)"
    by (rule scan_mantissa_steps) (blast intro: moves_trans)
qed

lemma scan_mantissa_progress:
  assumes p: "lx_pos l < length (lx_input l)" "lx_input l ! lx_pos l \<in> set number_start"
  shows "lx_pos l < lx_pos (scan_mantissa l)"
proof -
  let ?c = "lx_input l ! lx_pos l"
  obtain l1 zero l2 x l3 l4 dot l5 digits where s:
    "l1 = snd (accept ''+-'' l)" "accept ''0'' l1 = (zero, l2)"
    "(if zero then accept ''xX'' l2 else (False, l2)) = (x, l3)"
    "digits = (if x then ''0123456789abcdefABCDEF'' else ''0123456789'')"
    "l4 = acceptRun digits l3" "accept ''.'' l4 = (dot, l5)"
    "scan_mantissa l = (if dot then acceptRun digits l5 else l5)"
    "moves l l1" "moves l1 l2" "moves l2 l3" "moves l3 l4" "moves l4 l5" "moves l5 (scan_mantissa l)"
    by (rule scan_mantissa_steps [OF less_imp_le [OF p(1)]])
  have small: "\<forall>c \<in> set digits. byte_val c < 0x80" "?c \<in> set ''123456789'' \<Longrightarrow> ?c \<in> set digits"
    by (auto simp: s(4))
  show ?thesis
  proof (rule ccontr)
    assume "\<not> ?thesis"
    then have same: "lx_pos l1 = lx_pos l" "lx_pos l2 = lx_pos l" "lx_pos l3 = lx_pos l" "lx_pos l4 = lx_pos l"
      "lx_pos l5 = lx_pos l"
      using s(8-) unfolding moves_def by linarith+
    have inp: "lx_input l1 = lx_input l" "lx_input l3 = lx_input l" "lx_input l4 = lx_input l"
      using s(8-) by (simp_all add: moves_def)
    have "?c \<notin> set ''+-''" using accept_at(1) [of l "''+-''"] p same(1) s(1) by auto
    moreover have "?c \<notin> set ''0''" using accept_at(1) [of l1 "''0''"] p same inp s(2) by auto
    moreover have "?c \<notin> set digits" using acceptRun_at [of l3 digits] p same inp small(1) s(5) by auto
    moreover have "?c \<notin> set ''.''" using accept_at(1) [of l4 "''.''"] p same inp s(6) by auto
    ultimately show False using p(2) small(2) by (auto simp: number_start_def)
  qed
qed

lemma scanNumber_moves:
  assumes "lx_pos l \<le> length (lx_input l)"
  shows "moves (scan_mantissa l) (snd (scanNumber env l))"
  using mantissa.op_moves [OF assms] unfolding scanNumber_def Let_def case_prod_beta
  by (auto intro!: accept.op_then acceptRun.op_then peek.op_then moves_refl next_then simp: moves_def [of l])

interpretation number: cursor "\<lambda>l. snd (scanNumber env l)" for env
  by unfold_locales (blast intro: moves_trans mantissa.op_moves scanNumber_moves)

lemma lexText_loop_stops:
  fixes l :: "('t, 'z) scanner_scheme"
  shows "lx_pos l \<le> length (lx_input l) \<Longrightarrow> \<exists>found l'. lexText_loop l = Inr (found, l') \<and> moves l l' \<and>
     (if found then prefix (lx_leftDelim l) (drop (lx_pos l') (lx_input l)) else lx_pos l' = length (lx_input l))"
proof (induction l rule: lexText_loop.induct)
  case (1 l)
  let ?t = "drop (lx_pos l) (lx_input l)"
  have rest: "lex_rest l = Inr ?t" using 1(2) by (simp add: lex_rest_def)
  obtain r l1 where n: "lex_next l = (r, l1)" by fastforce
  have m: "moves l l1" using lex_next_moves(1) [OF 1(2) n] .
  consider "prefix (lx_leftDelim l) ?t" | "\<not> prefix (lx_leftDelim l) ?t" "r = eof"
    | "\<not> prefix (lx_leftDelim l) ?t" "r \<noteq> eof" by blast
  then show ?case
  proof cases
    case 1
    then show ?thesis using rest \<open>lx_pos l \<le> length (lx_input l)\<close> by (subst lexText_loop.simps) (auto simp: moves_refl)
  next
    case 2
    then have "lx_pos l1 = length (lx_input l)"
      using n 1(2) decode_rune_ge0 [of ?t] by (auto simp: lex_next_def eof_def split: if_splits prod.splits)
    then show ?thesis using 2 rest n m by (subst lexText_loop.simps) auto
  next
    case 3
    have "lx_pos l1 \<le> length (lx_input l1)" using m by (simp add: moves_def)
    from 1(1) [OF rest 3(1) n [symmetric] refl 3(2) this] obtain found l' where
      "lexText_loop l1 = Inr (found, l')" "moves l1 l'"
      "if found then prefix (lx_leftDelim l1) (drop (lx_pos l') (lx_input l1)) else lx_pos l' = length (lx_input l1)" by blast
    then show ?thesis using 3 rest n m moves_trans [OF m] by (subst lexText_loop.simps) (auto simp: moves_def [of l l1] split: if_splits)
  qed
qed

lemma lexIdentifier_loop_stops:
  fixes l :: "('t, 'z) scanner_scheme"
  shows "lx_pos l \<le> length (lx_input l) \<Longrightarrow> lx_start l \<le> lx_pos l \<Longrightarrow>
     \<exists>r l'. lexIdentifier_loop env l = Inr (r, l') \<and> moves l l' \<and>
       (isAlphaNumeric env (fst (lex_next l)) \<longrightarrow> lx_pos l < lx_pos l')"
proof (induction env l rule: lexIdentifier_loop.induct)
  case (1 env l)
  obtain r l1 where n: "lex_next l = (r, l1)" by fastforce
  have m: "moves l l1" using lex_next_moves(1) [OF 1(2) n] .
  let ?go = "isAlphaNumeric env r \<or>
    r = 0x2E \<and> lx_start l < length (lx_input l) \<and> lx_input l ! lx_start l \<in> {CHR ''.'', CHR ''$''}"
  show ?case
  proof (cases ?go)
    case True
    then have "r \<noteq> eof" by (auto simp: eof_def isAlphaNumeric_def)
    from lex_next_width(1) [OF n this] have lt: "lx_pos l < lx_pos l1" .
    have "lx_pos l1 \<le> length (lx_input l1)" "lx_start l1 \<le> lx_pos l1" using m 1(3) lt by (simp_all add: moves_def)
    from 1(1) [OF n [symmetric] refl True this] obtain r' l' where
      "lexIdentifier_loop env l1 = Inr (r', l')" "moves l1 l'" by blast
    then show ?thesis
      using True n m lt moves_trans [OF m] by (subst lexIdentifier_loop.simps) (auto simp: moves_def)
  next
    case False
    have "\<not> (r = 0x2E \<and> \<not> lx_start l < length (lx_input l))"
      using lex_next_ascii(1) [OF n] 1(3) by auto
    then show ?thesis
      using False n lex_next_moves(2) [OF 1(2) n] by (subst lexIdentifier_loop.simps) auto
  qed
qed

section \<open>Items and the input\<close>

text \<open>The items cover the input up to a position: each has the text at its position, and between items
  there are only spaces and comments.\<close>

inductive tiles :: "'t set \<Rightarrow> string \<Rightarrow> string \<Rightarrow> string \<Rightarrow> 't scan_item list \<Rightarrow> nat \<Rightarrow> bool" for bad inp left right where
  tiles_start: "tiles bad inp left right [] 0"
| tiles_item: "tiles bad inp left right items i \<Longrightarrow> i < j \<Longrightarrow> j \<le> length inp \<Longrightarrow> t \<notin> bad \<Longrightarrow>
     tiles bad inp left right (items @ [\<lparr>it_typ = t, it_pos = i, it_val = take (j - i) (drop i inp)\<rparr>]) j"
| tiles_space: "tiles bad inp left right items i \<Longrightarrow> i < length inp \<Longrightarrow> isSpace (byte_val (inp ! i)) \<Longrightarrow>
     tiles bad inp left right items (i + 1)"
| tiles_comment: "tiles bad inp left right items i \<Longrightarrow> prefix (left @ leftComment) (drop i inp) \<Longrightarrow>
     i + length left + length leftComment + k + length rightComment + length right \<le> length inp \<Longrightarrow>
     prefix (rightComment @ right) (drop (i + length left + length leftComment + k) inp) \<Longrightarrow>
     tiles bad inp left right items (i + length left + length leftComment + k + length rightComment + length right)"

text \<open>The types no item before the last has.\<close>

definition silent :: "'t kinds \<Rightarrow> 't set" where
  "silent ks = {k_error ks, k_eof ks, k_keyword ks}"

definition lex_inv :: "'t kinds \<Rightarrow> ('t, 'z) scanner_scheme \<Rightarrow> bool" where
  "lex_inv ks l \<longleftrightarrow> lx_start l \<le> lx_pos l \<and> lx_pos l \<le> length (lx_input l) \<and> lx_leftDelim l \<noteq> [] \<and> lx_rightDelim l \<noteq> [] \<and>
     tiles (silent ks) (lx_input l) (lx_leftDelim l) (lx_rightDelim l) (lx_items l) (lx_start l)"

lemma lex_inv_moves: "lex_inv ks l \<Longrightarrow> moves l l' \<Longrightarrow> lex_inv ks l'"
  by (simp add: lex_inv_def moves_def)

lemma emit_inv:
  assumes "lex_inv ks l" "lx_start l < lx_pos l" "t \<notin> silent ks"
  obtains l' where "emit t l = Inr l'" "lex_inv ks l'" "lx_start l' = lx_pos l" "lx_pos l' = lx_pos l"
    "lx_input l' = lx_input l" "lx_leftDelim l' = lx_leftDelim l" "lx_rightDelim l' = lx_rightDelim l"
proof -
  define i where "i = \<lparr>it_typ = t, it_pos = lx_start l, it_val = take (lx_pos l - lx_start l) (drop (lx_start l) (lx_input l))\<rparr>"
  have "emit t l = Inr (l\<lparr>lx_items := lx_items l @ [i], lx_start := lx_pos l\<rparr>)"
    using assms by (simp add: emit_def lex_inv_def i_def)
  moreover have "tiles (silent ks) (lx_input l) (lx_leftDelim l) (lx_rightDelim l) (lx_items l @ [i]) (lx_pos l)"
    using assms unfolding i_def lex_inv_def by (intro tiles_item) auto
  ultimately show thesis
    using that [of "l\<lparr>lx_items := lx_items l @ [i], lx_start := lx_pos l\<rparr>"] assms(1) by (simp add: lex_inv_def)
qed

text \<open>How a scan ends: with the item for the end of the input, or with an error.\<close>

definition finished :: "'t kinds \<Rightarrow> ('t, 'z) scanner_scheme \<Rightarrow> bool" where
  "finished ks l \<longleftrightarrow> (\<exists>items i. lx_items l = items @ [i] \<and>
     tiles (silent ks) (lx_input l) (lx_leftDelim l) (lx_rightDelim l) items (it_pos i) \<and>
     (i = \<lparr>it_typ = k_eof ks, it_pos = length (lx_input l), it_val = []\<rparr> \<or> it_typ i = k_error ks))"

definition same_source :: "('t, 'z) scanner_scheme \<Rightarrow> ('t, 'z) scanner_scheme \<Rightarrow> bool" where
  "same_source l l' \<longleftrightarrow> lx_input l' = lx_input l \<and> lx_leftDelim l' = lx_leftDelim l \<and> lx_rightDelim l' = lx_rightDelim l"

section \<open>States\<close>

fun state_inv :: "lex_env \<Rightarrow> stateFn \<Rightarrow> ('t, 'z) scanner_scheme \<Rightarrow> bool" where
  "state_inv env lexText l \<longleftrightarrow> lx_pos l = lx_start l"
| "state_inv env lexLeftDelim l \<longleftrightarrow> lx_pos l = lx_start l \<and> prefix (lx_leftDelim l) (drop (lx_pos l) (lx_input l))"
| "state_inv env lexComment l \<longleftrightarrow> lx_pos l = lx_start l + length (lx_leftDelim l) \<and>
     prefix (lx_leftDelim l @ leftComment) (drop (lx_start l) (lx_input l))"
| "state_inv env lexRightDelim l \<longleftrightarrow> lx_pos l = lx_start l \<and> prefix (lx_rightDelim l) (drop (lx_pos l) (lx_input l))"
| "state_inv env lexInsideAction l \<longleftrightarrow> lx_pos l = lx_start l"
| "state_inv env lexNumber l \<longleftrightarrow> lx_pos l = lx_start l \<and> lx_pos l < length (lx_input l) \<and>
     lx_input l ! lx_pos l \<in> set number_start"
| "state_inv env lexIdentifier l \<longleftrightarrow> lx_start l < lx_pos l \<or> isAlphaNumeric env (fst (lex_next l))"
| "state_inv env lexChar l \<longleftrightarrow> lx_start l < lx_pos l"
| "state_inv env lexQuote l \<longleftrightarrow> lx_start l < lx_pos l"
| "state_inv env lexRawQuote l \<longleftrightarrow> lx_start l < lx_pos l"

fun fn_rank :: "stateFn \<Rightarrow> nat" where
  "fn_rank lexText = 2"
| "fn_rank lexLeftDelim = 1"
| "fn_rank lexInsideAction = 1"
| "fn_rank _ = 0"

definition lex_measure :: "stateFn \<Rightarrow> ('t, 'z) scanner_scheme \<Rightarrow> nat" where
  "lex_measure st l = 3 * (length (lx_input l) - lx_start l) + fn_rank st"

text \<open>A step from \<open>st\<close> and \<open>l\<close>: it ends the scan or reaches a state whose invariant holds, closer to
  the end.\<close>

definition lex_good ::
  "'t kinds \<Rightarrow> lex_env \<Rightarrow> stateFn \<Rightarrow> ('t, 'z) scanner_scheme \<Rightarrow> (stateFn option \<times> ('t, 'z) scanner_scheme) go \<Rightarrow> bool" where
  "lex_good ks env st l res \<longleftrightarrow> (\<exists>st' l'. res = Inr (st', l') \<and> same_source l l' \<and>
     (case st' of None \<Rightarrow> finished ks l'
      | Some f \<Rightarrow> lex_inv ks l' \<and> state_inv env f l' \<and> lex_measure f l' < lex_measure st l))"

lemma lex_good_error:
  assumes "lex_inv ks l" "same_source l0 l"
  shows "lex_good ks env st l0 (scan_errorf ks msg l)"
  using assms by (auto simp: lex_good_def scan_errorf_def finished_def same_source_def lex_inv_def)

lemma fn_rank_le: "fn_rank st \<le> 2"
  by (cases st) auto

lemma lex_good_advance:
  assumes "lex_inv ks l" "state_inv env f l" "same_source l0 l" "lx_start l0 < lx_start l"
  shows "lex_good ks env st l0 (Inr (Some f, l))"
  using assms fn_rank_le [of f] by (auto simp: lex_good_def lex_measure_def same_source_def lex_inv_def)

lemma lex_good_emit:
  assumes "lex_inv ks l" "lx_start l < lx_pos l" "t \<notin> silent ks" "same_source l0 l"
    "lx_start l0 \<le> lx_start l" "f \<in> {lexText, lexInsideAction}"
  shows "lex_good ks env st l0 (goto f (emit t l))"
proof -
  obtain l' where l': "emit t l = Inr l'" "lex_inv ks l'" "lx_start l' = lx_pos l" "lx_pos l' = lx_pos l"
    "lx_input l' = lx_input l" "lx_leftDelim l' = lx_leftDelim l" "lx_rightDelim l' = lx_rightDelim l"
    using emit_inv [OF assms(1-3)] by blast
  have "lex_good ks env st l0 (Inr (Some f, l'))"
    by (rule lex_good_advance) (use assms l' in \<open>auto simp: same_source_def\<close>)
  then show ?thesis using l'(1) by (simp add: goto_def)
qed

lemma same_source_moves: "moves l l' \<Longrightarrow> same_source l l'"
  by (simp add: moves_def same_source_def)

lemma prefix_drop_le: "prefix p (drop i s) \<Longrightarrow> i \<le> length s \<Longrightarrow> i + length p \<le> length s"
  using prefix_length_le by fastforce

text \<open>The types of the items that the state functions send are not among the silent ones.\<close>

locale item_kinds =
  fixes ks :: "'t kinds"
  assumes sent: "{k_text ks, k_rightDelim ks, k_charConstant ks, k_string ks, k_rawString ks, k_number ks, k_complex ks} \<inter>
    silent ks = {}"
begin

lemma sent_kinds [simp]:
  "k_text ks \<notin> silent ks" "k_rightDelim ks \<notin> silent ks" "k_charConstant ks \<notin> silent ks" "k_string ks \<notin> silent ks"
  "k_rawString ks \<notin> silent ks" "k_number ks \<notin> silent ks" "k_complex ks \<notin> silent ks"
  using sent by auto

lemma lexText_good:
  assumes "lex_inv ks l" "state_inv env lexText l"
  shows "lex_good ks env lexText l (scan_text ks l)"
proof -
  have p: "lx_pos l \<le> length (lx_input l)" "lx_pos l = lx_start l" using assms by (simp_all add: lex_inv_def)
  from lexText_loop_stops [OF p(1)] obtain found l1 where t: "lexText_loop l = Inr (found, l1)" and m: "moves l l1"
    and f: "if found then prefix (lx_leftDelim l) (drop (lx_pos l1) (lx_input l)) else lx_pos l1 = length (lx_input l)" by blast
  have i1: "lex_inv ks l1" using lex_inv_moves [OF assms(1) m] .
  obtain l2 where l2: "(if lx_pos l1 > lx_start l1 then emit (k_text ks) l1 else Inr l1) = Inr l2" "lex_inv ks l2"
    "lx_start l2 = lx_pos l1" "lx_pos l2 = lx_pos l1" "lx_input l2 = lx_input l1" "lx_leftDelim l2 = lx_leftDelim l1"
    "lx_rightDelim l2 = lx_rightDelim l1"
  proof (cases "lx_pos l1 > lx_start l1")
    case True
    then show ?thesis using emit_inv [OF i1 True, of "k_text ks"] that by auto
  next
    case False
    then show ?thesis using that [of l1] i1 by (auto simp: lex_inv_def)
  qed
  have s: "same_source l l2" "lx_start l \<le> lx_start l2" using m l2(3-7) p(2) by (simp_all add: same_source_def moves_def)
  show ?thesis
  proof (cases found)
    case True
    then have "state_inv env lexLeftDelim l2" using f l2 m by (simp add: moves_def)
    moreover have "lex_measure lexLeftDelim l2 < lex_measure lexText l"
      using s by (simp add: lex_measure_def same_source_def)
    ultimately show ?thesis using True t l2(1,2) s by (auto simp: scan_text_def lex_good_def)
  next
    case False
    then have "lx_pos l2 = length (lx_input l2)" "lx_start l2 = length (lx_input l2)" using f l2 m by (simp_all add: moves_def)
    moreover have "tiles (silent ks) (lx_input l2) (lx_leftDelim l2) (lx_rightDelim l2) (lx_items l2) (lx_start l2)"
      using l2(2) by (simp add: lex_inv_def)
    ultimately have "\<exists>l3. emit (k_eof ks) l2 = Inr l3 \<and> finished ks l3 \<and> same_source l l3"
      using s by (auto simp: emit_def finished_def same_source_def)
    then show ?thesis using False t l2(1) by (auto simp: scan_text_def lex_good_def)
  qed
qed

lemma comment_good:
  assumes "lex_inv ks l" "state_inv env lexComment l"
  shows "lex_good ks env lexComment l (scan_comment ks l)"
proof -
  define l1 where "l1 = l\<lparr>lx_pos := lx_pos l + length leftComment\<rparr>"
  have le: "lx_pos l + length leftComment \<le> length (lx_input l)"
    using prefix_drop_le [of "lx_leftDelim l @ leftComment" "lx_start l" "lx_input l"] assms by (auto simp: lex_inv_def)
  have i1: "lex_inv ks l1" "same_source l l1" using assms le by (auto simp: lex_inv_def same_source_def l1_def)
  let ?t = "drop (lx_pos l1) (lx_input l1)"
  have rest: "lex_rest l1 = Inr ?t" using le by (simp add: lex_rest_def l1_def)
  show ?thesis
  proof (cases "index_sub (rightComment @ lx_rightDelim l1) ?t")
    case None
    then show ?thesis using rest lex_good_error [OF i1] by (simp add: scan_comment_def l1_def [symmetric] Let_def)
  next
    case (Some k)
    define l2 where "l2 = l1\<lparr>lx_pos := lx_pos l1 + (k + length rightComment + length (lx_rightDelim l1))\<rparr>"
    have k: "k + length (rightComment @ lx_rightDelim l1) \<le> length ?t" "prefix (rightComment @ lx_rightDelim l1) (drop k ?t)"
      using index_sub_Some [OF Some] by auto
    let ?stop = "lx_start l + length (lx_leftDelim l) + length leftComment + k + length rightComment + length (lx_rightDelim l)"
    have pos: "lx_pos l2 = ?stop" "lx_pos l1 = lx_start l + length (lx_leftDelim l) + length leftComment"
      using assms(2) by (simp_all add: l2_def l1_def)
    have "tiles (silent ks) (lx_input l) (lx_leftDelim l) (lx_rightDelim l) (lx_items l) ?stop"
    proof (rule tiles_comment)
      show "tiles (silent ks) (lx_input l) (lx_leftDelim l) (lx_rightDelim l) (lx_items l) (lx_start l)"
        using assms(1) by (simp add: lex_inv_def)
      show "prefix (lx_leftDelim l @ leftComment) (drop (lx_start l) (lx_input l))" using assms(2) by simp
      show "?stop \<le> length (lx_input l)" using k(1) le pos by (simp add: l1_def)
      show "prefix (rightComment @ lx_rightDelim l)
          (drop (lx_start l + length (lx_leftDelim l) + length leftComment + k) (lx_input l))"
        using k(2) assms(2) by (simp add: l1_def add.commute add.left_commute)
    qed
    moreover have "lx_pos l2 \<le> length (lx_input l2)" using k(1) le by (simp add: l2_def l1_def)
    ultimately have i2: "lex_inv ks (lex_ignore l2)" "same_source l (lex_ignore l2)" "lx_start l < lx_start (lex_ignore l2)"
      using assms pos by (auto simp: lex_inv_def lex_ignore_def l2_def l1_def same_source_def add.assoc)
    have "lex_good ks env lexComment l (Inr (Some lexText, lex_ignore l2))"
      by (rule lex_good_advance) (use i2 in \<open>simp_all add: lex_ignore_def\<close>)
    then show ?thesis using rest Some by (simp add: scan_comment_def l1_def [symmetric] l2_def Let_def)
  qed
qed

lemma right_good:
  assumes "lex_inv ks l" "state_inv env lexRightDelim l"
  shows "lex_good ks env lexRightDelim l (scan_rightDelim ks l)"
proof -
  define l1 where "l1 = l\<lparr>lx_pos := lx_pos l + length (lx_rightDelim l)\<rparr>"
  have le: "lx_pos l + length (lx_rightDelim l) \<le> length (lx_input l)"
    using prefix_drop_le assms by (auto simp: lex_inv_def)
  have "lex_inv ks l1" "same_source l l1" "lx_start l1 < lx_pos l1" "lx_start l1 = lx_start l"
    using assms le by (auto simp: lex_inv_def same_source_def l1_def)
  then show ?thesis unfolding scan_rightDelim_def l1_def [symmetric] by (intro lex_good_emit) auto
qed

lemma identifier_good:
  fixes l :: "('t, 'z) scanner_scheme"
  assumes "lex_inv ks l" "state_inv env lexIdentifier l" "cursor (\<lambda>l. snd (at_term l))"
    "\<And>w. w \<noteq> [] \<Longrightarrow> \<exists>t. type_of w = Inr t \<and> t \<notin> silent ks"
  shows "lex_good ks env lexIdentifier l (scan_identifier ks at_term type_of env l)"
proof -
  have p: "lx_pos l \<le> length (lx_input l)" "lx_start l \<le> lx_pos l" using assms(1) by (simp_all add: lex_inv_def)
  from lexIdentifier_loop_stops [OF this, of env] obtain r l1 where
    t: "lexIdentifier_loop env l = Inr (r, l1)" and m: "moves l l1"
    and pos: "isAlphaNumeric env (fst (lex_next l)) \<longrightarrow> lx_pos l < lx_pos l1" by blast
  have i1: "lex_inv ks l1" "lx_start l1 < lx_pos l1" "lx_start l1 = lx_start l"
    using lex_inv_moves [OF assms(1) m] assms(2) pos p m by (auto simp: moves_def)
  let ?w = "take (lx_pos l1 - lx_start l1) (drop (lx_start l1) (lx_input l1))"
  have w: "slice (lx_input l1) (lx_start l1) (lx_pos l1) = Inr ?w" "?w \<noteq> []"
    using i1 by (auto simp: lex_inv_def)
  obtain ok l2 where a: "at_term l1 = (ok, l2)" by fastforce
  have "moves l1 l2" using cursor.op_moves [OF assms(3), of l1] i1(1) a by (auto simp: lex_inv_def)
  then have i2: "lex_inv ks l2" "same_source l l2" "lx_start l2 < lx_pos l2" "lx_start l2 = lx_start l"
    using lex_inv_moves [OF i1(1)] i1 same_source_moves [OF moves_trans [OF m]] by (auto simp: moves_def)
  obtain ty where ty: "type_of ?w = Inr ty" "ty \<notin> silent ks" using assms(4) [OF w(2)] by blast
  have "lex_good ks env lexIdentifier l (goto lexInsideAction (emit ty l2))"
    using i2 ty(2) by (intro lex_good_emit) auto
  then show ?thesis using t w a ty(1) lex_good_error [OF i2(1,2)] by (simp add: scan_identifier_def)
qed

lemma quoted_good:
  assumes "lex_inv ks l" "lx_start l < lx_pos l" "cursor (\<lambda>l. snd (f l))" "t \<notin> silent ks"
  shows "lex_good ks env st l (let (ok, l) = f l in if ok then goto lexInsideAction (emit t l) else scan_errorf ks msg l)"
proof -
  obtain ok l1 where f: "f l = (ok, l1)" by fastforce
  have m: "moves l l1" using cursor.op_moves [OF assms(3), of l] assms(1) f by (simp add: lex_inv_def)
  have i1: "lex_inv ks l1" "same_source l l1" "lx_start l1 < lx_pos l1" "lx_start l1 = lx_start l"
    using lex_inv_moves [OF assms(1) m] same_source_moves [OF m] assms(2) m by (auto simp: moves_def)
  then show ?thesis using f lex_good_error [OF i1(1,2)] lex_good_emit [OF i1(1,3) assms(4) i1(2)] by simp
qed

lemma char_good:
  "lex_inv ks l \<Longrightarrow> state_inv env lexChar l \<Longrightarrow> lex_good ks env lexChar l (scan_char ks l)"
  using quoted_good [OF _ _ quoted.cursor_axioms, of l "k_charConstant ks"] by (simp add: scan_char_def)

lemma quote_good:
  "lex_inv ks l \<Longrightarrow> state_inv env lexQuote l \<Longrightarrow> lex_good ks env lexQuote l (scan_quote ks l)"
  using quoted_good [OF _ _ quoted.cursor_axioms, of l "k_string ks"] by (simp add: scan_quote_def)

lemma rawQuote_good:
  "lex_inv ks l \<Longrightarrow> state_inv env lexRawQuote l \<Longrightarrow> lex_good ks env lexRawQuote l (scan_rawQuote ks l)"
  using quoted_good [OF _ _ raw.cursor_axioms, of l "k_rawString ks"] by (simp add: scan_rawQuote_def)

lemma number_good:
  assumes "lex_inv ks l" "state_inv env lexNumber l"
  shows "lex_good ks env lexNumber l (scan_number ks env l)"
proof -
  have p: "lx_pos l \<le> length (lx_input l)" "lx_pos l = lx_start l" using assms by (simp_all add: lex_inv_def)
  have moved: "lex_inv ks l' \<and> same_source l l' \<and> lx_start l' = lx_start l \<and> lx_start l' \<le> lx_pos l' \<and> lx_pos l' \<le> length (lx_input l')"
    if "moves l l'" for l'
    using lex_inv_moves [OF assms(1) that] same_source_moves [OF that] that by (auto simp: lex_inv_def moves_def)
  have bad: "lex_good ks env lexNumber l (bad_number ks env l')" if "moves l l'" for l'
    using moved [OF that] lex_good_error [of ks l' l] by (simp add: bad_number_def)
  have emit: "lex_good ks env lexNumber l (goto lexInsideAction (emit t l'))"
    if "moves l l'" "lx_start l' < lx_pos l'" "t \<in> {k_number ks, k_complex ks}" for l' t
    using moved [OF that(1)] that by (intro lex_good_emit) auto
  obtain ok l1 where s1: "scanNumber env l = (ok, l1)" by fastforce
  obtain sign l2 where pk: "lex_peek l1 = (sign, l2)" by fastforce
  obtain ok3 l3 where s3: "scanNumber env l2 = (ok3, l3)" by fastforce
  have m1: "moves l l1" using number.op_moves [OF p(1), of env] s1 by simp
  have m2: "moves l l2" using peek.op_then [OF m1] pk by simp
  have m3: "moves l l3" using number.op_then [OF m2, of env] s3 by simp
  have gt: "lx_start l < lx_pos l1"
    using scan_mantissa_progress [of l] scanNumber_moves [OF p(1), of env] s1 assms(2) p(2) by (auto simp: moves_def)
  moreover have "lx_pos l1 \<le> lx_pos l2" using peek.op_moves [of l1] m1 pk by (simp add: moves_def)
  moreover have "lx_pos l2 \<le> lx_pos l3" using number.op_moves [of l2 env] m2 s3 by (simp add: moves_def)
  ultimately have gt': "lx_start l2 < lx_pos l2" "lx_start l3 < lx_pos l3" using moved [OF m2] moved [OF m3] by simp_all
  show ?thesis
    using bad [OF m1] bad [OF m3] emit [OF m2 gt'(1)] emit [OF m3 gt'(2)] moved [OF m3] gt'(2)
    by (simp add: scan_number_def s1 pk s3)
qed

lemma lex_good_skip:
  assumes "lex_inv ks l" "state_inv env f l" "same_source l0 l" "lx_start l = lx_start l0" "fn_rank f < fn_rank st"
  shows "lex_good ks env st l0 (Inr (Some f, l))"
  using assms by (auto simp: lex_good_def lex_measure_def same_source_def)

lemma isSpace_ascii: "isSpace r \<Longrightarrow> 0 \<le> r \<and> r < 0x80"
  by (auto simp: isSpace_def)

lemma left_facts:
  fixes l :: "('t, 'z) scanner_scheme"
  assumes "lex_inv ks l" "state_inv env lexLeftDelim l"
  defines "l1 \<equiv> l\<lparr>lx_pos := lx_pos l + length (lx_leftDelim l)\<rparr>"
  shows "lex_rest l1 = Inr (drop (lx_pos l1) (lx_input l1))"
    and "prefix leftComment (drop (lx_pos l1) (lx_input l1)) \<Longrightarrow> lex_good ks env lexLeftDelim l (Inr (Some lexComment, l1))"
    and "t \<notin> silent ks \<Longrightarrow> lex_good ks env lexLeftDelim l (goto lexInsideAction (emit t l1))"
proof -
  have le: "lx_pos l + length (lx_leftDelim l) \<le> length (lx_input l)"
    using prefix_drop_le assms by (auto simp: lex_inv_def)
  have i1: "lex_inv ks l1" "same_source l l1" "lx_start l1 < lx_pos l1" "lx_start l1 = lx_start l"
    using assms(1,2) le by (auto simp: lex_inv_def same_source_def l1_def)
  show "lex_rest l1 = Inr (drop (lx_pos l1) (lx_input l1))" using le by (simp add: lex_rest_def l1_def)
  show "lex_good ks env lexLeftDelim l (Inr (Some lexComment, l1))" if "prefix leftComment (drop (lx_pos l1) (lx_input l1))"
  proof -
    from assms(2) obtain u where u: "drop (lx_start l) (lx_input l) = lx_leftDelim l @ u" by (auto simp: prefix_def)
    have "drop (length (lx_leftDelim l)) (drop (lx_start l) (lx_input l)) = u" unfolding u by simp
    then have "u = drop (lx_pos l1) (lx_input l1)" using assms(2) by (simp add: l1_def add.commute)
    then have "state_inv env lexComment l1" using that u assms(2) by (simp add: l1_def)
    then show ?thesis using i1 by (simp add: lex_good_def lex_measure_def l1_def)
  qed
  show "lex_good ks env lexLeftDelim l (goto lexInsideAction (emit t l1))" if "t \<notin> silent ks"
    using lex_good_emit [OF i1(1,3) that i1(2)] i1(4) by simp
qed

text \<open>The ways out of an action state: to a delimiter, past a space, with an item, or to the state of a
  longer item.\<close>

lemma action_states:
  assumes "lex_inv ks l" "state_inv env lexInsideAction l" "lex_next l = (r, l1)"
  shows "lex_rest l = Inr (drop (lx_pos l) (lx_input l))"
    and "prefix (lx_rightDelim l) (drop (lx_pos l) (lx_input l)) \<Longrightarrow>
      lex_good ks env lexInsideAction l (Inr (Some lexRightDelim, l))"
    and "r \<noteq> eof \<Longrightarrow> f \<in> {lexQuote, lexRawQuote, lexIdentifier, lexChar} \<Longrightarrow>
      lex_good ks env lexInsideAction l (Inr (Some f, l1))"
    and "isAlphaNumeric env r \<Longrightarrow> lex_good ks env lexInsideAction l (Inr (Some lexIdentifier, lex_backup l1))"
    and "r = 0x2E \<or> r = 0x2B \<or> r = 0x2D \<or> 0x30 \<le> r \<and> r \<le> 0x39 \<Longrightarrow>
      lex_good ks env lexInsideAction l (Inr (Some lexNumber, lex_backup l1))"
    and "isSpace r \<Longrightarrow> lex_good ks env lexInsideAction l (Inr (Some lexInsideAction, lex_ignore l1))"
proof -
  have p: "lx_pos l \<le> length (lx_input l)" "lx_pos l = lx_start l" using assms by (simp_all add: lex_inv_def)
  show "lex_rest l = Inr (drop (lx_pos l) (lx_input l))" using p by (simp add: lex_rest_def)
  have m1: "moves l l1" using lex_next_moves(1) [OF p(1) assms(3)] .
  have i1: "lex_inv ks l1" "same_source l l1" "lx_start l1 = lx_start l"
    using lex_inv_moves [OF assms(1)] m1 same_source_moves by (auto simp: moves_def)
  note mb = lex_next_moves(2,3) [OF p(1) assms(3)]
  have b: "lex_inv ks (lex_backup l1)" "same_source l (lex_backup l1)" "lx_start (lex_backup l1) = lx_start l"
    "lx_pos (lex_backup l1) = lx_pos l"
    using lex_inv_moves [OF assms(1) mb(1)] same_source_moves [OF mb(1)] mb by (auto simp: moves_def)
  show "lex_good ks env lexInsideAction l (Inr (Some lexRightDelim, l))"
    if "prefix (lx_rightDelim l) (drop (lx_pos l) (lx_input l))"
    by (rule lex_good_skip) (use assms that in \<open>simp_all add: same_source_def\<close>)
  show "lex_good ks env lexInsideAction l (Inr (Some f, l1))"
    if "r \<noteq> eof" "f \<in> {lexQuote, lexRawQuote, lexIdentifier, lexChar}"
    by (rule lex_good_skip) (use i1 lex_next_width(1) [OF assms(3) that(1)] p(2) that(2) in auto)
  show "lex_good ks env lexInsideAction l (Inr (Some lexIdentifier, lex_backup l1))" if "isAlphaNumeric env r"
  proof (rule lex_good_skip)
    have "fst (lex_next (lex_backup l1)) = fst (lex_next l)"
      using b by (simp add: lex_next_def same_source_def split: prod.split)
    then show "state_inv env lexIdentifier (lex_backup l1)" using assms(3) that by simp
  qed (use b in simp_all)
  show "lex_good ks env lexInsideAction l (Inr (Some lexNumber, lex_backup l1))"
    if "r = 0x2E \<or> r = 0x2B \<or> r = 0x2D \<or> 0x30 \<le> r \<and> r \<le> 0x39"
  proof (rule lex_good_skip)
    have r: "0 \<le> r" "r < 0x80" using that by auto
    have "lx_input l ! lx_pos l \<in> set number_start"
    proof -
      have "r \<in> byte_val ` set number_start" using that by (simp add: number_start_def) presburger
      then show ?thesis using lex_next_ascii(2) [OF assms(3) r] by (auto simp: image_iff)
    qed
    then show "state_inv env lexNumber (lex_backup l1)"
      using b p lex_next_ascii(1) [OF assms(3) r] by (simp add: same_source_def)
  qed (use b in simp_all)
  show "lex_good ks env lexInsideAction l (Inr (Some lexInsideAction, lex_ignore l1))" if "isSpace r"
  proof (rule lex_good_advance)
    note a = lex_next_ascii [OF assms(3) conjunct1 [OF isSpace_ascii [OF that]] conjunct2 [OF isSpace_ascii [OF that]]]
    have "tiles (silent ks) (lx_input l) (lx_leftDelim l) (lx_rightDelim l) (lx_items l) (lx_start l + 1)"
      using assms(1) a that p(2) by (intro tiles_space) (auto simp: lex_inv_def)
    then show "lex_inv ks (lex_ignore l1)" using i1(1) m1 a p(2) by (simp add: lex_inv_def lex_ignore_def moves_def)
    show "lx_start l < lx_start (lex_ignore l1)" using a p(2) by (simp add: lex_ignore_def)
  qed (use i1 in \<open>simp_all add: lex_ignore_def same_source_def\<close>)
qed

lemma action_items:
  assumes "lex_inv ks l" "state_inv env lexInsideAction l" "lex_next l = (r, l1)" "moves l1 l2"
  shows "lex_good ks env lexInsideAction l (scan_errorf ks msg l2)"
    and "r \<noteq> eof \<Longrightarrow> t \<notin> silent ks \<Longrightarrow> lex_good ks env lexInsideAction l (goto lexInsideAction (emit t l2))"
proof -
  have p: "lx_pos l \<le> length (lx_input l)" "lx_pos l = lx_start l" using assms by (simp_all add: lex_inv_def)
  have m2: "moves l l2" using moves_trans [OF lex_next_moves(1) [OF p(1) assms(3)] assms(4)] .
  have i2: "lex_inv ks l2" "same_source l l2" "lx_start l2 = lx_start l"
    using lex_inv_moves [OF assms(1) m2] m2 same_source_moves by (auto simp: moves_def)
  show "lex_good ks env lexInsideAction l (scan_errorf ks msg l2)" using lex_good_error i2 by blast
  show "lex_good ks env lexInsideAction l (goto lexInsideAction (emit t l2))" if "r \<noteq> eof" "t \<notin> silent ks"
    using i2 lex_next_width(1) [OF assms(3) that(1)] assms(4) p(2) that(2) by (intro lex_good_emit) (auto simp: moves_def)
qed

end

section \<open>The run\<close>

text \<open>A lexer whose steps are good, run from state to state.\<close>

locale lexer_run =
  fixes ks :: "'t kinds" and env :: lex_env
    and step :: "stateFn \<Rightarrow> ('t, 'z) scanner_scheme \<Rightarrow> (stateFn option \<times> ('t, 'z) scanner_scheme) go"
    and run :: "stateFn option \<Rightarrow> ('t, 'z) scanner_scheme \<Rightarrow> ('t, 'z) scanner_scheme go option"
  assumes step_good: "lex_inv ks l \<Longrightarrow> state_inv env st l \<Longrightarrow> lex_good ks env st l (step st l)"
    and run_None: "run None l = Some (Inr l)"
    and run_Some: "step f l = Inr (st', l') \<Longrightarrow> run (Some f) l = run st' l'"
begin

lemma run_finishes:
  "lex_inv ks l \<Longrightarrow> state_inv env st l \<Longrightarrow>
     \<exists>l'. run (Some st) l = Some (Inr l') \<and> finished ks l' \<and> same_source l l'"
proof (induction "lex_measure st l" arbitrary: st l rule: less_induct)
  case less
  from step_good [OF less.prems] obtain st' l' where
    step: "step st l = Inr (st', l')" "same_source l l'"
    and st': "case st' of None \<Rightarrow> finished ks l'
      | Some f \<Rightarrow> lex_inv ks l' \<and> state_inv env f l' \<and> lex_measure f l' < lex_measure st l"
    by (auto simp: lex_good_def)
  show ?case
  proof (cases st')
    case None
    then show ?thesis using run_Some [OF step(1)] run_None step st' by simp
  next
    case (Some f)
    with st' less.hyps [of f l'] obtain l'' where
      "run (Some f) l' = Some (Inr l'')" "finished ks l''" "same_source l' l''" by auto
    then show ?thesis using Some run_Some [OF step(1)] step by (simp add: same_source_def)
  qed
qed

end

end
