(* ===== verification/Template_Lex_Correct.thy ===== *)
theory Template_Lex_Correct
  imports Template_Lex Template_Scan_Correct
begin

text \<open>
  What the lexer of templates guarantees: the scan ends on every input, without a panic, and the items
  it sends, with the spaces and comments it skips, are the input.
\<close>

section \<open>The states of the lexer\<close>

lemma silent_lex [simp]: "silent lex_kinds = {itemError, itemEOF, itemKeyword}"
  by (simp add: silent_def lex_kinds_def)

interpretation template: item_kinds lex_kinds
  by unfold_locales (simp add: lex_kinds_def silent_def)

interpretation terminator: cursor "\<lambda>l. snd (atTerminator l)"
  by unfold_locales (metis (mono_tags, lifting) peek.op_moves atTerminator_def case_prod_beta snd_conv)

lemma word_type_sent: "w \<noteq> [] \<Longrightarrow> \<exists>t. word_type w = Inr t \<and> t \<notin> {itemError, itemEOF, itemKeyword}"
  by (auto simp: word_type_def key_def split: option.split if_splits)

lemma inside_good:
  assumes "lex_inv lex_kinds l" "state_inv env lexInsideAction l"
  shows "lex_good lex_kinds env lexInsideAction l (do_lexInsideAction env l)"
proof -
  obtain r l1 where n: "lex_next l = (r, l1)" by fastforce
  obtain r2 l2 where n2: "lex_next l1 = (r2, l2)" by fastforce
  have m1: "moves l l1" using lex_next_moves(1) [OF _ n] assms(1) by (simp add: lex_inv_def)
  then have l1: "moves l1 l1" "moves l1 l2" using lex_next_moves(1) [OF _ n2] by (auto simp: moves_def)
  note states = template.action_states [OF assms n]
  note items = template.action_items [OF assms n l1(1)] template.action_items [OF assms n l1(2)]
  show ?thesis
    unfolding do_lexInsideAction_def states(1) bindE_simps n prod.case Let_def n2 lex_errorf_def
    using states(2-) items by (simp split del: if_split) (simp split: if_split)
qed

lemma left_good:
  assumes "lex_inv lex_kinds l" "state_inv env lexLeftDelim l"
  shows "lex_good lex_kinds env lexLeftDelim l (do_lexLeftDelim l)"
  using template.left_facts [OF assms] by (simp add: do_lexLeftDelim_def Let_def)

lemma state_step_good:
  assumes "lex_inv lex_kinds l" "state_inv env st l"
  shows "lex_good lex_kinds env st l (state_step env st l)"
proof (cases st)
  case lexIdentifier
  then show ?thesis
    using assms template.identifier_good [OF assms(1) _ terminator.cursor_axioms] word_type_sent
    by (simp add: do_lexIdentifier_def)
qed (use assms template.lexText_good left_good template.comment_good template.right_good inside_good template.number_good
    template.char_good template.quote_good template.rawQuote_good
    in \<open>simp_all del: state_inv.simps add: do_lexText_def do_lexComment_def do_lexRightDelim_def do_lexNumber_def
      do_lexChar_def do_lexQuote_def do_lexRawQuote_def\<close>)

interpretation template_run: lexer_run lex_kinds env "state_step env" "lex_run env" for env
proof
  show "lex_run env None l = Some (Inr l)" for l by (subst lex_run.simps) simp
  show "state_step env f l = Inr (st', l') \<Longrightarrow> lex_run env (Some f) l = lex_run env st' l'" for f l st' l'
    by (subst lex_run.simps) simp
qed (rule state_step_good)

lemma template_lex_finishes:
  "\<exists>l. template_lex env name inp left right = Some (Inr l) \<and> finished lex_kinds l \<and>
     same_source (new_lexer name inp left right) l"
  unfolding template_lex_def
  by (rule template_run.run_finishes) (simp_all add: lex_inv_def new_lexer_def tiles_start)

text \<open>C16: The lexer of templates returns on every input, without a panic. The items it sends are a cover of the
  input: each has the text at its position, only spaces and comments are left out between them, and the
  last item is the end of the input or an error, and no other item is.\<close>

theorem lex_tiles_input:
  "\<exists>l items i. template_lex env name inp left right = Some (Inr l) \<and> lx_items l = items @ [i] \<and>
     tiles {itemError, itemEOF, itemKeyword} inp (if left = [] then ''{{'' else left) (if right = [] then ''}}'' else right)
       items (it_pos i) \<and>
     (i = \<lparr>it_typ = itemEOF, it_pos = length inp, it_val = []\<rparr> \<or> it_typ i = itemError)"
proof -
  obtain l where l: "template_lex env name inp left right = Some (Inr l)" "finished lex_kinds l"
    "same_source (new_lexer name inp left right) l"
    using template_lex_finishes by blast
  have src: "lx_input l = inp" "lx_leftDelim l = (if left = [] then ''{{'' else left)"
    "lx_rightDelim l = (if right = [] then ''}}'' else right)"
    using l(3) by (simp_all add: same_source_def new_lexer_def)
  from l(2) show ?thesis unfolding finished_def src silent_lex using l(1) by (auto simp: lex_kinds_def)
qed

end
