(* ===== verification/Template_Parse_Correct.thy ===== *)
theory Template_Parse_Correct
  imports Template_Parse Template_Lex_Correct
begin

text \<open>
  The parser of templates answers: with the items of the lexer, every parse returns a tree or an error, and
  the only run-time panic left is the nil dereference in the check of a fill.
\<close>

section \<open>The contract of a parsing step\<close>

text \<open>Fields and character constants are not empty, and the variable \<open>$\<close> is never popped.\<close>

definition item_ok :: "item \<Rightarrow> bool" where
  "item_ok i \<longleftrightarrow> (it_typ i \<in> {itemField, itemCharConstant} \<longrightarrow> it_val i \<noteq> [])"

definition parser_ok :: "parser \<Rightarrow> bool" where
  "parser_ok p \<longleftrightarrow> list_all item_ok (pr_items p) \<and> item_ok (pr_token0 p) \<and> item_ok (pr_token1 p) \<and> pr_vars p \<noteq> []"

fun error_ok :: "perror \<Rightarrow> bool" where
  "error_ok (Errorf line fmt args) \<longleftrightarrow> True"
| "error_ok (PlainError fmt args) \<longleftrightarrow> True"
| "error_ok (Panic e) \<longleftrightarrow> e = NilDereference"
| "error_ok OutOfFuel \<longleftrightarrow> False"

text \<open>After a step at most \<open>n\<close> items remain and at least \<open>k\<close> variables are defined.\<close>

definition good_result :: "nat \<Rightarrow> nat \<Rightarrow> 'a parsed \<Rightarrow> bool" where
  "good_result n k r \<longleftrightarrow> (case r of
     Inl e \<Rightarrow> error_ok e
   | Inr (a, p) \<Rightarrow> parser_ok p \<and> remaining p \<le> n \<and> k \<le> length (pr_vars p))"

named_theorems parse_good

lemma good_Inl [parse_good]: "error_ok e \<Longrightarrow> good_result n k (Inl e)"
  by (simp add: good_result_def)

lemma good_Inr: "parser_ok p \<Longrightarrow> remaining p \<le> n \<Longrightarrow> k \<le> length (pr_vars p) \<Longrightarrow> good_result n k (Inr (a, p))"
  by (simp add: good_result_def)

lemma good_weaken: "good_result n k r \<Longrightarrow> n \<le> n' \<Longrightarrow> k' \<le> k \<Longrightarrow> good_result n' k' r"
  by (auto simp: good_result_def split: sum.splits)

lemma good_bind:
  assumes "good_result n k m"
    and "\<And>a p. m = Inr (a, p) \<Longrightarrow> parser_ok p \<Longrightarrow> remaining p \<le> n \<Longrightarrow> k \<le> length (pr_vars p) \<Longrightarrow> good_result n k (f (a, p))"
  shows "good_result n k (bindE m f)"
  using assms by (cases m) (auto simp: good_result_def)

lemma error_ok_at [simp]: "error_ok (errorf_at fmt args p)" "error_ok (unexpected env t ctx p)"
  by (simp_all add: errorf_at_def unexpected_def)

text \<open>A step that is good while fewer than \<open>bound\<close> items remain.\<close>

locale parse_step =
  fixes step :: "parser \<Rightarrow> 'a parsed" and bound :: nat
  assumes good: "parser_ok p \<Longrightarrow> remaining p < bound \<Longrightarrow> good_result (remaining p) (length (pr_vars p)) (step p)"
begin

lemma step_within:
  "parser_ok p \<Longrightarrow> remaining p < bound \<Longrightarrow> remaining p \<le> n \<Longrightarrow> k \<le> length (pr_vars p) \<Longrightarrow> good_result n k (step p)"
  using good good_weaken by blast

lemma then_step:
  assumes "good_result n k m" "n < bound"
    and "\<And>a b p. parser_ok p \<Longrightarrow> remaining p \<le> n \<Longrightarrow> k \<le> length (pr_vars p) \<Longrightarrow> good_result n k (f a (b, p))"
  shows "good_result n k (bindE m (\<lambda>(a, p). bindE (step p) (f a)))"
  using assms by (intro good_bind) (auto intro!: good_bind step_within)

end

section \<open>Tokens\<close>

lemma item_ok_eof [simp]: "item_ok \<lparr>it_typ = itemEOF, it_pos = i, it_val = v\<rparr>"
  by (simp add: item_ok_def)

lemma token_at_ok: "parser_ok p \<Longrightarrow> item_ok (token_at k p)"
  by (simp add: parser_ok_def token_at_def)

lemma next_token_ok:
  assumes ok: "parser_ok p" and n: "next_token p = (t, p')"
  shows "parser_ok p'" "item_ok t" "pr_vars p' = pr_vars p"
proof -
  have "parser_ok p' \<and> pr_vars p' = pr_vars p \<and> t = token_at (pr_peekCount p') p'"
  proof (cases "pr_peekCount p > 0")
    case True
    then have "p' = p\<lparr>pr_peekCount := pr_peekCount p - 1\<rparr>" "t = token_at (pr_peekCount p') p'"
      using n by (auto simp: next_token_def Let_def)
    then show ?thesis using ok by (simp add: parser_ok_def)
  next
    case False
    then show ?thesis
      using n ok by (cases "pr_items p") (auto simp: next_token_def nextItem_def parser_ok_def Let_def)
  qed
  then show "parser_ok p'" "item_ok t" "pr_vars p' = pr_vars p" using token_at_ok by auto
qed

lemma peek_token_ok:
  assumes ok: "parser_ok p" and n: "peek_token p = (t, p')"
  shows "parser_ok p'" "item_ok t" "pr_vars p' = pr_vars p" "remaining p' \<le> remaining p"
    "next_token p' = (t, p'\<lparr>pr_peekCount := pr_peekCount p' - 1\<rparr>)" "0 < pr_peekCount p'"
proof -
  have "parser_ok p' \<and> pr_vars p' = pr_vars p \<and> t = token_at (pr_peekCount p' - 1) p' \<and> 0 < pr_peekCount p' \<and>
    remaining p' \<le> remaining p"
  proof (cases "pr_peekCount p > 0")
    case True
    then show ?thesis using n ok by (auto simp: peek_token_def)
  next
    case False
    then show ?thesis
      using n ok
      by (cases "pr_items p") (auto simp: peek_token_def nextItem_def parser_ok_def token_at_def remaining_def)
  qed
  then show "parser_ok p'" "item_ok t" "pr_vars p' = pr_vars p" "remaining p' \<le> remaining p"
    "next_token p' = (t, p'\<lparr>pr_peekCount := pr_peekCount p' - 1\<rparr>)" "0 < pr_peekCount p'"
    using token_at_ok by (auto simp: next_token_def Let_def)
qed

lemma parser_ok_update [simp]:
  "parser_ok (p\<lparr>pr_peekCount := c\<rparr>) = parser_ok p" "parser_ok (p\<lparr>pr_tree := t\<rparr>) = parser_ok p"
  "parser_ok (backup p) = parser_ok p"
  "remaining (p\<lparr>pr_tree := t\<rparr>) = remaining p" "remaining (p\<lparr>pr_vars := vs\<rparr>) = remaining p"
  "pr_vars (backup p) = pr_vars p"
  by (simp_all add: parser_ok_def backup_def remaining_def)

interpretation expect: parse_step "expect env t ctx" bound for env t ctx bound
proof
  fix p
  assume "parser_ok p"
  then show "good_result (remaining p) (length (pr_vars p)) (expect env t ctx p)"
    using next_token_ok [of p] next_token_le [of p]
    by (cases "next_token p") (auto simp: expect_def good_result_def)
qed

interpretation expectOneOf: parse_step "expectOneOf env t1 t2 ctx" bound for env t1 t2 ctx bound
proof
  fix p
  assume "parser_ok p"
  then show "good_result (remaining p) (length (pr_vars p)) (expectOneOf env t1 t2 ctx p)"
    using next_token_ok [of p] next_token_le [of p]
    by (cases "next_token p") (auto simp: expectOneOf_def good_result_def)
qed

interpretation unquoted: parse_step "unquoted env s" bound for env s bound
  by unfold_locales (auto simp: unquoted_def good_result_def split: option.split)

section \<open>Commands and pipelines\<close>

lemma newNumber_returns:
  assumes "ty = itemCharConstant \<longrightarrow> t \<noteq> []"
  shows "\<exists>r. newNumber env t ty = Inr r"
proof (cases "ty = itemCharConstant")
  case True
  then show ?thesis using assms by (simp add: newNumber_def newNumber_char_def)
next
  case False
  then show ?thesis by (simp add: newNumber_def Let_def)
qed

lemma argument_good:
  assumes "item_ok t" "parser_ok p" "remaining p \<le> n" "k \<le> length (pr_vars p)"
  shows "good_result n k (argument env t p)"
proof -
  have num: "good_result n k (bindE (lift_go (newNumber (pe_num env) (it_val t) ty) p) (\<lambda>(r, p). case r of
      Inl (fmt, args) \<Rightarrow> Inl (errorf_at fmt args p) | Inr m \<Rightarrow> Inr (NumberArg m, p)))" if "ty = it_typ t" for ty
  proof -
    have "ty = itemCharConstant \<longrightarrow> it_val t \<noteq> []" using assms(1) that by (auto simp: item_ok_def)
    from newNumber_returns [OF this] obtain r where "newNumber (pe_num env) (it_val t) ty = Inr r" by blast
    then show ?thesis using assms(2-) by (auto simp: lift_go_def good_result_def split: sum.split)
  qed
  have str: "good_result n k (bindE (unquoted env (it_val t) p) (\<lambda>(s, p). Inr (StringNode (it_val t) s, p)))"
    using assms(2-) by (auto simp: unquoted_def good_result_def split: option.split)
  have fld: "good_result n k (lift_go (newField (it_val t)) p)" if "it_typ t = itemField"
    using that assms by (cases "it_val t") (auto simp: item_ok_def newField_def lift_go_def good_result_def)
  show ?thesis
    using num [OF refl] str fld assms(2-)
    by (cases "it_typ t") (simp_all add: argument_def good_result_def useVar_def Let_def)
qed

interpretation command_loop: parse_step "command_loop env cmd" bound for env cmd bound
proof
  fix p
  show "parser_ok p \<Longrightarrow> good_result (remaining p) (length (pr_vars p)) (command_loop env cmd p)"
  proof (induction env cmd p rule: command_loop.induct)
    case (1 env cmd p)
    obtain t p1 where n: "next_token p = (t, p1)" by fastforce
    note ok = next_token_ok [OF 1(2) n]
    have arg: "good_result (remaining p) (length (pr_vars p)) (case argument env t p1 of Inl e \<Rightarrow> Inl e
        | Inr r \<Rightarrow> command_loop env (cmd @ [fst r]) (snd r))"
      if t: "it_typ t \<noteq> itemRightDelim" "it_typ t \<noteq> itemPipe"
    proof (cases "argument env t p1")
      case (Inl e)
      then show ?thesis
        using argument_good [OF ok(2,1) order_refl order_refl, of env] by (simp add: good_result_def)
    next
      case (Inr r)
      have "snd r = p1" using argument_remaining [of env t p1 "fst r" "snd r"] Inr by simp
      then have "good_result (remaining p1) (length (pr_vars p1)) (command_loop env (cmd @ [fst r]) (snd r))"
        using 1(1) [OF n [symmetric] refl t Inr] ok(1) by simp
      then show ?thesis using Inr next_token_le [OF n] ok(3) by (auto intro: good_weaken)
    qed
    then show ?case
      using ok n next_token_le [OF n] next_token_less [OF n] backup_next(2) [OF n]
      by (subst command_loop.simps) (auto simp: good_result_def)
  qed
qed

interpretation command: parse_step "command env" bound for env bound
  unfolding command_def
  by unfold_locales (auto intro!: good_bind command_loop.good good_Inr parse_good)

lemma backup2_remaining:
  assumes "peek_token p = (v, p1)" "it_typ v = itemVariable" "next_token p1 = (v, p2)" "peek_token p2 = (nx, p3)"
  shows "remaining (backup2 v p3) \<le> remaining p"
proof -
  have c: "0 < pr_peekCount p1" "v = token_at (pr_peekCount p1 - 1) p1" "remaining p1 \<le> remaining p"
    using assms(1) by (auto simp: peek_token_def nextItem_def remaining_def token_at_def split: if_splits list.splits)
  have p2: "p2 = p1\<lparr>pr_peekCount := pr_peekCount p1 - 1\<rparr>" using assms(3) c(1) by (simp add: next_token_def Let_def)
  show ?thesis
  proof (cases "pr_peekCount p1 = 1")
    case True
    then have "v = pr_token0 p1" "pr_peekCount p2 = 0" "pr_items p2 = pr_items p1" using c(2) p2 by (simp_all add: token_at_def)
    then have "remaining (backup2 v p3) \<le> 1 + length (pr_items p1)"
      using assms(2,4)
      by (auto simp: peek_token_def nextItem_def backup2_def remaining_def token_at_def upt_rec split: list.splits)
    then show ?thesis using True c assms(2) by (simp add: remaining_def)
  next
    case False
    then obtain k where k: "pr_peekCount p1 = Suc (Suc k)" using c(1) by (metis One_nat_def Suc_pred neq0_conv)
    then have "v = pr_token1 p1" "p3 = p2" using c(2) p2 assms(4) by (simp_all add: token_at_def peek_token_def)
    moreover have "filter (\<lambda>j. it_typ (token_at j p1) \<noteq> itemEOF) [1..<Suc (Suc k)] = [1..<Suc (Suc k)]"
      using calculation assms(2) by (intro filter_True) (auto simp: token_at_def)
    moreover have "[0..<Suc (Suc k)] = 0 # [1..<Suc (Suc k)]" "[0..<2] = [0, 1]" by (simp_all add: upt_conv_Cons del: upt_Suc)
    ultimately have "remaining (backup2 v p3) \<le> remaining p1"
      using k p2 assms(2) by (simp add: backup2_def remaining_def token_at_def del: upt_Suc)
    then show ?thesis using c(3) by simp
  qed
qed

lemma declarations_good:
  "parser_ok p \<Longrightarrow> 2 \<le> length decl + k \<Longrightarrow> good_result (remaining p) (length (pr_vars p)) (declarations k ctx decl p)"
proof (induction k arbitrary: decl p rule: less_induct)
  case (less k)
  obtain v p1 where v: "peek_token p = (v, p1)" by fastforce
  note ok1 = peek_token_ok [OF less.prems(1) v]
  obtain p2 where n2: "next_token p1 = (v, p2)" using ok1(5) by simp
  note ok2 = next_token_ok [OF ok1(1) n2] next_token_le [OF n2]
  obtain nx p3 where nx: "peek_token p2 = (nx, p3)" by fastforce
  note ok3 = peek_token_ok [OF ok2(1) nx]
  obtain p4 where n4: "next_token p3 = (nx, p4)" using ok3(5) by simp
  note ok4 = next_token_ok [OF ok3(1) n4] next_token_le [OF n4]
  let ?var = "newVariable (it_val v)"
  let ?p5 = "p4\<lparr>pr_vars := pr_vars p4 @ [it_val v]\<rparr>"
  let ?comma = "it_typ nx = itemChar \<and> it_val nx = '','' "
  have eq: "declarations k ctx decl p =
      (if it_typ v \<noteq> itemVariable then Inr (decl, p1)
       else if it_typ nx = itemColonEquals \<or> ?comma
       then if length ?var \<noteq> 1 then Inl (errorf_at ''illegal variable in declaration: %s'' [it_val v] p4)
            else if ?comma
            then if ctx = ''range'' \<and> length (decl @ [?var]) < 2
                 then (case k of 0 \<Rightarrow> Inl OutOfFuel | Suc k \<Rightarrow> declarations k ctx (decl @ [?var]) ?p5)
                 else Inl (errorf_at ''too many declarations in %s'' [ctx] ?p5)
            else Inr (decl @ [?var], ?p5)
       else Inr (decl, backup2 v p3))"
    by (subst declarations.simps) (cases k; simp add: v n2 nx n4 Let_def cong: if_cong)
  have p5: "parser_ok ?p5" "remaining ?p5 \<le> remaining p" "length (pr_vars p) \<le> length (pr_vars ?p5)"
    using ok1 ok2 ok3 ok4 by (simp_all add: parser_ok_def)
  have rec: "good_result (remaining p) (length (pr_vars p))
      (case k of 0 \<Rightarrow> Inl OutOfFuel | Suc k \<Rightarrow> declarations k ctx (decl @ [?var]) ?p5)"
    if short: "length (decl @ [?var]) < 2"
  proof -
    obtain k' where k: "k = Suc k'" "2 \<le> length (decl @ [?var]) + k'" using short less.prems(2) by (cases k) auto
    have "good_result (remaining ?p5) (length (pr_vars ?p5)) (declarations k' ctx (decl @ [?var]) ?p5)"
      by (rule less.IH) (use k p5(1) in auto)
    then show ?thesis using k(1) good_weaken [OF _ p5(2,3)] by simp
  qed
  have pushed: "parser_ok (backup2 v p3)" "pr_vars (backup2 v p3) = pr_vars p"
    using ok1 ok2 ok3 by (simp_all add: backup2_def parser_ok_def)
  show ?case
    unfolding eq using rec p5 ok1 pushed backup2_remaining [OF v _ n2 nx]
    by (auto intro: good_Inr parse_good)
qed

lemma pipeline_loop_good:
  "parser_ok p \<Longrightarrow> good_result (remaining p) (length (pr_vars p)) (pipeline_loop env ctx pipe p)"
proof (induction env ctx pipe p rule: pipeline_loop.induct)
  case (1 env ctx pipe p)
  obtain t p1 where n: "next_token p = (t, p1)" by fastforce
  note ok = next_token_ok [OF 1(2) n]
  have cmd: "good_result (remaining p) (length (pr_vars p)) (command env (backup p1))"
    using command.step_within [of "backup p1" "Suc (remaining (backup p1))"] ok backup_next(2) [OF n] by simp
  have "good_result (remaining p) (length (pr_vars p)) (case command env (backup p1) of Inl e \<Rightarrow> Inl e
      | Inr r \<Rightarrow> pipeline_loop env ctx (PipeNode_append pipe (fst r)) (snd r))"
    if t: "it_typ t \<noteq> itemRightDelim" "starts_command (it_typ t)"
  proof (cases "command env (backup p1)")
    case (Inl e)
    then show ?thesis using cmd by (simp add: good_result_def)
  next
    case (Inr r)
    then have r: "parser_ok (snd r)" "remaining (snd r) \<le> remaining p" "length (pr_vars p) \<le> length (pr_vars (snd r))"
      using cmd by (auto simp: good_result_def split: prod.splits)
    then show ?thesis using Inr 1(1) [OF n [symmetric] refl t Inr r(1)] good_weaken [OF _ r(2,3)] by simp
  qed
  then show ?case
    using ok n next_token_le [OF n] by (subst pipeline_loop.simps) (auto simp: good_result_def)
qed

interpretation pipeline: parse_step "pipeline env ctx" bound for env ctx bound
proof
  fix p
  assume "parser_ok p"
  then show "good_result (remaining p) (length (pr_vars p)) (pipeline env ctx p)"
    unfolding pipeline_def using declarations_good [of p "[]" 2 ctx]
    by (intro good_bind) (auto intro: good_weaken [OF pipeline_loop_good])
qed

interpretation optional_pipeline: parse_step "optional_pipeline env ctx" bound for env ctx bound
proof
  fix p
  assume ok: "parser_ok p"
  obtain t p1 where n: "next_token p = (t, p1)" by fastforce
  note ok1 = next_token_ok [OF ok n] next_token_le [OF n] backup_next(2) [OF n]
  have "good_result (remaining p) (length (pr_vars p)) (pipeline env ctx (backup p1))"
    using pipeline.step_within [of "backup p1" "Suc (remaining (backup p1))"] ok1 by simp
  then show "good_result (remaining p) (length (pr_vars p)) (optional_pipeline env ctx p)"
    using n ok1 by (auto simp: optional_pipeline_def intro!: good_bind good_Inr)
qed

section \<open>Controls\<close>

lemma popVars_good:
  "parser_ok p \<Longrightarrow> remaining p \<le> n \<Longrightarrow> 0 < k \<Longrightarrow> k \<le> length (pr_vars p) \<Longrightarrow> good_result n k (popVars k p)"
  by (auto simp: popVars_def good_result_def parser_ok_def)

lemma validate_panics: "validate ns = Inl (FillPanic e) \<Longrightarrow> e = NilDereference"
  and isValid_panics: "isValid n = Inl (FillPanic e) \<Longrightarrow> e = NilDereference"
proof (induction ns and n rule: validate_isValid.induct)
  case (2 n ns)
  then show ?case by (cases "isValid n") (auto split: if_splits)
next
  case (4 ns)
  then show ?case by (cases "validate ns") auto
next
  case (5 b line p ns)
  then show ?case by (cases "validate ns") auto
next
  case (6 b line p ns es)
  then show ?case by (cases "validate ns"; cases "validate es") auto
qed auto

text \<open>The controls rely on the contract of \<open>itemList\<close>.\<close>

locale control = parse_step il bound for il :: item_list and bound :: nat
begin

lemma parseControl_good:
  assumes "parser_ok p" "remaining p < bound"
  shows "good_result (remaining p) (length (pr_vars p)) (parseControl env il b p)"
proof -
  have "0 < length (pr_vars p)" using assms(1) by (simp add: parser_ok_def)
  then show ?thesis
    unfolding parseControl_def Let_def using assms
    by (auto intro!: good_bind pipeline.good step_within popVars_good good_Inr parse_good simp: is_else_def)
qed

lemma blockOrFill_good:
  assumes "parser_ok p" "remaining p < bound"
  shows "good_result (remaining p) (length (pr_vars p)) (blockOrFill env il ctx p)"
  unfolding blockOrFill_def Let_def using assms
  by (auto intro!: good_bind expectOneOf.good unquoted.step_within optional_pipeline.step_within step_within good_Inr parse_good)

lemma fillControl_good:
  assumes "parser_ok p" "remaining p < bound"
  shows "good_result (remaining p) (length (pr_vars p)) (fillControl env il p)"
  unfolding fillControl_def
proof (rule good_bind [OF blockOrFill_good [OF assms]], goal_cases)
  case (1 a p1)
  obtain line name pipe ns where a: "a = (line, name, pipe, ns)" using prod_cases4 by blast
  have "good_result n k (case validate ns of
      Inl (InvalidAction n) \<Rightarrow>
        Inl (PlainError ''invalid action inside <fill>: %s'' [tnode_String (fmt_q (pe_lex env)) n])
    | Inl (FillPanic e) \<Rightarrow> Inl (Panic e)
    | Inr _ \<Rightarrow> Inr (FillNode line name pipe ns, p1))" if "remaining p1 \<le> n" "k \<le> length (pr_vars p1)" for n k
  proof (cases "validate ns")
    case (Inl e)
    then show ?thesis using validate_panics by (cases e) (auto simp: good_result_def)
  next
    case (Inr u)
    then show ?thesis using that 1 by (simp add: good_result_def)
  qed
  then show ?case using 1 by (simp add: a)
qed

lemma blockControl_good:
  assumes "parser_ok p" "remaining p < bound"
  shows "good_result (remaining p) (length (pr_vars p)) (blockControl env il p)"
  unfolding blockControl_def using blockOrFill_good [OF assms] by (intro good_bind) (auto intro: good_Inr)

lemma templateControl_good:
  assumes "parser_ok p" "remaining p \<le> n" "k \<le> length (pr_vars p)"
  shows "good_result n k (templateControl env p)"
proof -
  obtain t p1 where nx: "next_token p = (t, p1)" by fastforce
  note ok1 = next_token_ok [OF assms(1) nx] next_token_le [OF nx]
  have p1: "remaining p1 \<le> n" "k \<le> length (pr_vars p1)" using assms ok1 by simp_all
  have "good_result n k (unquoted env (it_val t) p1)"
    using unquoted.step_within [of p1 "Suc (remaining p1)"] ok1(1) p1 by simp
  then have first: "good_result n k (if it_typ t = itemString \<or> it_typ t = itemRawString then unquoted env (it_val t) p1
      else Inl (unexpected env t ''template invocation'' p1))" by (simp add: good_Inl)
  show ?thesis
    unfolding templateControl_def nx Let_def prod.case
    by (rule good_bind [OF first])
      (auto intro!: good_bind optional_pipeline.step_within [of _ "Suc n"] good_Inr)
qed

lemma end_else_good:
  assumes "parser_ok p" "remaining p \<le> n" "k \<le> length (pr_vars p)"
  shows "good_result n k (endControl env p)" "good_result n k (elseControl env p)"
  unfolding endControl_def elseControl_def using assms
  by (auto intro!: good_bind expect.step_within [of p "Suc n"] good_Inr)

lemma action_good:
  assumes "parser_ok p" "remaining p < bound"
  shows "good_result (remaining p) (length (pr_vars p)) (action env il p)"
proof -
  obtain t p1 where nx: "next_token p = (t, p1)" by fastforce
  note ok1 = next_token_ok [OF assms(1) nx] next_token_le [OF nx] backup_next(2) [OF nx]
  have within: "good_result (remaining p1) (length (pr_vars p1)) r \<Longrightarrow> good_result (remaining p) (length (pr_vars p)) r"
    for r :: "node parsed"
    by (erule good_weaken [OF _ ok1(4)]) (simp add: ok1(3))
  have lt: "remaining p1 < bound" using ok1(4) assms(2) by simp
  have cmd: "good_result (remaining p) (length (pr_vars p)) (bindE (pipeline env ''command'' (backup p1))
      (\<lambda>(pipe, p). Inr (ActionNode (lineNumber (backup p1)) pipe, p)))"
    using ok1 pipeline.step_within [of "backup p1" "Suc (remaining p)"] by (intro good_bind) (auto intro: good_Inr)
  note good = within [OF parseControl_good [OF ok1(1) lt]] within [OF blockControl_good [OF ok1(1) lt]]
    within [OF fillControl_good [OF ok1(1) lt]] templateControl_good [OF ok1(1,4)] end_else_good [OF ok1(1,4)]
  show ?thesis
    unfolding action_def nx Let_def prod.case
    using good ok1(3) cmd by (cases "it_typ t") simp_all
qed

lemma textOrAction_good:
  assumes "parser_ok p" "remaining p \<le> bound" "next_token p = (t, p1)" "it_typ t \<noteq> itemEOF"
  shows "good_result (remaining p - 1) (length (pr_vars p)) (textOrAction env il p)"
proof -
  note ok1 = next_token_ok [OF assms(1,3)]
  have lt: "remaining p1 < remaining p" using next_token_less [OF assms(3,4)] .
  have "good_result (remaining p - 1) (length (pr_vars p)) (action env il p1)"
    by (rule good_weaken [OF action_good [OF ok1(1)]]) (use lt assms(2) ok1(3) in auto)
  then show ?thesis
    unfolding textOrAction_def assms(3) Let_def prod.case
    using ok1 lt by (cases "it_typ t") (simp_all add: good_result_def)
qed

end

section \<open>Lists and definitions\<close>

lemma itemList_good:
  "parser_ok p \<Longrightarrow> remaining p < f \<Longrightarrow> good_result (remaining p) (length (pr_vars p)) (itemList env f ns p)"
proof (induction f arbitrary: ns p)
  case (Suc f)
  have il: "control (itemList env f []) f"
    by unfold_locales (rule Suc.IH)
  obtain t p1 where pk: "peek_token p = (t, p1)" by fastforce
  note ok1 = peek_token_ok [OF Suc.prems(1) pk]
  show ?case
  proof (cases "it_typ t = itemEOF")
    case True
    then show ?thesis using pk by (simp add: good_result_def)
  next
    case False
    let ?step = "textOrAction env (itemList env f []) p1"
    have r: "remaining p1 \<le> f" using ok1(4) Suc.prems(2) by simp
    have step: "good_result (remaining p1 - 1) (length (pr_vars p1)) ?step"
      by (rule control.textOrAction_good [OF il ok1(1) r ok1(5) False])
    have pos: "0 < remaining p1" using next_token_less [OF ok1(5) False] by simp
    have "good_result (remaining p1 - 1) (length (pr_vars p1)) (bindE ?step (\<lambda>(n, p).
        if is_end n \<or> is_else n then Inr ((ns, n), p) else itemList env f (ns @ [n]) p))"
    proof (rule good_bind [OF step])
      fix n p2
      assume p2: "parser_ok p2" "remaining p2 \<le> remaining p1 - 1" "length (pr_vars p1) \<le> length (pr_vars p2)"
      have "good_result (remaining p2) (length (pr_vars p2)) (itemList env f (ns @ [n]) p2)"
        using Suc.IH [OF p2(1)] p2(2) pos r by simp
      then show "good_result (remaining p1 - 1) (length (pr_vars p1)) ((\<lambda>(n, p).
          if is_end n \<or> is_else n then Inr ((ns, n), p) else itemList env f (ns @ [n]) p) (n, p2))"
        using p2 by (auto intro: good_Inr good_weaken)
    qed
    then show ?thesis using pk False ok1(3,4) by (auto intro: good_weaken)
  qed
qed simp

interpretation item_list: control "itemList env f []" f for env f
  by unfold_locales (rule itemList_good)

lemma parseDefinition_good:
  assumes "parser_ok p" "remaining p < f"
  shows "good_result (remaining p) 1 (parseDefinition env f p)"
  unfolding parseDefinition_def Let_def using assms
  by (auto intro!: good_bind expectOneOf.step_within unquoted.step_within expect.step_within item_list.step_within
      popVars_good good_Inr parse_good simp: parser_ok_def Suc_le_eq)

lemma parse_loop_good: "parser_ok p \<Longrightarrow> remaining p < f \<Longrightarrow> good_result (remaining p) 1 (parse_loop env f p)"
proof (induction f arbitrary: p)
  case (Suc f)
  obtain t p1 where n: "next_token p = (t, p1)" by fastforce
  note ok1 = next_token_ok [OF Suc.prems(1) n] next_token_le [OF n]
  show ?case
  proof (cases "it_typ t = itemEOF")
    case True
    then show ?thesis using n ok1 Suc.prems by (auto simp: parser_ok_def Suc_le_eq intro!: good_Inr)
  next
    case False
    have lt: "remaining p1 < f" using next_token_less [OF n False] Suc.prems(2) by simp
    have rec: "good_result (remaining p1) 1 (parse_loop env f p2)" if "parser_ok p2" "remaining p2 \<le> remaining p1" for p2
      using good_weaken [OF Suc.IH [OF that(1)] that(2)] that(2) lt by simp
    have loop: "good_result (remaining p1) 1 (case Tree_Add (pr_tree p2) d of
        Inl (fmt, args) \<Rightarrow> Inl (errorf_at fmt args p2)
      | Inr tree \<Rightarrow> parse_loop env f (p2\<lparr>pr_tree := tree\<rparr>))" if "parser_ok p2" "remaining p2 \<le> remaining p1" for p2 d
      using rec [of "p2\<lparr>pr_tree := _\<rparr>"] that by (auto intro: parse_good split: sum.split)
    have "good_result (remaining p1) 1 (bindE (expect env itemDefine ''template root'' p1) (\<lambda>(_, p).
        bindE (parseDefinition env f p) (\<lambda>(d, p). case Tree_Add (pr_tree p) d of
          Inl (fmt, args) \<Rightarrow> Inl (errorf_at fmt args p)
        | Inr tree \<Rightarrow> parse_loop env f (p\<lparr>pr_tree := tree\<rparr>))))"
      using ok1 lt loop
      by (auto intro!: good_bind expect.step_within good_weaken [OF parseDefinition_good] simp: parser_ok_def Suc_le_eq)
    then show ?thesis
      using n False rec [OF ok1(1) order_refl] good_weaken [OF _ ok1(4)] by (auto intro: good_weaken)
  qed
qed simp

lemma tiles_items_ok: "tiles bad inp left right items i \<Longrightarrow> list_all item_ok items"
  by (induction rule: tiles.induct) (auto simp: item_ok_def)

text \<open>C15: Parsing a template answers on every text: with a tree, or with an error that is returned. The only
  run-time panic is the nil dereference in the check of a fill that holds a branch without an else list.\<close>

theorem template_Parse_answers:
  "\<exists>r. template_Parse env txt left right = Some r \<and>
     (case r of Inr tree \<Rightarrow> True | Inl e \<Rightarrow> (\<exists>line fmt args. e = Errorf line fmt args) \<or>
        (\<exists>fmt args. e = PlainError fmt args) \<or> e = Panic NilDereference)"
proof -
  obtain l where l: "template_lex (pe_lex env) [] txt left right = Some (Inr l)" "finished lex_kinds l"
    using template_lex_finishes by blast
  have "list_all item_ok (lx_items l)"
    using l(2) tiles_items_ok by (fastforce simp: finished_def lex_kinds_def item_ok_def)
  then have "parser_ok (new_parser l)" "remaining (new_parser l) < Suc (length (lx_items l))"
    by (simp_all add: parser_ok_def new_parser_def no_item_def item_ok_def remaining_def)
  from parse_loop_good [OF this, of env]
  have "good_result (remaining (new_parser l)) 1 (parse_loop env (Suc (length (lx_items l))) (new_parser l))" .
  then have "case bindE (parse_loop env (Suc (length (lx_items l))) (new_parser l)) (\<lambda>(t, p). Inr t) of
      Inr tree \<Rightarrow> True | Inl e \<Rightarrow> error_ok e"
    by (auto simp: good_result_def bindE_def simp del: parse_loop.simps split: sum.splits)
  moreover have "error_ok e \<longleftrightarrow> (\<exists>line fmt args. e = Errorf line fmt args) \<or> (\<exists>fmt args. e = PlainError fmt args) \<or>
      e = Panic NilDereference" for e by (cases e) auto
  ultimately show ?thesis using l(1)
    by (auto simp: template_Parse_def simp del: parse_loop.simps bindE_eq_Inr split: sum.splits)
qed

section \<open>Behaviours of the parser\<close>

text \<open>An environment for templates in ASCII without numbers, in which strings are raw strings.\<close>

definition ascii_env :: parse_env where
  "ascii_env = \<lparr>pe_lex = \<lparr>unicode_alnum = \<lambda>_. False, fmt_U = \<lambda>r. [], fmt_q = \<lambda>s. CHR 0x60 # s @ [CHR 0x60]\<rparr>,
     pe_num = \<lparr>UnquoteChar = \<lambda>_. None, ParseFloat = \<lambda>_. None, SscanComplex = \<lambda>_. None, float_of_int = id,
       float_of_uint = id, int_of_float = id, uint_of_float = id, float_eq = (=), float_zero = 0\<rparr>,
     pe_Unquote = \<lambda>s. Some (butlast (tl s)), pe_funcs = []\<rparr>"

lemma parse_loop_skips:
  "\<forall>i \<in> set (pr_items p). it_typ i \<noteq> itemLeftDelim \<Longrightarrow> pr_peekCount p = 0 \<Longrightarrow> length (pr_items p) < f \<Longrightarrow>
     \<exists>p'. parse_loop env f p = Inr (pr_tree p, p')"
proof (induction f arbitrary: p)
  case (Suc f)
  show ?case
  proof (cases "pr_items p")
    case Nil
    then show ?thesis using Suc.prems(2) by (simp add: next_token_def nextItem_def token_at_def Let_def)
  next
    case (Cons i rest)
    let ?p1 = "p\<lparr>pr_lastPos := it_pos i, pr_items := rest, pr_token0 := i\<rparr>"
    have n: "next_token p = (i, ?p1)"
      using Cons Suc.prems(2) by (simp add: next_token_def nextItem_def token_at_def Let_def)
    have "\<exists>p'. parse_loop env f ?p1 = Inr (pr_tree ?p1, p')"
      by (rule Suc.IH) (use Suc.prems Cons in auto)
    then show ?thesis using n Suc.prems(1) Cons by simp
  qed
qed simp

text \<open>Outside definitions the parser skips every item that is no left delimiter, the error item of the lexer
  included: when no item is a left delimiter the parse succeeds with an empty tree, whatever the text.\<close>

theorem root_errors_ignored:
  assumes "template_lex (pe_lex env) [] txt left right = Some (Inr l)" "list_all (\<lambda>i. it_typ i \<noteq> itemLeftDelim) (lx_items l)"
  shows "template_Parse env txt left right = Some (Inr Map.empty)"
proof -
  have "\<exists>p'. parse_loop env (Suc (length (lx_items l))) (new_parser l) = Inr (pr_tree (new_parser l), p')"
    by (rule parse_loop_skips) (use assms(2) in \<open>auto simp: new_parser_def list_all_iff\<close>)
  then show ?thesis
    using assms(1) by (auto simp: template_Parse_def new_parser_def simp del: parse_loop.simps)
qed

theorem root_errors_ignored_witness:
  "template_Parse ascii_env ''a {{/* b'' [] [] = Some (Inr Map.empty)"
proof -
  let ?items = "[\<lparr>it_typ = itemText, it_pos = 0, it_val = ''a ''\<rparr>, \<lparr>it_typ = itemError, it_pos = 2, it_val = ''unclosed comment''\<rparr>]"
  have "template_lex (pe_lex ascii_env) [] ''a {{/* b'' [] [] = Some (Inr \<lparr>lx_name = [], lx_input = ''a {{/* b'',
      lx_leftDelim = ''{{'', lx_rightDelim = ''}}'', lx_pos = 6, lx_start = 2, lx_width = 1, lx_items = ?items\<rparr>)"
    by code_simp
  from root_errors_ignored [OF this] show ?thesis by simp
qed

text \<open>A fill that holds a branch without an else list does not parse to a tree or an error: the check of the
  fill ranges over the nodes of the nil else list, and the run-time panic passes through the parser.\<close>

theorem fill_branch_panics:
  "template_Parse ascii_env ''{{define `t`}}{{fill `x`}}{{if .A}}{{end}}{{end}}{{end}}'' [] [] =
     Some (Inl (Panic NilDereference))"
proof -
  have "case template_Parse ascii_env ''{{define `t`}}{{fill `x`}}{{if .A}}{{end}}{{end}}{{end}}'' [] [] of
      Some (Inl e) \<Rightarrow> e = Panic NilDereference | _ \<Rightarrow> False"
    by code_simp
  then show ?thesis by (auto split: option.splits sum.splits)
qed

text \<open>The printed form of a tree does not parse back to it: a text node prints as a quoted string, and the
  quotes are read as text.\<close>

theorem tree_String_not_parsed_back:
  "map_option (map_sum id (\<lambda>tree. tree ''t''))
     (template_Parse ascii_env (Tree_String (fmt_q (pe_lex ascii_env)) [\<lparr>def_Line = 1, def_Name = ''t'', def_List = [TextNode ''a'']\<rparr>]) [] []) =
   Some (Inr (Some \<lparr>def_Line = 1, def_Name = ''t'', def_List = [TextNode ''`a`'']\<rparr>))"
  by code_simp

end
