(* ===== verification/Template_Reflect.thy ===== *)
theory Template_Reflect
  imports Template_Node "HOL-Library.Multiset"
begin

text \<open>
  Values during the execution of templates. The execution looks at Go values through the package \<open>reflect\<close>;
  its operations are collected in a record over a type of values and a type of types, so that the execution
  is the code's for every universe of Go values. A value of type \<open>interface{}\<close> is its \<open>reflect.ValueOf\<close>.
  Methods that panic on some of the values the code gives them return a panic; the others are only called
  behind a test of the kind.
\<close>

section \<open>The operations of reflect\<close>

datatype kind =
    KInvalid | KBool | KInt | KInt8 | KInt16 | KInt32 | KInt64 | KUint | KUint8 | KUint16 | KUint32 | KUint64 | KUintptr
  | KFloat32 | KFloat64 | KComplex64 | KComplex128 | KArray | KChan | KFunc | KInterface | KMap | KPtr | KSlice | KString | KStruct
  | KUnsafePointer

definition int_kinds :: "kind set" where "int_kinds = {KInt, KInt8, KInt16, KInt32, KInt64}"
definition uint_kinds :: "kind set" where "uint_kinds = {KUint, KUint8, KUint16, KUint32, KUint64, KUintptr}"
definition float_kinds :: "kind set" where "float_kinds = {KFloat32, KFloat64}"
definition complex_kinds :: "kind set" where "complex_kinds = {KComplex64, KComplex128}"

text \<open>The value of a panic in code called through \<open>reflect\<close> is an error, such as a \<open>reflect.ValueError\<close>, or it is not.\<close>

datatype callee_panic = ErrorValue string | OtherValue go_panic

record ('v, 't) reflect =
  rv_zero :: 'v
  rv_Kind :: "'v \<Rightarrow> kind"
  rv_Type :: "'v \<Rightarrow> 't"
  rv_IsNil :: "'v \<Rightarrow> bool"
  rv_Elem :: "'v \<Rightarrow> 'v"
  rv_Len :: "'v \<Rightarrow> nat"
  rv_Index :: "'v \<Rightarrow> nat \<Rightarrow> 'v"
  rv_Bool :: "'v \<Rightarrow> bool"
  rv_Int :: "'v \<Rightarrow> int64"
  rv_Uint :: "'v \<Rightarrow> uint64"
  rv_Float :: "'v \<Rightarrow> float64"
  rv_Complex :: "'v \<Rightarrow> float64 \<times> float64"
  rv_String :: "'v \<Rightarrow> string"
  rv_MapKeys :: "'v \<Rightarrow> 'v list"
  rv_MapIndex :: "'v \<Rightarrow> 'v \<Rightarrow> 'v"
  rv_Hashable :: "'v \<Rightarrow> bool"
  rv_Recv :: "'v \<Rightarrow> 'v list"
  rv_CanAddr :: "'v \<Rightarrow> bool"
  rv_Addr :: "'v \<Rightarrow> 'v"
  rv_MethodByName :: "'v \<Rightarrow> string \<Rightarrow> callee_panic + 'v"
  rv_Field :: "'v \<Rightarrow> string \<Rightarrow> callee_panic + 'v"
  rv_Call :: "'v \<Rightarrow> 'v list \<Rightarrow> callee_panic + 'v list"
  rv_Interface :: "'v \<Rightarrow> 'v"
  ValueOf_bool :: "bool \<Rightarrow> 'v"
  ValueOf_int :: "int64 \<Rightarrow> 'v"
  ValueOf_float :: "float64 \<Rightarrow> 'v"
  ValueOf_complex :: "float64 \<times> float64 \<Rightarrow> 'v"
  ValueOf_string :: "string \<Rightarrow> 'v"
  rt_Kind :: "'t \<Rightarrow> kind"
  rt_NumMethod :: "'t \<Rightarrow> nat"
  rt_Elem :: "'t \<Rightarrow> 't"
  rt_Key :: "'t \<Rightarrow> 't"
  rt_PtrTo :: "'t \<Rightarrow> 't"
  rt_AssignableTo :: "'t \<Rightarrow> 't \<Rightarrow> bool"
  rt_Field :: "'t \<Rightarrow> string \<Rightarrow> bool option"
  rt_IsVariadic :: "'t \<Rightarrow> bool"
  rt_In :: "'t \<Rightarrow> 't list"
  rt_Out :: "'t \<Rightarrow> 't list"
  rt_IsError :: "'t \<Rightarrow> bool"
  rt_Prints :: "'t \<Rightarrow> bool"
  rt_Zero :: "'t \<Rightarrow> 'v"
  make_bool :: "'t \<Rightarrow> bool \<Rightarrow> 'v"
  make_string :: "'t \<Rightarrow> string \<Rightarrow> 'v"
  make_int :: "'t \<Rightarrow> int64 \<Rightarrow> 'v"
  make_uint :: "'t \<Rightarrow> uint64 \<Rightarrow> 'v"
  make_float :: "'t \<Rightarrow> float64 \<Rightarrow> 'v"
  make_complex :: "'t \<Rightarrow> float64 \<times> float64 \<Rightarrow> 'v"
  float_is_zero :: "float64 \<Rightarrow> bool"
  float_less :: "float64 \<Rightarrow> float64 \<Rightarrow> bool"
  rv_text :: "'v \<Rightarrow> string"
  rt_text :: "'t \<Rightarrow> string"

text \<open>
  \<open>rv_Hashable\<close> tells whether a value can be looked up in a map. \<open>rv_Recv\<close> has the values received until the channel is closed. \<open>rv_Field\<close> is \<open>FieldByIndex\<close> for the index that
  \<open>FieldByName\<close> gives, and \<open>rt_Field\<close> tells whether the field is unexported. \<open>rt_IsError\<close> is the equality with
  the type \<open>error\<close>, \<open>rt_Prints\<close> the implementation of \<open>error\<close> or \<open>fmt.Stringer\<close>. \<open>make_int\<close> is a new value of a
  type after \<open>SetInt\<close>, and so on. \<open>rv_text\<close> is what \<open>fmt.Fprint\<close> writes of a value, \<open>rt_text\<close> the name of a type.
\<close>

definition rv_IsValid :: "('v, 't) reflect \<Rightarrow> 'v \<Rightarrow> bool" where
  "rv_IsValid rf v \<longleftrightarrow> rv_Kind rf v \<noteq> KInvalid"

section \<open>Results\<close>

text \<open>A computation does not return, panics, or has a value. A panic is an error of the execution, which \<open>errRecover\<close>
  returns, a panic of the code that executes, or a panic of the code that it calls through \<open>reflect\<close>, which
  \<open>errRecover\<close> returns when its value is an error that is no run-time error.\<close>

datatype exec_error =
    ExecError int string "string list"
  | ExecPanic go_panic
  | CalleePanic callee_panic

type_synonym ('e, 'a) outcome = "('e + 'a) option"

definition bindO :: "('e, 'a) outcome \<Rightarrow> ('a \<Rightarrow> ('e, 'b) outcome) \<Rightarrow> ('e, 'b) outcome" where
  "bindO m f = (case m of None \<Rightarrow> None | Some (Inl e) \<Rightarrow> Some (Inl e) | Some (Inr x) \<Rightarrow> f x)"

definition returns :: "'a \<Rightarrow> ('e, 'a) outcome" where "returns x = Some (Inr x)"

definition raises :: "'e \<Rightarrow> ('e, 'a) outcome" where "raises e = Some (Inl e)"

lemma bindO_simps [simp]:
  "bindO None f = None" "bindO (Some (Inl e)) f = Some (Inl e)" "bindO (Some (Inr x)) f = f x"
  "bindO (returns x) f = f x" "bindO (raises e) f = raises e"
  by (simp_all add: bindO_def returns_def raises_def)

lemma returns_simps [simp]:
  "returns x = returns y \<longleftrightarrow> x = y" "returns x \<noteq> raises e" "raises e \<noteq> returns x" "raises e = raises e' \<longleftrightarrow> e = e'"
  "returns x \<noteq> None" "raises e \<noteq> None" "None \<noteq> returns x" "None \<noteq> raises e"
  by (simp_all add: returns_def raises_def)

lemma bindO_eq_returns: "bindO m f = returns y \<longleftrightarrow> (\<exists>x. m = returns x \<and> f x = returns y)"
  by (auto simp: bindO_def returns_def split: option.splits sum.splits)

lemma bindO_eq_None: "bindO m f = None \<longleftrightarrow> m = None \<or> (\<exists>x. m = returns x \<and> f x = None)"
  by (auto simp: bindO_def returns_def split: option.splits sum.splits)

lemma outcome_cases:
  obtains (none) "m = None" | (error) e where "m = raises e" | (result) x where "m = returns x"
  unfolding returns_def raises_def by (metis option.exhaust sum.exhaust)

section \<open>Looking through pointers\<close>

text \<open>\<open>indirect\<close>; pointers can be circular.\<close>

partial_function (option) indirect :: "('v, 't) reflect \<Rightarrow> 'v \<Rightarrow> ('v \<times> bool) option" where
  "indirect rf v =
     (if rv_Kind rf v \<noteq> KPtr \<and> rv_Kind rf v \<noteq> KInterface then Some (v, False)
      else if rv_IsNil rf v then Some (v, True)
      else if rv_Kind rf v = KInterface \<and> rt_NumMethod rf (rv_Type rf v) > 0 then Some (v, False)
      else indirect rf (rv_Elem rf v))"

declare indirect.simps [code]

definition indirectO :: "('v, 't) reflect \<Rightarrow> 'v \<Rightarrow> ('e, 'v \<times> bool) outcome" where
  "indirectO rf v = map_option Inr (indirect rf v)"

text \<open>The truth of a value, and whether it has one.\<close>

definition isTrue :: "('v, 't) reflect \<Rightarrow> 'v \<Rightarrow> bool \<times> bool" where
  "isTrue rf v =
     (let k = rv_Kind rf v in
      if k = KInvalid then (False, True)
      else if k \<in> {KArray, KMap, KSlice, KString} then (rv_Len rf v > 0, True)
      else if k = KBool then (rv_Bool rf v, True)
      else if k \<in> complex_kinds
      then (\<not> (float_is_zero rf (fst (rv_Complex rf v)) \<and> float_is_zero rf (snd (rv_Complex rf v))), True)
      else if k \<in> {KChan, KFunc, KPtr, KInterface} then (\<not> rv_IsNil rf v, True)
      else if k \<in> int_kinds then (rv_Int rf v \<noteq> 0, True)
      else if k \<in> float_kinds then (\<not> float_is_zero rf (rv_Float rf v), True)
      else if k \<in> uint_kinds then (rv_Uint rf v \<noteq> 0, True)
      else if k = KStruct then (True, True)
      else (False, False))"

definition canBeNil :: "('v, 't) reflect \<Rightarrow> 't \<Rightarrow> bool" where
  "canBeNil rf t \<longleftrightarrow> rt_Kind rf t \<in> {KChan, KFunc, KInterface, KMap, KPtr, KSlice}"

definition goodFunc :: "('v, 't) reflect \<Rightarrow> 't \<Rightarrow> bool" where
  "goodFunc rf t \<longleftrightarrow> length (rt_Out rf t) = 1 \<or> length (rt_Out rf t) = 2 \<and> rt_IsError rf (rt_Out rf t ! 1)"

section \<open>Map keys\<close>

fun insert_by :: "('a \<Rightarrow> 'a \<Rightarrow> bool) \<Rightarrow> 'a \<Rightarrow> 'a list \<Rightarrow> 'a list" where
  "insert_by lt x [] = [x]"
| "insert_by lt x (y # ys) = (if lt y x then y # insert_by lt x ys else x # y # ys)"

text \<open>\<open>sort.Sort\<close>, whose result is determined when no two elements are equal in the order.\<close>

definition sort_by :: "('a \<Rightarrow> 'a \<Rightarrow> bool) \<Rightarrow> 'a list \<Rightarrow> 'a list" where
  "sort_by lt xs = foldr (insert_by lt) xs []"

definition sortKeys :: "('v, 't) reflect \<Rightarrow> 'v list \<Rightarrow> 'v list" where
  "sortKeys rf v =
     (if length v \<le> 1 then v
      else let k = rv_Kind rf (hd v) in
        if k \<in> float_kinds then sort_by (\<lambda>x y. float_less rf (rv_Float rf x) (rv_Float rf y)) v
        else if k \<in> int_kinds then sort_by (\<lambda>x y. rv_Int rf x <s rv_Int rf y) v
        else if k = KString then sort_by (\<lambda>x y. rv_String rf x < rv_String rf y) v
        else if k \<in> uint_kinds then sort_by (\<lambda>x y. rv_Uint rf x < rv_Uint rf y) v
        else v)"

text \<open>The sorted list does not depend on the order of the keys.\<close>

lemma insert_by_insort: "insert_by (\<lambda>x y. f x < f y) x xs = insort_key f x xs"
  by (induction xs) auto

lemma sort_by_sort: "sort_by (\<lambda>x y. f x < f y) xs = sort_key f xs"
  unfolding sort_by_def sort_key_def by (simp add: insert_by_insort [abs_def])

lemma sort_by_canonical:
  assumes "mset xs = mset ys" "inj_on f (set xs)"
  shows "sort_by (\<lambda>x y. f x < f y) xs = sort_by (\<lambda>x y. (f x :: 'k :: linorder) < f y) ys"
  unfolding sort_by_sort using assms by (intro sort_key_inj_key_eq) simp_all

end
