(* ===== verification/Template_Exec.thy ===== *)
theory Template_Exec
  imports Template_Reflect
begin

text \<open>
  The execution of templates (\<open>template/exec.go\<close>). The functions of the code that evaluate only read the state,
  and the functions that walk a tree return it updated. The writer is a function of what it holds and of the
  bytes it is given. The trees can call each other without end: the walk of a called template or of the filler of
  a block is an argument of the walk, and \<open>exec\<close> closes the recursion with fuel. A call of a Go function is a
  function of its arguments.
\<close>

section \<open>State\<close>

record 'v filler =
  fl_pipe :: "PipeNode option"
  fl_list :: "node list"
  fl_dot :: 'v

record 'v state =
  st_out :: string
  st_line :: int
  st_vars :: "(string \<times> 'v) list"
  st_fillers :: "string \<rightharpoonup> 'v filler"
  st_filling :: bool

text \<open>What does not change during an execution: \<open>reflect\<close>, the trees, the functions and the writer.\<close>

record ('v, 't) exec_env =
  ex_reflect :: "('v, 't) reflect"
  ex_tree :: Tree
  ex_funcs :: "string \<Rightarrow> 'v option"
  ex_write :: "string \<Rightarrow> string \<Rightarrow> string \<times> string option"
  ex_quote :: "string \<Rightarrow> string"

type_synonym 'a eval = "(exec_error, 'a) outcome"

text \<open>An error carries what has been written before it.\<close>

type_synonym 'v walked = "(exec_error \<times> string, 'v state) outcome"

definition errorf :: "'v state \<Rightarrow> string \<Rightarrow> string list \<Rightarrow> 'a eval" where
  "errorf s fmt args = raises (ExecError (st_line s) fmt args)"

definition panics :: "go_panic \<Rightarrow> 'a eval" where "panics p = raises (ExecPanic p)"

definition lift_eval :: "'v state \<Rightarrow> 'a eval \<Rightarrow> (exec_error \<times> string, 'a) outcome" where
  "lift_eval s m = map_option (map_sum (\<lambda>e. (e, st_out s)) id) m"

definition evalGo :: "callee_panic + 'a \<Rightarrow> 'a eval" where
  "evalGo m = (case m of Inl p \<Rightarrow> raises (CalleePanic p) | Inr x \<Rightarrow> returns x)"

definition push :: "string \<Rightarrow> 'v \<Rightarrow> 'v state \<Rightarrow> 'v state" where
  "push name v s = s\<lparr>st_vars := st_vars s @ [(name, v)]\<rparr>"

definition mark :: "'v state \<Rightarrow> nat" where "mark s = length (st_vars s)"

definition pop :: "nat \<Rightarrow> 'v state \<Rightarrow> 'v state eval" where
  "pop m s = (if m \<le> length (st_vars s) then returns (s\<lparr>st_vars := take m (st_vars s)\<rparr>) else panics SliceBoundsOutOfRange)"

definition setVar :: "nat \<Rightarrow> 'v \<Rightarrow> 'v state \<Rightarrow> 'v state eval" where
  "setVar n v s =
     (let i = length (st_vars s) - n in
      if 0 < n \<and> n \<le> length (st_vars s) then returns (s\<lparr>st_vars := (st_vars s)[i := (fst (st_vars s ! i), v)]\<rparr>)
      else panics IndexOutOfRange)"

definition varValue :: "string \<Rightarrow> 'v state \<Rightarrow> 'v eval" where
  "varValue name s = (case map_of (rev (st_vars s)) name of
     Some v \<Rightarrow> returns v
   | None \<Rightarrow> errorf s ''undefined variable: %s'' [name])"

definition addFiller :: "string \<Rightarrow> 'v filler \<Rightarrow> 'v state \<Rightarrow> 'v state eval" where
  "addFiller name f s =
     (if st_fillers s name \<noteq> None then errorf s ''duplicated block name %q'' [name]
      else returns (s\<lparr>st_fillers := (st_fillers s)(name \<mapsto> f)\<rparr>))"

section \<open>Arguments\<close>

definition validateType :: "('v, 't) exec_env \<Rightarrow> 'v state \<Rightarrow> 'v \<Rightarrow> 't \<Rightarrow> 'v eval" where
  "validateType env s v t =
     (let rf = ex_reflect env in
      if \<not> rv_IsValid rf v
      then (if canBeNil rf t then returns (rt_Zero rf t) else errorf s ''invalid value; expected %s'' [rt_text rf t])
      else if rt_AssignableTo rf (rv_Type rf v) t then returns v
      else
        let inside = rv_Kind rf v = KInterface \<and> \<not> rv_IsNil rf v; v = (if inside then rv_Elem rf v else v) in
        if inside \<and> rt_AssignableTo rf (rv_Type rf v) t then returns v
        else if rv_Kind rf v = KPtr \<and> rt_AssignableTo rf (rt_Elem rf (rv_Type rf v)) t then returns (rv_Elem rf v)
        else if rt_AssignableTo rf (rt_PtrTo rf (rv_Type rf v)) t \<and> rv_CanAddr rf v then returns (rv_Addr rf v)
        else errorf s ''wrong type for value; expected %s; got %s'' [rt_text rf t, rt_text rf (rv_Type rf v)])"

definition evalBool :: "('v, 't) exec_env \<Rightarrow> 'v state \<Rightarrow> 't \<Rightarrow> arg_node \<Rightarrow> 'v eval" where
  "evalBool env s t n = (case n of
     BoolNode b \<Rightarrow> returns (make_bool (ex_reflect env) t b)
   | _ \<Rightarrow> errorf s ''expected bool; found %s'' [arg_String n])"

definition evalString :: "('v, 't) exec_env \<Rightarrow> 'v state \<Rightarrow> 't \<Rightarrow> arg_node \<Rightarrow> 'v eval" where
  "evalString env s t n = (case n of
     StringNode quoted t' \<Rightarrow> returns (make_string (ex_reflect env) t t')
   | _ \<Rightarrow> errorf s ''expected string; found %s'' [arg_String n])"

text \<open>\<open>evalInteger\<close>, \<open>evalUnsignedInteger\<close>, \<open>evalFloat\<close> and \<open>evalComplex\<close>.\<close>

definition evalNumber :: "'v state \<Rightarrow> (NumberNode \<Rightarrow> bool) \<Rightarrow> (NumberNode \<Rightarrow> 'v) \<Rightarrow> string \<Rightarrow> arg_node \<Rightarrow> 'v eval" where
  "evalNumber s ok mk what n = (case n of
     NumberArg x \<Rightarrow> if ok x then returns (mk x) else errorf s (''expected '' @ what @ ''; found %s'') [arg_String n]
   | _ \<Rightarrow> errorf s (''expected '' @ what @ ''; found %s'') [arg_String n])"

definition evalInteger :: "('v, 't) exec_env \<Rightarrow> 'v state \<Rightarrow> 't \<Rightarrow> arg_node \<Rightarrow> 'v eval" where
  "evalInteger env s t = evalNumber s num_IsInt (\<lambda>x. make_int (ex_reflect env) t (num_Int64 x)) ''integer''"

definition evalUnsignedInteger :: "('v, 't) exec_env \<Rightarrow> 'v state \<Rightarrow> 't \<Rightarrow> arg_node \<Rightarrow> 'v eval" where
  "evalUnsignedInteger env s t = evalNumber s num_IsUint (\<lambda>x. make_uint (ex_reflect env) t (num_Uint64 x)) ''unsigned integer''"

definition evalFloat :: "('v, 't) exec_env \<Rightarrow> 'v state \<Rightarrow> 't \<Rightarrow> arg_node \<Rightarrow> 'v eval" where
  "evalFloat env s t = evalNumber s num_IsFloat (\<lambda>x. make_float (ex_reflect env) t (num_Float64 x)) ''float''"

definition evalComplex :: "('v, 't) exec_env \<Rightarrow> 'v state \<Rightarrow> 't \<Rightarrow> arg_node \<Rightarrow> 'v eval" where
  "evalComplex env s t = evalNumber s num_IsComplex (\<lambda>x. make_complex (ex_reflect env) t (num_Complex128 x)) ''complex''"

definition idealConstant :: "('v, 't) exec_env \<Rightarrow> 'v state \<Rightarrow> NumberNode \<Rightarrow> 'v eval" where
  "idealConstant env s n =
     (let rf = ex_reflect env in
      if num_IsComplex n then returns (ValueOf_complex rf (num_Complex128 n))
      else if num_IsFloat n \<and> index_any (num_Text n) ''.eE'' \<noteq> None then returns (ValueOf_float rf (num_Float64 n))
      else if num_IsInt n then returns (ValueOf_int rf (num_Int64 n))
      else if num_IsUint n then errorf s ''%s overflows int'' [num_Text n]
      else returns (rv_zero rf))"

definition notAFunction :: "('v, 't) exec_env \<Rightarrow> 'v state \<Rightarrow> arg_node list \<Rightarrow> 'v \<Rightarrow> unit eval" where
  "notAFunction env s args final =
     (if length args > 1 \<or> rv_IsValid (ex_reflect env) final
      then (case args of
          [] \<Rightarrow> panics IndexOutOfRange
        | a # _ \<Rightarrow> errorf s ''can't give argument to non-function %s'' [arg_String a])
      else returns ())"

section \<open>Calls\<close>

text \<open>The evaluation \<open>ea\<close> of an argument for a type is an argument here: an argument that is a field or a function
  is evaluated without arguments of its own, so that the mutual recursion of the code is one level deep. A nil
  slice of arguments is \<open>None\<close>.\<close>

fun eval_fixed :: "('t \<Rightarrow> arg_node \<Rightarrow> 'v eval) \<Rightarrow> 't list \<Rightarrow> arg_node list \<Rightarrow> 'v list eval" where
  "eval_fixed ea [] args = returns []"
| "eval_fixed ea (t # ts) [] = panics IndexOutOfRange"
| "eval_fixed ea (t # ts) (a # args) = bindO (ea t a) (\<lambda>v. bindO (eval_fixed ea ts args) (\<lambda>vs. returns (v # vs)))"

definition evalCall :: "('v, 't) exec_env \<Rightarrow> ('t \<Rightarrow> arg_node \<Rightarrow> 'v eval) \<Rightarrow> 'v state \<Rightarrow> 'v \<Rightarrow> string \<Rightarrow> arg_node list option \<Rightarrow> 'v \<Rightarrow> 'v eval" where
  "evalCall env ea s fn name args final =
     (let rf = ex_reflect env in
      bindO (case args of None \<Rightarrow> returns [] | Some [] \<Rightarrow> panics SliceBoundsOutOfRange | Some (_ # as) \<Rightarrow> returns as) (\<lambda>args.
        let typ = rv_Type rf fn; ins = rt_In rf typ; variadic = rt_IsVariadic rf typ;
            numIn = length args + (if rv_IsValid rf final then 1 else 0);
            numFixed = (if variadic then length ins - 1 else length args) in
        if variadic \<and> numIn < numFixed
        then errorf s ''wrong number of args for %s: want at least %d got %d''
               [name, show_nat (length ins - 1), show_nat (length args)]
        else if \<not> variadic \<and> numIn \<noteq> length ins
        then errorf s ''wrong number of args for %s: want %d got %d'' [name, show_nat (length ins), show_nat (length args)]
        else if \<not> goodFunc rf typ then errorf s ''can't handle multiple results from method/function %q'' [name]
        else
          bindO (eval_fixed ea (take numFixed ins) args) (\<lambda>fixed.
          bindO (if variadic then eval_fixed ea (replicate (length args - numFixed) (rt_Elem rf (last ins))) (drop numFixed args)
                 else returns []) (\<lambda>more.
          bindO (if rv_IsValid rf final
                 then bindO (validateType env s final (if variadic then rt_Elem rf (last ins) else last ins)) (\<lambda>v. returns [v])
                 else returns []) (\<lambda>fin.
          bindO (evalGo (rv_Call rf fn (fixed @ more @ fin))) (\<lambda>result. case result of
              [] \<Rightarrow> panics IndexOutOfRange
            | [v] \<Rightarrow> returns v
            | v # err # _ \<Rightarrow>
                if length result = 2 \<and> \<not> rv_IsNil rf err then errorf s ''error calling %s: %s'' [name, rv_text rf err]
                else returns v))))))"

definition evalField :: "('v, 't) exec_env \<Rightarrow> ('t \<Rightarrow> arg_node \<Rightarrow> 'v eval) \<Rightarrow> 'v state \<Rightarrow> string \<Rightarrow> arg_node list option \<Rightarrow> 'v \<Rightarrow> 'v \<Rightarrow> 'v eval" where
  "evalField env ea s fieldName args final receiver =
     (let rf = ex_reflect env in
      if \<not> rv_IsValid rf receiver then returns (rv_zero rf)
      else
        let typ = rv_Type rf receiver in
        bindO (indirectO rf receiver) (\<lambda>(receiver, _).
          let ptr = (if rv_Kind rf receiver \<noteq> KInterface \<and> rv_CanAddr rf receiver then rv_Addr rf receiver else receiver) in
          bindO (evalGo (rv_MethodByName rf ptr fieldName)) (\<lambda>method.
          if rv_IsValid rf method then evalCall env ea s method fieldName args final
          else
            let hasArgs = (length (case args of None \<Rightarrow> [] | Some as \<Rightarrow> as) > 1 \<or> rv_IsValid rf final) in
            bindO (indirectO rf receiver) (\<lambda>(receiver, isNil).
              if isNil then errorf s ''nil pointer evaluating %s.%s'' [rt_text rf typ, fieldName]
              else if rv_Kind rf receiver = KStruct
              then (case rt_Field rf (rv_Type rf receiver) fieldName of
                  None \<Rightarrow> errorf s ''%s is not a field of struct type %s'' [fieldName, rt_text rf typ]
                | Some unexported \<Rightarrow> bindO (evalGo (rv_Field rf receiver fieldName)) (\<lambda>field.
                    if unexported then errorf s ''%s is an unexported field of struct type %s'' [fieldName, rt_text rf typ]
                    else if hasArgs then errorf s ''%s has arguments but cannot be invoked as function'' [fieldName]
                    else returns field))
              else if rv_Kind rf receiver = KMap \<and>
                rt_AssignableTo rf (rv_Type rf (ValueOf_string rf fieldName)) (rt_Key rf (rv_Type rf receiver))
              then (if hasArgs then errorf s ''%s is not a method but has arguments'' [fieldName]
                    else returns (rv_MapIndex rf receiver (ValueOf_string rf fieldName)))
              else errorf s ''can't evaluate field %s in type %s'' [fieldName, rt_text rf typ]))))"

fun evalFieldChain :: "('v, 't) exec_env \<Rightarrow> ('t \<Rightarrow> arg_node \<Rightarrow> 'v eval) \<Rightarrow> 'v state \<Rightarrow> 'v \<Rightarrow> string list \<Rightarrow> arg_node list option \<Rightarrow> 'v \<Rightarrow> 'v eval" where
  "evalFieldChain env ea s receiver [] args final = panics IndexOutOfRange"
| "evalFieldChain env ea s receiver [i] args final = evalField env ea s i args final receiver"
| "evalFieldChain env ea s receiver (i # is) args final =
     bindO (evalField env ea s i None (rv_zero (ex_reflect env)) receiver) (\<lambda>receiver. evalFieldChain env ea s receiver is args final)"

definition evalFieldNode :: "('v, 't) exec_env \<Rightarrow> ('t \<Rightarrow> arg_node \<Rightarrow> 'v eval) \<Rightarrow> 'v state \<Rightarrow> 'v \<Rightarrow> string list \<Rightarrow> arg_node list option \<Rightarrow> 'v \<Rightarrow> 'v eval" where
  "evalFieldNode env ea s dot ident args final = evalFieldChain env ea s dot ident args final"

definition evalVariableNode :: "('v, 't) exec_env \<Rightarrow> ('t \<Rightarrow> arg_node \<Rightarrow> 'v eval) \<Rightarrow> 'v state \<Rightarrow> string list \<Rightarrow> arg_node list option \<Rightarrow> 'v \<Rightarrow> 'v eval" where
  "evalVariableNode env ea s ident args final = (case ident of
     [] \<Rightarrow> panics IndexOutOfRange
   | i # is \<Rightarrow> bindO (varValue i s) (\<lambda>v.
       if is = [] then bindO (notAFunction env s (case args of None \<Rightarrow> [] | Some as \<Rightarrow> as) final) (\<lambda>_. returns v)
       else evalFieldChain env ea s v is args final))"

definition evalFunction :: "('v, 't) exec_env \<Rightarrow> ('t \<Rightarrow> arg_node \<Rightarrow> 'v eval) \<Rightarrow> 'v state \<Rightarrow> string \<Rightarrow> arg_node list option \<Rightarrow> 'v \<Rightarrow> 'v eval" where
  "evalFunction env ea s name args final = (case ex_funcs env name of
     None \<Rightarrow> errorf s ''%q is not a defined function'' [name]
   | Some fn \<Rightarrow> evalCall env ea s fn name args final)"

definition no_arg :: "'t \<Rightarrow> arg_node \<Rightarrow> 'v eval" where "no_arg t a = panics IndexOutOfRange"

definition evalEmptyInterface :: "('v, 't) exec_env \<Rightarrow> 'v state \<Rightarrow> 'v \<Rightarrow> arg_node \<Rightarrow> 'v eval" where
  "evalEmptyInterface env s dot n =
     (let rf = ex_reflect env; zero = rv_zero rf in case n of
        BoolNode b \<Rightarrow> returns (ValueOf_bool rf b)
      | DotNode \<Rightarrow> returns dot
      | FieldNode ident \<Rightarrow> evalFieldNode env no_arg s dot ident None zero
      | IdentifierNode ident \<Rightarrow> evalFunction env no_arg s ident None zero
      | NilNode \<Rightarrow> errorf s ''evalEmptyInterface: nil (can't happen)'' []
      | NumberArg x \<Rightarrow> idealConstant env s x
      | StringNode quoted t' \<Rightarrow> returns (ValueOf_string rf t')
      | VariableNode ident \<Rightarrow> evalVariableNode env no_arg s ident None zero)"

definition evalArg :: "('v, 't) exec_env \<Rightarrow> 'v state \<Rightarrow> 'v \<Rightarrow> 't \<Rightarrow> arg_node \<Rightarrow> 'v eval" where
  "evalArg env s dot t n =
     (let rf = ex_reflect env; zero = rv_zero rf; k = rt_Kind rf t in case n of
        DotNode \<Rightarrow> validateType env s dot t
      | NilNode \<Rightarrow> if canBeNil rf t then returns (rt_Zero rf t) else errorf s ''cannot assign nil to %s'' [rt_text rf t]
      | FieldNode ident \<Rightarrow> bindO (evalFieldNode env no_arg s dot ident (Some [n]) zero) (\<lambda>v. validateType env s v t)
      | VariableNode ident \<Rightarrow> bindO (evalVariableNode env no_arg s ident None zero) (\<lambda>v. validateType env s v t)
      | _ \<Rightarrow>
          if k = KBool then evalBool env s t n
          else if k \<in> complex_kinds then evalComplex env s t n
          else if k \<in> float_kinds then evalFloat env s t n
          else if k \<in> int_kinds then evalInteger env s t n
          else if k = KInterface \<and> rt_NumMethod rf t = 0 then evalEmptyInterface env s dot n
          else if k = KString then evalString env s t n
          else if k \<in> uint_kinds then evalUnsignedInteger env s t n
          else errorf s ''can't handle %s for arg of type %s'' [arg_String n, rt_text rf t])"

section \<open>Pipelines\<close>

definition evalCommand :: "('v, 't) exec_env \<Rightarrow> 'v state \<Rightarrow> 'v \<Rightarrow> CommandNode \<Rightarrow> 'v \<Rightarrow> 'v eval" where
  "evalCommand env s dot cmd final =
     (let rf = ex_reflect env; ea = evalArg env s dot; plain = (\<lambda>m. bindO (notAFunction env s cmd final) (\<lambda>_. m)) in
      case cmd of
        [] \<Rightarrow> panics IndexOutOfRange
      | FieldNode ident # _ \<Rightarrow> evalFieldNode env ea s dot ident (Some cmd) final
      | IdentifierNode ident # _ \<Rightarrow> evalFunction env ea s ident (Some cmd) final
      | VariableNode ident # _ \<Rightarrow> evalVariableNode env ea s ident (Some cmd) final
      | BoolNode b # _ \<Rightarrow> plain (returns (ValueOf_bool rf b))
      | DotNode # _ \<Rightarrow> plain (returns dot)
      | NilNode # _ \<Rightarrow> plain (errorf s ''nil is not a command'' [])
      | NumberArg x # _ \<Rightarrow> plain (idealConstant env s x)
      | StringNode quoted t' # _ \<Rightarrow> plain (returns (ValueOf_string rf t')))"

fun eval_commands :: "('v, 't) exec_env \<Rightarrow> 'v state \<Rightarrow> 'v \<Rightarrow> CommandNode list \<Rightarrow> 'v \<Rightarrow> 'v eval" where
  "eval_commands env s dot [] v = returns v"
| "eval_commands env s dot (cmd # cmds) v =
     bindO (evalCommand env s dot cmd v) (\<lambda>v.
       let rf = ex_reflect env in
       eval_commands env s dot cmds
         (if rv_Kind rf v = KInterface \<and> rt_NumMethod rf (rv_Type rf v) = 0 then rv_Interface rf v else v))"

fun push_all :: "string list list \<Rightarrow> 'v \<Rightarrow> 'v state \<Rightarrow> 'v state eval" where
  "push_all [] v s = returns s"
| "push_all ([] # ds) v s = panics IndexOutOfRange"
| "push_all ((x # xs) # ds) v s = push_all ds v (push x v s)"

definition evalPipeline :: "('v, 't) exec_env \<Rightarrow> 'v \<Rightarrow> PipeNode option \<Rightarrow> 'v state \<Rightarrow> ('v \<times> 'v state) eval" where
  "evalPipeline env dot pipe s = (case pipe of
     None \<Rightarrow> returns (rv_zero (ex_reflect env), s)
   | Some p \<Rightarrow> bindO (eval_commands env s dot (pipe_Cmds p) (rv_zero (ex_reflect env))) (\<lambda>v.
       bindO (push_all (pipe_Decl p) v s) (\<lambda>s. returns (v, s))))"

section \<open>Output\<close>

definition writeBytes :: "('v, 't) exec_env \<Rightarrow> string \<Rightarrow> 'v state \<Rightarrow> 'v walked" where
  "writeBytes env b s = (case ex_write env (st_out s) b of
     (out, None) \<Rightarrow> returns (s\<lparr>st_out := out\<rparr>)
   | (out, Some e) \<Rightarrow> raises (ExecError (st_line s) ''%s'' [e], out))"

text \<open>\<open>fmt.Fprint\<close>, whose error is dropped.\<close>

definition fprint :: "('v, 't) exec_env \<Rightarrow> string \<Rightarrow> 'v state \<Rightarrow> 'v state" where
  "fprint env b s = s\<lparr>st_out := fst (ex_write env (st_out s) b)\<rparr>"

definition printValue :: "('v, 't) exec_env \<Rightarrow> string \<Rightarrow> 'v \<Rightarrow> 'v state \<Rightarrow> 'v walked" where
  "printValue env n v s =
     (let rf = ex_reflect env in
      bindO (if rv_Kind rf v = KPtr then indirectO rf v else returns (v, False)) (\<lambda>(v, _).
        if \<not> rv_IsValid rf v then returns (fprint env ''<no value>'' s)
        else if rt_Prints rf (rv_Type rf v) then returns (fprint env (rv_text rf v) s)
        else if rv_CanAddr rf v \<and> rt_Prints rf (rt_PtrTo rf (rv_Type rf v))
        then returns (fprint env (rv_text rf (rv_Addr rf v)) s)
        else if rv_Kind rf v \<in> {KChan, KFunc}
        then lift_eval s (errorf s ''can't print %s of type %s'' [n, rt_text rf (rv_Type rf v)])
        else returns (fprint env (rv_text rf v) s)))"

section \<open>The walk of a tree\<close>

text \<open>The loop of \<open>walkRange\<close>: \<open>body\<close> walks the list of the node, and the variables of the pipeline are set before
  and those of the body dropped after each round.\<close>

fun iterate :: "('v \<Rightarrow> 'v state \<Rightarrow> 'v walked) \<Rightarrow> nat \<Rightarrow> nat \<Rightarrow> ('v \<times> 'v) list \<Rightarrow> 'v state \<Rightarrow> 'v walked" where
  "iterate body decls m [] s = returns s"
| "iterate body decls m ((index, elem) # es) s =
     bindO (lift_eval s (bindO (if decls > 0 then setVar 1 elem s else returns s) (\<lambda>s.
       if decls > 1 then setVar 2 index s else returns s))) (\<lambda>s.
     bindO (body elem s) (\<lambda>s.
     bindO (lift_eval s (pop m s)) (\<lambda>s. iterate body decls m es s)))"

text \<open>What a range goes over, with the index of each element; \<open>None\<close> when the value is no container.\<close>

definition range_elems :: "('v, 't) reflect \<Rightarrow> 'v \<Rightarrow> ('v \<times> 'v) list option" where
  "range_elems rf v =
     (let k = rv_Kind rf v; number = (\<lambda>vs. map (\<lambda>(i, x). (ValueOf_int rf (word_of_nat i), x)) (enumerate 0 vs)) in
      if k \<in> {KArray, KSlice} then Some (number (map (rv_Index rf v) [0..<rv_Len rf v]))
      else if k = KMap
      then Some (if rv_Len rf v = 0 then [] else map (\<lambda>key. (key, rv_MapIndex rf v key)) (sortKeys rf (rv_MapKeys rf v)))
      else if k = KChan then Some (if rv_IsNil rf v then [] else number (rv_Recv rf v))
      else if k = KInvalid then Some []
      else None)"

text \<open>\<open>call\<close> walks a list that is not a part of the node.\<close>

type_synonym 'v caller = "'v \<Rightarrow> node list \<Rightarrow> 'v state \<Rightarrow> 'v walked"

text \<open>The state after the walk of a list with the state \<open>new\<close> of its own: only the output stays.\<close>

definition within :: "'v state \<Rightarrow> 'v walked \<Rightarrow> 'v walked" where
  "within s m = bindO m (\<lambda>new. returns (s\<lparr>st_out := st_out new\<rparr>))"

fun walk :: "('v, 't) exec_env \<Rightarrow> 'v caller \<Rightarrow> 'v \<Rightarrow> node \<Rightarrow> 'v state \<Rightarrow> 'v walked" and
    walk_list :: "('v, 't) exec_env \<Rightarrow> 'v caller \<Rightarrow> 'v \<Rightarrow> node list \<Rightarrow> 'v state \<Rightarrow> 'v walked" where
  "walk env call dot (ActionNode line p) s =
     (let s = s\<lparr>st_line := line\<rparr> in
      bindO (lift_eval s (evalPipeline env dot (Some p) s)) (\<lambda>(v, s).
        if pipe_Decl p = [] then printValue env (tnode_String (ex_quote env) (ActionNode line p)) v s else returns s))"
| "walk env call dot (ListNode ns) s = walk_list env call dot ns s"
| "walk env call dot (TextNode t) s = writeBytes env t s"
| "walk env call dot (BranchNode b line p ns es) s =
     (let s = s\<lparr>st_line := line\<rparr>; m = mark s; rf = ex_reflect env;
          orelse = (\<lambda>s. case es of None \<Rightarrow> returns s | Some es \<Rightarrow> walk_list env call dot es s) in
      bindO (lift_eval s (evalPipeline env dot (Some p) s)) (\<lambda>(v, s).
      bindO (if b = NodeRange
             then bindO (indirectO rf v) (\<lambda>(v, _). case range_elems rf v of
                 None \<Rightarrow> lift_eval s (errorf s ''range can't iterate over %v'' [rv_text rf v])
               | Some [] \<Rightarrow> orelse s
               | Some elems \<Rightarrow> iterate (\<lambda>elem s. walk_list env call elem ns s) (length (pipe_Decl p)) (mark s) elems s)
             else case isTrue rf v of
                 (_, False) \<Rightarrow> lift_eval s (errorf s ''if/with can't use %v'' [rv_text rf v])
               | (True, True) \<Rightarrow> walk_list env call (if b = NodeWith then v else dot) ns s
               | (False, True) \<Rightarrow> orelse s) (\<lambda>s.
        lift_eval s (pop m s))))"
| "walk env call dot (TemplateNode line name p) s =
     (let s = s\<lparr>st_line := line\<rparr> in case ex_tree env name of
        None \<Rightarrow> lift_eval s (errorf s ''template %q not defined'' [name])
      | Some tmpl \<Rightarrow> bindO (lift_eval s (evalPipeline env dot p s)) (\<lambda>(dot, s).
          within s (call dot (def_List tmpl)
            (s\<lparr>st_fillers := Map.empty, st_filling := False, st_vars := [(''$'', dot)]\<rparr>))))"
| "walk env call dot (BlockNode line name p ns) s =
     (let s = s\<lparr>st_line := line\<rparr> in
      if st_filling s then lift_eval s (addFiller name \<lparr>fl_pipe = p, fl_list = ns, fl_dot = dot\<rparr> s)
      else case st_fillers s name of
        Some f \<Rightarrow> bindO (lift_eval s (evalPipeline env (fl_dot f) (fl_pipe f) s)) (\<lambda>(dot, s). call dot (fl_list f) s)
      | None \<Rightarrow> bindO (lift_eval s (evalPipeline env dot p s)) (\<lambda>(dot, s). walk_list env call dot ns s))"
| "walk env call dot (FillNode line name p ns) s =
     (let s = s\<lparr>st_line := line\<rparr> in case ex_tree env name of
        None \<Rightarrow> lift_eval s (errorf s ''template %q not defined'' [name])
      | Some tmpl \<Rightarrow> bindO (lift_eval s (evalPipeline env dot p s)) (\<lambda>(dot, s).
          within s (bindO (walk_list env call dot ns (s\<lparr>st_fillers := Map.empty, st_filling := True\<rparr>)) (\<lambda>new.
            call dot (def_List tmpl) (new\<lparr>st_filling := False, st_vars := [(''$'', dot)]\<rparr>)))))"
| "walk env call dot endNode s = lift_eval s (errorf s ''unknown node: %s'' [tnode_String (ex_quote env) endNode])"
| "walk env call dot (elseNode line) s =
     lift_eval s (errorf s ''unknown node: %s'' [tnode_String (ex_quote env) (elseNode line)])"
| "walk_list env call dot [] s = returns s"
| "walk_list env call dot (n # ns) s = bindO (walk env call dot n s) (\<lambda>s. walk_list env call dot ns s)"

text \<open>The walk of a list with calls up to the depth of the fuel.\<close>

fun exec :: "('v, 't) exec_env \<Rightarrow> nat \<Rightarrow> 'v caller" where
  "exec env 0 dot ns s = None"
| "exec env (Suc f) dot ns s = walk_list env (exec env f) dot ns s"

definition new_state :: "'v \<Rightarrow> string \<Rightarrow> 'v state" where
  "new_state data out =
     \<lparr>st_out = out, st_line = 1, st_vars = [(''$'', data)], st_fillers = Map.empty, st_filling = False\<rparr>"

text \<open>\<open>Execute\<close>: the output and the error, if there is one, or a panic that is not recovered. The list of a template
  is never nil.\<close>

definition Execute :: "('v, 't) exec_env \<Rightarrow> nat \<Rightarrow> string \<Rightarrow> 'v \<Rightarrow> string \<Rightarrow> (go_panic, string \<times> exec_error option) outcome" where
  "Execute env f name data out = (case ex_tree env name of
     None \<Rightarrow> returns (out, Some (ExecError 0 ''template: template %q not defined'' [name]))
   | Some tmpl \<Rightarrow> (case exec env f data (def_List tmpl) (new_state data out) of
       None \<Rightarrow> None
     | Some (Inr s) \<Rightarrow> returns (st_out s, None)
     | Some (Inl (ExecPanic p, out)) \<Rightarrow> raises p
     | Some (Inl (CalleePanic (OtherValue p), out)) \<Rightarrow> raises p
     | Some (Inl (e, out)) \<Rightarrow> returns (out, Some e)))"

end
