(* ===== verification/Template_Funcs.thy ===== *)
theory Template_Funcs
  imports Template_Exec
begin

text \<open>
  The functions of templates (\<open>template/funcs.go\<close>): the maps of functions and the builtin functions that the
  package defines itself. A \<open>FuncMap\<close> is a list of names and values in the order in which the map is ranged
  over. A builtin function answers with a value or an error, or panics.
\<close>

section \<open>Maps of functions\<close>

type_synonym 'v FuncMap = "(string \<times> 'v) list"
type_synonym 'v funcs = "string \<rightharpoonup> 'v"

definition builtin_names :: "string list" where
  "builtin_names = [''and'', ''call'', ''html'', ''index'', ''js'', ''len'', ''not'', ''or'', ''print'', ''printf'',
     ''println'', ''urlquery'']"

fun addValueFuncs :: "('v, 't) reflect \<Rightarrow> 'v funcs \<Rightarrow> 'v FuncMap \<Rightarrow> callee_panic + 'v funcs" where
  "addValueFuncs rf out [] = Inr out"
| "addValueFuncs rf out ((name, v) # rest) =
     (if rv_Kind rf v \<noteq> KFunc then Inl (OtherValue (Explicit (''value for '' @ name @ '' not a function'')))
      else if \<not> goodFunc rf (rv_Type rf v)
      then Inl (ErrorValue (''can't handle multiple results from method/function '' @ name))
      else addValueFuncs rf (out(name \<mapsto> v)) rest)"

definition createValueFuncs :: "('v, 't) reflect \<Rightarrow> 'v FuncMap \<Rightarrow> callee_panic + 'v funcs" where
  "createValueFuncs rf funcMap = addValueFuncs rf Map.empty funcMap"

fun addFuncs :: "'v funcs \<Rightarrow> 'v FuncMap \<Rightarrow> 'v funcs" where
  "addFuncs out [] = out"
| "addFuncs out ((name, fn) # rest) = addFuncs (out(name \<mapsto> fn)) rest"

text \<open>\<open>findFunction\<close>, for the functions of a set and the builtin ones.\<close>

definition findFunction :: "('v, 't) reflect \<Rightarrow> 'v funcs \<Rightarrow> 'v funcs \<Rightarrow> string \<Rightarrow> 'v option" where
  "findFunction rf builtinFuncs execFuncs name =
     (let found = (\<lambda>m. case m name of None \<Rightarrow> rv_zero rf | Some fn \<Rightarrow> fn) in
      if rv_IsValid rf (found execFuncs) then Some (found execFuncs)
      else if rv_IsValid rf (found builtinFuncs) then Some (found builtinFuncs)
      else None)"

section \<open>Indexing and length\<close>

type_synonym 'a called = "(callee_panic, go_error + 'a) outcome"

text \<open>\<open>Value.Type\<close> and \<open>Value.Interface\<close> panic on the zero value.\<close>

definition type_of :: "('v, 't) reflect \<Rightarrow> 'v \<Rightarrow> (callee_panic, 't) outcome" where
  "type_of rf v = (if rv_IsValid rf v then returns (rv_Type rf v)
     else raises (ErrorValue ''reflect: call of reflect.Value.Type on zero Value''))"

definition interface_of :: "('v, 't) reflect \<Rightarrow> 'v \<Rightarrow> (callee_panic, 'v) outcome" where
  "interface_of rf v = (if rv_IsValid rf v then returns (rv_Interface rf v)
     else raises (ErrorValue ''reflect: call of reflect.Value.Interface on zero Value''))"

text \<open>One round of the loop of \<open>index\<close>, after \<open>indirect\<close>.\<close>

definition index_step :: "('v, 't) reflect \<Rightarrow> 'v \<Rightarrow> 'v \<Rightarrow> 'v called" where
  "index_step rf v i =
     (if rv_Kind rf v \<in> {KArray, KSlice}
      then (let k = rv_Kind rf i in
        if k \<in> int_kinds \<or> k \<in> uint_kinds
        then (let x = (if k \<in> int_kinds then rv_Int rf i else rv_Uint rf i) in
          if x <s 0 \<or> word_of_nat (rv_Len rf v) \<le>s x
          then returns (Inl (''index out of range: %d'', [show_int (sint x)]))
          else returns (Inr (rv_Index rf v (nat (sint x)))))
        else bindO (type_of rf i) (\<lambda>t. returns (Inl (''cannot index slice/array with type %s'', [rt_text rf t]))))
      else if rv_Kind rf v = KMap
      then (let i = (if rv_IsValid rf i then i else rt_Zero rf (rt_Key rf (rv_Type rf v))) in
        bindO (type_of rf i) (\<lambda>t.
          if \<not> rt_AssignableTo rf t (rt_Key rf (rv_Type rf v))
          then returns (Inl (''%s is not index type for %s'', [rt_text rf t, rt_text rf (rv_Type rf v)]))
          else if \<not> rv_Hashable rf i then raises (OtherValue (Explicit ''runtime error: hash of unhashable type''))
          else let x = rv_MapIndex rf v i in
            returns (Inr (if rv_IsValid rf x then x else rt_Zero rf (rt_Elem rf (rv_Type rf v))))))
      else bindO (type_of rf i) (\<lambda>t. returns (Inl (''can't index item of type %s'', [rt_text rf t]))))"

fun index_fn :: "('v, 't) reflect \<Rightarrow> 'v \<Rightarrow> 'v list \<Rightarrow> 'v called" where
  "index_fn rf v [] = bindO (interface_of rf v) (\<lambda>v. returns (Inr v))"
| "index_fn rf v (i # is) =
     bindO (indirectO rf v) (\<lambda>(v, isNil).
       if isNil then returns (Inl (''index of nil pointer'', []))
       else bindO (index_step rf v i) (\<lambda>r. case r of Inl e \<Rightarrow> returns (Inl e) | Inr v \<Rightarrow> index_fn rf v is))"

definition length_fn :: "('v, 't) reflect \<Rightarrow> 'v \<Rightarrow> nat called" where
  "length_fn rf item =
     bindO (indirectO rf item) (\<lambda>(v, isNil).
       if isNil then returns (Inl (''len of nil pointer'', []))
       else if rv_Kind rf v \<in> {KArray, KChan, KMap, KSlice, KString} then returns (Inr (rv_Len rf v))
       else bindO (type_of rf v) (\<lambda>t. returns (Inl (''len of type %s'', [rt_text rf t]))))"

section \<open>Function invocation\<close>

definition arg_type :: "('v, 't) reflect \<Rightarrow> 't \<Rightarrow> nat \<Rightarrow> 't" where
  "arg_type rf t i =
     (let ins = rt_In rf t in
      if \<not> rt_IsVariadic rf t \<or> i < length ins - 1 then ins ! i else rt_Elem rf (ins ! (length ins - 1)))"

fun call_args :: "('v, 't) reflect \<Rightarrow> 't \<Rightarrow> nat \<Rightarrow> 'v list \<Rightarrow> 'v list called" where
  "call_args rf typ i [] = returns (Inr [])"
| "call_args rf typ i (arg # args) =
     (let argType = arg_type rf typ i;
          v = (if \<not> rv_IsValid rf arg \<and> canBeNil rf argType then rt_Zero rf argType else arg) in
      bindO (type_of rf v) (\<lambda>t.
        if \<not> rt_AssignableTo rf t argType
        then returns (Inl (''arg %d has type %s; should be %s'', [show_nat i, rt_text rf t, rt_text rf argType]))
        else bindO (call_args rf typ (i + 1) args) (\<lambda>r. returns (map_sum id (\<lambda>argv. v # argv) r))))"

text \<open>\<open>call\<close>: the result of the function, with its error when it has one. The assertion of the second result to
  \<open>error\<close> holds for an error that is not nil and panics on nil.\<close>

definition call_fn :: "('v, 't) reflect \<Rightarrow> 'v \<Rightarrow> 'v list \<Rightarrow> ('v \<times> 'v option) called" where
  "call_fn rf fn args =
     bindO (type_of rf fn) (\<lambda>typ.
       let numIn = length (rt_In rf typ) in
       if rt_Kind rf typ \<noteq> KFunc then returns (Inl (''non-function of type %s'', [rt_text rf typ]))
       else if \<not> goodFunc rf typ
       then returns (Inl (''function called with %d args; should be 1 or 2'', [show_nat (length (rt_Out rf typ))]))
       else if rt_IsVariadic rf typ \<and> length args < numIn - 1
       then returns (Inl (''wrong number of args: got %d want at least %d'', [show_nat (length args), show_nat (numIn - 1)]))
       else if \<not> rt_IsVariadic rf typ \<and> length args \<noteq> numIn
       then returns (Inl (''wrong number of args: got %d want %d'', [show_nat (length args), show_nat numIn]))
       else bindO (call_args rf typ 0 args) (\<lambda>r. case r of
           Inl e \<Rightarrow> returns (Inl e)
         | Inr argv \<Rightarrow> (case rv_Call rf fn argv of
             Inl p \<Rightarrow> raises p
           | Inr [] \<Rightarrow> raises (OtherValue IndexOutOfRange)
           | Inr (v # result) \<Rightarrow> bindO (interface_of rf v) (\<lambda>v. case result of
               [err] \<Rightarrow> if rv_IsNil rf err then raises (OtherValue BadAssertion)
                        else returns (Inr (v, Some (rv_Interface rf err)))
             | _ \<Rightarrow> returns (Inr (v, None))))))"

section \<open>Boolean logic\<close>

definition truth :: "('v, 't) reflect \<Rightarrow> 'v \<Rightarrow> bool" where "truth rf a = fst (isTrue rf a)"

text \<open>The loops of \<open>and\<close> and \<open>or\<close>: they stop at the first argument for which \<open>stop\<close> holds.\<close>

fun last_until :: "('v \<Rightarrow> bool) \<Rightarrow> 'v \<Rightarrow> 'v list \<Rightarrow> 'v" where
  "last_until stop arg0 [] = arg0"
| "last_until stop arg0 (a # args) = (if stop a then a else last_until stop a args)"

definition and_fn :: "('v, 't) reflect \<Rightarrow> 'v \<Rightarrow> 'v list \<Rightarrow> 'v" where
  "and_fn rf arg0 args = (if \<not> truth rf arg0 then arg0 else last_until (\<lambda>a. \<not> truth rf a) arg0 args)"

definition or_fn :: "('v, 't) reflect \<Rightarrow> 'v \<Rightarrow> 'v list \<Rightarrow> 'v" where
  "or_fn rf arg0 args = (if truth rf arg0 then arg0 else last_until (truth rf) arg0 args)"

definition not_fn :: "('v, 't) reflect \<Rightarrow> 'v \<Rightarrow> bool" where "not_fn rf arg = (\<not> fst (isTrue rf arg))"

lemma last_until_find:
  "last_until stop arg0 args = (case find stop args of Some a \<Rightarrow> a | None \<Rightarrow> last (arg0 # args))"
  by (induction args arbitrary: arg0) (auto split: option.split)

end
