(* ===== verification/Template_Set.thy ===== *)
theory Template_Set
  imports Template_Funcs Template_Parse Escape_Tree
begin

text \<open>
  Sets of templates (\<open>template/template.go\<close>): texts and files are parsed into one tree, the tree is escaped, and
  its templates are executed. A nil map is an empty map, so that \<open>init\<close> changes nothing. Reading a file, matching
  a pattern and the orders in which maps are ranged over are arguments, as are the environments of the parser,
  the escaper and the execution and the values of the functions.
\<close>

section \<open>Sets\<close>

record 'v tset =
  ts_Tree :: Tree
  ts_leftDelim :: string
  ts_rightDelim :: string
  ts_parseFuncs :: "'v funcs"
  ts_execFuncs :: "'v funcs"

definition new_set :: "'v tset" where
  "new_set = \<lparr>ts_Tree = Map.empty, ts_leftDelim = [], ts_rightDelim = [], ts_parseFuncs = Map.empty, ts_execFuncs = Map.empty\<rparr>"

datatype set_error =
    ParseError perror
  | TreeError go_error
  | EscapeError Error
  | FileError string
  | SetError string "string list"

text \<open>A method leaves a set and an error, if there is one, or panics. On an error \<open>Parse\<close> and its like return no
  set, but the set they were called for stays as it was left.\<close>

type_synonym 'v set_result = "(callee_panic, 'v tset \<times> set_error option) outcome"

definition Delims :: "string \<Rightarrow> string \<Rightarrow> 'v tset \<Rightarrow> 'v tset" where
  "Delims left right s = s\<lparr>ts_leftDelim := left, ts_rightDelim := right\<rparr>"

definition Funcs :: "('v, 't) reflect \<Rightarrow> 'v FuncMap \<Rightarrow> 'v tset \<Rightarrow> callee_panic + 'v tset" where
  "Funcs rf funcMap s =
     bindE (addValueFuncs rf (ts_execFuncs s) funcMap) (\<lambda>exec.
       Inr (s\<lparr>ts_execFuncs := exec, ts_parseFuncs := addFuncs (ts_parseFuncs s) funcMap\<rparr>))"

text \<open>\<open>Tree.AddTree\<close> of a tree whose map is ranged over in the order \<open>ord\<close>.\<close>

definition add_tree :: "string list \<Rightarrow> Tree \<Rightarrow> Tree \<Rightarrow> Tree \<times> go_error option" where
  "add_tree ord t tree = AddTree tree (List.map_filter t ord)"

definition Clone :: "string list \<Rightarrow> 'v tset \<Rightarrow> go_error + 'v tset" where
  "Clone ord s =
     (let ns = Delims (ts_leftDelim s) (ts_rightDelim s) new_set;
          ns = ns\<lparr>ts_parseFuncs := ts_parseFuncs ns ++ ts_parseFuncs s, ts_execFuncs := ts_execFuncs ns ++ ts_execFuncs s\<rparr> in
      case add_tree ord (CopyTree (ts_Tree s)) (ts_Tree ns) of
        (tree, Some err) \<Rightarrow> Inl err
      | (tree, None) \<Rightarrow> Inr (ns\<lparr>ts_Tree := tree\<rparr>))"

section \<open>Escaping\<close>

definition escape_names :: "string list" where
  "escape_names = [''html_template_attrescaper'', ''html_template_commentescaper'', ''html_template_cssescaper'',
     ''html_template_cssvaluefilter'', ''html_template_htmlnamefilter'', ''html_template_htmlescaper'',
     ''html_template_jsregexpescaper'', ''html_template_jsstrescaper'', ''html_template_jsvalescaper'',
     ''html_template_nospaceescaper'', ''html_template_rcdataescaper'', ''html_template_urlescaper'',
     ''html_template_urlfilter'', ''html_template_urlnormalizer'']"

text \<open>\<open>val\<close> has the values of the functions of \<open>escape.FuncMap\<close>. On an error there is no tree any more.\<close>

definition Escape ::
  "('v, 't) reflect \<Rightarrow> (string \<Rightarrow> 'v) \<Rightarrow> esc_env \<Rightarrow> nat \<Rightarrow> string list \<Rightarrow> 'v tset \<Rightarrow> 'v set_result" where
  "Escape rf val env f ord s =
     (case EscapeTree env f ord (ts_Tree s) of
        None \<Rightarrow> None
      | Some (Inl p) \<Rightarrow> raises (OtherValue p)
      | Some (Inr r) \<Rightarrow>
          let (tree, err) = (case r of Inl err \<Rightarrow> (Map.empty, Some (EscapeError err)) | Inr tree \<Rightarrow> (tree, None)) in
          (case Funcs rf (map (\<lambda>n. (n, val n)) escape_names) (s\<lparr>ts_Tree := tree\<rparr>) of
             Inl p \<Rightarrow> raises p
           | Inr s \<Rightarrow> returns (s, err)))"

section \<open>Parsing\<close>

definition set_parse :: "parse_env \<Rightarrow> (Tree \<Rightarrow> string list) \<Rightarrow> string \<Rightarrow> 'v tset \<Rightarrow> 'v set_result" where
  "set_parse env ord inp s =
     (let env = env\<lparr>pe_funcs := [Some (\<lambda>k. k \<in> set builtin_names), Some (\<lambda>k. ts_parseFuncs s k \<noteq> None)]\<rparr> in
      case template_Parse env inp (ts_leftDelim s) (ts_rightDelim s) of
        None \<Rightarrow> None
      | Some (Inl (Panic p)) \<Rightarrow> raises (OtherValue p)
      | Some (Inl OutOfFuel) \<Rightarrow> None
      | Some (Inl e) \<Rightarrow> returns (s, Some (ParseError e))
      | Some (Inr t) \<Rightarrow>
          (let (tree, err) = add_tree (ord t) t (ts_Tree s) in
           returns (s\<lparr>ts_Tree := tree\<rparr>, map_option TreeError err)))"

definition Set_Parse :: "parse_env \<Rightarrow> (Tree \<Rightarrow> string list) \<Rightarrow> string \<Rightarrow> 'v tset \<Rightarrow> 'v set_result" where
  "Set_Parse env ord inp s = set_parse env ord inp s"

fun parse_files ::
  "parse_env \<Rightarrow> (Tree \<Rightarrow> string list) \<Rightarrow> (string \<Rightarrow> string + string) \<Rightarrow> string list \<Rightarrow> 'v tset \<Rightarrow> 'v set_result" where
  "parse_files env ord ReadFile [] s = returns (s, None)"
| "parse_files env ord ReadFile (fn # fns) s = (case ReadFile fn of
     Inl err \<Rightarrow> returns (s, Some (FileError err))
   | Inr b \<Rightarrow> bindO (set_parse env ord b s) (\<lambda>(s, err).
       if err \<noteq> None then returns (s, err) else parse_files env ord ReadFile fns s))"

definition ParseFiles ::
  "parse_env \<Rightarrow> (Tree \<Rightarrow> string list) \<Rightarrow> (string \<Rightarrow> string + string) \<Rightarrow> string list \<Rightarrow> 'v tset \<Rightarrow> 'v set_result" where
  "ParseFiles env ord ReadFile fns s =
     (if fns = [] then returns (s, Some (SetError ''template: no files named in call to ParseFiles'' []))
      else parse_files env ord ReadFile fns s)"

definition ParseGlob ::
  "parse_env \<Rightarrow> (Tree \<Rightarrow> string list) \<Rightarrow> (string \<Rightarrow> string + string) \<Rightarrow> (string \<Rightarrow> string + string list) \<Rightarrow> string \<Rightarrow>
     'v tset \<Rightarrow> 'v set_result" where
  "ParseGlob env ord ReadFile Glob pattern s = (case Glob pattern of
     Inl err \<Rightarrow> returns (s, Some (FileError err))
   | Inr fns \<Rightarrow>
       if fns = [] then returns (s, Some (SetError ''template: pattern matches no files: %#q'' [pattern]))
       else ParseFiles env ord ReadFile fns s)"

text \<open>The functions of the package: the set of the method, called for a new set, or its error.\<close>

definition returned :: "'v set_result \<Rightarrow> (callee_panic, set_error + 'v tset) outcome" where
  "returned r = bindO r (\<lambda>(s, err). returns (case err of None \<Rightarrow> Inr s | Some e \<Rightarrow> Inl e))"

definition Parse :: "parse_env \<Rightarrow> (Tree \<Rightarrow> string list) \<Rightarrow> string \<Rightarrow> (callee_panic, set_error + 'v tset) outcome" where
  "Parse env ord inp = returned (Set_Parse env ord inp new_set)"

definition new_ParseFiles ::
  "parse_env \<Rightarrow> (Tree \<Rightarrow> string list) \<Rightarrow> (string \<Rightarrow> string + string) \<Rightarrow> string list \<Rightarrow> (callee_panic, set_error + 'v tset) outcome" where
  "new_ParseFiles env ord ReadFile fns = returned (ParseFiles env ord ReadFile fns new_set)"

definition new_ParseGlob ::
  "parse_env \<Rightarrow> (Tree \<Rightarrow> string list) \<Rightarrow> (string \<Rightarrow> string + string) \<Rightarrow> (string \<Rightarrow> string + string list) \<Rightarrow> string \<Rightarrow>
     (callee_panic, set_error + 'v tset) outcome" where
  "new_ParseGlob env ord ReadFile Glob pattern = returned (ParseGlob env ord ReadFile Glob pattern new_set)"

text \<open>\<open>Must\<close> of a set and an error panics with the error.\<close>

definition Must :: "'v tset option \<Rightarrow> set_error option \<Rightarrow> set_error + 'v tset option" where
  "Must s err = (case err of Some e \<Rightarrow> Inl e | None \<Rightarrow> Inr s)"

section \<open>Execution\<close>

text \<open>\<open>Set.Execute\<close>: the execution of the trees of the set with its functions and the builtin ones.\<close>

definition Set_Execute ::
  "('v, 't) exec_env \<Rightarrow> 'v funcs \<Rightarrow> 'v tset \<Rightarrow> nat \<Rightarrow> string \<Rightarrow> 'v \<Rightarrow> string \<Rightarrow> (go_panic, string \<times> exec_error option) outcome" where
  "Set_Execute env builtinFuncs s f name data out =
     Execute (env\<lparr>ex_tree := ts_Tree s, ex_funcs := findFunction (ex_reflect env) builtinFuncs (ts_execFuncs s)\<rparr>) f name data out"

end
