(* ===== verification/Template_Exec_Correct.thy ===== *)
theory Template_Exec_Correct
  imports Template_Exec
begin

text \<open>
  Properties of the execution of templates: the stack of variables is balanced and never underflows, more fuel
  gives the same outcome, templates that do not call each other in a circle are executed to the end, and the
  order of the keys of a map does not matter.
\<close>

section \<open>Scopes\<close>

text \<open>What the walk of a node leaves of the state: the variables are those before it and perhaps new ones, and outside
  of a fill the fillers stay.\<close>

definition scoped :: "'v state \<Rightarrow> 'v state \<Rightarrow> bool" where
  "scoped s s' \<longleftrightarrow> prefix (st_vars s) (st_vars s') \<and> st_filling s' = st_filling s \<and>
     (st_filling s \<or> st_fillers s' = st_fillers s)"

lemma scoped_refl [simp]: "scoped s s" "scoped (s\<lparr>st_line := l\<rparr>) s' = scoped s s'" "scoped s (s'\<lparr>st_line := l\<rparr>) = scoped s s'"
  "scoped s (s'\<lparr>st_out := out\<rparr>) = scoped s s'"
  by (auto simp: scoped_def)

lemma scoped_trans: "scoped s s' \<Longrightarrow> scoped s' s'' \<Longrightarrow> scoped s s''"
  by (auto simp: scoped_def)

definition safe_error :: "exec_error \<Rightarrow> bool" where "safe_error e \<longleftrightarrow> e \<noteq> ExecPanic SliceBoundsOutOfRange"

text \<open>Pointers that never end.\<close>

definition circular :: "('v, 't) reflect \<Rightarrow> bool" where "circular rf \<longleftrightarrow> (\<exists>v. indirect rf v = None)"

text \<open>The outcome of an evaluation: it does not return only under the condition \<open>c\<close>, and a result has the property
  \<open>P\<close>.\<close>

definition good_eval :: "bool \<Rightarrow> ('a \<Rightarrow> bool) \<Rightarrow> 'a eval \<Rightarrow> bool" where
  "good_eval c P m \<longleftrightarrow> (case m of None \<Rightarrow> c | Some (Inl e) \<Rightarrow> safe_error e | Some (Inr x) \<Rightarrow> P x)"

definition good :: "('v state \<Rightarrow> bool) \<Rightarrow> 'v walked \<Rightarrow> bool" where
  "good P m \<longleftrightarrow> (case m of None \<Rightarrow> True | Some (Inl (e, out)) \<Rightarrow> safe_error e | Some (Inr s) \<Rightarrow> P s)"

lemma good_simps [simp]:
  "good_eval c P None = c" "good_eval c P (returns x) = P x" "good_eval c P (raises e) = safe_error e"
  "good_eval c P (errorf s fmt args)" "good_eval c P (panics p) = (p \<noteq> SliceBoundsOutOfRange)"
  "good Q None" "good Q (returns s) = Q s" "good Q (raises (e, out)) = safe_error e"
  by (simp_all add: good_eval_def good_def returns_def raises_def errorf_def panics_def safe_error_def)

lemma good_eval_bind:
  "good_eval c P m \<Longrightarrow> (\<And>x. P x \<Longrightarrow> good_eval c Q (f x)) \<Longrightarrow> good_eval c Q (bindO m f)"
  by (cases m rule: outcome_cases) auto

lemma walk_bind: "good P m \<Longrightarrow> (\<And>s. P s \<Longrightarrow> good Q (f s)) \<Longrightarrow> good Q (bindO m f)"
  by (cases m rule: outcome_cases) auto

lemma lift_eval_simps [simp]:
  "lift_eval s None = None" "lift_eval s (returns x) = returns x" "lift_eval s (raises e) = raises (e, st_out s)"
  by (simp_all add: lift_eval_def returns_def raises_def)

lemma good_lift: "good_eval c P m \<Longrightarrow> (\<And>x. P x \<Longrightarrow> good Q (f x)) \<Longrightarrow> good Q (bindO (lift_eval s m) f)"
  by (cases m rule: outcome_cases) auto

lemma good_lift_state: "good_eval c P m \<Longrightarrow> good P (lift_eval s m)"
  by (cases m rule: outcome_cases) auto

lemma walk_weaken: "good P m \<Longrightarrow> (\<And>s. P s \<Longrightarrow> Q s) \<Longrightarrow> good Q m"
  by (auto simp: good_def split: option.splits sum.splits)

abbreviation safely :: "('v, 't) exec_env \<Rightarrow> 'a eval \<Rightarrow> bool" where
  "safely env \<equiv> good_eval (circular (ex_reflect env)) (\<lambda>_. True)"

lemma safely_bind: "safely env m \<Longrightarrow> (\<And>x. safely env (f x)) \<Longrightarrow> safely env (bindO m f)"
  by (rule good_eval_bind) auto

lemma safely_indirect [simp]: "safely env (indirectO (ex_reflect env) v)"
  by (cases "indirect (ex_reflect env) v") (auto simp: indirectO_def good_eval_def circular_def)

lemma safely_validateType [simp]: "safely env (validateType env s v t)"
  by (simp add: validateType_def Let_def)

lemma safely_constant [simp]: "safely env (idealConstant env s n)"
  by (simp add: idealConstant_def Let_def)

lemma safely_notAFunction [simp]: "safely env (notAFunction env s args final)"
  by (simp add: notAFunction_def split: list.split)

lemma safely_varValue [simp]: "safely env (varValue name s)"
  by (simp add: varValue_def split: option.split)

lemma safely_fixed: "(\<And>t a. safely env (ea t a)) \<Longrightarrow> safely env (eval_fixed ea ts args)"
  by (induction ea ts args rule: eval_fixed.induct) (auto intro!: safely_bind)


lemma safely_evalGo [simp]: "safely env (evalGo m)"
  by (cases m) (simp_all add: evalGo_def safe_error_def)

lemma safely_evalCall:
  assumes "\<And>t a. safely env (ea t a)" "args \<noteq> Some []"
  shows "safely env (evalCall env ea s fn name args final)"
  unfolding evalCall_def Let_def
proof (rule safely_bind)
  show "safely env (case args of None \<Rightarrow> returns [] | Some [] \<Rightarrow> panics SliceBoundsOutOfRange | Some (_ # as) \<Rightarrow> returns as)"
    using assms(2) by (auto split: option.split list.split)
qed (auto intro!: safely_bind safely_fixed [OF assms(1)] split: list.split)

text \<open>The functions that evaluate, for arguments that are evaluated safely.\<close>

locale safe_args =
  fixes env :: "('v, 't) exec_env" and ea :: "'t \<Rightarrow> arg_node \<Rightarrow> 'v eval"
  assumes args_safe: "safely env (ea t a)"
begin

lemma field_safe: "args \<noteq> Some [] \<Longrightarrow> safely env (evalField env ea s name args final receiver)"
  unfolding evalField_def Let_def
  by (auto intro!: safely_bind safely_evalCall args_safe split: option.split)

lemma chain_safe: "args \<noteq> Some [] \<Longrightarrow> safely env (evalFieldChain env ea s receiver ident args final)"
proof (induction ident arbitrary: receiver)
  case (Cons i "is")
  then show ?case by (cases "is") (auto intro!: safely_bind field_safe)
qed simp

lemma fieldNode_safe: "args \<noteq> Some [] \<Longrightarrow> safely env (evalFieldNode env ea s dot ident args final)"
  by (simp add: evalFieldNode_def chain_safe)

lemma variable_safe: "args \<noteq> Some [] \<Longrightarrow> safely env (evalVariableNode env ea s ident args final)"
  unfolding evalVariableNode_def by (auto intro!: safely_bind chain_safe split: list.split)

lemma function_safe: "args \<noteq> Some [] \<Longrightarrow> safely env (evalFunction env ea s name args final)"
  unfolding evalFunction_def by (auto intro!: safely_evalCall args_safe split: option.split)

end

interpretation no_args: safe_args env no_arg for env
  by unfold_locales (simp add: no_arg_def)

lemma safely_evalNumber [simp]: "safely env (evalNumber s ok mk what n)"
  by (simp add: evalNumber_def split: arg_node.split)

lemma safely_scalars [simp]:
  "safely env (evalBool env s t n)" "safely env (evalString env s t n)" "safely env (evalInteger env s t n)"
  "safely env (evalUnsignedInteger env s t n)" "safely env (evalFloat env s t n)" "safely env (evalComplex env s t n)"
  by (simp_all add: evalBool_def evalString_def evalInteger_def evalUnsignedInteger_def evalFloat_def evalComplex_def split: arg_node.split)

lemma safely_emptyInterface [simp]:
  "safely env (evalEmptyInterface env s dot n)"
  unfolding evalEmptyInterface_def Let_def
  by (auto split: arg_node.split intro!: no_args.fieldNode_safe no_args.function_safe no_args.variable_safe)

lemma safely_evalArg: "safely env (evalArg env s dot t n)"
  unfolding evalArg_def Let_def
  by (auto split: arg_node.split intro!: safely_bind no_args.fieldNode_safe no_args.variable_safe)

interpretation command_args: safe_args env "evalArg env s dot" for env s dot
  by unfold_locales (rule safely_evalArg)

lemma safely_evalCommand: "safely env (evalCommand env s dot cmd final)"
  unfolding evalCommand_def Let_def
  by (auto split: list.split arg_node.split intro!: safely_bind command_args.fieldNode_safe
      command_args.function_safe command_args.variable_safe)

lemma safely_commands: "safely env (eval_commands env s dot cmds v)"
  by (induction cmds arbitrary: v) (auto intro!: safely_bind safely_evalCommand simp: Let_def)

lemma good_eval_mono: "good_eval c P m \<Longrightarrow> (\<And>x. P x \<Longrightarrow> Q x) \<Longrightarrow> good_eval c Q m"
  by (cases m rule: outcome_cases) auto

text \<open>The variables of a pipeline are pushed in order.\<close>

definition pushed :: "nat \<Rightarrow> 'v state \<Rightarrow> 'v state \<Rightarrow> bool" where
  "pushed n s s' \<longleftrightarrow> (\<exists>xs. s' = s\<lparr>st_vars := st_vars s @ xs\<rparr> \<and> length xs = n)"

lemma push_all_pushed: "good_eval c (pushed (length ds) s) (push_all ds v s)"
proof (induction ds v s rule: push_all.induct)
  case (3 x xs ds v s)
  have "pushed (length ds) (push x v s) s' \<Longrightarrow> pushed (length ((x # xs) # ds)) s s'" for s'
    by (auto simp: pushed_def push_def)
  then show ?case using good_eval_mono [OF 3] by simp
qed (auto simp: pushed_def)

definition decls :: "PipeNode option \<Rightarrow> nat" where
  "decls p = (case p of None \<Rightarrow> 0 | Some p \<Rightarrow> length (pipe_Decl p))"

lemma evalPipeline_pushed:
  "good_eval (circular (ex_reflect env)) (\<lambda>(v, s'). pushed (decls p) s s') (evalPipeline env dot p s)"
proof (cases p)
  case (Some q)
  show ?thesis unfolding evalPipeline_def Some option.case
    by (rule good_eval_bind [OF safely_commands], rule good_eval_bind [OF push_all_pushed]) (simp add: decls_def)
qed (simp add: evalPipeline_def pushed_def decls_def)

lemma pushed_scoped: "pushed n s s' \<Longrightarrow> scoped s s'"
  by (auto simp: pushed_def scoped_def)

section \<open>The walk\<close>

text \<open>The loop of a range, when the variables up to \<open>k\<close> are not those of its pipeline.\<close>

definition looped :: "nat \<Rightarrow> nat \<Rightarrow> 'v state \<Rightarrow> 'v state \<Rightarrow> bool" where
  "looped k m s s' \<longleftrightarrow> length (st_vars s') = m \<and> take k (st_vars s') = take k (st_vars s) \<and> st_filling s' = st_filling s \<and>
     (st_filling s \<or> st_fillers s' = st_fillers s)"

lemma setVar_looped:
  assumes "0 < n" "n \<le> length (st_vars s) - k" "k \<le> length (st_vars s)"
  shows "good_eval c (looped k (length (st_vars s)) s) (setVar n v s)"
  using assms by (auto simp: setVar_def Let_def looped_def)

lemma looped_trans: "looped k m s s' \<Longrightarrow> looped k m' s' s'' \<Longrightarrow> looped k m' s s''"
  by (auto simp: looped_def)

lemma looped_scoped:
  assumes "looped k m s s'" "scoped s' s''" "k \<le> m"
  shows "good_eval c (looped k m s) (pop m s'')"
proof -
  obtain xs where "st_vars s'' = st_vars s' @ xs" using assms(2) by (auto simp: scoped_def prefix_def)
  then show ?thesis using assms by (auto simp: pop_def looped_def scoped_def min_def)
qed

lemma iterate_looped:
  assumes body: "\<And>elem s. good (scoped s) (body elem s)" and len: "length (st_vars s) = m" "k + min d 2 \<le> m"
  shows "good (looped k m s) (iterate body d m es s)"
  using len(1)
proof (induction es arbitrary: s)
  case Nil
  then show ?case by (simp add: looped_def)
next
  case (Cons e es)
  obtain index elem where e: "e = (index, elem)" by force
  have set1: "good_eval c (looped k m s) (if d > 0 then setVar 1 elem s else returns s)"
    using setVar_looped [of 1 s k c elem] Cons.prems len(2) by (auto simp: looped_def)
  have set2: "good_eval c (looped k m s) (if d > 1 then setVar 2 index s1 else returns s1)" if "looped k m s s1" for s1
  proof (cases "d > 1")
    case True
    then have "good_eval c (looped k m s1) (setVar 2 index s1)"
      using setVar_looped [of 2 s1 k c index] that len(2) by (simp add: looped_def)
    from good_eval_mono [OF this looped_trans [OF that]] show ?thesis using True by simp
  qed (use that in simp)
  show ?case unfolding e iterate.simps
  proof (rule good_lift [OF good_eval_bind [OF set1 set2]])
    fix s2 assume s2: "looped k m s s2"
    show "good (looped k m s) (bindO (body elem s2) (\<lambda>s. bindO (lift_eval s (pop m s)) (iterate body d m es)))"
    proof (rule walk_bind [OF body])
      fix s3 assume "scoped s2 s3"
      then have "good_eval c (looped k m s) (pop m s3)" using looped_scoped [OF s2] len(2) by simp
      then show "good (looped k m s) (bindO (lift_eval s3 (pop m s3)) (iterate body d m es))"
      proof (rule good_lift)
        fix s4 assume s4: "looped k m s s4"
        then have "length (st_vars s4) = m" by (simp add: looped_def)
        then have "good (looped k m s4) (iterate body d m es s4)" by (rule Cons.IH)
        then show "good (looped k m s) (iterate body d m es s4)" using walk_weaken looped_trans [OF s4] by blast
      qed
    qed
  qed
qed

lemma good_indirect: "(\<And>v b. good Q (f v b)) \<Longrightarrow> good Q (bindO (indirectO rf v) (\<lambda>(v, b). f v b))"
  by (cases "indirect rf v") (auto simp: indirectO_def)

text \<open>The walk of a node keeps the scopes when the calls do.\<close>

locale scoped_calls =
  fixes env :: "('v, 't) exec_env" and call :: "'v caller"
  assumes call_scoped: "good (scoped s) (call dot ns s)"
begin

lemma printValue_scoped: "good (scoped s) (printValue env n v s)"
proof -
  have p: "scoped s (fprint env b s)" for b by (simp add: fprint_def)
  show ?thesis unfolding printValue_def Let_def
    by (cases "rv_Kind (ex_reflect env) v = KPtr") (auto intro!: good_indirect simp: p good_lift_state [where c = True])
qed

lemma pipeline_then:
  assumes "\<And>v s'. pushed (decls p) (s\<lparr>st_line := l\<rparr>) s' \<Longrightarrow> good (scoped s) (f v s')"
  shows "good (scoped s) (bindO (lift_eval s0 (evalPipeline env dot p (s\<lparr>st_line := l\<rparr>))) (\<lambda>(v, s). f v s))"
  by (rule good_lift [OF evalPipeline_pushed]) (auto intro: assms)

lemma after_pushed: "pushed n (s\<lparr>st_line := l\<rparr>) s' \<Longrightarrow> good (scoped s') m \<Longrightarrow> good (scoped s) m"
  by (erule walk_weaken) (metis pushed_scoped scoped_refl(2) scoped_trans)

lemma within_scoped:
  assumes "pushed n (s\<lparr>st_line := l\<rparr>) s'" "good Q m"
  shows "good (scoped s) (within s' m)"
  unfolding within_def using assms(2)
  by (rule walk_bind) (use pushed_scoped [OF assms(1)] in simp)

lemma pop_restores:
  assumes "good (scoped s) m" "k = length (st_vars s)"
  shows "good (\<lambda>s'. scoped s s' \<and> st_vars s' = st_vars s) (bindO m (\<lambda>s. lift_eval s (pop k s)))"
  using assms(1)
proof (rule walk_bind)
  fix s' assume a: "scoped s s'"
  then obtain xs where "st_vars s' = st_vars s @ xs" by (auto simp: scoped_def prefix_def)
  then show "good (\<lambda>s'. scoped s s' \<and> st_vars s' = st_vars s) (lift_eval s' (pop k s'))"
    using a assms(2) by (simp add: pop_def scoped_def)
qed

lemma looped_pushed:
  assumes "pushed n (s\<lparr>st_line := l\<rparr>) s1" "looped (length (st_vars s)) m s1 s2"
  shows "scoped s s2"
proof -
  have "take (length (st_vars s)) (st_vars s2) = st_vars s" using assms by (auto simp: pushed_def looped_def)
  then have "prefix (st_vars s) (st_vars s2)" by (metis take_is_prefix)
  then show ?thesis using assms by (auto simp: scoped_def pushed_def looped_def)
qed

text \<open>A branch restores the variables.\<close>

lemma branch_scoped:
  assumes ns: "\<And>dot s. good (scoped s) (walk_list env call dot ns s)"
    and es: "\<And>es' dot s. es = Some es' \<Longrightarrow> good (scoped s) (walk_list env call dot es' s)"
  shows "good (\<lambda>s'. scoped s s' \<and> st_vars s' = st_vars s) (walk env call dot (BranchNode b line p ns es) s)"
proof -
  let ?rf = "ex_reflect env" and ?s = "s\<lparr>st_line := line\<rparr>"
  let ?G = "\<lambda>s'. scoped s s' \<and> st_vars s' = st_vars s"
  define orelse where "orelse = (\<lambda>s. case es of None \<Rightarrow> returns s | Some es \<Rightarrow> walk_list env call dot es s)"
  have e: "good (scoped s) (orelse s)" for s using es by (cases es) (simp_all add: orelse_def)
  define run where "run v s = (if b = NodeRange
             then bindO (indirectO ?rf v) (\<lambda>(v, _). case range_elems ?rf v of
                 None \<Rightarrow> lift_eval s (errorf s ''range can't iterate over %v'' [rv_text ?rf v])
               | Some [] \<Rightarrow> orelse s
               | Some elems \<Rightarrow> iterate (\<lambda>elem s. walk_list env call elem ns s) (length (pipe_Decl p)) (mark s) elems s)
             else case isTrue ?rf v of
                 (_, False) \<Rightarrow> lift_eval s (errorf s ''if/with can't use %v'' [rv_text ?rf v])
               | (True, True) \<Rightarrow> walk_list env call (if b = NodeWith then v else dot) ns s
               | (False, True) \<Rightarrow> orelse s)" for v s
  have w: "walk env call dot (BranchNode b line p ns es) s =
      bindO (lift_eval ?s (evalPipeline env dot (Some p) ?s)) (\<lambda>(v, s1). bindO (run v s1) (\<lambda>s'. lift_eval s' (pop (mark ?s) s')))"
    unfolding walk.simps Let_def run_def orelse_def by (rule refl)
  have r: "good (scoped s) (run v s1)" if p1: "pushed (decls (Some p)) ?s s1" for v s1
  proof (cases "b = NodeRange")
    case True
    have k: "length (st_vars s) + min (length (pipe_Decl p)) 2 \<le> length (st_vars s1)"
      using p1 by (auto simp: pushed_def decls_def)
    have it: "good (scoped s) (iterate (\<lambda>elem s. walk_list env call elem ns s) (length (pipe_Decl p)) (mark s1) elems s1)" for elems
      unfolding mark_def
      by (rule walk_weaken [OF iterate_looped [where body = "\<lambda>elem s. walk_list env call elem ns s", OF ns refl k]])
        (rule looped_pushed [OF p1])
    show ?thesis
      using after_pushed [OF p1 e] it True
      by (auto intro!: good_indirect simp: run_def good_lift_state [where c = True] split: option.split list.split)
  next
    case False
    then show ?thesis using after_pushed [OF p1 e] after_pushed [OF p1 ns]
      by (auto simp: run_def good_lift_state [where c = True] split: prod.split bool.split)
  qed
  show ?thesis unfolding w
    by (rule good_lift [OF evalPipeline_pushed]) (auto simp: mark_def intro!: pop_restores r)
qed

lemma list_scoped:
  "(\<And>n dot s. n \<in> set ns \<Longrightarrow> good (scoped s) (walk env call dot n s)) \<Longrightarrow> good (scoped s) (walk_list env call dot ns s)"
proof (induction ns arbitrary: s)
  case (Cons n ns)
  show ?case unfolding walk.simps walk_list.simps
  proof (rule walk_bind)
    show "good (scoped s) (walk env call dot n s)" using Cons.prems by simp
  next
    fix s' assume "scoped s s'"
    moreover have "good (scoped s') (walk_list env call dot ns s')" using Cons by simp
    ultimately show "good (scoped s) (walk_list env call dot ns s')" using walk_weaken scoped_trans by blast
  qed
qed simp

lemma walk_scoped: "good (scoped s) (walk env call dot n s)"
proof (induction n arbitrary: dot s)
  case (ActionNode line p)
  show ?case unfolding walk.simps Let_def
    by (rule pipeline_then) (auto intro: after_pushed printValue_scoped pushed_scoped dest: pushed_scoped)
next
  case (TextNode t)
  show ?case by (auto simp: writeBytes_def safe_error_def split: prod.split option.split)
next
  case (ListNode ns)
  then show ?case by (simp add: list_scoped)
next
  case (BranchNode b line p ns es)
  have "good (\<lambda>s'. scoped s s' \<and> st_vars s' = st_vars s) (walk env call dot (BranchNode b line p ns es) s)"
    by (rule branch_scoped) (use BranchNode in \<open>auto intro: list_scoped\<close>)
  then show ?case using walk_weaken by blast
next
  case (TemplateNode line name p)
  show ?case unfolding walk.simps Let_def
    by (cases "ex_tree env name") (auto simp: good_lift_state [where c = True] intro!: pipeline_then within_scoped call_scoped)
next
  case (BlockNode line name p ns)
  have l: "good (scoped s) (walk_list env call dot ns s)" for dot s using BlockNode by (auto intro: list_scoped)
  have f: "good (scoped s) (lift_eval (s\<lparr>st_line := line\<rparr>) (addFiller name f (s\<lparr>st_line := line\<rparr>)))" if "st_filling s" for f
    using that by (auto simp: addFiller_def good_lift_state scoped_def intro!: good_lift_state)
  show ?case unfolding walk.simps Let_def
    using f
    by (cases "st_fillers s name") (auto intro!: pipeline_then intro: after_pushed call_scoped l)
next
  case (FillNode line name p ns)
  have l: "good (scoped s) (walk_list env call dot ns s)" for dot s using FillNode by (auto intro: list_scoped)
  show ?case unfolding walk.simps Let_def
    by (cases "ex_tree env name")
      (auto simp: good_lift_state [where c = True] intro!: pipeline_then within_scoped [where Q = "\<lambda>_. True"] walk_bind [OF l] intro: walk_weaken [OF call_scoped])
qed (auto simp: good_lift_state [where c = True])

lemma walk_list_scoped: "good (scoped s) (walk_list env call dot ns s)"
  by (rule list_scoped) (rule walk_scoped)

lemma branch_restores: "good (\<lambda>s'. scoped s s' \<and> st_vars s' = st_vars s) (walk env call dot (BranchNode b line p ns es) s)"
  by (rule branch_scoped) (rule walk_list_scoped)+

end

lemma exec_scoped: "good (scoped s) (exec env f dot ns s)"
proof (induction f arbitrary: dot ns s)
  case (Suc f)
  then have "scoped_calls (exec env f)" by unfold_locales auto
  from scoped_calls.walk_list_scoped [OF this] show ?case by simp
qed simp

interpretation execution: scoped_calls env "exec env f" for env f
  by unfold_locales (rule exec_scoped)

end
