(* ===== verification/Template_Set_Correct.thy ===== *)
theory Template_Set_Correct
  imports Template_Set Template_Exec_Theorems Template_Parse_Correct
begin

text \<open>
  What sets of templates keep and promise: the names of their trees, the agreement of the functions the parser
  knows with those the execution finds, copies, and the state after a failed escaping; and what the builtin
  functions return.
\<close>

section \<open>Names of trees\<close>

definition named_tree :: "Tree \<Rightarrow> bool" where
  "named_tree t \<longleftrightarrow> (\<forall>k d. t k = Some d \<longrightarrow> def_Name d = k)"

lemma empty_tree_named [simp]: "named_tree Map.empty"
  by (simp add: named_tree_def)

lemma tree_update_named: "named_tree t \<Longrightarrow> def_Name d = k \<Longrightarrow> named_tree (t(k \<mapsto> d))"
  by (simp add: named_tree_def)

lemma AddTree_named: "named_tree t \<Longrightarrow> named_tree (fst (AddTree t ds))"
  by (induction ds arbitrary: t) (auto simp: Tree_Add_def tree_update_named split: sum.splits if_splits simp del: fun_upd_apply)

lemma set_tree_named: "named_tree t \<Longrightarrow> named_tree (fst (add_tree ord new t))"
  by (simp add: add_tree_def AddTree_named)

text \<open>The escaper does not change the trees it looks at.\<close>

definition keeps :: "escaper \<Rightarrow> 'a esc \<Rightarrow> bool" where
  "keeps e m \<longleftrightarrow> (case m of Some (Inr (x, e')) \<Rightarrow> esc_tmpl e' = esc_tmpl e | _ \<Rightarrow> True)"

lemma keeps_ret [simp]: "keeps e (ret x e') \<longleftrightarrow> esc_tmpl e' = esc_tmpl e"
  by (simp add: keeps_def ret_def)

lemma keeps_fails [simp]: "keeps e None" "keeps e (Some (Inl p))"
  by (simp_all add: keeps_def)

lemma keeps_bind:
  assumes "keeps e m" "\<And>x e'. esc_tmpl e' = esc_tmpl e \<Longrightarrow> keeps e' (f x e')"
  shows "keeps e (bindX m f)"
proof (cases "\<exists>x e'. m = Some (Inr (x, e'))")
  case True
  then obtain x e' where m: "m = Some (Inr (x, e'))" by blast
  then show ?thesis using assms(1) assms(2) [of e' x] by (auto simp: keeps_def split: option.splits sum.splits)
next
  case False
  then show ?thesis by (auto simp: bindX_def split: option.splits sum.splits)
qed

lemma keeps_liftX [simp]: "keeps e (liftX m e)"
  by (auto simp: keeps_def liftX_def split: option.splits sum.splits)

lemma keeps_edits [simp]:
  "keeps e (editActionNode n cmds e)" "keeps e (editTemplateNode n callee e)" "keeps e (editTextNode n t e)"
  by (simp_all add: editActionNode_def editTemplateNode_def editTextNode_def)

lemma keeps_trans: "keeps e' m \<Longrightarrow> esc_tmpl e' = esc_tmpl e \<Longrightarrow> keeps e m"
  by (auto simp: keeps_def split: option.splits sum.splits)

lemma each_keeps: "(\<And>k v e. keeps e (f k v e)) \<Longrightarrow> keeps e (each f kvs e)"
  by (induction f kvs e rule: each.induct) (auto intro!: keeps_bind)

lemma merge_trial_keeps: "keeps e (merge_trial e e1)"
  unfolding merge_trial_def
  by (intro keeps_bind keeps_trans [OF each_keeps]) (simp_all add: each_keeps)

lemma nodes_keep:
  "(\<And>n c a e. n \<in> set ns \<Longrightarrow> keeps e (escape env et c a n e)) \<Longrightarrow> keeps e (escapeList env et c tname path k ns e)"
  by (induction ns arbitrary: c k e) (auto intro!: keeps_bind)

lemma escape_keeps:
  assumes et: "\<And>c name line e. keeps e (et c name line e)"
  shows "keeps e (escape env et c a n e)"
proof (induction n arbitrary: c a e)
  case (ActionNode line p)
  then show ?case by (auto simp: escapeActionNode_def intro!: keeps_bind split: sum.split option.split)
next
  case (BranchNode b line p ns es)
  have ns: "keeps e (escapeList env et c tname path k ns e)" for c tname path k e
    by (rule nodes_keep) (rule BranchNode.IH(1))
  have es: "keeps e (escapeList env et c tname path k l e)" if "es = Some l" for c tname path k l e
    by (rule nodes_keep) (use BranchNode.IH(2) that in auto)
  have trial: "keeps e (case m of None \<Rightarrow> None | Some (Inl p) \<Rightarrow> Some (Inl p) | Some (Inr (c1, _)) \<Rightarrow> ret (f c1) e)"
    for m :: "Context esc" and f :: "Context \<Rightarrow> bool \<times> Context" and e
    by (auto split: option.split sum.split)
  have else_list: "keeps e (case es of None \<Rightarrow> ret c e | Some l \<Rightarrow> escapeList env et c tname path k l e)" for c tname path k e
    using es by (cases es) simp_all
  show ?case unfolding escape.simps by (intro keeps_bind ns) (auto intro!: keeps_bind trial else_list)
next
  case (TemplateNode line name p)
  then show ?case by (auto simp: escapeTemplateNode_def intro!: keeps_bind et)
next
  case (TextNode t)
  then show ?case by (auto simp: escapeTextNode_def intro!: keeps_bind split: option.split)
qed (auto intro!: nodes_keep)

lemma escapeTemplateBody_keeps:
  assumes "\<And>c name line e. keeps e (et c name line e)"
  shows "keeps e (escapeTemplateBody env et c t e)"
proof -
  have "keeps e (escapeListConditionally env et c tname ns filt e)" for c tname ns filt e
    by (auto simp: escapeListConditionally_def intro!: keeps_bind merge_trial_keeps split: option.split sum.split)
  then show ?thesis unfolding escapeTemplateBody_def by (rule keeps_trans) simp
qed

lemma computeOutCtx_keeps:
  "(\<And>c name line e. keeps e (et c name line e)) \<Longrightarrow> keeps e (computeOutCtx env et c t e)"
  unfolding computeOutCtx_def by (auto intro!: keeps_bind escapeTemplateBody_keeps split: prod.split)

lemma escapeTree_keeps: "keeps e (escapeTree env f c name line e)"
proof (induction f arbitrary: c name line e)
  case (Suc f)
  have d: "keeps e (derive t name dname e)" for t dname e by (auto simp: derive_def Let_def split: option.split)
  have rest: "keeps e' (bindX (derive t name dname e') (\<lambda>t e. bindX (computeOutCtx env (escapeTree env f) c t e) (\<lambda>c e. ret (c, dname) e)))"
    for e' t dname
    by (intro keeps_bind d computeOutCtx_keeps Suc.IH) simp
  show ?case by (auto simp: Let_def intro!: keeps_trans [OF rest] split: option.split)
qed simp

lemma escape_all_keeps: "keeps e (escape_all env f names e)"
  by (induction names arbitrary: e) (auto intro!: keeps_bind escapeTree_keeps split: option.split)

lemma commit_all_named: "named_tree tree \<Longrightarrow> commit_all e names tree = Inr tree' \<Longrightarrow> named_tree tree'"
proof (induction names arbitrary: tree)
  case (Cons name names)
  show ?case
  proof (cases "tree name")
    case (Some t)
    then have "named_tree (tree(name \<mapsto> t\<lparr>def_List := ns\<rparr>))" for ns
      using Cons.prems(1) by (auto simp: named_tree_def)
    then show ?thesis using Cons.IH Cons.prems(2) Some by (auto simp: bindE_eq_Inr)
  qed (use Cons in auto)
qed simp

lemma EscapeTree_named:
  assumes "named_tree tree" "EscapeTree env f names tree = Some (Inr (Inr tree'))"
  shows "named_tree tree'"
proof -
  obtain e where e: "escape_all env f names (newEscaper tree) = Some (Inr (None, e))" "commit e names = Inr tree'"
    using assms(2) by (auto simp: EscapeTree_def bindE_eq_Inr split: option.splits sum.splits prod.splits)
  have "esc_tmpl e = tree"
    using escape_all_keeps [of "newEscaper tree" env f names] e(1) by (simp add: keeps_def newEscaper_def)
  then obtain tree1 where "AddTree tree (map snd (esc_derived e)) = (tree1, None)"
    "commit_all e (names @ map fst (esc_derived e)) tree1 = Inr tree'"
    using e(2) by (auto simp: commit_def split: prod.splits option.splits)
  moreover from this have "named_tree tree1" using AddTree_named [OF assms(1), of "map snd (esc_derived e)"] by simp
  ultimately show ?thesis using commit_all_named by blast
qed

section \<open>Functions\<close>

text \<open>The functions of a set are functions with good results, and the parser knows the same ones.\<close>

definition good_funcs :: "('v, 't) reflect \<Rightarrow> 'v funcs \<Rightarrow> bool" where
  "good_funcs rf m \<longleftrightarrow> (\<forall>name fn. m name = Some fn \<longrightarrow> rv_Kind rf fn = KFunc \<and> goodFunc rf (rv_Type rf fn))"

lemma good_empty [simp]: "good_funcs rf Map.empty"
  by (simp add: good_funcs_def)

lemma good_update:
  "good_funcs rf m \<Longrightarrow> rv_Kind rf v = KFunc \<Longrightarrow> goodFunc rf (rv_Type rf v) \<Longrightarrow> good_funcs rf (m(name \<mapsto> v))"
  by (simp add: good_funcs_def)

lemma addValueFuncs_good: "good_funcs rf m \<Longrightarrow> addValueFuncs rf m fm = Inr m' \<Longrightarrow> good_funcs rf m'"
proof (induction fm arbitrary: m)
  case (Cons x fm)
  then show ?case using good_update [of rf m "snd x" "fst x"] by (cases x) (simp del: fun_upd_apply split: if_splits)
qed simp

lemma addFuncs_dom: "dom (addFuncs m fm) = dom m \<union> fst ` set fm"
  by (induction m fm rule: addFuncs.induct) (simp_all del: fun_upd_apply)

lemma addValueFuncs_eq: "addValueFuncs rf m fm = Inr m' \<Longrightarrow> m' = addFuncs m fm"
  by (induction rf m fm rule: addValueFuncs.induct) (auto split: if_splits)

definition set_wf :: "('v, 't) reflect \<Rightarrow> 'v tset \<Rightarrow> bool" where
  "set_wf rf s \<longleftrightarrow> named_tree (ts_Tree s) \<and> ts_parseFuncs s = ts_execFuncs s \<and> good_funcs rf (ts_execFuncs s)"

lemma Funcs_wf: "set_wf rf s \<Longrightarrow> Funcs rf fm s = Inr s' \<Longrightarrow> set_wf rf s'"
  by (auto simp: set_wf_def Funcs_def bindE_eq_Inr dest: addValueFuncs_eq intro: addValueFuncs_good)

lemma set_parse_wf:
  assumes "set_wf rf s" "set_parse env ord inp s = returns (s', e)"
  shows "set_wf rf s'"
proof -
  have "s' = s \<or> (\<exists>t tree err. add_tree (ord t) t (ts_Tree s) = (tree, err) \<and> s' = s\<lparr>ts_Tree := tree\<rparr>)"
    using assms(2) by (auto simp: set_parse_def Let_def split: option.splits sum.splits perror.splits prod.splits)
  moreover have "named_tree tree" if "add_tree (ord t) t (ts_Tree s) = (tree, err)" for t tree err
    using set_tree_named [of "ts_Tree s" "ord t" t] assms(1) that by (simp add: set_wf_def)
  ultimately show ?thesis using assms(1) by (auto simp: set_wf_def)
qed

lemma parse_files_wf:
  "set_wf rf s \<Longrightarrow> parse_files env ord ReadFile fns s = returns (s', e) \<Longrightarrow> set_wf rf s'"
proof (induction fns arbitrary: s)
  case (Cons fn fns)
  show ?case
  proof (cases "ReadFile fn")
    case (Inr b)
    then obtain s1 e1 where "set_parse env ord b s = returns (s1, e1)"
      "(if e1 \<noteq> None then returns (s1, e1) else parse_files env ord ReadFile fns s1) = returns (s', e)"
      using Cons.prems(2) by (auto simp: bindO_eq_returns simp del: parse_files.simps(1))
    then show ?thesis using set_parse_wf [OF Cons.prems(1)] Cons.IH [of s1] by (cases e1) simp_all
  qed (use Cons.prems in simp)
qed simp

lemma ParseFiles_wf: "set_wf rf s \<Longrightarrow> ParseFiles env ord ReadFile fns s = returns (s', e) \<Longrightarrow> set_wf rf s'"
  by (auto simp: ParseFiles_def parse_files_wf split: if_splits)

lemma Escape_wf:
  assumes "set_wf rf s" "Escape rf val env f ord s = returns (s', e)"
  shows "set_wf rf s'"
proof -
  obtain tree where t: "tree = Map.empty \<or> EscapeTree env f ord (ts_Tree s) = Some (Inr (Inr tree))"
    "Funcs rf (map (\<lambda>n. (n, val n)) escape_names) (s\<lparr>ts_Tree := tree\<rparr>) = Inr s'"
    using assms(2) by (auto simp: Escape_def Let_def split: option.splits sum.splits prod.splits)
  then have "set_wf rf (s\<lparr>ts_Tree := tree\<rparr>)" using assms(1) EscapeTree_named by (auto simp: set_wf_def)
  from Funcs_wf [OF this t(2)] show ?thesis .
qed

section \<open>Copies\<close>

lemma CopyTree_eq [simp]: "CopyTree t = t"
  by (simp add: CopyTree_def CopyDefine_def CopyList_eq fun_eq_iff option.map_ident_strong)

lemma AddTree_all:
  assumes "distinct ord" "named_tree t" "\<And>k. k \<in> set ord \<Longrightarrow> tree k = None"
  shows "AddTree tree (List.map_filter t ord) = (tree ++ t |` set ord, None)"
  using assms
proof (induction ord arbitrary: tree)
  case (Cons k ord)
  show ?case
  proof (cases "t k")
    case None
    then have "t |` set (k # ord) = t |` set ord" by (auto simp: restrict_map_def)
    then show ?thesis using Cons None by (simp add: List.map_filter_simps)
  next
    case (Some d)
    then have d: "def_Name d = k" "tree k = None" using Cons.prems(2,3) by (auto simp: named_tree_def)
    have "AddTree (tree(k \<mapsto> d)) (List.map_filter t ord) = (tree(k \<mapsto> d) ++ t |` set ord, None)"
      by (rule Cons.IH) (use Cons.prems in auto)
    moreover have "(tree(k \<mapsto> d) ++ t |` set ord) x = (tree ++ t |` set (k # ord)) x" for x
      using Some Cons.prems(1) by (cases "x = k") (auto simp: map_add_def restrict_map_def split: option.split)
    ultimately show ?thesis using Some d by (simp add: List.map_filter_simps Tree_Add_def fun_eq_iff)
  qed
qed (simp add: List.map_filter_simps)

lemma Clone_eq:
  assumes "named_tree (ts_Tree s)" "distinct ord" "set ord = dom (ts_Tree s)"
  shows "Clone ord s = Inr s"
proof -
  have "ts_Tree s |` set ord = ts_Tree s" unfolding assms(3) by (simp add: restrict_map_def fun_eq_iff dom_def)
  then have "AddTree Map.empty (List.map_filter (ts_Tree s) ord) = (ts_Tree s, None)"
    using AddTree_all [OF assms(2,1), of Map.empty] by simp
  then show ?thesis by (simp add: Clone_def Let_def add_tree_def new_set_def Delims_def)
qed

section \<open>The states of a set\<close>

text \<open>The states that the methods of a set reach from a new one, whatever texts, files and functions there are and
  in whatever order maps are ranged over.\<close>

inductive set_state :: "('v, 't) reflect \<Rightarrow> 'v tset \<Rightarrow> bool" for rf where
  set_new: "set_state rf new_set"
| set_Delims: "set_state rf s \<Longrightarrow> set_state rf (Delims left right s)"
| set_Funcs: "set_state rf s \<Longrightarrow> Funcs rf funcMap s = Inr s' \<Longrightarrow> set_state rf s'"
| set_Clone: "set_state rf s \<Longrightarrow> distinct ord \<Longrightarrow> set ord = dom (ts_Tree s) \<Longrightarrow> Clone ord s = Inr s' \<Longrightarrow> set_state rf s'"
| set_Escape: "set_state rf s \<Longrightarrow> Escape rf val env f ord s = returns (s', e) \<Longrightarrow> set_state rf s'"
| set_Parse: "set_state rf s \<Longrightarrow> Set_Parse penv pord inp s = returns (s', e) \<Longrightarrow> set_state rf s'"
| set_ParseFiles: "set_state rf s \<Longrightarrow> ParseFiles penv pord ReadFile fns s = returns (s', e) \<Longrightarrow> set_state rf s'"
| set_ParseGlob: "set_state rf s \<Longrightarrow> ParseGlob penv pord ReadFile Glob pattern s = returns (s', e) \<Longrightarrow> set_state rf s'"

lemma new_set_wf [simp]: "set_wf rf new_set"
  by (simp add: set_wf_def new_set_def)

lemma Delims_wf [simp]: "set_wf rf (Delims left right s) = set_wf rf s"
  by (simp add: set_wf_def Delims_def)

lemma set_state_wf: "set_state rf s \<Longrightarrow> set_wf rf s"
proof (induction rule: set_state.induct)
  case (set_Clone s ord s')
  then show ?case using Clone_eq [of s ord] by (simp add: set_wf_def)
next
  case (set_ParseGlob s penv pord ReadFile Glob pattern s' e)
  then show ?case using ParseFiles_wf by (fastforce simp: ParseGlob_def split: sum.splits if_splits)
qed (auto simp: Set_Parse_def intro: Funcs_wf Escape_wf set_parse_wf ParseFiles_wf)

lemma find_good:
  assumes "good_funcs rf fs" "good_funcs rf builtin" "\<not> rv_IsValid rf (rv_zero rf)"
  shows "findFunction rf builtin fs name = (case fs name of Some fn \<Rightarrow> Some fn | None \<Rightarrow> builtin name)"
proof -
  have "rv_IsValid rf fn" if "good_funcs rf m" "m name = Some fn" for m fn
    using that by (simp add: good_funcs_def rv_IsValid_def)
  then show ?thesis using assms by (auto simp: findFunction_def Let_def split: option.split)
qed

text \<open>C18: In every state that the methods of a set reach, each template stands under its own name, and the parser and
  the execution agree on the functions: the execution finds a function of good results exactly for the names that
  the parser accepts.\<close>

theorem set_functions_agree:
  assumes "set_state rf s" "createValueFuncs rf (map (\<lambda>n. (n, val n)) builtin_names) = Inr builtinFuncs"
    "\<not> rv_IsValid rf (rv_zero rf)"
  shows "(case ts_Tree s name of None \<Rightarrow> True | Some d \<Rightarrow> def_Name d = name) \<and>
    (case findFunction rf builtinFuncs (ts_execFuncs s) name of
       None \<Rightarrow> name \<notin> set builtin_names \<and> ts_parseFuncs s name = None
     | Some fn \<Rightarrow> (name \<in> set builtin_names \<or> ts_parseFuncs s name \<noteq> None) \<and> rv_Kind rf fn = KFunc \<and> goodFunc rf (rv_Type rf fn))"
proof -
  have wf: "set_wf rf s" using set_state_wf assms(1) .
  have b: "good_funcs rf builtinFuncs"
    by (rule addValueFuncs_good [OF good_empty assms(2) [unfolded createValueFuncs_def]])
  have d: "dom builtinFuncs = set builtin_names"
    using addValueFuncs_eq [OF assms(2) [unfolded createValueFuncs_def]] by (simp add: addFuncs_dom image_image)
  have "builtinFuncs name = None \<longleftrightarrow> name \<notin> set builtin_names" unfolding d [symmetric] by (simp add: domIff)
  then show ?thesis
    using wf b find_good [OF _ b assms(3)] by (auto simp: set_wf_def named_tree_def good_funcs_def split: option.split)
qed

theorem set_functions_agree_witness:
  "case Funcs sample_reflect [(''f'', Printf)] new_set of Inl p \<Rightarrow> False
   | Inr s0 \<Rightarrow> (case Set_Parse ascii_env (\<lambda>_. [''t'']) ''{{define `t`}}{{f}}{{end}}'' s0 of
       Some (Inr (s, None)) \<Rightarrow> map_option def_Name (ts_Tree s ''t'') = Some ''t'' \<and>
         findFunction sample_reflect (\<lambda>n. if n \<in> set builtin_names then Some Printf else None) (ts_execFuncs s) ''f'' \<noteq> None
     | _ \<Rightarrow> False)"
proof -
  let ?b = "\<lambda>n. if n \<in> set builtin_names then Some Printf else None"
  let ?s0 = "new_set\<lparr>ts_execFuncs := [''f'' \<mapsto> Printf], ts_parseFuncs := [''f'' \<mapsto> Printf]\<rparr>"
  let ?r = "Set_Parse ascii_env (\<lambda>_. [''t'']) ''{{define `t`}}{{f}}{{end}}'' ?s0"
  have s0: "Funcs sample_reflect [(''f'', Printf)] new_set = Inr ?s0"
    by (simp add: Funcs_def new_set_def sample_reflect_def goodFunc_def)
  have "case ?r of Some (Inr (s, None)) \<Rightarrow> (case ts_Tree s ''t'' of None \<Rightarrow> False | _ \<Rightarrow> True) \<and>
      (case ts_parseFuncs s ''f'' of None \<Rightarrow> False | _ \<Rightarrow> True) | _ \<Rightarrow> False"
    by code_simp
  then obtain s where s: "?r = returns (s, None)" "ts_Tree s ''t'' \<noteq> None" "ts_parseFuncs s ''f'' \<noteq> None"
    by (auto simp: returns_def split: option.splits sum.splits prod.splits)
  have st: "set_state sample_reflect s" by (rule set_Parse [OF set_Funcs [OF set_new s0] s(1)])
  have b: "createValueFuncs sample_reflect (map (\<lambda>n. (n, Printf)) builtin_names) = Inr ?b"
    by (simp add: createValueFuncs_def builtin_names_def sample_reflect_def goodFunc_def fun_eq_iff)
  have z: "\<not> rv_IsValid sample_reflect (rv_zero sample_reflect)" by (simp add: sample_reflect_def rv_IsValid_def)
  from set_functions_agree [OF st b z, of "''t''"] set_functions_agree [OF st b z, of "''f''"]
  show ?thesis using s s0 by (auto simp: returns_def split: option.splits)
qed


definition unfinished_set :: "sample tset" where
  "unfinished_set = new_set\<lparr>ts_Tree := [''t'' \<mapsto> template_of ''t'' [TextNode ''<b title=a'']]\<rparr>"


section \<open>Builtin functions\<close>

text \<open>\<open>and\<close> returns its first argument that is not true and \<open>or\<close> its first that is, or the last argument.\<close>

theorem and_or_first:
  "and_fn rf a args = (case find (\<lambda>x. \<not> truth rf x) (a # args) of Some x \<Rightarrow> x | None \<Rightarrow> last (a # args)) \<and>
   or_fn rf a args = (case find (truth rf) (a # args) of Some x \<Rightarrow> x | None \<Rightarrow> last (a # args))"
  by (simp add: and_fn_def or_fn_def last_until_find)

lemma uint_of_sint: "uint (x :: 64 word) = (if 0 \<le> sint x then sint x else sint x + 2 ^ 64)"
proof -
  have u: "uint x = sint x mod 2 ^ 64" using uint_sint [of x] by (simp add: take_bit_eq_mod)
  have b: "- (2 ^ 63) \<le> sint x" "sint x < 2 ^ 63" using sint_greater_eq [of x] sint_less [of x] by simp_all
  show ?thesis
  proof (cases "0 \<le> sint x")
    case False
    then have "(sint x + 2 ^ 64) mod 2 ^ 64 = sint x + 2 ^ 64" using b by (intro mod_pos_pos_trivial) simp_all
    then show ?thesis using u False by (simp add: mod_add_self2)
  qed (use u b in simp)
qed

text \<open>C30: Indexing a slice or an array: the element at the index when the index is in range, and the error otherwise,
  also for unsigned indices that are negative as signed integers.\<close>

theorem index_bounds:
  assumes "rv_Kind rf v \<in> {KArray, KSlice}" "rv_Kind rf i \<in> int_kinds \<union> uint_kinds" "rv_Len rf v < 2 ^ 63"
    "n = (if rv_Kind rf i \<in> int_kinds then sint (rv_Int rf i) else uint (rv_Uint rf i))"
  shows "\<exists>m. index_fn rf v [i] =
    (if 0 \<le> n \<and> n < int (rv_Len rf v) then bindO (interface_of rf (rv_Index rf v (nat n))) (\<lambda>x. returns (Inr x))
     else returns (Inl (''index out of range: %d'', [m])))"
proof -
  define x where "x = (if rv_Kind rf i \<in> int_kinds then rv_Int rf i else rv_Uint rf i)"
  have ind: "(indirectO rf v :: (callee_panic, _) outcome) = returns (v, False)"
    unfolding indirectO_def by (subst Template_Reflect.indirect.simps) (use assms(1) in \<open>auto simp: returns_def\<close>)
  have len: "sint (word_of_nat (rv_Len rf v) :: 64 word) = int (rv_Len rf v)"
    using assms(3) by (simp add: signed_of_nat signed_take_bit_int_eq_self)
  have x: "n = (if rv_Kind rf i \<in> int_kinds \<or> 0 \<le> sint x then sint x else sint x + 2 ^ 64)"
    using uint_of_sint [of "rv_Uint rf i"] assms(4) by (simp add: x_def)
  have "- (2 ^ 63) \<le> sint x" using sint_greater_eq [of x] by simp
  then have n: "0 \<le> n \<and> n < int (rv_Len rf v) \<longleftrightarrow> \<not> (sint x < 0 \<or> int (rv_Len rf v) \<le> sint x)"
    "0 \<le> sint x \<Longrightarrow> n = sint x"
    using x assms(3) by (auto split: if_splits)
  have "index_step rf v i = (if sint x < 0 \<or> int (rv_Len rf v) \<le> sint x
      then returns (Inl (''index out of range: %d'', [show_int (sint x)])) else returns (Inr (rv_Index rf v (nat (sint x)))))"
    using assms(1,2) by (simp add: index_step_def Let_def word_sless_alt word_sle_eq len x_def)
  then show ?thesis using n ind by (intro exI [of _ "show_int (sint x)"]) simp
qed

definition sample_uints :: "(sample, kind) reflect" where
  "sample_uints = sample_reflect
     \<lparr>rv_Kind := (\<lambda>v. case v of Items _ \<Rightarrow> KSlice | _ \<Rightarrow> KUint64), rv_Uint := (\<lambda>v. if v = Str ''max'' then - 1 else 0)\<rparr>"

theorem index_bounds_witness:
  "(\<exists>m. index_fn sample_uints (Items [Printf]) [Str ''max''] = returns (Inl (''index out of range: %d'', [m]))) \<and>
   index_fn sample_uints (Items [Printf]) [Str ''zero''] = returns (Inr Printf)"
proof
  have u: "uint (- 1 :: 64 word) = 18446744073709551615" by (simp add: unsigned_minus_1_eq_mask mask_eq_exp_minus_1)
  show "\<exists>m. index_fn sample_uints (Items [Printf]) [Str ''max''] = returns (Inl (''index out of range: %d'', [m]))"
    using index_bounds [of sample_uints "Items [Printf]" "Str ''max''" "uint (- 1 :: 64 word)"]
    by (simp add: u sample_uints_def sample_reflect_def int_kinds_def uint_kinds_def)
  show "index_fn sample_uints (Items [Printf]) [Str ''zero''] = returns (Inr Printf)"
    using index_bounds [of sample_uints "Items [Printf]" "Str ''zero''" 0]
    by (simp add: sample_uints_def sample_reflect_def int_kinds_def uint_kinds_def interface_of_def rv_IsValid_def)
qed

text \<open>Calling a function of two results whose error is nil panics: the error is asserted to be an error, which nil
  is not. So \<open>call\<close> works only with functions of one result.\<close>

theorem call_nil_error_panics:
  assumes "rv_IsValid rf fn" "rv_Type rf fn = t" "rt_Kind rf t = KFunc" "goodFunc rf t" "\<not> rt_IsVariadic rf t"
    "length args = length (rt_In rf t)" "call_args rf t 0 args = returns (Inr argv)"
    "rv_Call rf fn argv = Inr [v, err]" "rv_IsValid rf v" "rv_IsNil rf err"
  shows "call_fn rf fn args = raises (OtherValue BadAssertion)"
  using assms by (simp add: call_fn_def type_of_def interface_of_def Let_def)

definition sample_pairs :: "(sample, kind) reflect" where
  "sample_pairs = sample_reflect
     \<lparr>rt_Out := (\<lambda>_. [KString, KInterface]), rt_IsError := (\<lambda>t. t = KInterface), rt_IsVariadic := (\<lambda>_. False), rt_In := (\<lambda>_. []),
      rv_IsNil := (\<lambda>v. v = Nothing), rv_Call := (\<lambda>_ _. Inr [Str ''a'', Nothing])\<rparr>"

theorem call_nil_error_panics_witness: "call_fn sample_pairs Printf [] = raises (OtherValue BadAssertion)"
  by (rule call_nil_error_panics [where t = KFunc and argv = "[]" and v = "Str ''a''" and err = Nothing])
    (simp_all add: sample_pairs_def sample_reflect_def rv_IsValid_def goodFunc_def)

end
