(* ===== verification/Zap_Node.thy ===== *)
theory Zap_Node
  imports Zap_Lex Template_Number
begin

text \<open>
  The nodes of zap trees (\<open>zap/parse/node.go\<close>). Lists of nodes and commands are lists; a nil else list or
  pipeline is \<open>None\<close>. An argument of a command can be a pipeline in parentheses. The three branch nodes
  share one constructor. A definition only occurs as the root of a tree and is a record. The parts of a
  number are those of \<open>Template_Number\<close>.
\<close>

section \<open>Numbers\<close>

definition newNumber :: "num_env \<Rightarrow> string \<Rightarrow> itemType \<Rightarrow> (go_error + NumberNode) go" where
  "newNumber env t ty =
     (let complex = (\<lambda>c. simplifyComplex env ((number0 env t)\<lparr>num_IsComplex := True, num_Complex128 := c\<rparr>)) in
      if ty = itemCharConstant then newNumber_char env t
      else if ty = itemComplex
      then Inr (case SscanComplex env t of None \<Rightarrow> Inl (''invalid syntax'', []) | Some c \<Rightarrow> Inr (complex c))
      else if t \<noteq> [] \<and> last t = CHR ''i''
      then Inr (case ParseFloat env (butlast t) of
             Some f \<Rightarrow> Inr (complex (float_zero env, f)) | None \<Rightarrow> number_plain env t)
      else Inr (number_plain env t))"

section \<open>Nodes\<close>

datatype arg_node =
    IdentifierNode string
  | VariableNode "string list"
  | DotNode
  | NilNode
  | FieldNode "string list"
  | BoolNode bool
  | NumberArg NumberNode
  | StringNode string string
  | PipeArg PipeNode
and PipeNode = PipeNode (pipe_Line: int) (pipe_Decl: "string list list") (pipe_Cmds: "arg_node list list")

type_synonym CommandNode = "arg_node list"

datatype branch = NodeIf | NodeRange | NodeWith

datatype node =
    TextNode string
  | ActionNode int PipeNode
  | ListNode "node list"
  | BranchNode branch int PipeNode "node list" "node list option"
  | TemplateNode int string "PipeNode option"
  | BlockNode int string "node list"
  | endNode
  | elseNode int

record DefineNode =
  def_Line :: int
  def_Name :: string
  def_Parent :: string
  def_List :: "node list"

definition newVariable :: "string \<Rightarrow> string list" where
  "newVariable ident = split_on (CHR ''.'') ident"

definition newField :: "string \<Rightarrow> arg_node go" where
  "newField ident = bindE (slice ident 1 (length ident)) (\<lambda>t. Inr (FieldNode (split_on (CHR ''.'') t)))"

definition newPipeline :: "int \<Rightarrow> string list list \<Rightarrow> PipeNode" where
  "newPipeline line decl = PipeNode line decl []"

definition PipeNode_append :: "PipeNode \<Rightarrow> CommandNode \<Rightarrow> PipeNode" where
  "PipeNode_append p c = PipeNode (pipe_Line p) (pipe_Decl p) (pipe_Cmds p @ [c])"

section \<open>Printing\<close>

text \<open>The elements of a list with a separator between them.\<close>

fun sep_by :: "string \<Rightarrow> string list \<Rightarrow> string" where
  "sep_by sep [] = []"
| "sep_by sep [x] = x"
| "sep_by sep (x # y # xs) = x @ sep @ sep_by sep (y # xs)"

definition VariableNode_String :: "string list \<Rightarrow> string" where
  "VariableNode_String ident = sep_by ''.'' ident"

definition FieldNode_String :: "string list \<Rightarrow> string" where
  "FieldNode_String ident = concat (map (\<lambda>i. ''.'' @ i) ident)"

fun arg_String :: "arg_node \<Rightarrow> string" and
    PipeNode_String :: "PipeNode \<Rightarrow> string" where
  "arg_String (IdentifierNode i) = i"
| "arg_String (VariableNode i) = VariableNode_String i"
| "arg_String DotNode = ''.''"
| "arg_String NilNode = ''nil''"
| "arg_String (FieldNode i) = FieldNode_String i"
| "arg_String (BoolNode b) = (if b then ''true'' else ''false'')"
| "arg_String (NumberArg n) = num_Text n"
| "arg_String (StringNode quoted t) = quoted"
| "arg_String (PipeArg p) = ''('' @ PipeNode_String p @ '')''"
| "PipeNode_String (PipeNode line decl cmds) =
     (if decl = [] then [] else sep_by '', '' (map VariableNode_String decl) @ '' := '') @
     sep_by '' | '' (map (\<lambda>c. sep_by '' '' (map arg_String c)) cmds)"

fun branch_name :: "branch \<Rightarrow> string" where
  "branch_name NodeIf = ''if''"
| "branch_name NodeRange = ''range''"
| "branch_name NodeWith = ''with''"

text \<open>\<open>q\<close> is the verb \<open>%q\<close> of \<open>fmt\<close>.\<close>

fun znode_String :: "(string \<Rightarrow> string) \<Rightarrow> node \<Rightarrow> string" and
    list_String :: "(string \<Rightarrow> string) \<Rightarrow> node list \<Rightarrow> string" where
  "znode_String q (TextNode t) = t"
| "znode_String q (ActionNode line p) = ''{{'' @ PipeNode_String p @ ''}}''"
| "znode_String q (ListNode ns) = list_String q ns"
| "znode_String q (BranchNode b line p ns None) =
     ''{{'' @ branch_name b @ '' '' @ PipeNode_String p @ ''}}'' @ list_String q ns @ ''{{end}}''"
| "znode_String q (BranchNode b line p ns (Some es)) =
     ''{{'' @ branch_name b @ '' '' @ PipeNode_String p @ ''}}'' @ list_String q ns @ ''{{else}}'' @
     list_String q es @ ''{{end}}''"
| "znode_String q (TemplateNode line name None) = ''{{template '' @ q name @ ''}}''"
| "znode_String q (TemplateNode line name (Some p)) = ''{{template '' @ q name @ '' '' @ PipeNode_String p @ ''}}''"
| "znode_String q (BlockNode line name ns) = ''{{block '' @ q name @ ''}}'' @ list_String q ns @ ''{{end}}''"
| "znode_String q endNode = ''{{end}}''"
| "znode_String q (elseNode line) = ''{{else}}''"
| "list_String q [] = []"
| "list_String q (n # ns) = znode_String q n @ list_String q ns"

definition DefineNode_String :: "(string \<Rightarrow> string) \<Rightarrow> DefineNode \<Rightarrow> string" where
  "DefineNode_String q d =
     (if def_Parent d \<noteq> []
      then ''{{define '' @ q (def_Name d) @ '' '' @ q (def_Parent d) @ ''}}'' @ list_String q (def_List d) @ ''{{end}}''
      else ''{{define '' @ q (def_Name d) @ ''}}'' @ list_String q (def_List d) @ ''{{end}}'')"

section \<open>Copies\<close>

fun CopyArg :: "arg_node \<Rightarrow> arg_node" and CopyPipe :: "PipeNode \<Rightarrow> PipeNode" where
  "CopyArg (IdentifierNode i) = IdentifierNode i"
| "CopyArg (VariableNode i) = VariableNode ([] @ i)"
| "CopyArg DotNode = DotNode"
| "CopyArg NilNode = NilNode"
| "CopyArg (FieldNode i) = FieldNode ([] @ i)"
| "CopyArg (BoolNode b) = BoolNode b"
| "CopyArg (NumberArg n) = NumberArg n"
| "CopyArg (StringNode quoted t) = StringNode quoted t"
| "CopyArg (PipeArg p) = PipeArg (CopyPipe p)"
| "CopyPipe (PipeNode line decl cmds) =
     fold (\<lambda>c n. PipeNode_append n c) (map (map CopyArg) cmds) (newPipeline line (map (\<lambda>d. [] @ d) decl))"

fun CopyNode :: "node \<Rightarrow> node" and CopyList :: "node list \<Rightarrow> node list" where
  "CopyNode (TextNode t) = TextNode ([] @ t)"
| "CopyNode (ActionNode line p) = ActionNode line (CopyPipe p)"
| "CopyNode (ListNode ns) = ListNode (CopyList ns)"
| "CopyNode (BranchNode b line p ns None) = BranchNode b line (CopyPipe p) (CopyList ns) None"
| "CopyNode (BranchNode b line p ns (Some es)) = BranchNode b line (CopyPipe p) (CopyList ns) (Some (CopyList es))"
| "CopyNode (TemplateNode line name p) = TemplateNode line name (map_option CopyPipe p)"
| "CopyNode (BlockNode line name ns) = BlockNode line name (CopyList ns)"
| "CopyNode endNode = endNode"
| "CopyNode (elseNode line) = elseNode line"
| "CopyList [] = []"
| "CopyList (n # ns) = CopyNode n # CopyList ns"

definition CopyDefine :: "DefineNode \<Rightarrow> DefineNode" where
  "CopyDefine d =
     \<lparr>def_Line = def_Line d, def_Name = def_Name d, def_Parent = def_Parent d, def_List = CopyList (def_List d)\<rparr>"

section \<open>Empty trees\<close>

text \<open>\<open>IsEmptyTree\<close>: whether there is only space. The end and else nodes are unknown to it; it panics with a
  string, which is no error and is not recovered.\<close>

datatype tree_panic = UnknownNode node

fun IsEmptyTree :: "node \<Rightarrow> tree_panic + bool" and IsEmptyList :: "node list \<Rightarrow> tree_panic + bool" where
  "IsEmptyTree (TextNode t) = Inr (trim_space t = [])"
| "IsEmptyTree (ActionNode line p) = Inr False"
| "IsEmptyTree (ListNode ns) = IsEmptyList ns"
| "IsEmptyTree (BranchNode b line p ns es) = Inr False"
| "IsEmptyTree (TemplateNode line name p) = Inr False"
| "IsEmptyTree (BlockNode line name ns) = IsEmptyList ns"
| "IsEmptyTree endNode = Inl (UnknownNode endNode)"
| "IsEmptyTree (elseNode line) = Inl (UnknownNode (elseNode line))"
| "IsEmptyList [] = Inr True"
| "IsEmptyList (n # ns) = bindE (IsEmptyTree n) (\<lambda>empty. if empty then IsEmptyList ns else Inr False)"

definition IsEmptyDefine :: "DefineNode \<Rightarrow> tree_panic + bool" where
  "IsEmptyDefine d = IsEmptyList (def_List d)"

section \<open>Facts\<close>

lemma fold_append: "fold (\<lambda>c n. PipeNode_append n c) cs p = PipeNode (pipe_Line p) (pipe_Decl p) (pipe_Cmds p @ cs)"
  by (induction cs arbitrary: p) (simp_all add: PipeNode_append_def)

lemma zap_CopyArg_eq: "CopyArg a = a" and zap_CopyPipe_eq [simp]: "CopyPipe p = p"
  by (induction a and p rule: CopyArg_CopyPipe.induct) (simp_all add: fold_append newPipeline_def map_idI)

lemma zap_CopyNode_eq: "CopyNode n = n" and zap_CopyList_eq: "CopyList ns = ns"
  by (induction n and ns rule: CopyNode_CopyList.induct) (simp_all add: option.map_ident_strong)

lemma CopyDefine_eq: "CopyDefine d = d"
  by (simp add: CopyDefine_def zap_CopyList_eq)

end
