(* ===== verification/Zap_Compile.thy ===== *)
theory Zap_Compile
  imports Zap_Node
begin

text \<open>
  The compilation of zap templates (\<open>zap/parse/compile.go\<close>): a template that extends another becomes a
  copy of it in which the blocks are replaced, then the blocks are replaced by their contents. The code
  keeps pointers to block nodes and assigns to their lists; here a block of a list is known by its number
  in the order of \<open>extractBlocks\<close>, and the assignments are made in one pass. The lists that the code
  shares after an assignment belong to one tree, which is only copied or inlined afterwards, so that no
  assignment is seen through another pointer. A map is ranged over in an order that is an argument.
\<close>

section \<open>Trees\<close>

record Tree =
  tree_Name :: string
  tree_Root :: "DefineNode option"

type_synonym treeSet = "string \<rightharpoonup> Tree"

definition root_of :: "treeSet \<Rightarrow> string \<Rightarrow> DefineNode option" where
  "root_of ts name = Option.bind (ts name) tree_Root"

section \<open>Blocks\<close>

text \<open>The blocks by name: the number of a block and its list. The state of the extraction has the number of
  the next block. The else list of a branch is nil when there is none, and its nodes are ranged over.\<close>

type_synonym blocks = "string \<rightharpoonup> nat \<times> node list"

fun extractBlocks :: "node \<Rightarrow> nat \<times> blocks \<Rightarrow> (nat \<times> blocks) go" and
    extractList :: "node list \<Rightarrow> nat \<times> blocks \<Rightarrow> (nat \<times> blocks) go" where
  "extractBlocks (BlockNode line name ns) (k, dst) = extractList ns (k + 1, dst(name \<mapsto> (k, ns)))"
| "extractBlocks (BranchNode b line p ns None) s = bindE (extractList ns s) (\<lambda>s. Inl NilDereference)"
| "extractBlocks (BranchNode b line p ns (Some es)) s = bindE (extractList ns s) (\<lambda>s. extractList es s)"
| "extractBlocks (ListNode ns) s = extractList ns s"
| "extractBlocks (TextNode t) s = Inr s"
| "extractBlocks (ActionNode line p) s = Inr s"
| "extractBlocks (TemplateNode line name p) s = Inr s"
| "extractBlocks endNode s = Inr s"
| "extractBlocks (elseNode line) s = Inr s"
| "extractList [] s = Inr s"
| "extractList (n # ns) s = bindE (extractBlocks n s) (\<lambda>s. extractList ns s)"

text \<open>\<open>v.List = block.List\<close> for the blocks with an assignment; the argument is the name and the number of
  a block. The result has the number of the next block.\<close>

fun assignBlocks :: "(string \<Rightarrow> nat \<Rightarrow> node list option) \<Rightarrow> node \<Rightarrow> nat \<Rightarrow> node \<times> nat" and
    assignList :: "(string \<Rightarrow> nat \<Rightarrow> node list option) \<Rightarrow> node list \<Rightarrow> nat \<Rightarrow> node list \<times> nat" where
  "assignBlocks a (BlockNode line name ns) k =
     (let (ns', k') = assignList a ns (k + 1) in
      (BlockNode line name (case a name k of Some l \<Rightarrow> l | None \<Rightarrow> ns'), k'))"
| "assignBlocks a (BranchNode b line p ns None) k =
     (let (ns', k) = assignList a ns k in (BranchNode b line p ns' None, k))"
| "assignBlocks a (BranchNode b line p ns (Some es)) k =
     (let (ns', k) = assignList a ns k; (es', k) = assignList a es k in (BranchNode b line p ns' (Some es'), k))"
| "assignBlocks a (ListNode ns) k = (let (ns', k) = assignList a ns k in (ListNode ns', k))"
| "assignBlocks a (TextNode t) k = (TextNode t, k)"
| "assignBlocks a (ActionNode line p) k = (ActionNode line p, k)"
| "assignBlocks a (TemplateNode line name p) k = (TemplateNode line name p, k)"
| "assignBlocks a endNode k = (endNode, k)"
| "assignBlocks a (elseNode line) k = (elseNode line, k)"
| "assignList a [] k = ([], k)"
| "assignList a (n # ns) k = (let (n', k) = assignBlocks a n k; (ns', k) = assignList a ns k in (n' # ns', k))"

definition block_assignment :: "blocks \<Rightarrow> blocks \<Rightarrow> string \<Rightarrow> nat \<Rightarrow> node list option" where
  "block_assignment src dst name k = (case dst name of
     None \<Rightarrow> None
   | Some (i, _) \<Rightarrow> if i = k then map_option snd (src name) else None)"

definition inlineParent :: "string \<Rightarrow> treeSet \<Rightarrow> treeSet go" where
  "inlineParent name ts = (case ts name of
     None \<Rightarrow> Inl NilDereference
   | Some t \<Rightarrow> (case tree_Root t of
       None \<Rightarrow> Inl NilDereference
     | Some define \<Rightarrow> (case root_of ts (def_Parent define) of
         None \<Rightarrow> Inl NilDereference
       | Some p \<Rightarrow>
           let parent = (CopyDefine p)\<lparr>def_Name := def_Name define\<rparr> in
           bindE (extractList (def_List define) (0, Map.empty)) (\<lambda>(_, src).
           bindE (extractList (def_List parent) (0, Map.empty)) (\<lambda>(_, dst).
             let l = fst (assignList (block_assignment src dst) (def_List parent) 0)
             in Inr (ts(name \<mapsto> t\<lparr>tree_Root := Some (parent\<lparr>def_List := l\<rparr>)\<rparr>)))))))"

section \<open>Dependencies\<close>

partial_function (option) inlineParentList_loop ::
  "treeSet \<Rightarrow> string \<Rightarrow> string list \<Rightarrow> (go_error + string list) option" where
  "inlineParentList_loop ts name deps = (case root_of ts name of
     None \<Rightarrow> Some (Inl (''template not found: %q'', [name]))
   | Some define \<Rightarrow>
       if def_Parent define = [] then Some (Inr deps)
       else if name \<in> set deps then Some (Inl (''impossible recursion: %#v'', deps @ [name]))
       else inlineParentList_loop ts (def_Parent define) (deps @ [name]))"

declare inlineParentList_loop.simps [code]

definition inlineParentList :: "treeSet \<Rightarrow> string \<Rightarrow> (go_error + string list) option" where
  "inlineParentList ts name = inlineParentList_loop ts name []"

section \<open>Inlining blocks\<close>

fun inlineBlocks :: "node \<Rightarrow> (go_error option \<times> node) go" and
    inlineList :: "node list \<Rightarrow> node list go" where
  "inlineBlocks (BlockNode line name ns) =
     Inr (Some (''block node can't be replaced by itself'', []), BlockNode line name ns)"
| "inlineBlocks (BranchNode b line p ns None) = bindE (inlineList ns) (\<lambda>_. Inl NilDereference)"
| "inlineBlocks (BranchNode b line p ns (Some es)) =
     bindE (inlineList ns) (\<lambda>ns. bindE (inlineList es) (\<lambda>es. Inr (None, BranchNode b line p ns (Some es))))"
| "inlineBlocks (ListNode ns) = bindE (inlineList ns) (\<lambda>ns. Inr (None, ListNode ns))"
| "inlineBlocks (TextNode t) = Inr (None, TextNode t)"
| "inlineBlocks (ActionNode line p) = Inr (None, ActionNode line p)"
| "inlineBlocks (TemplateNode line name p) = Inr (None, TemplateNode line name p)"
| "inlineBlocks endNode = Inr (None, endNode)"
| "inlineBlocks (elseNode line) = Inr (None, elseNode line)"
| "inlineList [] = Inr []"
| "inlineList (BlockNode line name bs # ns) =
     bindE (inlineList bs) (\<lambda>bs. bindE (inlineList ns) (\<lambda>ns. Inr (ListNode bs # ns)))"
| "inlineList (n # ns) =
     bindE (inlineBlocks n) (\<lambda>(_, n). bindE (inlineList ns) (\<lambda>ns. Inr (n # ns)))"

section \<open>Compilation\<close>

text \<open>The names are inlined from the last.\<close>

fun inlineParents :: "string list \<Rightarrow> treeSet \<Rightarrow> treeSet go" where
  "inlineParents [] ts = Inr ts"
| "inlineParents (name # names) ts = bindE (inlineParent name ts) (inlineParents names)"

fun compile_parents :: "string list \<Rightarrow> treeSet \<Rightarrow> (treeSet \<times> go_error option) go option" where
  "compile_parents [] ts = Some (Inr (ts, None))"
| "compile_parents (name # order) ts = (case inlineParentList ts name of
     None \<Rightarrow> None
   | Some (Inl e) \<Rightarrow> Some (Inr (ts, Some e))
   | Some (Inr names) \<Rightarrow> (case inlineParents (rev names) ts of
       Inl e \<Rightarrow> Some (Inl e)
     | Inr ts \<Rightarrow> compile_parents order ts))"

text \<open>The list of the root is a list node, for which \<open>inlineBlocks\<close> returns no error.\<close>

fun compile_blocks :: "string list \<Rightarrow> treeSet \<Rightarrow> treeSet go" where
  "compile_blocks [] ts = Inr ts"
| "compile_blocks (name # order) ts = (case ts name of
     None \<Rightarrow> compile_blocks order ts
   | Some t \<Rightarrow> (case tree_Root t of
       None \<Rightarrow> Inl NilDereference
     | Some d \<Rightarrow> bindE (inlineList (def_List d)) (\<lambda>l.
         compile_blocks order (ts(name \<mapsto> t\<lparr>tree_Root := Some (d\<lparr>def_List := l\<rparr>)\<rparr>)))))"

text \<open>\<open>order\<close> and \<open>order'\<close> are the orders in which the two loops range over the trees.\<close>

definition Compile :: "string list \<Rightarrow> string list \<Rightarrow> treeSet \<Rightarrow> (treeSet \<times> go_error option) go option" where
  "Compile order order' ts = (case compile_parents order ts of
     Some (Inr (ts, None)) \<Rightarrow> Some (bindE (compile_blocks order' ts) (\<lambda>ts. Inr (ts, None)))
   | r \<Rightarrow> r)"

end
