(* ===== verification/Zap_Parse.thy ===== *)
theory Zap_Parse
  imports Zap_Compile
begin

text \<open>
  The parser of zap templates (\<open>zap/parse/parse.go\<close>). The panics with which the parser leaves its recursion
  are values of \<open>perror\<close>: an error that \<open>Parse\<close> recovers and returns; a run-time panic that it lets
  through; the panic of \<open>IsEmptyTree\<close>, a string, on which the recovery itself panics; the wait for an item
  that never comes, since the lexer does not close its channel; or the end of the fuel, which bounds the
  recursion. The lexer goroutine is run before the parser, which sees the same items in the same order.
  A definition is parsed with a new tree on the same lexer: the fields of the lexer are carried over, and
  the fields of the tree are the new tree's.
\<close>

section \<open>State\<close>

datatype perror =
    Errorf string int string "string list"
  | Panic go_panic
  | StringPanic tree_panic
  | Blocked
  | OutOfFuel

record parser =
  pr_input :: string
  pr_lastPos :: nat
  pr_items :: "item list"
  pr_name :: string
  pr_token0 :: item
  pr_token1 :: item
  pr_peekCount :: nat
  pr_vars :: "string list"
  pr_blocks :: "string set"

record parse_env =
  pe_lex :: lex_env
  pe_num :: num_env
  pe_Unquote :: "string \<Rightarrow> string option"
  pe_funcs :: "(string \<Rightarrow> bool) option list"

type_synonym 'a parsed = "perror + 'a \<times> parser"

definition lift_go :: "'a go \<Rightarrow> parser \<Rightarrow> 'a parsed" where
  "lift_go m p = (case m of Inl e \<Rightarrow> Inl (Panic e) | Inr x \<Rightarrow> Inr (x, p))"

text \<open>\<open>lexer.nextItem\<close>: it receives from a channel that is never closed.\<close>

definition nextItem :: "parser \<Rightarrow> item parsed" where
  "nextItem p = (case pr_items p of
     [] \<Rightarrow> Inl Blocked
   | i # rest \<Rightarrow> Inr (i, p\<lparr>pr_lastPos := it_pos i, pr_items := rest\<rparr>))"

definition lineNumber :: "parser \<Rightarrow> int" where
  "lineNumber p = 1 + int (length (filter (\<lambda>c. c = CHR 0x0A) (take (pr_lastPos p) (pr_input p))))"

definition token_at :: "nat \<Rightarrow> parser \<Rightarrow> item" where
  "token_at k p = (if k = 0 then pr_token0 p else pr_token1 p)"

definition next_token :: "parser \<Rightarrow> item parsed" where
  "next_token p =
     bindE (if pr_peekCount p > 0 then Inr (p\<lparr>pr_peekCount := pr_peekCount p - 1\<rparr>)
            else bindE (nextItem p) (\<lambda>(i, p). Inr (p\<lparr>pr_token0 := i\<rparr>))) (\<lambda>p.
       Inr (token_at (pr_peekCount p) p, p))"

definition backup :: "parser \<Rightarrow> parser" where
  "backup p = p\<lparr>pr_peekCount := pr_peekCount p + 1\<rparr>"

definition backup2 :: "item \<Rightarrow> parser \<Rightarrow> parser" where
  "backup2 t1 p = p\<lparr>pr_token1 := t1, pr_peekCount := 2\<rparr>"

definition peek_token :: "parser \<Rightarrow> item parsed" where
  "peek_token p =
     (if pr_peekCount p > 0 then Inr (token_at (pr_peekCount p - 1) p, p)
      else bindE (nextItem p) (\<lambda>(i, p). Inr (i, p\<lparr>pr_token0 := i, pr_peekCount := 1\<rparr>)))"

text \<open>The number of items still to be read.\<close>

definition remaining :: "parser \<Rightarrow> nat" where
  "remaining p = pr_peekCount p + length (pr_items p)"

section \<open>Errors\<close>

definition errorf_at :: "string \<Rightarrow> string list \<Rightarrow> parser \<Rightarrow> perror" where
  "errorf_at fmt args p = Errorf (pr_name p) (lineNumber p) fmt args"

definition expect :: "parse_env \<Rightarrow> itemType \<Rightarrow> string \<Rightarrow> parser \<Rightarrow> item parsed" where
  "expect env expected ctx p = bindE (next_token p) (\<lambda>(t, p).
     if it_typ t \<noteq> expected
     then Inl (errorf_at ''expected %s in %s; got %s'' [itemType_String expected, ctx, item_String (pe_lex env) t] p)
     else Inr (t, p))"

definition expectOneOf :: "parse_env \<Rightarrow> itemType \<Rightarrow> itemType \<Rightarrow> string \<Rightarrow> parser \<Rightarrow> item parsed" where
  "expectOneOf env expected1 expected2 ctx p = bindE (next_token p) (\<lambda>(t, p).
     if it_typ t \<noteq> expected1 \<and> it_typ t \<noteq> expected2
     then Inl (errorf_at ''expected %s or %s in %s; got %s''
            [itemType_String expected1, itemType_String expected2, ctx, item_String (pe_lex env) t] p)
     else Inr (t, p))"

definition unexpected :: "parse_env \<Rightarrow> item \<Rightarrow> string \<Rightarrow> parser \<Rightarrow> perror" where
  "unexpected env t ctx p = errorf_at ''unexpected %s in %s'' [item_String (pe_lex env) t, ctx] p"

section \<open>Commands and pipelines\<close>

definition hasFunction :: "parse_env \<Rightarrow> string \<Rightarrow> bool" where
  "hasFunction env name \<longleftrightarrow>
     list_ex (\<lambda>m. case m of None \<Rightarrow> False | Some funcMap \<Rightarrow> funcMap name) (pe_funcs env)"

definition useVar :: "string \<Rightarrow> parser \<Rightarrow> arg_node parsed" where
  "useVar name p =
     (let v = newVariable name in
      if hd v \<in> set (pr_vars p) then Inr (VariableNode v, p)
      else Inl (errorf_at ''undefined variable %q'' [hd v] p))"

definition unquoted :: "parse_env \<Rightarrow> string \<Rightarrow> parser \<Rightarrow> string parsed" where
  "unquoted env s p = (case pe_Unquote env s of
     None \<Rightarrow> Inl (errorf_at ''%s'' [''invalid syntax''] p) | Some t \<Rightarrow> Inr (t, p))"

text \<open>The argument a token stands for, other than a pipeline in parentheses.\<close>

definition argument :: "parse_env \<Rightarrow> item \<Rightarrow> parser \<Rightarrow> arg_node parsed" where
  "argument env t p = (case it_typ t of
     itemError \<Rightarrow> Inl (errorf_at ''%s'' [it_val t] p)
   | itemIdentifier \<Rightarrow>
       if \<not> hasFunction env (it_val t) then Inl (errorf_at ''function %q not defined'' [it_val t] p)
       else Inr (IdentifierNode (it_val t), p)
   | itemDot \<Rightarrow> Inr (DotNode, p)
   | itemNil \<Rightarrow> Inr (NilNode, p)
   | itemVariable \<Rightarrow> useVar (it_val t) p
   | itemField \<Rightarrow> lift_go (newField (it_val t)) p
   | itemBool \<Rightarrow> Inr (BoolNode (it_val t = ''true''), p)
   | itemString \<Rightarrow> bindE (unquoted env (it_val t) p) (\<lambda>(s, p). Inr (StringNode (it_val t) s, p))
   | itemRawString \<Rightarrow> bindE (unquoted env (it_val t) p) (\<lambda>(s, p). Inr (StringNode (it_val t) s, p))
   | ty \<Rightarrow>
       if ty \<in> {itemCharConstant, itemComplex, itemNumber}
       then bindE (lift_go (newNumber (pe_num env) (it_val t) ty) p) (\<lambda>(r, p). case r of
              Inl (fmt, args) \<Rightarrow> Inl (errorf_at fmt args p)
            | Inr n \<Rightarrow> Inr (NumberArg n, p))
       else Inl (unexpected env t ''command'' p))"

text \<open>The declarations at the start of a pipeline; \<open>k\<close> bounds the rounds of the loop, of which there
  are at most two.\<close>

fun declarations :: "nat \<Rightarrow> string \<Rightarrow> string list list \<Rightarrow> parser \<Rightarrow> string list list parsed" where
  "declarations k ctx decl p =
     bindE (peek_token p) (\<lambda>(v, p).
       if it_typ v \<noteq> itemVariable then Inr (decl, p)
       else
         bindE (next_token p) (\<lambda>(_, p).
         bindE (peek_token p) (\<lambda>(nxt, p).
           let comma = (it_typ nxt = itemChar \<and> it_val nxt = '','') in
           if it_typ nxt = itemColonEquals \<or> comma
           then
             bindE (next_token p) (\<lambda>(_, p).
               let variable = newVariable (it_val v) in
               if length variable \<noteq> 1 then Inl (errorf_at ''illegal variable in declaration: %s'' [it_val v] p)
               else
                 let decl = decl @ [variable]; p = p\<lparr>pr_vars := pr_vars p @ [it_val v]\<rparr> in
                 if comma
                 then (if ctx = ''range'' \<and> length decl < 2
                       then (case k of 0 \<Rightarrow> Inl OutOfFuel | Suc k \<Rightarrow> declarations k ctx decl p)
                       else Inl (errorf_at ''too many declarations in %s'' [ctx] p))
                 else Inr (decl, p))
           else Inr (decl, backup2 v p))))"

declare declarations.simps [simp del]

definition starts_command :: "itemType \<Rightarrow> bool" where
  "starts_command t \<longleftrightarrow> t \<in> {itemBool, itemCharConstant, itemComplex, itemDot, itemField, itemIdentifier, itemNumber,
     itemNil, itemRawString, itemString, itemVariable}"

text \<open>A command can hold a pipeline in parentheses, and a pipeline holds commands.\<close>

fun command_loop :: "parse_env \<Rightarrow> nat \<Rightarrow> CommandNode \<Rightarrow> parser \<Rightarrow> CommandNode parsed" and
    pipeline_loop :: "parse_env \<Rightarrow> nat \<Rightarrow> string \<Rightarrow> PipeNode \<Rightarrow> parser \<Rightarrow> PipeNode parsed" where
  "command_loop env 0 cmd p = Inl OutOfFuel"
| "command_loop env (Suc f) cmd p =
     bindE (next_token p) (\<lambda>(t, p).
       if it_typ t = itemRightDelim \<or> it_typ t = itemRightParen then Inr (cmd, backup p)
       else if it_typ t = itemPipe then Inr (cmd, p)
       else if it_typ t = itemLeftParen
       then bindE (declarations 2 ''parenthesized expression'' [] p) (\<lambda>(decl, p).
            bindE (pipeline_loop env f ''parenthesized expression'' (newPipeline (lineNumber p) decl) p) (\<lambda>(pipe, p).
            bindE (next_token p) (\<lambda>(t, p).
              if it_typ t \<noteq> itemRightParen
              then Inl (errorf_at ''missing right paren in parenthesized expression'' [] p)
              else command_loop env f (cmd @ [PipeArg pipe]) p)))
       else bindE (argument env t p) (\<lambda>(a, p). command_loop env f (cmd @ [a]) p))"
| "pipeline_loop env 0 ctx pipe p = Inl OutOfFuel"
| "pipeline_loop env (Suc f) ctx pipe p =
     bindE (next_token p) (\<lambda>(t, p).
       if it_typ t = itemRightDelim \<or> it_typ t = itemRightParen
       then (if pipe_Cmds pipe = [] then Inl (errorf_at ''missing value for %s'' [ctx] p)
             else Inr (pipe, if it_typ t = itemRightParen then backup p else p))
       else if starts_command (it_typ t)
       then bindE (command_loop env f [] (backup p)) (\<lambda>(cmd, p).
              if cmd = [] then Inl (errorf_at ''empty command'' [] p)
              else pipeline_loop env f ctx (PipeNode_append pipe cmd) p)
       else Inl (unexpected env t ctx p))"

declare command_loop.simps [simp del] pipeline_loop.simps [simp del]

text \<open>Two units of fuel for each item are enough.\<close>

definition pipeline :: "parse_env \<Rightarrow> string \<Rightarrow> parser \<Rightarrow> PipeNode parsed" where
  "pipeline env ctx p = bindE (declarations 2 ctx [] p) (\<lambda>(decl, p).
     pipeline_loop env (2 * remaining p + 2) ctx (newPipeline (lineNumber p) decl) p)"

section \<open>Lists and controls\<close>

text \<open>The controls call \<open>itemList\<close>, which calls them: they take it as the argument \<open>il\<close>. A list is
  returned with the end or else node that ends it.\<close>

type_synonym item_list = "parser \<Rightarrow> (node list \<times> node) parsed"

definition is_end :: "node \<Rightarrow> bool" where "is_end n \<longleftrightarrow> n = endNode"
definition is_else :: "node \<Rightarrow> bool" where "is_else n \<longleftrightarrow> (case n of elseNode _ \<Rightarrow> True | _ \<Rightarrow> False)"

definition popVars :: "nat \<Rightarrow> parser \<Rightarrow> unit parsed" where
  "popVars n p =
     (if n \<le> length (pr_vars p) then Inr ((), p\<lparr>pr_vars := take n (pr_vars p)\<rparr>)
      else Inl (Panic SliceBoundsOutOfRange))"

definition parseControl :: "parse_env \<Rightarrow> item_list \<Rightarrow> branch \<Rightarrow> parser \<Rightarrow> node parsed" where
  "parseControl env il b p =
     (let line = lineNumber p; nvars = length (pr_vars p) in
      bindE (pipeline env (branch_name b) p) (\<lambda>(pipe, p).
      bindE (il p) (\<lambda>((ns, nxt), p).
      bindE (if is_else nxt
             then bindE (il p) (\<lambda>((es, nxt), p).
               if \<not> is_end nxt
               then Inl (errorf_at ''expected end; found %s'' [znode_String (fmt_q (pe_lex env)) nxt] p)
               else Inr (Some es, p))
             else Inr (None, p)) (\<lambda>(es, p).
      bindE (popVars nvars p) (\<lambda>(_, p).
        Inr (BranchNode b line pipe ns es, p))))))"

definition endControl :: "parse_env \<Rightarrow> parser \<Rightarrow> node parsed" where
  "endControl env p = bindE (expect env itemRightDelim ''end'' p) (\<lambda>(_, p). Inr (endNode, p))"

definition elseControl :: "parse_env \<Rightarrow> parser \<Rightarrow> node parsed" where
  "elseControl env p = bindE (expect env itemRightDelim ''else'' p) (\<lambda>(_, p). Inr (elseNode (lineNumber p), p))"

definition templateControl :: "parse_env \<Rightarrow> parser \<Rightarrow> node parsed" where
  "templateControl env p =
     bindE (next_token p) (\<lambda>(t, p).
     bindE (if it_typ t = itemString \<or> it_typ t = itemRawString then unquoted env (it_val t) p
            else Inl (unexpected env t ''template invocation'' p)) (\<lambda>(name, p).
     bindE (next_token p) (\<lambda>(t, p).
     bindE (if it_typ t \<noteq> itemRightDelim
            then bindE (pipeline env ''template'' (backup p)) (\<lambda>(pipe, p). Inr (Some pipe, p))
            else Inr (None, p)) (\<lambda>(pipe, p).
       Inr (TemplateNode (lineNumber p) name pipe, p)))))"

definition addBlock :: "string \<Rightarrow> parser \<Rightarrow> unit parsed" where
  "addBlock name p =
     (if name \<in> pr_blocks p then Inl (errorf_at ''duplicated block name %q'' [name] p)
      else Inr ((), p\<lparr>pr_blocks := insert name (pr_blocks p)\<rparr>))"

definition blockControl :: "parse_env \<Rightarrow> item_list \<Rightarrow> parser \<Rightarrow> node parsed" where
  "blockControl env il p =
     (let line = lineNumber p in
      bindE (expectOneOf env itemString itemRawString ''block definition'' p) (\<lambda>(t, p).
      bindE (unquoted env (it_val t) p) (\<lambda>(name, p).
      bindE (expect env itemRightDelim ''block definition'' p) (\<lambda>(_, p).
      bindE (il p) (\<lambda>((ns, nxt), p).
        if \<not> is_end nxt
        then Inl (errorf_at ''expected end in %s; found %s'' [''block definition'', znode_String (fmt_q (pe_lex env)) nxt] p)
        else bindE (addBlock name p) (\<lambda>(_, p). Inr (BlockNode line name ns, p)))))))"

definition action :: "parse_env \<Rightarrow> item_list \<Rightarrow> parser \<Rightarrow> node parsed" where
  "action env il p = bindE (next_token p) (\<lambda>(t, p).
     case it_typ t of
       itemBlock \<Rightarrow> blockControl env il p
     | itemElse \<Rightarrow> elseControl env p
     | itemEnd \<Rightarrow> endControl env p
     | itemIf \<Rightarrow> parseControl env il NodeIf p
     | itemRange \<Rightarrow> parseControl env il NodeRange p
     | itemTemplate \<Rightarrow> templateControl env p
     | itemWith \<Rightarrow> parseControl env il NodeWith p
     | _ \<Rightarrow>
         let p = backup p; line = lineNumber p in
         bindE (pipeline env ''command'' p) (\<lambda>(pipe, p). Inr (ActionNode line pipe, p)))"

definition textOrAction :: "parse_env \<Rightarrow> item_list \<Rightarrow> parser \<Rightarrow> node parsed" where
  "textOrAction env il p = bindE (next_token p) (\<lambda>(t, p).
     case it_typ t of
       itemText \<Rightarrow> Inr (TextNode (it_val t), p)
     | itemLeftDelim \<Rightarrow> action env il p
     | _ \<Rightarrow> Inl (unexpected env t ''input'' p))"

fun itemList :: "parse_env \<Rightarrow> nat \<Rightarrow> node list \<Rightarrow> item_list" where
  "itemList env 0 ns p = Inl OutOfFuel"
| "itemList env (Suc f) ns p =
     bindE (peek_token p) (\<lambda>(t, p).
       if it_typ t = itemEOF then Inl (errorf_at ''unexpected EOF'' [] p)
       else bindE (textOrAction env (itemList env f []) p) (\<lambda>(n, p).
         if is_end n \<or> is_else n then Inr ((ns, n), p) else itemList env f (ns @ [n]) p))"

text \<open>The blocks of a definition that extends another. A token that is neither text nor a delimiter is passed
  over.\<close>

fun blockList :: "parse_env \<Rightarrow> nat \<Rightarrow> string \<Rightarrow> node list \<Rightarrow> parser \<Rightarrow> node list parsed" where
  "blockList env 0 ctx ns p = Inl OutOfFuel"
| "blockList env (Suc f) ctx ns p =
     bindE (next_token p) (\<lambda>(t, p).
       if it_typ t = itemEOF then Inl (errorf_at ''unexpected EOF'' [] p)
       else if it_typ t = itemText
       then (if trim_space (it_val t) \<noteq> [] then Inl (unexpected env t ctx p) else blockList env f ctx ns p)
       else if it_typ t = itemLeftDelim
       then bindE (next_token p) (\<lambda>(t, p).
              if it_typ t = itemBlock
              then bindE (blockControl env (itemList env f []) p) (\<lambda>(b, p). blockList env f ctx (ns @ [b]) p)
              else if it_typ t = itemEnd then bindE (endControl env p) (\<lambda>(_, p). Inr (ns, p))
              else Inl (unexpected env t ctx p))
       else blockList env f ctx ns p)"

section \<open>Definitions\<close>

text \<open>\<open>add\<close>: \<open>err\<close> is what \<open>errorf\<close> does for the tree.\<close>

definition add_tree :: "perror \<Rightarrow> string \<Rightarrow> DefineNode \<Rightarrow> treeSet \<Rightarrow> perror + treeSet" where
  "add_tree err name d ts =
     (let empty = (\<lambda>d. case IsEmptyDefine d of Inl e \<Rightarrow> Inl (StringPanic e) | Inr b \<Rightarrow> Inr b);
          added = ts(name \<mapsto> \<lparr>tree_Name = name, tree_Root = Some d\<rparr>) in
      case ts name of
        None \<Rightarrow> Inr added
      | Some t \<Rightarrow> (case tree_Root t of
          None \<Rightarrow> Inl (Panic NilDereference)
        | Some old \<Rightarrow> bindE (empty old) (\<lambda>b.
            if b then Inr added
            else bindE (empty d) (\<lambda>b. if b then Inr ts else Inl err))))"

text \<open>The name of a definition, which becomes the name of the tree.\<close>

definition defined_name :: "parse_env \<Rightarrow> item \<Rightarrow> parser \<Rightarrow> string parsed" where
  "defined_name env t p = (case pe_Unquote env (it_val t) of
     None \<Rightarrow> Inl (errorf_at ''%s'' [''invalid syntax''] (p\<lparr>pr_name := []\<rparr>))
   | Some name \<Rightarrow> Inr (name, p\<lparr>pr_name := name\<rparr>))"

text \<open>The parent and the list of a definition, from the token after its name.\<close>

definition define_body :: "parse_env \<Rightarrow> nat \<Rightarrow> string \<Rightarrow> item \<Rightarrow> parser \<Rightarrow> (string \<times> node list) parsed" where
  "define_body env f ctx t p =
     (if it_typ t = itemRightDelim
      then bindE (itemList env f [] p) (\<lambda>((ns, nxt), p).
             if \<not> is_end nxt
             then Inl (errorf_at ''unexpected %s in %s'' [znode_String (fmt_q (pe_lex env)) nxt, ctx] p)
             else Inr (([], ns), p))
      else if it_typ t = itemString \<or> it_typ t = itemRawString
      then bindE (unquoted env (it_val t) p) (\<lambda>(parent, p).
             if parent = [] then Inl (errorf_at ''parent template name can't be empty in define clause'' [] p)
             else bindE (expect env itemRightDelim ctx p) (\<lambda>(_, p).
                  bindE (blockList env f ctx [] p) (\<lambda>(ns, p). Inr ((parent, ns), p))))
      else Inl (unexpected env t ctx p))"

text \<open>The definition, and the parser of the tree it is parsed with.\<close>

definition parseDefinition :: "parse_env \<Rightarrow> nat \<Rightarrow> parser \<Rightarrow> DefineNode parsed" where
  "parseDefinition env f p =
     (let line = lineNumber p; ctx = ''define clause'' in
      bindE (expectOneOf env itemString itemRawString ctx p) (\<lambda>(t, p).
      bindE (defined_name env t p) (\<lambda>(name, p).
      bindE (next_token p) (\<lambda>(t, p).
      bindE (define_body env f ctx t p) (\<lambda>(body, p).
        Inr (\<lparr>def_Line = line, def_Name = name, def_Parent = fst body, def_List = snd body\<rparr>, p))))))"

definition no_item :: item where "no_item = \<lparr>it_typ = itemError, it_pos = 0, it_val = []\<rparr>"

text \<open>\<open>New\<close> and \<open>startParse\<close>.\<close>

definition new_tree :: "string \<Rightarrow> parser \<Rightarrow> parser" where
  "new_tree name p = p\<lparr>pr_name := name, pr_token0 := no_item, pr_token1 := no_item, pr_peekCount := 0,
     pr_vars := [''$''], pr_blocks := {}\<rparr>"

definition with_trees :: "treeSet \<Rightarrow> perror + 'a \<Rightarrow> (perror \<times> treeSet) + 'a" where
  "with_trees ts m = (case m of Inl e \<Rightarrow> Inl (e, ts) | Inr x \<Rightarrow> Inr x)"

text \<open>The body of \<open>parse\<close>: the definitions go to the tree set, everything else to the list. An error is
  returned with the tree set as it is then. After \<open>stopParse\<close> the lexer of a definition is nil, so that
  the error for a second definition of a name is a nil dereference.\<close>

fun parse_loop :: "parse_env \<Rightarrow> nat \<Rightarrow> node list \<Rightarrow> treeSet \<Rightarrow> parser \<Rightarrow> (perror \<times> treeSet) + (node list \<times> treeSet \<times> parser)" where
  "parse_loop env 0 ns ts p = Inl (OutOfFuel, ts)"
| "parse_loop env (Suc f) ns ts p =
     (let rest = (\<lambda>p. bindE (with_trees ts (textOrAction env (itemList env f []) p)) (\<lambda>(n, p).
            if is_end n then Inl (errorf_at ''unexpected %s'' [znode_String (fmt_q (pe_lex env)) n] p, ts)
            else parse_loop env f (ns @ [n]) ts p)) in
      bindE (with_trees ts (peek_token p)) (\<lambda>(t, p).
        if it_typ t = itemEOF then Inr (ns, ts, p)
        else if it_typ t = itemLeftDelim
        then bindE (with_trees ts (next_token p)) (\<lambda>(delim, p).
             bindE (with_trees ts (next_token p)) (\<lambda>(t, p).
               if it_typ t = itemDefine
               then bindE (with_trees ts (parseDefinition env f (new_tree ''definition'' p))) (\<lambda>(d, q).
                    bindE (with_trees ts (add_tree (Panic NilDereference) (def_Name d) d ts)) (\<lambda>ts.
                      parse_loop env f ns ts (p\<lparr>pr_lastPos := pr_lastPos q, pr_items := pr_items q\<rparr>)))
               else rest (backup2 delim p)))
        else rest p))"

definition new_parser :: "string \<Rightarrow> lexer \<Rightarrow> parser" where
  "new_parser name l =
     \<lparr>pr_input = lx_input l, pr_lastPos = 0, pr_items = lx_items l, pr_name = name, pr_token0 = no_item,
      pr_token1 = no_item, pr_peekCount = 0, pr_vars = [''$''], pr_blocks = {}\<rparr>"

text \<open>\<open>Parse\<close>: the tree set, with the error if there is one. One unit of fuel for each item is enough.\<close>

definition zap_Parse :: "parse_env \<Rightarrow> string \<Rightarrow> string \<Rightarrow> string \<Rightarrow> string \<Rightarrow> (treeSet \<times> perror option) option" where
  "zap_Parse env txt name left right =
     (case zap_lex (pe_lex env) name txt left right of
        None \<Rightarrow> None
      | Some (Inl e) \<Rightarrow> Some (Map.empty, Some (Panic e))
      | Some (Inr l) \<Rightarrow> Some (case parse_loop env (Suc (length (lx_items l))) [] Map.empty (new_parser name l) of
            Inl (e, ts) \<Rightarrow> (ts, Some e)
          | Inr (ns, ts, p) \<Rightarrow>
              let d = \<lparr>def_Line = 1, def_Name = name, def_Parent = [], def_List = ns\<rparr> in
              (case add_tree (errorf_at ''template: multiple definition of template %q'' [name] p) name d ts of
                 Inl e \<Rightarrow> (ts, Some e)
               | Inr ts \<Rightarrow> (ts, None))))"

end
