(* ===== verification/Zap_Lex_Correct.thy ===== *)
theory Zap_Lex_Correct
  imports Zap_Lex Template_Scan_Correct
begin

text \<open>
  What the lexer of zap templates guarantees: the scan ends on every input, without a panic, and the items
  it sends, with the spaces and comments it skips, are the input.
\<close>

section \<open>The states of the lexer\<close>

lemma zap_silent_lex [simp]: "silent lex_kinds = {itemError, itemEOF, itemKeyword}"
  by (simp add: silent_def lex_kinds_def)

interpretation zap: item_kinds lex_kinds
  by unfold_locales (simp add: lex_kinds_def silent_def)

interpretation zap_terminator: cursor "\<lambda>l. snd (atTerminator l)"
  by unfold_locales (metis (mono_tags, lifting) peek.op_moves atTerminator_def case_prod_beta snd_conv)

lemma zap_word_type_sent: "w \<noteq> [] \<Longrightarrow> \<exists>t. word_type w = Inr t \<and> t \<notin> {itemError, itemEOF, itemKeyword}"
  by (auto simp: word_type_def key_def split: option.split if_splits)

text \<open>The count of open parentheses matters to no invariant.\<close>

lemma depth_inv [simp]:
  "lex_inv ks (l\<lparr>lx_parenDepth := d\<rparr>) = lex_inv ks l" "same_source l0 (l\<lparr>lx_parenDepth := d\<rparr>) = same_source l0 l"
  "lx_start (l\<lparr>lx_parenDepth := d\<rparr>) = lx_start l" "lx_input (l\<lparr>lx_parenDepth := d\<rparr>) = lx_input l"
  by (simp_all add: lex_inv_def same_source_def)

lemma good_depth:
  "lex_good ks env st l (goto lexInsideAction m) \<Longrightarrow>
     lex_good ks env st l (bindE m (\<lambda>l. Inr (Some lexInsideAction, l\<lparr>lx_parenDepth := d l\<rparr>)))"
  by (cases m) (auto simp: goto_def lex_good_def lex_measure_def)

lemma good_after_paren:
  assumes "lex_good lex_kinds env st l (goto lexInsideAction m)"
  shows "lex_good lex_kinds env st l (bindE m (after_paren env r))"
proof -
  obtain l1 where l1: "m = Inr l1" "same_source l l1" "lex_inv lex_kinds l1" "lx_pos l1 = lx_start l1"
    "lex_measure lexInsideAction l1 < lex_measure st l"
    using assms by (cases m) (auto simp: goto_def lex_good_def)
  define l2 where "l2 = l1\<lparr>lx_parenDepth := lx_parenDepth l1 - 1\<rparr>"
  have l2: "same_source l l2" "lex_inv lex_kinds l2" "lx_pos l2 = lx_start l2" "lx_start l2 = lx_start l1" "lx_input l2 = lx_input l1"
    using l1 by (simp_all add: l2_def)
  obtain r1 l3 where n: "lex_next l2 = (r1, l3)" by fastforce
  have "lx_pos l2 \<le> length (lx_input l2)" using l2(2) by (simp add: lex_inv_def)
  note b = lex_next_moves(2,3) [OF this n]
  have l4: "same_source l (lex_backup l3)" "lex_inv lex_kinds (lex_backup l3)"
    "lx_pos (lex_backup l3) = lx_start (lex_backup l3)" "lx_start (lex_backup l3) = lx_start l1" "lx_input (lex_backup l3) = lx_input l1"
    using l2 b lex_inv_moves [OF l2(2) b(1)] by (simp_all add: same_source_def moves_def)
  have pk: "lex_peek l2 = (r1, lex_backup l3)" by (simp add: lex_peek_def n)
  have "lex_good lex_kinds env st l (Inr (Some lexInsideAction, lex_backup l3))"
    using l4 l1(5) by (simp add: lex_good_def lex_measure_def)
  moreover have "lex_good lex_kinds env st l (lex_errorf msg l2)" "lex_good lex_kinds env st l (lex_errorf msg (lex_backup l3))" for msg
    using lex_good_error [OF l2(2,1)] lex_good_error [OF l4(2,1)] by (simp_all add: lex_errorf_def)
  ultimately show ?thesis
    by (simp add: l1(1) after_paren_def Let_def l2_def [symmetric] pk)
qed

lemma zap_inside_good:
  assumes "lex_inv lex_kinds l" "state_inv env lexInsideAction l"
  shows "lex_good lex_kinds env lexInsideAction l (do_lexInsideAction env l)"
proof -
  obtain r l1 where n: "lex_next l = (r, l1)" by fastforce
  obtain r2 l2 where n2: "lex_next l1 = (r2, l2)" by fastforce
  have m1: "moves l l1" using lex_next_moves(1) [OF _ n] assms(1) by (simp add: lex_inv_def)
  then have l1: "moves l1 l1" "moves l1 l2" using lex_next_moves(1) [OF _ n2] by (auto simp: moves_def)
  note states = zap.action_states [OF assms n]
  note items = zap.action_items [OF assms n l1(1)] zap.action_items [OF assms n l1(2)]
  have unclosed: "lex_good lex_kinds env lexInsideAction l (scan_errorf lex_kinds msg l)" for msg
    using lex_good_error [OF assms(1)] by (simp add: same_source_def)
  have left: "lex_good lex_kinds env lexInsideAction l (bindE (emit itemLeftParen l1)
      (\<lambda>l. Inr (Some lexInsideAction, l\<lparr>lx_parenDepth := lx_parenDepth l + 1\<rparr>)))" if "r \<noteq> eof"
    by (rule good_depth) (use items(2) [OF that] in simp)
  have right: "lex_good lex_kinds env lexInsideAction l (bindE (emit itemRightParen l1) (after_paren env x))" if "r \<noteq> eof" for x
    by (rule good_after_paren) (use items(2) [OF that] in simp)
  show ?thesis
    unfolding do_lexInsideAction_def states(1) bindE_simps n prod.case Let_def n2 lex_errorf_def
    using states(2-) items unclosed left right by (simp split del: if_split) (simp split: if_split)
qed

lemma zap_left_good:
  assumes "lex_inv lex_kinds l" "state_inv env lexLeftDelim l"
  shows "lex_good lex_kinds env lexLeftDelim l (do_lexLeftDelim l)"
  using zap.left_facts [OF assms] good_depth [OF zap.left_facts(3) [OF assms, of itemLeftDelim], of "\<lambda>_. 0"] by (simp add: do_lexLeftDelim_def Let_def)

lemma zap_state_step_good:
  assumes "lex_inv lex_kinds l" "state_inv env st l"
  shows "lex_good lex_kinds env st l (state_step env st l)"
proof (cases st)
  case lexIdentifier
  then show ?thesis
    using assms zap.identifier_good [OF assms(1) _ zap_terminator.cursor_axioms] zap_word_type_sent
    by (simp add: do_lexIdentifier_def)
qed (use assms zap.lexText_good zap_left_good zap.comment_good zap.right_good zap_inside_good zap.number_good
    zap.char_good zap.quote_good zap.rawQuote_good
    in \<open>simp_all del: state_inv.simps add: do_lexText_def do_lexComment_def do_lexRightDelim_def do_lexNumber_def
      do_lexChar_def do_lexQuote_def do_lexRawQuote_def\<close>)

interpretation zap_run: lexer_run lex_kinds env "state_step env" "lex_run env" for env
proof
  show "lex_run env None l = Some (Inr l)" for l by (subst lex_run.simps) simp
  show "state_step env f l = Inr (st', l') \<Longrightarrow> lex_run env (Some f) l = lex_run env st' l'" for f l st' l'
    by (subst lex_run.simps) simp
qed (rule zap_state_step_good)

lemma zap_lex_finishes:
  "\<exists>l. zap_lex env name inp left right = Some (Inr l) \<and> finished lex_kinds l \<and>
     same_source (new_lexer name inp left right) l"
  unfolding zap_lex_def
  by (rule zap_run.run_finishes) (simp_all add: lex_inv_def new_lexer_def tiles_start)

text \<open>The lexer of zap templates returns on every input, without a panic. The items it sends are a cover of the
  input: each has the text at its position, only spaces and comments are left out between them, and the
  last item is the end of the input or an error, and no other item is.\<close>

theorem zap_lex_tiles_input:
  "\<exists>l items i. zap_lex env name inp left right = Some (Inr l) \<and> lx_items l = items @ [i] \<and>
     tiles {itemError, itemEOF, itemKeyword} inp (if left = [] then ''{{'' else left) (if right = [] then ''}}'' else right)
       items (it_pos i) \<and>
     (i = \<lparr>it_typ = itemEOF, it_pos = length inp, it_val = []\<rparr> \<or> it_typ i = itemError)"
proof -
  obtain l where l: "zap_lex env name inp left right = Some (Inr l)" "finished lex_kinds l"
    "same_source (new_lexer name inp left right) l"
    using zap_lex_finishes by blast
  have src: "lx_input l = inp" "lx_leftDelim l = (if left = [] then ''{{'' else left)"
    "lx_rightDelim l = (if right = [] then ''}}'' else right)"
    using l(3) by (simp_all add: same_source_def new_lexer_def)
  from l(2) show ?thesis unfolding finished_def src zap_silent_lex using l(1) by (auto simp: lex_kinds_def)
qed

end
