(* ===== verification/Zap_Parse_Correct.thy ===== *)
theory Zap_Parse_Correct
  imports Zap_Parse Zap_Lex_Correct
begin

text \<open>
  The parser of zap templates answers or panics in known ways, and it waits for an item that never comes only
  after an error of the lexer.
\<close>

section \<open>The items still to be read\<close>

text \<open>The buffered tokens and the items of the lexer, in the order they are read.\<close>

definition stream :: "parser \<Rightarrow> item list" where
  "stream p = (if pr_peekCount p = 0 then [] else if pr_peekCount p = 1 then [pr_token0 p]
     else [pr_token1 p, pr_token0 p]) @ pr_items p"

definition final :: "item \<Rightarrow> bool" where
  "final i \<longleftrightarrow> it_typ i \<in> {itemEOF, itemError}"

definition item_ok :: "item \<Rightarrow> bool" where
  "item_ok i \<longleftrightarrow> (it_typ i \<in> {itemField, itemCharConstant} \<longrightarrow> it_val i \<noteq> [])"

text \<open>Only the last item is the end of the input or an error; \<open>L\<close> holds when it is an error.\<close>

definition stream_ok :: "bool \<Rightarrow> item list \<Rightarrow> bool" where
  "stream_ok L xs \<longleftrightarrow> xs \<noteq> [] \<and> list_all item_ok xs \<and> list_all (\<lambda>i. \<not> final i) (butlast xs) \<and> final (last xs) \<and>
     (it_typ (last xs) = itemError \<longrightarrow> L)"

lemma stream_ok_Cons:
  "stream_ok L (t # r) \<longleftrightarrow> item_ok t \<and> (if r = [] then final t \<and> (it_typ t = itemError \<longrightarrow> L) else \<not> final t \<and> stream_ok L r)"
  by (auto simp: stream_ok_def)

definition parser_ok :: "bool \<Rightarrow> parser \<Rightarrow> bool" where
  "parser_ok L p \<longleftrightarrow> pr_peekCount p \<le> 2 \<and> stream_ok L (stream p) \<and> pr_vars p \<noteq> []"

lemma next_token_stream:
  assumes "parser_ok L p"
  obtains t p1 where "next_token p = Inr (t, p1)" "stream p = t # stream p1" "pr_vars p1 = pr_vars p"
    "pr_peekCount p1 \<le> pr_peekCount p - 1" "item_ok t" "parser_ok L (backup p1)" "stream (backup p1) = stream p"
    "pr_vars (backup p1) = pr_vars p" "\<not> final t \<Longrightarrow> parser_ok L p1" "final t \<Longrightarrow> stream p1 = [] \<and> (it_typ t = itemError \<longrightarrow> L)"
    "pr_peekCount p1 = 0 \<or> pr_items p1 = pr_items p"
proof -
  obtain t r where s: "stream p = t # r" using assms by (cases "stream p") (auto simp: parser_ok_def stream_ok_def)
  have c: "pr_peekCount p = 0 \<or> pr_peekCount p = 1 \<or> pr_peekCount p = 2" using assms by (auto simp: parser_ok_def)
  have "\<exists>p1. next_token p = Inr (t, p1) \<and> stream p1 = r \<and> pr_vars p1 = pr_vars p \<and> pr_peekCount p1 \<le> pr_peekCount p - 1 \<and>
      stream (backup p1) = t # r \<and> pr_peekCount (backup p1) \<le> 2 \<and> (pr_peekCount p1 = 0 \<or> pr_items p1 = pr_items p)"
    using c s by (auto simp: next_token_def nextItem_def stream_def token_at_def backup_def split: list.splits if_splits)
  then obtain p1 where p1: "next_token p = Inr (t, p1)" "stream p1 = r" "pr_vars p1 = pr_vars p"
    "pr_peekCount p1 \<le> pr_peekCount p - 1" "stream (backup p1) = t # r" "pr_peekCount (backup p1) \<le> 2"
    "pr_peekCount p1 = 0 \<or> pr_items p1 = pr_items p" by blast
  have ok: "stream_ok L (t # r)" "pr_vars p \<noteq> []" using assms s by (simp_all add: parser_ok_def)
  show thesis
    by (rule that [OF p1(1)])
      (use p1 ok s c in \<open>auto simp: stream_ok_Cons parser_ok_def backup_def split: if_splits\<close>)
qed

lemma peek_token_stream:
  assumes "parser_ok L p"
  obtains t p1 where "peek_token p = Inr (t, p1)" "stream p1 = stream p" "hd (stream p) = t" "pr_vars p1 = pr_vars p"
    "parser_ok L p1" "0 < pr_peekCount p1" "pr_peekCount p \<le> 1 \<Longrightarrow> pr_peekCount p1 = 1"
proof -
  obtain t r where s: "stream p = t # r" using assms by (cases "stream p") (auto simp: parser_ok_def stream_ok_def)
  have c: "pr_peekCount p = 0 \<or> pr_peekCount p = 1 \<or> pr_peekCount p = 2" using assms by (auto simp: parser_ok_def)
  have "\<exists>p1. peek_token p = Inr (t, p1) \<and> stream p1 = stream p \<and> pr_vars p1 = pr_vars p \<and> pr_peekCount p1 \<le> 2 \<and>
      0 < pr_peekCount p1 \<and> (pr_peekCount p \<le> 1 \<longrightarrow> pr_peekCount p1 = 1)"
    using c s by (auto simp: peek_token_def nextItem_def stream_def token_at_def split: list.splits if_splits)
  then show thesis using that s assms by (auto simp: parser_ok_def)
qed

section \<open>The contract of a parsing step\<close>

fun error_ok :: "bool \<Rightarrow> perror \<Rightarrow> bool" where
  "error_ok L (Errorf name line fmt args) \<longleftrightarrow> True"
| "error_ok L Blocked \<longleftrightarrow> L"
| "error_ok L (Panic e) \<longleftrightarrow> False"
| "error_ok L (StringPanic e) \<longleftrightarrow> False"
| "error_ok L OutOfFuel \<longleftrightarrow> False"

text \<open>After a step at most \<open>n\<close> items remain and at least \<open>k\<close> variables are defined.\<close>

definition good_result :: "bool \<Rightarrow> nat \<Rightarrow> nat \<Rightarrow> 'a parsed \<Rightarrow> bool" where
  "good_result L n k r \<longleftrightarrow> (case r of
     Inl e \<Rightarrow> error_ok L e
   | Inr (a, p) \<Rightarrow> parser_ok L p \<and> length (stream p) \<le> n \<and> k \<le> length (pr_vars p))"

named_theorems zap_good

lemma zap_good_Inl [zap_good]: "error_ok L e \<Longrightarrow> good_result L n k (Inl e)"
  by (simp add: good_result_def)

lemma zap_good_Inr:
  "parser_ok L p \<Longrightarrow> length (stream p) \<le> n \<Longrightarrow> k \<le> length (pr_vars p) \<Longrightarrow> good_result L n k (Inr (a, p))"
  by (simp add: good_result_def)

lemma zap_good_weaken: "good_result L n k r \<Longrightarrow> n \<le> n' \<Longrightarrow> k' \<le> k \<Longrightarrow> good_result L n' k' r"
  by (auto simp: good_result_def split: sum.splits)

lemma zap_good_bind:
  assumes "good_result L n k m"
    and "\<And>a p. m = Inr (a, p) \<Longrightarrow> parser_ok L p \<Longrightarrow> length (stream p) \<le> n \<Longrightarrow> k \<le> length (pr_vars p) \<Longrightarrow>
      good_result L n' k' (f (a, p))"
  shows "good_result L n' k' (bindE m f)"
  using assms by (cases m) (auto simp: good_result_def)

lemma zap_error_ok_at [simp]: "error_ok L (errorf_at fmt args p)" "error_ok L (unexpected env t ctx p)"
  by (simp_all add: errorf_at_def unexpected_def)

lemma parser_ok_fields [simp]:
  "stream (p\<lparr>pr_vars := vs\<rparr>) = stream p" "stream (p\<lparr>pr_blocks := bs\<rparr>) = stream p" "stream (p\<lparr>pr_name := nm\<rparr>) = stream p"
  "parser_ok L (p\<lparr>pr_blocks := bs\<rparr>) = parser_ok L p" "parser_ok L (p\<lparr>pr_name := nm\<rparr>) = parser_ok L p"
  by (simp_all add: stream_def parser_ok_def)

text \<open>A step that is good while fewer than \<open>bound\<close> items remain.\<close>

locale zap_step =
  fixes L :: bool and step :: "parser \<Rightarrow> 'a parsed" and bound :: nat
  assumes good: "parser_ok L p \<Longrightarrow> length (stream p) < bound \<Longrightarrow>
    good_result L (length (stream p)) (length (pr_vars p)) (step p)"
begin

lemma step_within:
  "parser_ok L p \<Longrightarrow> length (stream p) < bound \<Longrightarrow> length (stream p) \<le> n \<Longrightarrow> k \<le> length (pr_vars p) \<Longrightarrow>
     good_result L n k (step p)"
  using good zap_good_weaken by blast

end

lemma next_good:
  assumes "parser_ok L p"
    and "\<And>t p1. stream p = t # stream p1 \<Longrightarrow> pr_vars p1 = pr_vars p \<Longrightarrow> item_ok t \<Longrightarrow> parser_ok L (backup p1) \<Longrightarrow>
      stream (backup p1) = stream p \<Longrightarrow> pr_vars (backup p1) = pr_vars p \<Longrightarrow> (\<not> final t \<Longrightarrow> parser_ok L p1) \<Longrightarrow>
      (final t \<Longrightarrow> stream p1 = [] \<and> (it_typ t = itemError \<longrightarrow> L)) \<Longrightarrow> good_result L n k (f (t, p1))"
  shows "good_result L n k (bindE (next_token p) f)"
  by (rule next_token_stream [OF assms(1)]) (use assms(2) in simp)

interpretation zap_expect: zap_step L "expect env itemRightDelim ctx" bound for L env ctx bound
  by unfold_locales
    (auto simp: expect_def final_def intro!: next_good zap_good_Inr zap_good)

interpretation zap_expectOneOf: zap_step L "expectOneOf env itemString itemRawString ctx" bound for L env ctx bound
  by unfold_locales
    (auto simp: expectOneOf_def final_def intro!: next_good zap_good_Inr zap_good)

interpretation zap_unquoted: zap_step L "unquoted env s" bound for L env s bound
  by unfold_locales (auto simp: unquoted_def good_result_def split: option.split)

section \<open>Commands and pipelines\<close>

lemma zap_newNumber_returns:
  assumes "ty = itemCharConstant \<longrightarrow> t \<noteq> []"
  shows "\<exists>r. newNumber env t ty = Inr r"
proof (cases "ty = itemCharConstant")
  case True
  then show ?thesis using assms by (simp add: newNumber_def newNumber_char_def)
next
  case False
  then show ?thesis by (simp add: newNumber_def Let_def)
qed

lemma zap_argument_good:
  assumes "item_ok t" "\<not> final t \<Longrightarrow> parser_ok L p" "length (stream p) \<le> n" "k \<le> length (pr_vars p)"
  shows "good_result L n k (argument env t p)"
proof (cases "final t")
  case True
  then show ?thesis by (auto simp: final_def argument_def good_result_def)
next
  case False
  note ok = assms(2) [OF False] assms(3,4)
  have num: "good_result L n k (bindE (lift_go (newNumber (pe_num env) (it_val t) ty) p) (\<lambda>(r, p). case r of
      Inl (fmt, args) \<Rightarrow> Inl (errorf_at fmt args p) | Inr m \<Rightarrow> Inr (NumberArg m, p)))" if "ty = it_typ t" for ty
  proof -
    have "ty = itemCharConstant \<longrightarrow> it_val t \<noteq> []" using assms(1) that by (auto simp: item_ok_def)
    from zap_newNumber_returns [OF this] obtain r where "newNumber (pe_num env) (it_val t) ty = Inr r" by blast
    then show ?thesis using ok by (auto simp: lift_go_def good_result_def split: sum.split)
  qed
  have str: "good_result L n k (bindE (unquoted env (it_val t) p) (\<lambda>(s, p). Inr (StringNode (it_val t) s, p)))"
    using ok by (auto simp: unquoted_def good_result_def split: option.split)
  have fld: "good_result L n k (lift_go (newField (it_val t)) p)" if "it_typ t = itemField"
    using that assms(1) ok by (cases "it_val t") (auto simp: item_ok_def newField_def lift_go_def good_result_def)
  show ?thesis
    using num [OF refl] str fld ok
    by (cases "it_typ t") (simp_all add: argument_def good_result_def useVar_def Let_def)
qed

lemma backup2_stream:
  assumes "stream p = t # stream p1" "stream p2 = stream p1" "pr_peekCount p2 = 1"
  shows "stream (backup2 t p2) = stream p"
  using assms by (simp add: stream_def backup2_def)

lemma zap_declarations_good:
  "parser_ok L p \<Longrightarrow> 2 \<le> length decl + k \<Longrightarrow>
     good_result L (length (stream p)) (length (pr_vars p)) (declarations k ctx decl p)"
proof (induction k arbitrary: decl p rule: less_induct)
  case (less k)
  obtain v p1 where v: "peek_token p = Inr (v, p1)" "stream p1 = stream p" "hd (stream p) = v" "pr_vars p1 = pr_vars p" "parser_ok L p1"
    by (rule peek_token_stream [OF less.prems(1)])
  obtain v' p2 where p2: "next_token p1 = Inr (v', p2)" "stream p1 = v' # stream p2" "pr_vars p2 = pr_vars p1"
    "pr_peekCount p2 \<le> pr_peekCount p1 - 1" "\<not> final v' \<Longrightarrow> parser_ok L p2"
    by (rule next_token_stream [OF v(5)]) blast
  show ?case
  proof (cases "it_typ v = itemVariable")
    case False
    then show ?thesis
      using v less.prems by (subst declarations.simps) (auto simp: good_result_def)
  next
    case True
    have "v' = v" using p2(2) v(2,3) by simp
    then have ok2: "parser_ok L p2" using p2(5) True by (simp add: final_def)
    obtain nx p3 where p3: "peek_token p2 = Inr (nx, p3)" "stream p3 = stream p2" "hd (stream p2) = nx" "pr_vars p3 = pr_vars p2"
      "parser_ok L p3" "pr_peekCount p2 \<le> 1 \<Longrightarrow> pr_peekCount p3 = 1"
      by (rule peek_token_stream [OF ok2]) blast
    obtain nx' p4 where p4: "next_token p3 = Inr (nx', p4)" "stream p3 = nx' # stream p4" "pr_vars p4 = pr_vars p3"
      "\<not> final nx' \<Longrightarrow> parser_ok L p4"
      by (rule next_token_stream [OF p3(5)]) blast
    have "nx' = nx" using p4(2) p3(2,3) by simp
    let ?var = "newVariable (it_val v)"
    let ?p5 = "p4\<lparr>pr_vars := pr_vars p4 @ [it_val v]\<rparr>"
    let ?comma = "it_typ nx = itemChar \<and> it_val nx = '','' "
    have eq: "declarations k ctx decl p =
        (if it_typ nx = itemColonEquals \<or> ?comma
         then if length ?var \<noteq> 1 then Inl (errorf_at ''illegal variable in declaration: %s'' [it_val v] p4)
              else if ?comma
              then if ctx = ''range'' \<and> length (decl @ [?var]) < 2
                   then (case k of 0 \<Rightarrow> Inl OutOfFuel | Suc k \<Rightarrow> declarations k ctx (decl @ [?var]) ?p5)
                   else Inl (errorf_at ''too many declarations in %s'' [ctx] ?p5)
              else Inr (decl @ [?var], ?p5)
         else Inr (decl, backup2 v p3))"
      using True by (subst declarations.simps) (cases k; simp add: v(1) p2(1) p3(1) p4(1) Let_def cong: if_cong)
    have count: "pr_peekCount p3 = 1"
      using p3(6) p2(4) v(5) by (auto simp: parser_ok_def)
    have "stream p = v # stream p2" using p2(2) v(2) \<open>v' = v\<close> by simp
    then have pushed: "stream (backup2 v p3) = stream p" using backup2_stream p3(2) count by blast
    then have kept: "good_result L (length (stream p)) (length (pr_vars p)) (Inr (decl, backup2 v p3))"
      using less.prems(1) p2(3) p3(4) v(4) by (auto simp: good_result_def parser_ok_def backup2_def)
    have p5: "parser_ok L ?p5" "length (stream ?p5) \<le> length (stream p)" "length (pr_vars p) \<le> length (pr_vars ?p5)"
      if "it_typ nx = itemColonEquals \<or> ?comma"
    proof -
      have "parser_ok L p4" using that p4(4) \<open>nx' = nx\<close> by (auto simp: final_def)
      then show "parser_ok L ?p5" by (simp add: parser_ok_def)
      show "length (stream ?p5) \<le> length (stream p)" "length (pr_vars p) \<le> length (pr_vars ?p5)"
        using p4(2,3) p3(2,4) p2(2,3) v(2,4) by simp_all
    qed
    have rec: "good_result L (length (stream p)) (length (pr_vars p))
        (case k of 0 \<Rightarrow> Inl OutOfFuel | Suc k \<Rightarrow> declarations k ctx (decl @ [?var]) ?p5)"
      if c: "it_typ nx = itemColonEquals \<or> ?comma" and short: "length (decl @ [?var]) < 2"
    proof -
      obtain k' where k: "k = Suc k'" "2 \<le> length (decl @ [?var]) + k'" using short less.prems(2) by (cases k) auto
      have "good_result L (length (stream ?p5)) (length (pr_vars ?p5)) (declarations k' ctx (decl @ [?var]) ?p5)"
        by (rule less.IH) (use k p5(1) [OF c] in auto)
      then show ?thesis using k(1) zap_good_weaken [OF _ p5(2,3) [OF c]] by simp
    qed
    show ?thesis
      unfolding eq using rec p5 kept by (auto intro: zap_good_Inr zap_good)
  qed
qed

text \<open>A command needs one unit of fuel more than twice the items, and a pipeline one more.\<close>

locale zap_loops =
  fixes L :: bool and env :: parse_env and f :: nat
  assumes command: "parser_ok L p \<Longrightarrow> 2 * length (stream p) < f \<Longrightarrow>
      good_result L (length (stream p)) (length (pr_vars p)) (command_loop env f cmd p)"
    and pipeline: "parser_ok L p \<Longrightarrow> 2 * length (stream p) + 1 < f \<Longrightarrow>
      good_result L (length (stream p)) (length (pr_vars p)) (pipeline_loop env f ctx pipe p)"
begin

lemma command_within:
  "parser_ok L p \<Longrightarrow> 2 * length (stream p) < f \<Longrightarrow> length (stream p) \<le> n \<Longrightarrow> k \<le> length (pr_vars p) \<Longrightarrow>
     good_result L n k (command_loop env f cmd p)"
  using command zap_good_weaken by blast

lemma pipeline_within:
  "parser_ok L p \<Longrightarrow> 2 * length (stream p) + 1 < f \<Longrightarrow> length (stream p) \<le> n \<Longrightarrow> k \<le> length (pr_vars p) \<Longrightarrow>
     good_result L n k (pipeline_loop env f ctx pipe p)"
  using pipeline zap_good_weaken by blast

text \<open>The rest of a command after an argument or a parenthesis; \<open>n\<close> items are left.\<close>

lemma argument_step:
  assumes "item_ok t" "\<not> final t \<Longrightarrow> parser_ok L p" "2 * length (stream p) < f"
  shows "good_result L (length (stream p)) (length (pr_vars p))
    (bindE (argument env t p) (\<lambda>(a, p). command_loop env f (cmd @ [a]) p))"
  by (rule zap_good_bind [OF zap_argument_good [OF assms(1,2) order_refl order_refl]])
    (use assms(3) in \<open>auto intro!: command_within\<close>)

lemma paren_step:
  assumes "parser_ok L p" "2 * length (stream p) + 1 < f"
  shows "good_result L (length (stream p)) (length (pr_vars p))
    (bindE (declarations 2 ctx [] p) (\<lambda>(decl, p).
     bindE (pipeline_loop env f ctx (newPipeline (lineNumber p) decl) p) (\<lambda>(pipe, p).
     bindE (next_token p) (\<lambda>(t, p).
       if it_typ t \<noteq> itemRightParen then Inl (errorf_at ''missing right paren in parenthesized expression'' [] p)
       else command_loop env f (cmd @ [PipeArg pipe]) p))))"
proof (rule zap_good_bind [OF zap_declarations_good [OF assms(1)]], simp, goal_cases)
  case (1 decl p1)
  have "good_result L (length (stream p)) (length (pr_vars p)) (pipeline_loop env f ctx (newPipeline (lineNumber p1) decl) p1)"
    using 1 assms(2) by (intro pipeline_within) auto
  then show ?case
  proof (simp, elim zap_good_bind, goal_cases)
    case (1 pipe p2)
    show ?case
      unfolding prod.case
      by (rule next_good [OF 1(3)])
        (use 1(4,5) assms(2) in \<open>auto simp: final_def intro!: command_within zap_good\<close>)
  qed
qed

end

text \<open>A command that starts with an argument uses up an item.\<close>

lemma command_starts:
  assumes "\<forall>g < f. zap_loops L env g" "parser_ok L p" "stream p = t # xs" "starts_command (it_typ t)" "2 * length xs + 1 < f"
  shows "good_result L (length xs) (length (pr_vars p)) (command_loop env f [] p)"
proof (cases f)
  case (Suc g)
  show ?thesis
    unfolding Suc command_loop.simps
  proof (rule next_good [OF assms(2)], goal_cases)
    case (1 t' p1)
    have eq: "t' = t" "stream p1 = xs" using 1(1) assms(3) by simp_all
    have "good_result L (length xs) (length (pr_vars p)) (bindE (argument env t p1) (\<lambda>(a, p). command_loop env g ([] @ [a]) p))"
      using zap_loops.argument_step [of L env g t p1 "[]"] assms(1,5) 1(2,3,7) eq Suc by simp
    then show ?case using assms(4) by (auto simp: eq(1) starts_command_def)
  qed
qed (use assms(5) in simp)

lemma zap_loops_good: "zap_loops L env f"
proof (induction f rule: less_induct)
  case (less f0)
  show ?case
  proof (cases f0)
    case 0
    then show ?thesis by unfold_locales simp_all
  next
  case (Suc f)
  have IH: "zap_loops L env f" using less.IH Suc by simp
  show ?thesis
    unfolding Suc
  proof
    fix p cmd
    assume ok: "parser_ok L p" and len: "2 * length (stream p) < Suc f"
    show "good_result L (length (stream p)) (length (pr_vars p)) (command_loop env (Suc f) cmd p)"
      unfolding command_loop.simps
    proof (rule next_good [OF ok], goal_cases)
      case (1 t p1)
      have p1: "2 * length (stream p1) + 1 < f" "length (stream p1) \<le> length (stream p)" using 1(1) len by simp_all
      have "good_result L (length (stream p)) (length (pr_vars p))
          (bindE (argument env t p1) (\<lambda>(a, p). command_loop env f (cmd @ [a]) p))"
        using zap_loops.argument_step [OF IH 1(3,7), of cmd] p1 1(2) zap_good_weaken by fastforce
      moreover have "good_result L (length (stream p)) (length (pr_vars p))
          (bindE (declarations 2 ''parenthesized expression'' [] p1) (\<lambda>(decl, p).
           bindE (pipeline_loop env f ''parenthesized expression'' (newPipeline (lineNumber p) decl) p) (\<lambda>(pipe, p).
           bindE (next_token p) (\<lambda>(t, p).
             if it_typ t \<noteq> itemRightParen then Inl (errorf_at ''missing right paren in parenthesized expression'' [] p)
             else command_loop env f (cmd @ [PipeArg pipe]) p))))" if "it_typ t = itemLeftParen"
        using zap_loops.paren_step [OF IH 1(7) p1(1), of "''parenthesized expression''" cmd] that p1(2) 1(2)
        by (auto simp: final_def intro: zap_good_weaken)
      ultimately show ?case
        using 1 p1(2) by (auto simp: final_def intro: zap_good_Inr)
    qed
  next
    fix p ctx pipe
    assume ok: "parser_ok L p" and len: "2 * length (stream p) + 1 < Suc f"
    show "good_result L (length (stream p)) (length (pr_vars p)) (pipeline_loop env (Suc f) ctx pipe p)"
      unfolding pipeline_loop.simps
    proof (rule next_good [OF ok], goal_cases)
      case (1 t p1)
      have p1: "2 * length (stream p1) + 1 < f" "length (stream p1) \<le> length (stream p)" using 1(1) len by simp_all
      have cmd: "good_result L (length (stream p1)) (length (pr_vars p)) (command_loop env f [] (backup p1))"
        if "starts_command (it_typ t)"
        using command_starts [of f L env "backup p1" t "stream p1"] less.IH Suc 1(1,4-6) that p1(1) by simp
      have "good_result L (length (stream p)) (length (pr_vars p))
          (bindE (command_loop env f [] (backup p1)) (\<lambda>(cmd, p). if cmd = [] then Inl (errorf_at ''empty command'' [] p)
            else pipeline_loop env f ctx (PipeNode_append pipe cmd) p))" if "starts_command (it_typ t)"
        by (rule zap_good_bind [OF cmd [OF that]]) (use p1 in \<open>auto intro!: zap_loops.pipeline_within [OF IH] zap_good\<close>)
      then show ?case using 1 p1(2) by (auto simp: final_def intro!: zap_good_Inr zap_good)
    qed
  qed
  qed
qed

interpretation loops: zap_loops L env f for L env f
  by (rule zap_loops_good)

interpretation zap_pipeline: zap_step L "pipeline env ctx" bound for L env ctx bound
proof
  fix p
  assume ok: "parser_ok L p"
  show "good_result L (length (stream p)) (length (pr_vars p)) (pipeline env ctx p)"
    unfolding pipeline_def
  proof (rule zap_good_bind [OF zap_declarations_good [OF ok]], simp, goal_cases)
    case (1 decl p1)
    have "remaining p1 = length (stream p1)" using 1(2) by (auto simp: remaining_def stream_def parser_ok_def)
    then show ?case using 1 by (auto intro!: loops.pipeline_within)
  qed
qed

section \<open>Controls\<close>

lemma zap_popVars_good:
  "parser_ok L p \<Longrightarrow> length (stream p) \<le> n \<Longrightarrow> 0 < k \<Longrightarrow> k \<le> length (pr_vars p) \<Longrightarrow> good_result L n k (popVars k p)"
  by (auto simp: popVars_def good_result_def parser_ok_def)

lemma zap_addBlock_good:
  "parser_ok L p \<Longrightarrow> length (stream p) \<le> n \<Longrightarrow> k \<le> length (pr_vars p) \<Longrightarrow> good_result L n k (addBlock name p)"
  by (auto simp: addBlock_def good_result_def)

lemma zap_end_else_good:
  assumes "parser_ok L p" "length (stream p) \<le> n" "k \<le> length (pr_vars p)"
  shows "good_result L n k (endControl env p)" "good_result L n k (elseControl env p)"
  unfolding endControl_def elseControl_def using assms
  by (auto intro!: zap_good_bind [where n = n and k = k] zap_expect.step_within [of L p "Suc n"] zap_good_Inr)

lemma zap_templateControl_good:
  assumes "parser_ok L p" "length (stream p) \<le> n" "k \<le> length (pr_vars p)"
  shows "good_result L n k (templateControl env p)"
  unfolding templateControl_def
proof (rule next_good [OF assms(1)], unfold prod.case, goal_cases)
  case (1 t p1)
  have "good_result L n k (if it_typ t = itemString \<or> it_typ t = itemRawString then unquoted env (it_val t) p1
      else Inl (unexpected env t ''template invocation'' p1))"
    using 1 assms by (auto simp: final_def intro!: zap_unquoted.step_within [of L p1 "Suc n"] zap_good)
  then show ?case
  proof (rule zap_good_bind, unfold prod.case, goal_cases)
    case (1 name p2)
    show ?case
      by (rule next_good [OF 1(2)], unfold prod.case,
          rule zap_good_bind [where n = n and k = k])
        (use 1(3,4) in \<open>auto simp: final_def intro!: zap_good_bind [where n = n and k = k]
          zap_pipeline.step_within [of L _ "Suc n"] zap_good_Inr\<close>)
  qed
qed

text \<open>The controls rely on the contract of \<open>itemList\<close>.\<close>

locale zap_control = zap_step L il bound for L :: bool and il :: item_list and bound :: nat
begin

lemma zap_parseControl_good:
  assumes "parser_ok L p" "length (stream p) < bound"
  shows "good_result L (length (stream p)) (length (pr_vars p)) (parseControl env il b p)"
proof -
  let ?n = "length (stream p)" and ?k = "length (pr_vars p)"
  have "0 < ?k" using assms(1) by (simp add: parser_ok_def)
  then show ?thesis
    unfolding parseControl_def Let_def using assms
    by (auto intro!: zap_good_bind [where n = ?n and k = ?k] zap_pipeline.good step_within zap_popVars_good zap_good_Inr zap_good
        simp: is_else_def)
qed

lemma zap_blockControl_good:
  assumes "parser_ok L p" "length (stream p) < bound"
  shows "good_result L (length (stream p)) (length (pr_vars p)) (blockControl env il p)"
  unfolding blockControl_def Let_def using assms
  by (auto intro!: zap_good_bind [where n = "length (stream p)" and k = "length (pr_vars p)"] zap_expectOneOf.good
      zap_unquoted.step_within zap_expect.step_within step_within zap_addBlock_good zap_good_Inr zap_good)

lemma zap_action_good:
  assumes "parser_ok L p" "length (stream p) < bound"
  shows "good_result L (length (stream p)) (length (pr_vars p)) (action env il p)"
  unfolding action_def
proof (rule next_good [OF assms(1)], unfold prod.case Let_def, goal_cases)
  case (1 t p1)
  have le: "length (stream p1) \<le> length (stream p)" "length (stream p1) < bound" using 1(1) assms(2) by simp_all
  have within: "good_result L (length (stream p)) (length (pr_vars p)) r"
    if "good_result L (length (stream p1)) (length (pr_vars p1)) r" for r :: "node parsed"
    by (rule zap_good_weaken [OF that le(1)]) (simp add: 1(2))
  have cmd: "good_result L (length (stream p)) (length (pr_vars p)) (bindE (pipeline env ''command'' (backup p1))
      (\<lambda>(pipe, p). Inr (ActionNode (lineNumber (backup p1)) pipe, p)))"
    using 1(4-6) zap_pipeline.step_within [of L "backup p1" "Suc (length (stream p))"]
    by (intro zap_good_bind [where n = "length (stream p)" and k = "length (pr_vars p)"]) (auto intro: zap_good_Inr)
  have "good_result L (length (stream p)) (length (pr_vars p)) (parseControl env il b p1)"
    "good_result L (length (stream p)) (length (pr_vars p)) (blockControl env il p1)"
    "good_result L (length (stream p)) (length (pr_vars p)) (templateControl env p1)"
    "good_result L (length (stream p)) (length (pr_vars p)) (endControl env p1)"
    "good_result L (length (stream p)) (length (pr_vars p)) (elseControl env p1)" if "\<not> final t" for b
    using within [OF zap_parseControl_good [OF 1(7) [OF that] le(2)]] within [OF zap_blockControl_good [OF 1(7) [OF that] le(2)]]
      zap_templateControl_good [OF 1(7) [OF that] le(1)] zap_end_else_good [OF 1(7) [OF that] le(1)] 1(2) by simp_all
  then show ?case
    using cmd by (cases "it_typ t") (simp_all add: final_def)
qed

lemma zap_textOrAction_good:
  assumes "parser_ok L p" "length (stream p) \<le> bound"
  shows "good_result L (length (stream p) - 1) (length (pr_vars p)) (textOrAction env il p)"
  unfolding textOrAction_def
proof (rule next_good [OF assms(1)], unfold prod.case, goal_cases)
  case (1 t p1)
  have "good_result L (length (stream p) - 1) (length (pr_vars p)) (action env il p1)" if "\<not> final t"
    using zap_action_good [OF 1(7) [OF that]] 1(1,2) assms(2) by simp
  then show ?case
    using 1 by (cases "it_typ t") (auto simp: final_def intro!: zap_good_Inr zap_good)
qed

end

text \<open>After the end or else node of a list no token is in the buffer.\<close>

lemma controls_no_end:
  "parseControl env il b p = Inr (n, q) \<Longrightarrow> \<not> is_end n \<and> \<not> is_else n"
  "blockControl env il p = Inr (n, q) \<Longrightarrow> \<not> is_end n \<and> \<not> is_else n"
  "templateControl env p = Inr (n, q) \<Longrightarrow> \<not> is_end n \<and> \<not> is_else n"
  by (auto simp: parseControl_def blockControl_def templateControl_def Let_def is_end_def is_else_def split: if_splits)

lemma textOrAction_drained:
  assumes "parser_ok L p" "textOrAction env il p = Inr (n, q)" "is_end n \<or> is_else n"
  shows "pr_peekCount q = 0"
proof -
  obtain t p1 where t: "next_token p = Inr (t, p1)" "pr_peekCount p1 \<le> pr_peekCount p - 1" "\<not> final t \<Longrightarrow> parser_ok L p1"
    by (rule next_token_stream [OF assms(1)]) blast
  have a: "it_typ t = itemLeftDelim" "action env il p1 = Inr (n, q)"
    using assms(2,3) t(1) by (auto simp: textOrAction_def is_end_def is_else_def split: itemType.splits)
  have ok1: "parser_ok L p1" using t(3) a(1) by (simp add: final_def)
  obtain u p2 where u: "next_token p1 = Inr (u, p2)" "pr_peekCount p2 \<le> pr_peekCount p1 - 1" "\<not> final u \<Longrightarrow> parser_ok L p2"
    by (rule next_token_stream [OF ok1]) blast
  have e: "it_typ u = itemEnd \<and> endControl env p2 = Inr (n, q) \<or> it_typ u = itemElse \<and> elseControl env p2 = Inr (n, q)"
    using a(2) assms(3) u(1) controls_no_end(1) [of env il _ p2 n q] controls_no_end(2) [of env il p2 n q]
      controls_no_end(3) [of env p2 n q]
    by (auto simp: action_def Let_def is_end_def is_else_def split: itemType.splits)
  then have ok2: "parser_ok L p2" using u(3) by (auto simp: final_def)
  obtain v p3 where v: "next_token p2 = Inr (v, p3)" "pr_peekCount p3 \<le> pr_peekCount p2 - 1"
    by (rule next_token_stream [OF ok2]) blast
  have q: "q = p3" using e v(1) by (auto simp: endControl_def elseControl_def expect_def split: if_splits)
  have "pr_peekCount p \<le> 2" using assms(1) by (simp add: parser_ok_def)
  then show ?thesis unfolding q using v(2) u(2) t(2) by linarith
qed

section \<open>Lists and definitions\<close>

definition drained :: "'a parsed \<Rightarrow> bool" where
  "drained r \<longleftrightarrow> (case r of Inl e \<Rightarrow> True | Inr (a, q) \<Rightarrow> pr_peekCount q = 0)"

lemma drained_Inl [simp]: "drained (Inl e)"
  by (simp add: drained_def)

lemma zap_itemList_good:
  "parser_ok L p \<Longrightarrow> length (stream p) < f \<Longrightarrow>
     good_result L (length (stream p)) (length (pr_vars p)) (itemList env f ns p) \<and> drained (itemList env f ns p)"
proof (induction f arbitrary: ns p)
  case (Suc f)
  have il: "zap_control L (itemList env f []) f"
    by unfold_locales (use Suc.IH in blast)
  obtain t p1 where pk: "peek_token p = Inr (t, p1)" "stream p1 = stream p" "pr_vars p1 = pr_vars p" "parser_ok L p1"
    by (rule peek_token_stream [OF Suc.prems(1)]) blast
  let ?step = "textOrAction env (itemList env f []) p1"
  have r: "length (stream p1) \<le> f" using pk(2) Suc.prems(2) by simp
  have pos: "0 < length (stream p1)" using pk(4) by (simp add: parser_ok_def stream_ok_def)
  have step: "good_result L (length (stream p1) - 1) (length (pr_vars p1)) ?step"
    by (rule zap_control.zap_textOrAction_good [OF il pk(4) r])
  show ?case
  proof (cases ?step)
    case (Inl e)
    then show ?thesis using step pk(1) by (auto simp: good_result_def drained_def)
  next
    case (Inr x)
    obtain n p2 where x: "x = (n, p2)" by fastforce
    have p2: "parser_ok L p2" "length (stream p2) \<le> length (stream p1) - 1" "length (pr_vars p1) \<le> length (pr_vars p2)"
      using step Inr x by (auto simp: good_result_def)
    have "length (stream p2) < f" using p2(2) pos r by linarith
    note IH = Suc.IH [OF p2(1) this, of "ns @ [n]"]
    have rec: "good_result L (length (stream p)) (length (pr_vars p)) (itemList env f (ns @ [n]) p2)"
      by (rule zap_good_weaken [OF conjunct1 [OF IH]]) (use p2(2,3) pk(2,3) in simp_all)
    have "drained (Inr ((ns, n), p2))" if "is_end n \<or> is_else n"
      using textOrAction_drained [OF pk(4) _ that] Inr x by (simp add: drained_def)
    moreover have "good_result L (length (stream p)) (length (pr_vars p)) (Inr ((ns, n), p2))"
      using p2 pk(2,3) by (auto intro: zap_good_Inr)
    ultimately show ?thesis
      using rec IH Inr x pk(1) by (simp add: zap_good_Inl)
  qed
qed simp

interpretation zap_item_list: zap_control L "itemList env f []" f for L env f
  by unfold_locales (use zap_itemList_good in blast)

lemma next_empty: "stream p = [] \<Longrightarrow> next_token p = Inl Blocked"
  by (auto simp: stream_def next_token_def nextItem_def split: if_splits)

lemma endControl_drained:
  assumes "parser_ok L p" "pr_peekCount p = 0" "endControl env p = Inr (n, q)"
  shows "pr_peekCount q = 0"
proof -
  obtain v p3 where v: "next_token p = Inr (v, p3)" "pr_peekCount p3 \<le> pr_peekCount p - 1"
    by (rule next_token_stream [OF assms(1)]) blast
  then have "q = p3" using assms(3) by (auto simp: endControl_def expect_def split: if_splits)
  then show ?thesis using v(2) assms(2) by simp
qed

lemma zap_blockList_good:
  "parser_ok L p \<Longrightarrow> length (stream p) < f \<Longrightarrow>
     good_result L (length (stream p)) (length (pr_vars p)) (blockList env f ctx ns p) \<and> drained (blockList env f ctx ns p)"
proof (induction f arbitrary: ns p)
  case (Suc f)
  let ?n = "length (stream p)" and ?k = "length (pr_vars p)"
  obtain t p1 where t: "next_token p = Inr (t, p1)" "stream p = t # stream p1" "pr_vars p1 = pr_vars p"
    "pr_peekCount p1 \<le> pr_peekCount p - 1" "\<not> final t \<Longrightarrow> parser_ok L p1"
    "final t \<Longrightarrow> stream p1 = [] \<and> (it_typ t = itemError \<longrightarrow> L)"
    by (rule next_token_stream [OF Suc.prems(1)]) blast
  have rec: "good_result L ?n ?k (blockList env f ctx ms q) \<and> drained (blockList env f ctx ms q)"
    if "parser_ok L q" "length (stream q) \<le> length (stream p1)" "?k \<le> length (pr_vars q)" for ms q
  proof -
    have "length (stream q) < f" using that(2) t(2) Suc.prems(2) by simp
    note IH = Suc.IH [OF that(1) this, of ms]
    have "good_result L ?n ?k (blockList env f ctx ms q)"
      by (rule zap_good_weaken [OF conjunct1 [OF IH]]) (use that(2,3) t(2) in simp_all)
    then show ?thesis using IH by blast
  qed
  show ?case
  proof (cases "final t")
    case True
    obtain g where g: "f = Suc g" using Suc.prems(2) t(2) by (cases f) auto
    have "next_token p1 = Inl Blocked" using True t(6) next_empty by blast
    then show ?thesis using True t(1,6) g by (auto simp: final_def good_result_def)
  next
    case False
    note ok1 = t(5) [OF False]
    obtain u p2 where u: "next_token p1 = Inr (u, p2)" "stream p1 = u # stream p2" "pr_vars p2 = pr_vars p1"
      "pr_peekCount p2 \<le> pr_peekCount p1 - 1" "\<not> final u \<Longrightarrow> parser_ok L p2"
      by (rule next_token_stream [OF ok1]) blast
    have "pr_peekCount p \<le> 2" using Suc.prems(1) by (simp add: parser_ok_def)
    then have count: "pr_peekCount p2 = 0" using u(4) t(4) by linarith
    have block: "good_result L ?n ?k r \<and> drained r"
      if r: "r = bindE (blockControl env (itemList env f []) p2) (\<lambda>(b, p). blockList env f ctx (ns @ [b]) p)"
        and ub: "it_typ u = itemBlock" for r
    proof -
      have p2: "parser_ok L p2" "length (stream p2) < f" "length (stream p2) \<le> length (stream p1)" "length (pr_vars p2) = ?k"
        using u(5) ub t(2,3) u(2,3) Suc.prems(2) by (simp_all add: final_def)
      have "good_result L (length (stream p2)) ?k (blockControl env (itemList env f []) p2)"
        using zap_item_list.zap_blockControl_good [OF p2(1,2)] p2(4) by simp
      then show ?thesis
        unfolding r using rec p2(3) by (cases "blockControl env (itemList env f []) p2") (auto simp: good_result_def [of L "length (stream p2)"] intro: zap_good)
    qed
    have fin: "good_result L ?n ?k r \<and> drained r"
      if r: "r = bindE (endControl env p2) (\<lambda>(x, p). Inr (ns, p))" and ue: "it_typ u = itemEnd" for r
    proof -
      have p2: "parser_ok L p2" using u(5) ue by (simp add: final_def)
      have "good_result L ?n ?k (endControl env p2)"
        using zap_end_else_good(1) [OF p2, of ?n ?k] t(2,3) u(2,3) by simp
      then show ?thesis
        unfolding r using endControl_drained [OF p2 count]
        by (cases "endControl env p2") (auto simp: good_result_def drained_def)
    qed
    show ?thesis
      using t(1) u(1) rec [OF ok1 order_refl] t(3) block [OF refl] fin [OF refl] False
      by (auto simp: final_def good_result_def [of L ?n ?k "Inl _"] simp del: itemList.simps)
  qed
qed simp

text \<open>Binding a step before a drained one.\<close>

lemma drained_bind:
  assumes "good_result L n k m"
    and "\<And>a p. m = Inr (a, p) \<Longrightarrow> parser_ok L p \<Longrightarrow> length (stream p) \<le> n \<Longrightarrow> k \<le> length (pr_vars p) \<Longrightarrow>
      good_result L n' k' (f (a, p)) \<and> drained (f (a, p))"
  shows "good_result L n' k' (bindE m f) \<and> drained (bindE m f)"
  using assms by (cases m) (auto simp: good_result_def)

lemma drained_Inr_bind:
  "good_result L n k m \<and> drained m \<Longrightarrow> good_result L n k (bindE m (\<lambda>(a, p). Inr (g a, p))) \<and> drained (bindE m (\<lambda>(a, p). Inr (g a, p)))"
  by (cases m) (auto simp: good_result_def drained_def)

lemma drained_weaken:
  "good_result L n k r \<and> drained r \<Longrightarrow> n \<le> n' \<Longrightarrow> k' \<le> k \<Longrightarrow> good_result L n' k' r \<and> drained r"
  using zap_good_weaken by blast

lemma define_body_good:
  assumes "\<not> final t \<Longrightarrow> parser_ok L p" "length (stream p) < f" "length (stream p) \<le> n" "k \<le> length (pr_vars p)"
  shows "good_result L n k (define_body env f ctx t p) \<and> drained (define_body env f ctx t p)"
proof -
  have list: "good_result L n k (bindE (itemList env f [] p) (\<lambda>((ns, nxt), p).
      if \<not> is_end nxt then Inl (errorf_at fmt (args nxt) p) else Inr (([], ns), p))) \<and>
    drained (bindE (itemList env f [] p) (\<lambda>((ns, nxt), p).
      if \<not> is_end nxt then Inl (errorf_at fmt (args nxt) p) else Inr (([], ns), p)))"
    if "parser_ok L p" for fmt :: string and args
    using drained_weaken [OF zap_itemList_good [OF that assms(2), of env "[]"] assms(3,4)]
    by (cases "itemList env f [] p") (auto simp: good_result_def drained_def)
  have blocks: "good_result L n k (bindE (blockList env f ctx [] q) (\<lambda>(ns, p). Inr ((parent, ns), p))) \<and>
      drained (bindE (blockList env f ctx [] q) (\<lambda>(ns, p). Inr ((parent, ns), p)))"
    if q: "parser_ok L q" "length (stream q) \<le> length (stream p)" "length (pr_vars p) \<le> length (pr_vars q)" for q and parent :: string
  proof (rule drained_Inr_bind, rule drained_weaken)
    show "good_result L (length (stream q)) (length (pr_vars q)) (blockList env f ctx [] q) \<and> drained (blockList env f ctx [] q)"
      by (rule zap_blockList_good) (use q assms(2) in auto)
  qed (use q assms(3,4) in auto)
  have parent: "good_result L n k (bindE (unquoted env s p) (\<lambda>(parent, p). if parent = [] then Inl (errorf_at fmt args p)
        else bindE (expect env itemRightDelim ctx p) (\<lambda>(_, p). bindE (blockList env f ctx [] p) (\<lambda>(ns, p). Inr ((parent, ns), p))))) \<and>
      drained (bindE (unquoted env s p) (\<lambda>(parent, p). if parent = [] then Inl (errorf_at fmt args p)
        else bindE (expect env itemRightDelim ctx p) (\<lambda>(_, p). bindE (blockList env f ctx [] p) (\<lambda>(ns, p). Inr ((parent, ns), p)))))"
    if ok: "parser_ok L p" for s and fmt :: string and args
  proof (rule drained_bind [OF zap_unquoted.good [OF ok lessI]], unfold prod.case, goal_cases)
    case (1 parent p1)
    have "good_result L n k (bindE (expect env itemRightDelim ctx p1) (\<lambda>(_, p). bindE (blockList env f ctx [] p) (\<lambda>(ns, p). Inr ((parent, ns), p)))) \<and>
      drained (bindE (expect env itemRightDelim ctx p1) (\<lambda>(_, p). bindE (blockList env f ctx [] p) (\<lambda>(ns, p). Inr ((parent, ns), p))))"
      by (rule drained_bind [OF zap_expect.good [OF 1(2) lessI]], unfold prod.case, rule blocks) (use 1(3,4) in auto)
    then show ?case by (simp add: zap_good_Inl)
  qed
  show ?thesis
    unfolding define_body_def
    using list [of "''unexpected %s in %s''" "\<lambda>nxt. [znode_String (fmt_q (pe_lex env)) nxt, ctx]"] parent assms(1)
    by (auto simp: final_def intro: zap_good)
qed

lemma zap_parseDefinition_good:
  assumes "parser_ok L p" "length (stream p) < f"
  shows "good_result L (length (stream p)) (length (pr_vars p)) (parseDefinition env f p) \<and> drained (parseDefinition env f p)"
  unfolding parseDefinition_def Let_def
proof (rule drained_bind [OF zap_expectOneOf.good [OF assms(1) lessI]], unfold prod.case, goal_cases)
  case (1 t p1)
  have "good_result L (length (stream p1)) (length (pr_vars p1)) (defined_name env t p1)"
    using 1(2) by (auto simp: defined_name_def good_result_def split: option.split)
  then show ?case
  proof (rule drained_bind, unfold prod.case, goal_cases)
    case (1 name p2)
    obtain u p3 where u: "next_token p2 = Inr (u, p3)" "stream p2 = u # stream p3" "pr_vars p3 = pr_vars p2" "\<not> final u \<Longrightarrow> parser_ok L p3"
      by (rule next_token_stream [OF 1(2)]) blast
    have "good_result L (length (stream p)) (length (pr_vars p)) (define_body env f ''define clause'' u p3) \<and>
        drained (define_body env f ''define clause'' u p3)"
      by (rule define_body_good [OF u(4)])
        (use u(2,3) 1(3,4) \<open>length (stream p1) \<le> length (stream p)\<close> \<open>length (pr_vars p) \<le> length (pr_vars p1)\<close> assms(2) in auto)
    from drained_Inr_bind [OF this] show ?case by (simp add: u(1))
  qed
qed

section \<open>The parse of a text\<close>

definition top_error :: "bool \<Rightarrow> perror \<Rightarrow> bool" where
  "top_error L e \<longleftrightarrow> error_ok L e \<or> e = Panic NilDereference \<or> (\<exists>x. e = StringPanic x)"

lemma add_tree_error: "add_tree err name d ts = Inl e \<Longrightarrow> top_error L err \<Longrightarrow> top_error L e"
  by (auto simp: add_tree_def top_error_def Let_def bindE_def split: option.splits sum.splits if_splits)

lemma with_trees_error:
  assumes "good_result L n k m" "with_trees ts m = Inl (e, ts')"
  shows "top_error L e"
  using assms by (auto simp: with_trees_def good_result_def top_error_def split: sum.splits)

text \<open>The outcome of the loop is good: its error is one of those of the top level.\<close>

definition good_outcome :: "bool \<Rightarrow> (perror \<times> treeSet) + 'a \<Rightarrow> bool" where
  "good_outcome L r \<longleftrightarrow> (case r of Inl (e, ts) \<Rightarrow> top_error L e | Inr x \<Rightarrow> True)"

lemma outcome_bind:
  assumes "good_result L n k m"
    and "\<And>a p. m = Inr (a, p) \<Longrightarrow> parser_ok L p \<Longrightarrow> length (stream p) \<le> n \<Longrightarrow> k \<le> length (pr_vars p) \<Longrightarrow> good_outcome L (g (a, p))"
  shows "good_outcome L (bindE (with_trees ts m) g)"
  using assms by (cases m) (auto simp: with_trees_def good_outcome_def good_result_def top_error_def)

lemma new_tree_ok:
  assumes "parser_ok L p" "pr_peekCount p = 0"
  shows "parser_ok L (new_tree name p)" "stream (new_tree name p) = stream p"
  using assms by (auto simp: new_tree_def parser_ok_def stream_def)

lemma zap_parse_loop_good:
  "parser_ok L p \<Longrightarrow> length (stream p) < f \<Longrightarrow> good_outcome L (parse_loop env f ns ts p)"
proof (induction f arbitrary: ns ts p)
  case (Suc f)
  obtain t p1 where pk: "peek_token p = Inr (t, p1)" "stream p1 = stream p" "parser_ok L p1" "hd (stream p) = t"
    by (rule peek_token_stream [OF Suc.prems(1)]) blast
  have len: "length (stream p1) \<le> f" "0 < length (stream p1)"
    using pk(2,3) Suc.prems(2) by (simp_all add: parser_ok_def stream_ok_def)
  have rest: "good_outcome L (bindE (with_trees ts (textOrAction env (itemList env f []) q)) (\<lambda>(n, p).
      if is_end n then Inl (errorf_at ''unexpected %s'' [znode_String (fmt_q (pe_lex env)) n] p, ts)
      else parse_loop env f (ns @ [n]) ts p))" if q: "parser_ok L q" "stream q = stream p1" for q
  proof (rule outcome_bind [OF zap_item_list.zap_textOrAction_good [OF q(1)]], goal_cases)
    case (2 n p2)
    have "length (stream p2) < f" using 2(3) len unfolding q(2) by linarith
    then have "good_outcome L (parse_loop env f (ns @ [n]) ts p2)" by (rule Suc.IH [OF 2(2)])
    then show ?case by (simp add: good_outcome_def [of L "Inl _"] top_error_def)
  qed (use len q in simp)
  obtain delim p2 where p2: "next_token p1 = Inr (delim, p2)" "stream p1 = delim # stream p2" "pr_vars p2 = pr_vars p1"
    "pr_peekCount p2 \<le> pr_peekCount p1 - 1" "\<not> final delim \<Longrightarrow> parser_ok L p2"
    by (rule next_token_stream [OF pk(3)]) blast
  have delim: "delim = t" using p2(2) pk(2,4) by simp
  show ?case
  proof (cases "it_typ t = itemLeftDelim")
    case False
    then show ?thesis using rest [OF pk(3) refl] pk(1) by (simp add: with_trees_def [of ts "Inr _"] Let_def good_outcome_def [of L "Inr _"])
  next
    case True
    have ok2: "parser_ok L p2" using p2(5) True delim by (simp add: final_def)
    obtain u p3 where p3: "next_token p2 = Inr (u, p3)" "stream p2 = u # stream p3" "pr_vars p3 = pr_vars p2"
      "pr_peekCount p3 \<le> pr_peekCount p2 - 1" "\<not> final u \<Longrightarrow> parser_ok L p3"
      by (rule next_token_stream [OF ok2]) blast
    have "pr_peekCount p1 \<le> 2" using pk(3) by (simp add: parser_ok_def)
    then have count: "pr_peekCount p3 = 0" using p3(4) p2(4) by linarith
    have "pr_token0 p3 = u" using p3(1) count by (auto simp: next_token_def token_at_def)
    then have pushed: "stream (backup2 delim p3) = stream p1"
      using count p2(2) p3(2) by (simp add: stream_def backup2_def)
    then have back2: "parser_ok L (backup2 delim p3)"
      using pk(3) p2(3) p3(3) by (simp add: parser_ok_def) (simp add: backup2_def)
    have def: "good_outcome L (bindE (with_trees ts (parseDefinition env f (new_tree ''definition'' p3))) (\<lambda>(d, q).
        bindE (with_trees ts (add_tree (Panic NilDereference) (def_Name d) d ts)) (\<lambda>ts.
          parse_loop env f ns ts (p3\<lparr>pr_lastPos := pr_lastPos q, pr_items := pr_items q\<rparr>))))" if "it_typ u = itemDefine"
    proof -
      have ok3: "parser_ok L p3" using p3(5) that by (simp add: final_def)
      have "length (stream (new_tree ''definition'' p3)) < f"
        using new_tree_ok(2) [OF ok3 count] len p2(2) p3(2) by simp
      note def = zap_parseDefinition_good [OF new_tree_ok(1) [OF ok3 count] this, of env]
      show ?thesis
      proof (rule outcome_bind [OF conjunct1 [OF def]], unfold prod.case, goal_cases)
        case (1 d q)
        have q: "stream q = pr_items q" using def 1(1) by (simp add: drained_def stream_def)
        let ?p = "p3\<lparr>pr_lastPos := pr_lastPos q, pr_items := pr_items q\<rparr>"
        have s: "stream ?p = stream q" using count q by (simp add: stream_def)
        then have "parser_ok L ?p" "length (stream ?p) < f"
          using ok3 1(2,3) new_tree_ok(2) [OF ok3 count] len p2(2) p3(2) by (auto simp: parser_ok_def)
        then have "good_outcome L (parse_loop env f ns ts' ?p)" for ts' by (rule Suc.IH)
        then show ?case
          using add_tree_error [of "Panic NilDereference" "def_Name d" d ts _ L]
          by (cases "add_tree (Panic NilDereference) (def_Name d) d ts")
            (auto simp: with_trees_def good_outcome_def [of L "Inl _"] top_error_def)
      qed
    qed
    show ?thesis
      using rest [OF back2 pushed] def pk(1) p2(1) p3(1) True delim
      by (simp add: with_trees_def [of ts "Inr _"] Let_def)
  qed
qed (simp add: good_outcome_def)

lemma zap_tiles_items_ok: "tiles {itemError, itemEOF, itemKeyword} inp left right items i \<Longrightarrow>
   list_all item_ok items \<and> list_all (\<lambda>i. \<not> final i) items"
  by (induction rule: tiles.induct) (auto simp: item_ok_def final_def)


end
