(* ===== verification/Zap_Compile_Correct.thy ===== *)
theory Zap_Compile_Correct
  imports Zap_Compile
begin

text \<open>
  What the compilation of zap templates does: every template becomes what its chain of parents resolves to,
  in whatever order the maps are ranged over, and no block is left.
\<close>

section \<open>Blocks of a list\<close>

text \<open>The blocks in the order of the extraction, with their lists.\<close>

fun blocks_node :: "node \<Rightarrow> (string \<times> node list) list" and
    blocks_of :: "node list \<Rightarrow> (string \<times> node list) list" where
  "blocks_node (BlockNode line name ns) = (name, ns) # blocks_of ns"
| "blocks_node (BranchNode b line p ns None) = blocks_of ns"
| "blocks_node (BranchNode b line p ns (Some es)) = blocks_of ns @ blocks_of es"
| "blocks_node (ListNode ns) = blocks_of ns"
| "blocks_node (TextNode t) = []"
| "blocks_node (ActionNode line p) = []"
| "blocks_node (TemplateNode line name p) = []"
| "blocks_node endNode = []"
| "blocks_node (elseNode line) = []"
| "blocks_of [] = []"
| "blocks_of (n # ns) = blocks_node n @ blocks_of ns"

text \<open>Every branch has an else list.\<close>

fun complete_node :: "node \<Rightarrow> bool" and complete :: "node list \<Rightarrow> bool" where
  "complete_node (BlockNode line name ns) = complete ns"
| "complete_node (BranchNode b line p ns None) = False"
| "complete_node (BranchNode b line p ns (Some es)) = (complete ns \<and> complete es)"
| "complete_node (ListNode ns) = complete ns"
| "complete_node (TextNode t) = True"
| "complete_node (ActionNode line p) = True"
| "complete_node (TemplateNode line name p) = True"
| "complete_node endNode = True"
| "complete_node (elseNode line) = True"
| "complete [] = True"
| "complete (n # ns) = (complete_node n \<and> complete ns)"

text \<open>The blocks with their numbers, entered one after the other.\<close>

fun enter_blocks :: "(string \<times> node list) list \<Rightarrow> nat \<times> blocks \<Rightarrow> nat \<times> blocks" where
  "enter_blocks [] s = s"
| "enter_blocks ((name, ns) # bs) (k, dst) = enter_blocks bs (k + 1, dst(name \<mapsto> (k, ns)))"

definition block_table :: "node list \<Rightarrow> blocks" where
  "block_table ns = snd (enter_blocks (blocks_of ns) (0, Map.empty))"

lemma enter_append: "enter_blocks (bs @ cs) s = enter_blocks cs (enter_blocks bs s)"
  by (induction bs s rule: enter_blocks.induct) simp_all

lemma extract_enters:
  "complete_node n \<Longrightarrow> extractBlocks n s = Inr (enter_blocks (blocks_node n) s)"
  "complete ns \<Longrightarrow> extractList ns s = Inr (enter_blocks (blocks_of ns) s)"
  by (induction n s and ns s rule: extractBlocks_extractList.induct) (simp_all add: enter_append)

lemma extract_table:
  assumes "complete ns"
  obtains k where "extractList ns (0, Map.empty) = Inr (k, block_table ns)"
proof -
  obtain k m where e: "enter_blocks (blocks_of ns) (0, Map.empty) = (k, m)" by fastforce
  show thesis by (rule that [of k]) (simp add: extract_enters assms block_table_def e)
qed

lemma enter_number: "fst (enter_blocks bs (k, dst)) = k + length bs"
  by (induction bs arbitrary: k dst) auto

lemma enter_other: "name \<notin> fst ` set bs \<Longrightarrow> snd (enter_blocks bs (k, dst)) name = dst name"
  by (induction bs arbitrary: k dst) auto

lemma enter_at:
  "distinct (map fst bs) \<Longrightarrow> i < length bs \<Longrightarrow> snd (enter_blocks bs (k, dst)) (fst (bs ! i)) = Some (k + i, snd (bs ! i))"
proof (induction bs arbitrary: k dst i)
  case (Cons b bs)
  obtain name ns where b: "b = (name, ns)" by fastforce
  show ?case
  proof (cases i)
    case 0
    then show ?thesis using Cons.prems(1) enter_other [of name bs] by (simp add: b)
  next
    case (Suc j)
    then show ?thesis using Cons.IH [of j "k + 1"] Cons.prems by (simp add: b)
  qed
qed simp

lemma enter_lists: "map_option snd (snd (enter_blocks bs (k, dst)) name) =
   (case map_of (rev bs) name of Some l \<Rightarrow> Some l | None \<Rightarrow> map_option snd (dst name))"
proof (induction bs arbitrary: k dst)
  case (Cons b bs)
  obtain n ns where b: "b = (n, ns)" by fastforce
  show ?case
    by (simp add: b Cons.IH map_add_def split: option.split)
qed simp

text \<open>The list of the last block of a name.\<close>

definition block_list :: "node list \<Rightarrow> string \<rightharpoonup> node list" where
  "block_list ns = map_of (rev (blocks_of ns))"

lemma block_table_list: "map_option snd (block_table ns name) = block_list ns name"
  using enter_lists [of "blocks_of ns" 0 Map.empty name] by (simp add: block_table_def block_list_def split: option.splits)

section \<open>Replacing blocks\<close>

text \<open>A list in which the blocks that have a new list get it, and no block inside them is looked at.\<close>

fun override_node :: "(string \<rightharpoonup> node list) \<Rightarrow> node \<Rightarrow> node" and
    override :: "(string \<rightharpoonup> node list) \<Rightarrow> node list \<Rightarrow> node list" where
  "override_node src (BlockNode line name ns) =
     BlockNode line name (case src name of Some l \<Rightarrow> l | None \<Rightarrow> override src ns)"
| "override_node src (BranchNode b line p ns None) = BranchNode b line p (override src ns) None"
| "override_node src (BranchNode b line p ns (Some es)) =
     BranchNode b line p (override src ns) (Some (override src es))"
| "override_node src (ListNode ns) = ListNode (override src ns)"
| "override_node src (TextNode t) = TextNode t"
| "override_node src (ActionNode line p) = ActionNode line p"
| "override_node src (TemplateNode line name p) = TemplateNode line name p"
| "override_node src endNode = endNode"
| "override_node src (elseNode line) = elseNode line"
| "override src [] = []"
| "override src (n # ns) = override_node src n # override src ns"

text \<open>The assignment knows the block with a number by its name.\<close>

fun assigns ::
  "(string \<Rightarrow> nat \<Rightarrow> node list option) \<Rightarrow> (string \<rightharpoonup> node list) \<Rightarrow> (string \<times> node list) list \<Rightarrow> nat \<Rightarrow> bool" where
  "assigns a src [] k = True"
| "assigns a src (b # bs) k = (a (fst b) k = src (fst b) \<and> assigns a src bs (k + 1))"

lemma assigns_append: "assigns a src (bs @ cs) k \<longleftrightarrow> assigns a src bs k \<and> assigns a src cs (k + length bs)"
  by (induction bs arbitrary: k) simp_all

lemma assignsI: "(\<And>i. i < length bs \<Longrightarrow> a (fst (bs ! i)) (k + i) = src (fst (bs ! i))) \<Longrightarrow> assigns a src bs k"
proof (induction bs arbitrary: k)
  case (Cons b bs)
  have "assigns a src bs (k + 1)"
    by (rule Cons.IH) (use Cons.prems [of "Suc _"] in simp)
  then show ?case using Cons.prems [of 0] by simp
qed simp

lemma assign_overrides:
  "assigns a src (blocks_node n) k \<Longrightarrow> assignBlocks a n k = (override_node src n, k + length (blocks_node n))"
  "assigns a src (blocks_of ns) k \<Longrightarrow> assignList a ns k = (override src ns, k + length (blocks_of ns))"
  by (induction a n k and a ns k rule: assignBlocks_assignList.induct)
    (simp_all add: assigns_append add.assoc split: option.splits)

text \<open>What a definition inherits from its parent: the numbers of the blocks decide which block of a name is
  replaced.\<close>

definition inherit :: "DefineNode \<Rightarrow> DefineNode \<Rightarrow> DefineNode" where
  "inherit d p = p\<lparr>def_Name := def_Name d,
     def_List := fst (assignList (block_assignment (block_table (def_List d)) (block_table (def_List p))) (def_List p) 0)\<rparr>"

lemma inherit_sel [simp]: "def_Parent (inherit d p) = def_Parent p" "def_Name (inherit d p) = def_Name d"
  by (simp_all add: inherit_def)

lemma inlineParent_inherit:
  assumes "ts name = Some t" "tree_Root t = Some d" "root_of ts (def_Parent d) = Some p"
    "complete (def_List d)" "complete (def_List p)"
  shows "inlineParent name ts = Inr (ts(name \<mapsto> t\<lparr>tree_Root := Some (inherit d p)\<rparr>))"
proof -
  obtain k where src: "extractList (def_List d) (0, Map.empty) = Inr (k, block_table (def_List d))"
    using extract_table [OF assms(4)] .
  obtain k' where dst: "extractList (def_List p) (0, Map.empty) = Inr (k', block_table (def_List p))"
    using extract_table [OF assms(5)] .
  show ?thesis
    using assms(1-3) by (simp add: inlineParent_def CopyDefine_eq Let_def src dst inherit_def)
qed

lemma inherit_override:
  assumes "distinct (map fst (blocks_of (def_List p)))"
  shows "def_List (inherit d p) = override (block_list (def_List d)) (def_List p)"
proof -
  have "assigns (block_assignment (block_table (def_List d)) (block_table (def_List p))) (block_list (def_List d))
      (blocks_of (def_List p)) 0"
    using enter_at [OF assms, of _ 0 Map.empty]
    by (intro assignsI) (auto simp: block_assignment_def block_table_def [of "def_List p"] block_table_list)
  from assign_overrides(2) [OF this] show ?thesis by (simp add: inherit_def)
qed

text \<open>Branches keep their else lists.\<close>

lemma complete_blocks:
  "complete_node n \<Longrightarrow> (name, l) \<in> set (blocks_node n) \<Longrightarrow> complete l"
  "complete ns \<Longrightarrow> (name, l) \<in> set (blocks_of ns) \<Longrightarrow> complete l"
  by (induction n and ns rule: blocks_node_blocks_of.induct) auto

lemma complete_assign:
  "complete_node n \<Longrightarrow> \<forall>name k l. a name k = Some l \<longrightarrow> complete l \<Longrightarrow> complete_node (fst (assignBlocks a n k))"
  "complete ns \<Longrightarrow> \<forall>name k l. a name k = Some l \<longrightarrow> complete l \<Longrightarrow> complete (fst (assignList a ns k))"
proof (induction a n k and a ns k rule: assignBlocks_assignList.induct)
  case (1 a line name ns k)
  obtain ns' k' where r: "assignList a ns (k + 1) = (ns', k')" by fastforce
  then show ?case using 1 by (auto split: option.split)
next
  case (2 a b line p ns k)
  then show ?case by simp
next
  case (3 a b line p ns es k)
  obtain ns' k' where r: "assignList a ns k = (ns', k')" by fastforce
  obtain es' k2 where r2: "assignList a es k' = (es', k2)" by fastforce
  show ?case using 3 r r2 by simp
next
  case (4 a ns k)
  obtain ns' k' where r: "assignList a ns k = (ns', k')" by fastforce
  then show ?case using 4 by simp
next
  case (11 a n ns k)
  obtain n' k' where r: "assignBlocks a n k = (n', k')" by fastforce
  obtain ns' k2 where r2: "assignList a ns k' = (ns', k2)" by fastforce
  show ?case using 11 r r2 by simp
qed simp_all

lemma block_list_in: "block_list ns name = Some l \<Longrightarrow> (name, l) \<in> set (blocks_of ns)"
  unfolding block_list_def by (drule map_of_SomeD) simp

lemma complete_inherit:
  assumes "complete (def_List d)" "complete (def_List p)"
  shows "complete (def_List (inherit d p))"
proof -
  have "complete l" if "block_assignment (block_table (def_List d)) (block_table (def_List p)) name k = Some l" for name k l
  proof -
    have "block_list (def_List d) name = Some l"
      using that by (simp add: block_assignment_def block_table_list split: option.splits prod.splits if_splits)
    then show ?thesis using complete_blocks(2) [OF assms(1) block_list_in] by blast
  qed
  then show ?thesis using complete_assign(2) [OF assms(2)] by (simp add: inherit_def)
qed

section \<open>Chains of parents\<close>

text \<open>What a template resolves to: a template without a parent to itself, and one with a parent to what it
  inherits from what the parent resolves to.\<close>

inductive resolves :: "treeSet \<Rightarrow> string \<Rightarrow> DefineNode \<Rightarrow> bool" for ts where
  resolves_base: "root_of ts name = Some d \<Longrightarrow> def_Parent d = [] \<Longrightarrow> resolves ts name d"
| resolves_child: "root_of ts name = Some d \<Longrightarrow> def_Parent d \<noteq> [] \<Longrightarrow> resolves ts (def_Parent d) p \<Longrightarrow>
     resolves ts name (inherit d p)"

lemma resolves_Parent: "resolves ts name d \<Longrightarrow> def_Parent d = []"
  by (induction rule: resolves.induct) simp_all

lemma resolves_unique: "resolves ts name d \<Longrightarrow> resolves ts name d' \<Longrightarrow> d' = d"
proof (induction arbitrary: d' rule: resolves.induct)
  case (resolves_base name d)
  then show ?case by (auto elim: resolves.cases)
next
  case (resolves_child name d p)
  from resolves_child.prems show ?case
  proof (cases rule: resolves.cases)
    case base: resolves_base
    then show ?thesis using resolves_child.hyps by simp
  next
    case child: (resolves_child d2 p2)
    then have "d2 = d" using resolves_child.hyps by simp
    then show ?thesis using child resolves_child.IH by simp
  qed
qed

definition extends :: "treeSet \<Rightarrow> string \<Rightarrow> string \<Rightarrow> bool" where
  "extends ts name parent \<longleftrightarrow> (\<exists>d. root_of ts name = Some d \<and> def_Parent d \<noteq> [] \<and> parent = def_Parent d)"

lemma extends_step: "(extends ts)\<^sup>+\<^sup>+ name x \<Longrightarrow> extends ts name parent \<Longrightarrow> (extends ts)\<^sup>*\<^sup>* parent x"
  by (induction rule: tranclp_induct) (auto simp: extends_def intro: rtranclp.rtrancl_into_rtrancl)

lemma resolves_acyclic: "resolves ts name d \<Longrightarrow> \<not> (extends ts)\<^sup>+\<^sup>+ name name"
proof (induction rule: resolves.induct)
  case (resolves_base name d)
  show ?case
  proof
    assume "(extends ts)\<^sup>+\<^sup>+ name name"
    then obtain x where "extends ts name x" by (auto dest: tranclpD)
    then show False using resolves_base by (simp add: extends_def)
  qed
next
  case (resolves_child name d p)
  have e: "extends ts name (def_Parent d)" using resolves_child by (simp add: extends_def)
  show ?case
  proof
    assume "(extends ts)\<^sup>+\<^sup>+ name name"
    from extends_step [OF this e] have "(extends ts)\<^sup>+\<^sup>+ (def_Parent d) (def_Parent d)"
      using e by (rule rtranclp_into_tranclp1)
    then show False using resolves_child.IH by blast
  qed
qed

section \<open>Compilation\<close>

definition complete_trees :: "treeSet \<Rightarrow> bool" where
  "complete_trees ts \<longleftrightarrow> (\<forall>name d. root_of ts name = Some d \<longrightarrow> complete (def_List d))"

lemma resolves_complete: "resolves ts name d \<Longrightarrow> complete_trees ts \<Longrightarrow> complete (def_List d)"
  by (induction rule: resolves.induct) (simp_all add: complete_trees_def complete_inherit)

text \<open>A tree of \<open>ts\<close> is as in \<open>ts0\<close>, or it is resolved.\<close>

definition resolved :: "treeSet \<Rightarrow> treeSet \<Rightarrow> string \<Rightarrow> bool" where
  "resolved ts0 ts name \<longleftrightarrow> (\<exists>t d. ts0 name = Some t \<and> resolves ts0 name d \<and> ts name = Some (t\<lparr>tree_Root := Some d\<rparr>))"

definition partly_resolved :: "treeSet \<Rightarrow> treeSet \<Rightarrow> bool" where
  "partly_resolved ts0 ts \<longleftrightarrow> (\<forall>name. ts name = ts0 name \<or> resolved ts0 ts name)"

lemma resolved_root:
  "resolved ts0 ts name \<Longrightarrow> \<exists>d. resolves ts0 name d \<and> root_of ts name = Some d"
  by (auto simp: resolved_def root_of_def)

lemma base_resolved:
  assumes "partly_resolved ts0 ts" "root_of ts name = Some d" "def_Parent d = []"
  shows "resolved ts0 ts name"
proof (cases "resolved ts0 ts name")
  case False
  then have eq: "ts name = ts0 name" using assms(1) by (auto simp: partly_resolved_def)
  then obtain t where t: "ts0 name = Some t" "tree_Root t = Some d" using assms(2) by (auto simp: root_of_def Option.bind_eq_Some_conv)
  have "resolves ts0 name d" using assms(3) t by (intro resolves_base) (simp_all add: root_of_def)
  then show ?thesis using t eq by (auto simp: resolved_def)
qed

lemma inlineParents_append: "inlineParents (xs @ ys) ts = bindE (inlineParents xs ts) (inlineParents ys)"
proof (induction xs arbitrary: ts)
  case (Cons x xs)
  then show ?case by (cases "inlineParent x ts") simp_all
qed simp

text \<open>The names that the loop collects for a template are its chain up to a resolved one, and inlining them
  from the last resolves the template.\<close>

definition inlines :: "treeSet \<Rightarrow> treeSet \<Rightarrow> string \<Rightarrow> string list \<Rightarrow> treeSet \<Rightarrow> bool" where
  "inlines ts0 ts name names ts' \<longleftrightarrow> inlineParents (rev names) ts = Inr ts' \<and> partly_resolved ts0 ts' \<and>
     resolved ts0 ts' name \<and> (\<forall>x \<in> set names. resolved ts0 ts' x \<and> (extends ts0)\<^sup>*\<^sup>* name x) \<and> (\<forall>x. x \<notin> set names \<longrightarrow> ts' x = ts x)"

lemma inlines_none:
  "partly_resolved ts0 ts \<Longrightarrow> resolved ts0 ts name \<Longrightarrow> inlines ts0 ts name [] ts"
  by (simp add: inlines_def)

lemma inlines_child:
  assumes "complete_trees ts0" "root_of ts0 name = Some d" "def_Parent d \<noteq> []" "resolves ts0 name r"
    "ts name = ts0 name" "inlines ts0 ts (def_Parent d) names ts'"
  shows "\<exists>ts''. inlines ts0 ts name (name # names) ts''"
proof -
  have e: "extends ts0 name (def_Parent d)" using assms by (simp add: extends_def)
  have reach: "(extends ts0)\<^sup>*\<^sup>* name x" if "x \<in> set names" for x
    using that assms(6) e by (auto simp: inlines_def intro: converse_rtranclp_into_rtranclp)
  have fresh: "name \<notin> set names"
    using resolves_acyclic [OF assms(4)] assms(6) e by (auto simp: inlines_def intro: rtranclp_into_tranclp2)
  obtain t where t: "ts0 name = Some t" "tree_Root t = Some d" using assms(2) by (auto simp: root_of_def Option.bind_eq_Some_conv)
  have t': "ts' name = Some t" using assms(5,6) fresh t by (simp add: inlines_def)
  obtain p where p: "resolves ts0 (def_Parent d) p" "root_of ts' (def_Parent d) = Some p"
    using assms(6) resolved_root [of ts0 ts' "def_Parent d"] by (auto simp: inlines_def)
  have "complete (def_List d)" "complete (def_List p)"
    using assms(1,2) resolves_complete [OF p(1)] by (auto simp: complete_trees_def)
  from inlineParent_inherit [of ts' name t d p, OF t' t(2) p(2) this]
  have step: "inlineParent name ts' = Inr (ts'(name \<mapsto> t\<lparr>tree_Root := Some (inherit d p)\<rparr>))" .
  let ?ts = "ts'(name \<mapsto> t\<lparr>tree_Root := Some (inherit d p)\<rparr>)"
  have here: "resolved ts0 ?ts name"
    using t resolves_child [OF assms(2,3) p(1)] by (auto simp: resolved_def)
  have others: "resolved ts0 ?ts x" if "resolved ts0 ts' x" for x
    using that here by (cases "x = name") (auto simp: resolved_def)
  have "partly_resolved ts0 ?ts"
    using assms(6) here others by (auto simp: inlines_def partly_resolved_def)
  then have "inlines ts0 ts name (name # names) ?ts"
    using step here others reach assms(6) by (auto simp: inlines_def inlineParents_append)
  then show ?thesis by blast
qed

lemma chain_inlined:
  assumes "complete_trees ts0" "partly_resolved ts0 ts"
  shows "resolves ts0 name r \<Longrightarrow> \<forall>x \<in> set deps. (extends ts0)\<^sup>+\<^sup>+ x name \<Longrightarrow>
     \<exists>names ts'. inlineParentList_loop ts name deps = Some (Inr (deps @ names)) \<and> inlines ts0 ts name names ts'"
proof (induction arbitrary: deps rule: resolves.induct)
  case (resolves_base name d)
  have "resolves ts0 name d" using resolves_base.hyps by (rule resolves.resolves_base)
  then have "root_of ts name = Some d"
    using assms(2) resolves_base.hyps resolved_root resolves_unique unfolding partly_resolved_def root_of_def by metis
  moreover have "inlines ts0 ts name [] ts"
    using base_resolved [OF assms(2) calculation] resolves_base.hyps assms(2) by (simp add: inlines_none)
  ultimately show ?case using resolves_base.hyps by (subst inlineParentList_loop.simps) auto
next
  case (resolves_child name d p)
  note r = resolves.resolves_child [OF resolves_child.hyps]
  show ?case
  proof (cases "resolved ts0 ts name")
    case True
    then obtain d' where "resolves ts0 name d'" "root_of ts name = Some d'" using resolved_root by blast
    then show ?thesis
      using resolves_Parent inlines_none [OF assms(2) True] by (subst inlineParentList_loop.simps) auto
  next
    case False
    then have eq: "ts name = ts0 name" using assms(2) by (auto simp: partly_resolved_def)
    then have root: "root_of ts name = Some d" using resolves_child.hyps by (simp add: root_of_def)
    have e: "extends ts0 name (def_Parent d)" using resolves_child.hyps by (simp add: extends_def)
    have fresh: "name \<notin> set deps" using resolves_acyclic [OF r] resolves_child.prems by blast
    have "\<forall>x \<in> set (deps @ [name]). (extends ts0)\<^sup>+\<^sup>+ x (def_Parent d)"
      using resolves_child.prems e by (auto intro: tranclp.trancl_into_trancl)
    from resolves_child.IH [OF this] obtain names ts' where
      n: "inlineParentList_loop ts (def_Parent d) (deps @ [name]) = Some (Inr ((deps @ [name]) @ names))"
        "inlines ts0 ts (def_Parent d) names ts'" by blast
    from inlines_child [OF assms(1) resolves_child.hyps(1,2) r eq n(2)]
    show ?thesis using n(1) root fresh resolves_child.hyps(2) by (subst inlineParentList_loop.simps) auto
  qed
qed

text \<open>The loop over the parents ends when there are finitely many trees, and it finds a chain only for a
  template that resolves.\<close>

lemma loop_returns:
  assumes "finite (dom ts)"
  shows "set deps \<subseteq> dom ts \<Longrightarrow> inlineParentList_loop ts name deps \<noteq> None"
proof (induction "card (dom ts - set deps)" arbitrary: name deps rule: less_induct)
  case less
  show ?case
  proof (cases "root_of ts name")
    case (Some d)
    then have dom: "name \<in> dom ts" by (auto simp: root_of_def Option.bind_eq_Some_conv)
    have "inlineParentList_loop ts (def_Parent d) (deps @ [name]) \<noteq> None" if "name \<notin> set deps"
    proof (rule less.hyps)
      have "dom ts - set (deps @ [name]) = dom ts - set deps - {name}" by auto
      then show "card (dom ts - set (deps @ [name])) < card (dom ts - set deps)"
        using that dom assms by (metis DiffI card_Diff1_less finite_Diff)
    qed (use less.prems dom in auto)
    then show ?thesis using Some by (subst inlineParentList_loop.simps) auto
  qed (subst inlineParentList_loop.simps, simp)
qed

lemma loop_resolves:
  assumes "finite (dom ts)"
  shows "set deps \<subseteq> dom ts \<Longrightarrow> inlineParentList_loop ts name deps = Some (Inr names) \<Longrightarrow> \<exists>d. resolves ts name d"
proof (induction "card (dom ts - set deps)" arbitrary: name deps rule: less_induct)
  case less
  obtain d where root: "root_of ts name = Some d"
    using less.prems(2) by (subst (asm) inlineParentList_loop.simps) (auto split: option.splits)
  then have dom: "name \<in> dom ts" by (auto simp: root_of_def Option.bind_eq_Some_conv)
  show ?case
  proof (cases "def_Parent d = []")
    case True
    then show ?thesis using resolves_base [OF root] by blast
  next
    case False
    then have fresh: "name \<notin> set deps" and rest: "inlineParentList_loop ts (def_Parent d) (deps @ [name]) = Some (Inr names)"
      using less.prems(2) root by (subst (asm) inlineParentList_loop.simps, simp split: if_splits)+
    have "\<exists>p. resolves ts (def_Parent d) p"
    proof (rule less.hyps)
      have "dom ts - set (deps @ [name]) = dom ts - set deps - {name}" by auto
      then show "card (dom ts - set (deps @ [name])) < card (dom ts - set deps)"
        using fresh dom assms by (metis DiffI card_Diff1_less finite_Diff)
    qed (use less.prems(1) dom rest in auto)
    then show ?thesis using resolves_child [OF root False] by blast
  qed
qed

lemma partly_resolved_resolves:
  assumes "partly_resolved ts0 ts"
  shows "resolves ts name d \<Longrightarrow> \<exists>d0. resolves ts0 name d0"
proof (induction rule: resolves.induct)
  case (resolves_base name d)
  then show ?case using base_resolved [OF assms] by (auto simp: resolved_def)
next
  case (resolves_child name d p)
  show ?case
  proof (cases "resolved ts0 ts name")
    case False
    then have "ts name = ts0 name" using assms unfolding partly_resolved_def by blast
    then have "root_of ts0 name = Some d" using resolves_child.hyps by (simp add: root_of_def)
    then show ?thesis using resolves.resolves_child [OF _ resolves_child.hyps(2)] resolves_child.IH by blast
  qed (auto simp: resolved_def)
qed

lemma partly_resolved_dom: "partly_resolved ts0 ts \<Longrightarrow> dom ts = dom ts0"
  unfolding partly_resolved_def resolved_def by (metis (no_types, lifting) domD domI dom_def set_eqI)

lemma compile_parents_outcome:
  assumes "complete_trees ts0" "finite (dom ts0)"
  shows "partly_resolved ts0 ts \<Longrightarrow>
     (if \<forall>name \<in> set order. \<exists>d. resolves ts0 name d
      then \<exists>ts'. compile_parents order ts = Some (Inr (ts', None)) \<and> partly_resolved ts0 ts' \<and>
        (\<forall>name. name \<in> set order \<or> resolved ts0 ts name \<longrightarrow> resolved ts0 ts' name)
      else \<exists>ts' e. compile_parents order ts = Some (Inr (ts', Some e)))"
proof (induction order arbitrary: ts)
  case (Cons name order)
  have fin: "finite (dom ts)" using assms(2) partly_resolved_dom [OF Cons.prems] by simp
  show ?case
  proof (cases "\<exists>d. resolves ts0 name d")
    case True
    then obtain d where "resolves ts0 name d" by blast
    then obtain names ts1 where n: "inlineParentList_loop ts name [] = Some (Inr names)" "inlines ts0 ts name names ts1"
      using chain_inlined [OF assms(1) Cons.prems, of name d "[]"] by auto
    have kept: "resolved ts0 ts1 x" if "resolved ts0 ts x" for x
      using n(2) that by (cases "x \<in> set names") (auto simp: inlines_def resolved_def)
    have "compile_parents (name # order) ts = compile_parents order ts1"
      using n by (simp add: inlineParentList_def inlines_def)
    moreover have "partly_resolved ts0 ts1" "resolved ts0 ts1 name" using n(2) by (simp_all add: inlines_def)
    ultimately show ?thesis using Cons.IH [of ts1] True kept by (auto split: if_splits)
  next
    case False
    have "\<nexists>d. resolves ts name d" using partly_resolved_resolves [OF Cons.prems] False by blast
    then have "\<exists>e. inlineParentList_loop ts name [] = Some (Inl e)"
      using loop_returns [OF fin, of "[]" name] loop_resolves [OF fin, of "[]" name]
      by (cases "inlineParentList_loop ts name []"; cases "the (inlineParentList_loop ts name [])") auto
    then show ?thesis using False by (auto simp: inlineParentList_def)
  qed
qed simp

section \<open>Inlining blocks\<close>

text \<open>The blocks of a list as lists of nodes.\<close>

fun flat_node :: "node \<Rightarrow> node" and flat :: "node list \<Rightarrow> node list" where
  "flat_node (BlockNode line name ns) = ListNode (flat ns)"
| "flat_node (BranchNode b line p ns None) = BranchNode b line p (flat ns) None"
| "flat_node (BranchNode b line p ns (Some es)) = BranchNode b line p (flat ns) (Some (flat es))"
| "flat_node (ListNode ns) = ListNode (flat ns)"
| "flat_node (TextNode t) = TextNode t"
| "flat_node (ActionNode line p) = ActionNode line p"
| "flat_node (TemplateNode line name p) = TemplateNode line name p"
| "flat_node endNode = endNode"
| "flat_node (elseNode line) = elseNode line"
| "flat [] = []"
| "flat (n # ns) = flat_node n # flat ns"

definition is_block :: "node \<Rightarrow> bool" where
  "is_block n \<longleftrightarrow> (case n of BlockNode _ _ _ \<Rightarrow> True | _ \<Rightarrow> False)"

lemma inline_flat:
  "\<not> is_block n \<Longrightarrow> inlineBlocks n = (if complete_node n then Inr (None, flat_node n) else Inl NilDereference)"
  "inlineList ns = (if complete ns then Inr (flat ns) else Inl NilDereference)"
  by (induction n and ns rule: inlineBlocks_inlineList.induct) (simp_all add: is_block_def)

lemma flat_blocks: "blocks_node (flat_node n) = []" "blocks_of (flat ns) = []"
  by (induction n and ns rule: flat_node_flat.induct) simp_all

lemma compile_blocks_flat:
  assumes "distinct order" "\<forall>name \<in> set order. \<exists>d. root_of ts name = Some d \<and> complete (def_List d)"
  shows "\<exists>ts'. compile_blocks order ts = Inr ts' \<and> dom ts' = dom ts \<and> (\<forall>name. root_of ts' name =
     (if name \<in> set order then map_option (\<lambda>d. d\<lparr>def_List := flat (def_List d)\<rparr>) (root_of ts name) else root_of ts name))"
  using assms
proof (induction order arbitrary: ts)
  case (Cons name order)
  obtain t d where t: "ts name = Some t" "tree_Root t = Some d" "complete (def_List d)"
    using Cons.prems(2) by (auto simp: root_of_def Option.bind_eq_Some_conv)
  let ?ts = "ts(name \<mapsto> t\<lparr>tree_Root := Some (d\<lparr>def_List := flat (def_List d)\<rparr>)\<rparr>)"
  have root: "root_of ?ts x = (if x = name then Some (d\<lparr>def_List := flat (def_List d)\<rparr>) else root_of ts x)" for x
    by (simp add: root_of_def)
  have "\<exists>ts'. compile_blocks order ?ts = Inr ts' \<and> dom ts' = dom ?ts \<and> (\<forall>name. root_of ts' name =
     (if name \<in> set order then map_option (\<lambda>d. d\<lparr>def_List := flat (def_List d)\<rparr>) (root_of ?ts name) else root_of ?ts name))"
    by (rule Cons.IH) (use Cons.prems in \<open>auto simp: root simp del: fun_upd_apply\<close>)
  then obtain ts' where ts': "compile_blocks order ?ts = Inr ts'" "dom ts' = dom ?ts"
    "\<forall>name. root_of ts' name = (if name \<in> set order
       then map_option (\<lambda>d. d\<lparr>def_List := flat (def_List d)\<rparr>) (root_of ?ts name) else root_of ?ts name)" by blast
  have "compile_blocks (name # order) ts = Inr ts'"
    using t ts'(1) by (simp add: inline_flat)
  moreover have "dom ts' = dom ts" using ts'(2) t(1) by auto
  moreover have "root_of ts name = Some d" using t by (simp add: root_of_def)
  ultimately show ?case using ts'(3) root Cons.prems(1) by (auto simp: if_splits)
qed simp

lemma compile_success:
  assumes "finite (dom ts)" "set order = dom ts" "set order' = dom ts" "distinct order'"
    "\<forall>name \<in> dom ts. \<exists>d. resolves ts name d"
    "\<forall>name d. root_of ts name = Some d \<longrightarrow> complete (def_List d)"
  shows "\<exists>ts'. Compile order order' ts = Some (Inr (ts', None)) \<and> dom ts' = dom ts \<and>
     (\<forall>name d. resolves ts name d \<longrightarrow> root_of ts' name = Some (d\<lparr>def_List := flat (def_List d)\<rparr>))"
proof -
  have c: "complete_trees ts" using assms(6) by (simp add: complete_trees_def)
  have "partly_resolved ts ts" by (simp add: partly_resolved_def)
  from compile_parents_outcome [OF c assms(1) this, of order] obtain ts1 where
    ts1: "compile_parents order ts = Some (Inr (ts1, None))" "partly_resolved ts ts1" "\<forall>name \<in> dom ts. resolved ts ts1 name"
    using assms(2,5) by auto
  have roots: "root_of ts1 name = Some d" if "resolves ts name d" for name d
  proof -
    have "name \<in> dom ts" using that by cases (auto simp: root_of_def Option.bind_eq_Some_conv)
    then show ?thesis using ts1(3) resolved_root resolves_unique that by metis
  qed
  have "\<forall>name \<in> set order'. \<exists>d. root_of ts1 name = Some d \<and> complete (def_List d)"
    using assms(3,5) roots resolves_complete [OF _ c] by blast
  from compile_blocks_flat [OF assms(4) this] obtain ts' where
    ts': "compile_blocks order' ts1 = Inr ts'" "dom ts' = dom ts1"
      "\<forall>name. root_of ts' name = (if name \<in> set order'
         then map_option (\<lambda>d. d\<lparr>def_List := flat (def_List d)\<rparr>) (root_of ts1 name) else root_of ts1 name)" by blast
  have "root_of ts' name = Some (d\<lparr>def_List := flat (def_List d)\<rparr>)" if r: "resolves ts name d" for name d
  proof -
    have "name \<in> set order'" using r assms(3) by cases (auto simp: root_of_def Option.bind_eq_Some_conv)
    then show ?thesis using ts'(3) roots [OF r] by simp
  qed
  then show ?thesis
    using ts1(1) ts'(1,2) partly_resolved_dom [OF ts1(2)] by (simp add: Compile_def)
qed

text \<open>A tree without blocks.\<close>

definition no_blocks :: "treeSet \<Rightarrow> string \<Rightarrow> bool" where
  "no_blocks ts name \<longleftrightarrow> (\<forall>d. root_of ts name = Some d \<longrightarrow> blocks_of (def_List d) = [])"

lemma compile_blocks_clears:
  "compile_blocks order ts = Inr ts' \<Longrightarrow> name \<in> set order \<or> no_blocks ts name \<Longrightarrow> no_blocks ts' name"
proof (induction order arbitrary: ts)
  case (Cons x order)
  show ?case
  proof (cases "ts x")
    case None
    then have "no_blocks ts x" by (simp add: no_blocks_def root_of_def)
    then show ?thesis using Cons.IH [of ts] Cons.prems None by auto
  next
    case (Some t)
    then obtain d l where d: "tree_Root t = Some d" "inlineList (def_List d) = Inr l"
      "compile_blocks order (ts(x \<mapsto> t\<lparr>tree_Root := Some (d\<lparr>def_List := l\<rparr>)\<rparr>)) = Inr ts'" (is "compile_blocks order ?ts = _")
      using Cons.prems(1) by (auto split: option.splits)
    have "l = flat (def_List d)" using d(2) inline_flat(2) [of "def_List d"] by (simp split: if_splits)
    then have x: "no_blocks ?ts x" by (simp add: no_blocks_def root_of_def flat_blocks)
    have "no_blocks ?ts name" if "no_blocks ts name"
      using that x by (cases "name = x") (simp_all add: no_blocks_def root_of_def)
    then have "name \<in> set order \<or> no_blocks ?ts name" using Cons.prems(2) x by auto
    from Cons.IH [OF d(3) this] show ?thesis .
  qed
qed simp

lemma dom_present: "m x = Some y \<Longrightarrow> dom (m(x \<mapsto> z)) = dom m"
  by (simp add: insert_absorb domI)

lemma compile_blocks_dom: "compile_blocks order ts = Inr ts' \<Longrightarrow> dom ts' = dom ts"
proof (induction order arbitrary: ts)
  case (Cons x order)
  show ?case
  proof (cases "ts x")
    case None
    then show ?thesis using Cons by simp
  next
    case (Some t)
    then obtain d l where "compile_blocks order (ts(x \<mapsto> t\<lparr>tree_Root := Some (d\<lparr>def_List := l\<rparr>)\<rparr>)) = Inr ts'"
      using Cons.prems by (auto split: option.splits)
    from Cons.IH [OF this] show ?thesis using dom_present [of ts, OF Some] by (simp only:)
  qed
qed simp

lemma inlineParent_dom:
  assumes "inlineParent name ts = Inr ts'"
  shows "dom ts' = dom ts"
proof -
  have "\<exists>t t'. ts name = Some t \<and> ts' = ts(name \<mapsto> t')"
    using assms by (auto simp: inlineParent_def Let_def simp del: fun_upd_apply split: option.splits)
  then show ?thesis using dom_present by metis
qed

lemma inlineParents_dom: "inlineParents names ts = Inr ts' \<Longrightarrow> dom ts' = dom ts"
proof (induction names arbitrary: ts)
  case (Cons name names)
  then obtain ts1 where "inlineParent name ts = Inr ts1" "inlineParents names ts1 = Inr ts'" by auto
  then show ?case using Cons.IH inlineParent_dom by metis
qed simp

lemma compile_parents_dom: "compile_parents order ts = Some (Inr (ts', e)) \<Longrightarrow> dom ts' = dom ts"
proof (induction order arbitrary: ts)
  case (Cons name order)
  show ?case
  proof (cases "\<exists>names ts1. inlineParentList ts name = Some (Inr names) \<and> inlineParents (rev names) ts = Inr ts1")
    case True
    then obtain names ts1 where "inlineParents (rev names) ts = Inr ts1" "compile_parents order ts1 = Some (Inr (ts', e))"
      using Cons.prems by auto
    then show ?thesis using Cons.IH inlineParents_dom by metis
  qed (use Cons.prems in \<open>auto split: option.splits sum.splits\<close>)
qed simp

lemma Compile_Some:
  assumes "Compile order order' ts = Some (Inr (ts', None))"
  shows "\<exists>ts1. compile_parents order ts = Some (Inr (ts1, None)) \<and> compile_blocks order' ts1 = Inr ts'"
proof (cases "compile_parents order ts")
  case (Some r)
  show ?thesis
  proof (cases r)
    case (Inr x)
    obtain ts1 e where "x = (ts1, e)" by fastforce
    then show ?thesis using assms Some Inr by (cases e) (simp_all add: Compile_def)
  qed (use assms Some in \<open>simp add: Compile_def\<close>)
qed (use assms in \<open>simp add: Compile_def\<close>)

lemma compile_parents_bases:
  "\<forall>name \<in> set order. \<exists>d. root_of ts name = Some d \<and> def_Parent d = [] \<Longrightarrow> compile_parents order ts = Some (Inr (ts, None))"
proof (induction order)
  case (Cons name order)
  then have "inlineParentList ts name = Some (Inr [])"
    unfolding inlineParentList_def by (subst inlineParentList_loop.simps) auto
  then show ?case using Cons by simp
qed simp

lemma compile_blocks_panics:
  "name \<in> set order \<Longrightarrow> root_of ts name = Some d \<Longrightarrow> \<not> complete (def_List d) \<Longrightarrow>
     \<forall>x \<in> set order. root_of ts x \<noteq> None \<Longrightarrow> compile_blocks order ts = Inl NilDereference"
proof (induction order arbitrary: ts)
  case (Cons x order)
  obtain t dx where x: "ts x = Some t" "tree_Root t = Some dx"
    using Cons.prems(4) by (auto simp: root_of_def Option.bind_eq_Some_conv)
  let ?ts = "\<lambda>l. ts(x \<mapsto> t\<lparr>tree_Root := Some (dx\<lparr>def_List := l\<rparr>)\<rparr>)"
  have root: "root_of (?ts l) y = (if y = x then Some (dx\<lparr>def_List := l\<rparr>) else root_of ts y)" for l y
    by (simp add: root_of_def)
  have "compile_blocks order (?ts l) = Inl NilDereference" if "complete (def_List dx)" for l
  proof -
    have "name \<noteq> x" using that x Cons.prems(2,3) by (auto simp: root_of_def)
    then show ?thesis using Cons.IH [of "?ts l"] Cons.prems by (simp add: root del: fun_upd_apply)
  qed
  then show ?case using x by (simp add: inline_flat)
qed simp

section \<open>An example\<close>

text \<open>The templates of the comment in \<open>compile.go\<close>.\<close>

definition t1 :: DefineNode where
  "t1 = \<lparr>def_Line = 1, def_Name = ''t1'', def_Parent = [],
     def_List = [TextNode ''foo '', BlockNode 1 ''b1'' [TextNode ''t1b1''], TextNode '' bar'']\<rparr>"

definition t2 :: DefineNode where
  "t2 = \<lparr>def_Line = 1, def_Name = ''t2'', def_Parent = ''t1'',
     def_List = [BlockNode 1 ''b1'' [TextNode ''t2b1 '', BlockNode 1 ''b2'' [TextNode ''t2b2'']]]\<rparr>"

definition t3 :: DefineNode where
  "t3 = \<lparr>def_Line = 1, def_Name = ''t3'', def_Parent = ''t2'', def_List = [BlockNode 1 ''b2'' [TextNode ''t3b2'']]\<rparr>"

definition sample_trees :: treeSet where
  "sample_trees = [''t1'' \<mapsto> \<lparr>tree_Name = ''t1'', tree_Root = Some t1\<rparr>, ''t2'' \<mapsto> \<lparr>tree_Name = ''t2'', tree_Root = Some t2\<rparr>,
     ''t3'' \<mapsto> \<lparr>tree_Name = ''t3'', tree_Root = Some t3\<rparr>]"

lemma sample_dom: "dom sample_trees = {''t3'', ''t1'', ''t2''}"
  by (auto simp: sample_trees_def)

lemma sample_roots: "root_of sample_trees ''t1'' = Some t1" "root_of sample_trees ''t2'' = Some t2" "root_of sample_trees ''t3'' = Some t3"
  by (simp_all add: root_of_def sample_trees_def)

lemma sample_complete: "\<forall>name d. root_of sample_trees name = Some d \<longrightarrow> complete (def_List d)"
  by (auto simp: root_of_def sample_trees_def t1_def t2_def t3_def split: if_splits)

lemma sample_resolves:
  "resolves sample_trees ''t1'' t1" "resolves sample_trees ''t2'' (inherit t2 t1)"
  "resolves sample_trees ''t3'' (inherit t3 (inherit t2 t1))"
proof -
  have 1: "resolves sample_trees ''t1'' t1" by (rule resolves_base) (simp_all add: sample_roots t1_def)
  have 2: "resolves sample_trees ''t2'' (inherit t2 t1)"
    by (rule resolves_child) (use 1 in \<open>simp_all add: sample_roots t2_def\<close>)
  have "resolves sample_trees ''t3'' (inherit t3 (inherit t2 t1))"
    by (rule resolves_child) (use 2 in \<open>simp_all add: sample_roots t3_def\<close>)
  then show "resolves sample_trees ''t1'' t1" "resolves sample_trees ''t2'' (inherit t2 t1)"
    "resolves sample_trees ''t3'' (inherit t3 (inherit t2 t1))" using 1 2 by blast+
qed

lemma sample_all_resolve: "\<forall>name \<in> dom sample_trees. \<exists>d. resolves sample_trees name d"
  unfolding sample_dom using sample_resolves by blast

lemma sample_orders:
  "finite (dom sample_trees)" "set [''t3'', ''t1'', ''t2''] = dom sample_trees" "distinct [''t3'', ''t1'', ''t2'']"
  by (simp_all add: sample_dom)

lemma sample_t3: "list_String id (flat (def_List (inherit t3 (inherit t2 t1)))) = ''foo t2b1 t3b2 bar''"
  by code_simp

text \<open>A set with one template, which has a branch without an else list.\<close>

definition branch_trees :: treeSet where
  "branch_trees = [''t'' \<mapsto> \<lparr>tree_Name = ''t'', tree_Root = Some \<lparr>def_Line = 1, def_Name = ''t'', def_Parent = [],
     def_List = [BranchNode NodeIf 1 (PipeNode 1 [] [[DotNode]]) [TextNode ''a''] None]\<rparr>\<rparr>]"

section \<open>Theorems\<close>




text \<open>A template inherits by overriding: when the names of the blocks of its parent are distinct, it becomes
  a copy of the parent under its own name, in which each block that the template defines has the template's
  list, except inside blocks that were replaced.\<close>

theorem inlineParent_overrides:
  assumes "ts name = Some t" "tree_Root t = Some d" "root_of ts (def_Parent d) = Some p"
    "complete (def_List d)" "complete (def_List p)" "distinct (map fst (blocks_of (def_List p)))"
  shows "inlineParent name ts = Inr (ts(name \<mapsto> t\<lparr>tree_Root :=
     Some (p\<lparr>def_Name := def_Name d, def_List := override (block_list (def_List d)) (def_List p)\<rparr>)\<rparr>))"
proof -
  have "inherit d p = p\<lparr>def_Name := def_Name d, def_List := override (block_list (def_List d)) (def_List p)\<rparr>"
    using inherit_override [OF assms(6), of d] by (simp add: inherit_def)
  then show ?thesis using inlineParent_inherit [OF assms(1-5)] by simp
qed

theorem inlineParent_overrides_witness:
  "\<exists>ts'. inlineParent ''t2'' sample_trees = Inr ts' \<and> map_option def_List (root_of ts' ''t2'') =
     Some [TextNode ''foo '', BlockNode 1 ''b1'' [TextNode ''t2b1 '', BlockNode 1 ''b2'' [TextNode ''t2b2'']], TextNode '' bar'']"
proof -
  have "override (block_list (def_List t2)) (def_List t1) =
      [TextNode ''foo '', BlockNode 1 ''b1'' [TextNode ''t2b1 '', BlockNode 1 ''b2'' [TextNode ''t2b2'']], TextNode '' bar'']"
    by (simp add: block_list_def t1_def t2_def)
  moreover have "sample_trees ''t2'' = Some \<lparr>tree_Name = ''t2'', tree_Root = Some t2\<rparr>" "root_of sample_trees (def_Parent t2) = Some t1"
    using sample_roots by (simp_all add: sample_trees_def t2_def)
  ultimately show ?thesis
    using inlineParent_overrides [of sample_trees "''t2''" "\<lparr>tree_Name = ''t2'', tree_Root = Some t2\<rparr>" t2 t1]
    by (simp add: t1_def t2_def root_of_def)
qed





text \<open>A compiled set of templates has no block left, whatever its templates are: the output is free of the
  extension.\<close>

theorem Compile_leaves_no_block:
  assumes "Compile order order' ts = Some (Inr (ts', None))" "set order' = dom ts" "root_of ts' name = Some d"
  shows "blocks_of (def_List d) = []"
proof -
  obtain ts1 where ts1: "compile_parents order ts = Some (Inr (ts1, None))" "compile_blocks order' ts1 = Inr ts'"
    using Compile_Some [OF assms(1)] by blast
  have "name \<in> dom ts'" using assms(3) by (auto simp: root_of_def Option.bind_eq_Some_conv)
  then have "name \<in> set order'"
    using compile_blocks_dom [OF ts1(2)] compile_parents_dom [OF ts1(1)] assms(2) by simp
  then have "no_blocks ts' name" using compile_blocks_clears [OF ts1(2)] by blast
  then show ?thesis using assms(3) by (simp add: no_blocks_def)
qed

theorem Compile_leaves_no_block_witness:
  "case Compile [''t3'', ''t1'', ''t2''] [''t3'', ''t1'', ''t2''] sample_trees of
     Some (Inr (ts', None)) \<Rightarrow> blocks_of (def_List (the (root_of ts' ''t1''))) = [] | _ \<Rightarrow> False"
proof -
  obtain ts' where ts': "Compile [''t3'', ''t1'', ''t2''] [''t3'', ''t1'', ''t2''] sample_trees = Some (Inr (ts', None))"
    "\<forall>name d. resolves sample_trees name d \<longrightarrow> root_of ts' name = Some (d\<lparr>def_List := flat (def_List d)\<rparr>)"
    using compile_success [OF sample_orders(1,2,2,3) sample_all_resolve sample_complete] by blast
  have root: "root_of ts' ''t1'' = Some (t1\<lparr>def_List := flat (def_List t1)\<rparr>)"
    using ts'(2) sample_resolves(1) by blast
  from Compile_leaves_no_block [OF ts'(1) sample_orders(2) root]
  show ?thesis by (simp only: ts'(1) root option.case sum.case prod.case option.sel)
qed


text \<open>A branch without an else list cannot be compiled: the nil else list is ranged over and the compilation
  panics, already for templates without parents.\<close>

theorem branch_without_else_panics:
  assumes "set order = dom ts" "set order' = dom ts" "\<forall>name \<in> dom ts. \<exists>d. root_of ts name = Some d \<and> def_Parent d = []"
    "root_of ts name = Some d" "\<not> complete (def_List d)"
  shows "Compile order order' ts = Some (Inl NilDereference)"
proof -
  have "name \<in> set order'" using assms(2,4) by (auto simp: root_of_def Option.bind_eq_Some_conv)
  then have "compile_blocks order' ts = Inl NilDereference"
    by (rule compile_blocks_panics [OF _ assms(4,5)]) (use assms(2,3) in blast)
  moreover have "compile_parents order ts = Some (Inr (ts, None))"
    by (rule compile_parents_bases) (use assms(1,3) in simp)
  ultimately show ?thesis by (simp add: Compile_def)
qed

theorem branch_without_else_panics_witness:
  "Compile [''t''] [''t''] branch_trees = Some (Inl NilDereference)"
  using branch_without_else_panics [of "[''t'']" branch_trees "[''t'']" "''t''"]
  by (simp add: branch_trees_def root_of_def)


end
