(* ===== verification/Zapper.thy ===== *)
theory Zapper
  imports Zap_Parse_Correct Zap_Compile_Correct
begin

text \<open>
  The zapper (\<open>zap/zap.go\<close>): it parses texts and files into one set of trees, compiles the set and writes it.
  A nil map is an empty map. Reading a file, matching a pattern and the orders in which maps are ranged over
  are arguments; the maps of functions are the sets of their names.
\<close>

section \<open>The zapper\<close>

record Zapper =
  z_tree :: treeSet
  z_leftDelim :: string
  z_rightDelim :: string
  z_funcs :: "string \<Rightarrow> bool"

definition new_zapper :: Zapper where
  "new_zapper = \<lparr>z_tree = Map.empty, z_leftDelim = [], z_rightDelim = [], z_funcs = \<lambda>_. False\<rparr>"

datatype zap_error = ParseError perror | ZapError string "string list"

text \<open>A method returns the zapper with the error, if there is one, or does not return.\<close>

type_synonym zapped = "perror + Zapper \<times> zap_error option"

text \<open>The names of the set that is added are in the list.\<close>

fun addTree :: "string list \<Rightarrow> treeSet \<Rightarrow> Zapper \<Rightarrow> zapped" where
  "addTree [] t z = Inr (z, None)"
| "addTree (k # order) t z = (case t k of
     None \<Rightarrow> addTree order t z
   | Some v \<Rightarrow> (case tree_Root v of
       None \<Rightarrow> Inl (Panic NilDereference)
     | Some d \<Rightarrow> (case IsEmptyDefine d of
         Inl e \<Rightarrow> Inl (StringPanic e)
       | Inr True \<Rightarrow> addTree order t z
       | Inr False \<Rightarrow>
           if z_tree z k \<noteq> None then Inr (z, Some (ZapError ''zapper: duplicated template %q'' [k]))
           else addTree order t (z\<lparr>z_tree := (z_tree z)(k \<mapsto> v)\<rparr>))))"

definition Delims :: "string \<Rightarrow> string \<Rightarrow> Zapper \<Rightarrow> Zapper" where
  "Delims left right z = z\<lparr>z_leftDelim := left, z_rightDelim := right\<rparr>"

definition Funcs :: "string list \<Rightarrow> Zapper \<Rightarrow> Zapper" where
  "Funcs names z = z\<lparr>z_funcs := \<lambda>k. k \<in> set names \<or> z_funcs z k\<rparr>"

definition builtins :: "string list" where
  "builtins = [''and'', ''call'', ''html'', ''index'', ''js'', ''len'', ''not'', ''or'', ''print'', ''printf'',
     ''println'', ''urlquery'']"

section \<open>Parsing\<close>

text \<open>\<open>ord\<close> is the order in which the map of the parsed trees is ranged over.\<close>

definition zparse :: "parse_env \<Rightarrow> (treeSet \<Rightarrow> string list) \<Rightarrow> string \<Rightarrow> string \<Rightarrow> Zapper \<Rightarrow> zapped option" where
  "zparse env ord inp name z =
     (let env = env\<lparr>pe_funcs := [Some (\<lambda>k. k \<in> set builtins), Some (z_funcs z)]\<rparr> in
      case zap_Parse env inp name (z_leftDelim z) (z_rightDelim z) of
        None \<Rightarrow> None
      | Some (ts, None) \<Rightarrow> Some (addTree (ord ts) ts z)
      | Some (ts, Some (Errorf n line fmt args)) \<Rightarrow> Some (Inr (z, Some (ParseError (Errorf n line fmt args))))
      | Some (ts, Some e) \<Rightarrow> Some (Inl e))"

definition Zapper_Parse :: "parse_env \<Rightarrow> (treeSet \<Rightarrow> string list) \<Rightarrow> string \<Rightarrow> Zapper \<Rightarrow> zapped option" where
  "Zapper_Parse env ord inp z = zparse env ord inp ''source'' z"

fun parse_files :: "parse_env \<Rightarrow> (treeSet \<Rightarrow> string list) \<Rightarrow> (string \<Rightarrow> string option) \<Rightarrow> string list \<Rightarrow> Zapper \<Rightarrow> zapped option" where
  "parse_files env ord ReadFile [] z = Some (Inr (z, None))"
| "parse_files env ord ReadFile (fn # fns) z = (case ReadFile fn of
     None \<Rightarrow> Some (Inr (z, Some (ZapError ''open %s'' [fn])))
   | Some b \<Rightarrow> (case zparse env ord b fn z of
       Some (Inr (z, None)) \<Rightarrow> parse_files env ord ReadFile fns z
     | r \<Rightarrow> r))"

definition ParseFiles ::
  "parse_env \<Rightarrow> (treeSet \<Rightarrow> string list) \<Rightarrow> (string \<Rightarrow> string option) \<Rightarrow> string list \<Rightarrow> Zapper \<Rightarrow> zapped option" where
  "ParseFiles env ord ReadFile fns z =
     (if fns = [] then Some (Inr (z, Some (ZapError ''zapper: no files named in call to ParseFiles'' [])))
      else parse_files env ord ReadFile fns z)"

definition ParseGlob ::
  "parse_env \<Rightarrow> (treeSet \<Rightarrow> string list) \<Rightarrow> (string \<Rightarrow> string option) \<Rightarrow> (string \<Rightarrow> string list option) \<Rightarrow> string \<Rightarrow> Zapper \<Rightarrow>
     zapped option" where
  "ParseGlob env ord ReadFile Glob pattern z = (case Glob pattern of
     None \<Rightarrow> Some (Inr (z, Some (ZapError ''syntax error in pattern'' [])))
   | Some fns \<Rightarrow>
       if fns = [] then Some (Inr (z, Some (ZapError ''zapper: pattern matches no files: %#q'' [pattern])))
       else ParseFiles env ord ReadFile fns z)"

section \<open>Writing\<close>

text \<open>\<open>Zap\<close>: the zapper after it, what is written, and the error. \<open>order\<close>, \<open>order'\<close> and \<open>order''\<close> are the
  orders of the three loops over the trees.\<close>

definition Zap :: "(string \<Rightarrow> string) \<Rightarrow> string list \<Rightarrow> string list \<Rightarrow> string list \<Rightarrow> Zapper \<Rightarrow>
    (Zapper \<times> string \<times> go_error option) go option" where
  "Zap q order order' order'' z = (case Compile order order' (z_tree z) of
     None \<Rightarrow> None
   | Some (Inl e) \<Rightarrow> Some (Inl e)
   | Some (Inr (ts, Some e)) \<Rightarrow> Some (Inr (z\<lparr>z_tree := ts\<rparr>, [], Some e))
   | Some (Inr (ts, None)) \<Rightarrow>
       Some (Inr (z\<lparr>z_tree := ts\<rparr>,
         concat (map (\<lambda>k. case root_of ts k of None \<Rightarrow> [] | Some d \<Rightarrow> DefineNode_String q d) order''), None)))"

section \<open>Names of trees\<close>

text \<open>Every tree of a set has a root, and the key, the name of the tree and the name of the root are the same.\<close>

definition named_trees :: "treeSet \<Rightarrow> bool" where
  "named_trees ts \<longleftrightarrow> finite (dom ts) \<and>
     (\<forall>k t. ts k = Some t \<longrightarrow> tree_Name t = k \<and> (\<exists>d. tree_Root t = Some d \<and> def_Name d = k))"

lemma named_empty [simp]: "named_trees Map.empty"
  by (simp add: named_trees_def)

lemma named_update:
  "named_trees ts \<Longrightarrow> tree_Name t = k \<Longrightarrow> tree_Root t = Some d \<Longrightarrow> def_Name d = k \<Longrightarrow> named_trees (ts(k \<mapsto> t))"
  by (auto simp: named_trees_def)

lemma named_replace:
  assumes "named_trees ts" "ts x = Some t" "tree_Root t = Some d" "def_Name d' = def_Name d"
  shows "named_trees (ts(x \<mapsto> t\<lparr>tree_Root := Some d'\<rparr>))"
proof (rule named_update [OF assms(1)])
  have "tree_Name t = x \<and> (\<exists>d. tree_Root t = Some d \<and> def_Name d = x)" using assms(1,2) by (simp add: named_trees_def)
  then show "tree_Name (t\<lparr>tree_Root := Some d'\<rparr>) = x" "def_Name d' = x" using assms(3,4) by auto
qed simp

lemma add_tree_named:
  assumes "named_trees ts" "add_tree err name d ts = Inr ts'" "def_Name d = name"
  shows "named_trees ts'"
proof -
  have "ts' = ts \<or> ts' = ts(name \<mapsto> \<lparr>tree_Name = name, tree_Root = Some d\<rparr>)"
    using assms(2) by (auto simp: add_tree_def Let_def bindE_def simp del: fun_upd_apply split: option.splits sum.splits if_splits)
  then show ?thesis using assms named_update [of ts "\<lparr>tree_Name = name, tree_Root = Some d\<rparr>" name d] by auto
qed

definition outcome_trees :: "(perror \<times> treeSet) + (node list \<times> treeSet \<times> parser) \<Rightarrow> treeSet" where
  "outcome_trees r = (case r of Inl (e, ts) \<Rightarrow> ts | Inr (ns, ts, p) \<Rightarrow> ts)"

lemma outcome_bind_trees:
  assumes "named_trees ts" "\<And>x. m = Inr x \<Longrightarrow> named_trees (outcome_trees (f x))"
  shows "named_trees (outcome_trees (bindE (with_trees ts m) f))"
  using assms by (cases m) (simp_all add: with_trees_def outcome_trees_def)

lemma parse_loop_named: "named_trees ts \<Longrightarrow> named_trees (outcome_trees (parse_loop env f ns ts p))"
proof (induction f arbitrary: ns ts p)
  case (Suc f)
  have rest: "named_trees (outcome_trees (bindE (with_trees ts (textOrAction env (itemList env f []) q)) (\<lambda>(n, p).
      if is_end n then Inl (errorf_at ''unexpected %s'' [znode_String (fmt_q (pe_lex env)) n] p, ts)
      else parse_loop env f (ns @ [n]) ts p)))" for q
    by (rule outcome_bind_trees [OF Suc.prems]) (use Suc in \<open>auto simp: outcome_trees_def [of "Inl _"]\<close>)
  have def: "named_trees (outcome_trees (bindE (with_trees ts (add_tree err (def_Name d) d ts)) (\<lambda>ts. parse_loop env f ns ts q)))" for err d q
    by (rule outcome_bind_trees [OF Suc.prems]) (use Suc add_tree_named in blast)
  show ?case
    unfolding parse_loop.simps Let_def
    by (rule outcome_bind_trees [OF Suc.prems])
      (use rest in \<open>auto simp: outcome_trees_def [of "Inr _"] Suc.prems intro!: outcome_bind_trees [OF Suc.prems] def\<close>)
qed (simp add: outcome_trees_def)

declare parse_loop.simps [simp del]

lemma zap_Parse_named:
  assumes "zap_Parse env inp name left right = Some (ts, e)"
  shows "named_trees ts"
proof (cases "zap_lex (pe_lex env) name inp left right")
  case (Some r)
  show ?thesis
  proof (cases r)
    case (Inr l)
    let ?r = "parse_loop env (Suc (length (lx_items l))) [] Map.empty (new_parser name l)"
    have n: "named_trees (outcome_trees ?r)" by (rule parse_loop_named) simp
    show ?thesis
    proof (cases ?r)
      case (Inl x)
      then show ?thesis using assms Some Inr n
        by (auto simp: zap_Parse_def outcome_trees_def split: prod.splits)
    next
      case r: (Inr x)
      obtain ns ts1 p where x: "x = (ns, ts1, p)" using prod_cases3 by blast
      let ?d = "\<lparr>def_Line = 1, def_Name = name, def_Parent = [], def_List = ns\<rparr>"
      let ?err = "errorf_at ''template: multiple definition of template %q'' [name] p"
      have ts1: "named_trees ts1" using n r x by (simp add: outcome_trees_def)
      have "ts = ts1 \<or> add_tree ?err name ?d ts1 = Inr ts"
        using assms Some Inr r x by (auto simp: zap_Parse_def split: sum.splits)
      then show ?thesis using ts1 add_tree_named [OF ts1, of ?err name ?d ts] by auto
    qed
  qed (use assms Some in \<open>auto simp: zap_Parse_def\<close>)
qed (use assms in \<open>simp add: zap_Parse_def\<close>)

lemma addTree_named:
  "named_trees (z_tree z) \<Longrightarrow> named_trees t \<Longrightarrow> addTree order t z = Inr (z', e) \<Longrightarrow> named_trees (z_tree z')"
proof (induction order t z rule: addTree.induct)
  case (2 k order t z)
  show ?case
  proof (cases "t k")
    case (Some v)
    then obtain d where v: "tree_Name v = k" "tree_Root v = Some d" "def_Name d = k"
      using "2.prems"(2) by (auto simp: named_trees_def)
    then obtain b where b: "IsEmptyDefine d = Inr b" using "2.prems"(3) Some by (auto split: sum.splits)
    have up: "named_trees ((z_tree z)(k \<mapsto> v))" using named_update "2.prems"(1) v by blast
    show ?thesis
      using "2.IH"(2) [OF Some v(2) b] "2.IH"(3) [OF Some v(2) b] "2.prems" Some v(2) b up
      by (cases b) (auto split: if_splits simp del: fun_upd_apply)
  qed (use 2 in simp)
qed simp

lemma zparse_named:
  assumes "named_trees (z_tree z)" "zparse env ord inp name z = Some (Inr (z', e))"
  shows "named_trees (z_tree z')"
proof -
  let ?env = "env\<lparr>pe_funcs := [Some (\<lambda>k. k \<in> set builtins), Some (z_funcs z)]\<rparr>"
  obtain ts r where p: "zap_Parse ?env inp name (z_leftDelim z) (z_rightDelim z) = Some (ts, r)"
    using assms(2) by (auto simp: zparse_def split: option.splits prod.splits)
  have "z' = z \<or> addTree (ord ts) ts z = Inr (z', e)"
    using assms(2) p by (auto simp: zparse_def split: option.splits perror.splits)
  then show ?thesis using addTree_named [OF assms(1) zap_Parse_named [OF p]] assms(1) by blast
qed

lemma parse_files_named:
  "named_trees (z_tree z) \<Longrightarrow> parse_files env ord ReadFile fns z = Some (Inr (z', e)) \<Longrightarrow> named_trees (z_tree z')"
proof (induction fns arbitrary: z)
  case (Cons fn fns)
  show ?case
  proof (cases "ReadFile fn")
    case (Some b)
    then obtain z1 e1 where z1: "zparse env ord b fn z = Some (Inr (z1, e1))"
      using Cons.prems(2) by (auto split: option.splits sum.splits prod.splits)
    then show ?thesis
      using Cons.IH [of z1] Cons.prems Some zparse_named [OF Cons.prems(1) z1] by (cases e1) auto
  qed (use Cons.prems in auto)
qed simp

lemma compile_parents_named:
  "named_trees ts \<Longrightarrow> compile_parents order ts = Some (Inr (ts', e)) \<Longrightarrow> named_trees ts'"
proof (induction order arbitrary: ts)
  case (Cons name order)
  have step: "named_trees ts2" if "named_trees ts1" "inlineParent x ts1 = Inr ts2" for x ts1 ts2
    using that(2)
    by (auto simp: inlineParent_def Let_def simp del: fun_upd_apply split: option.splits intro: named_replace [OF that(1)])
  have steps: "named_trees ts2" if "named_trees ts1" "inlineParents xs ts1 = Inr ts2" for xs ts1 ts2
    using that by (induction xs arbitrary: ts1) (auto intro: step)
  show ?case
    using Cons.IH Cons.prems steps by (auto split: option.splits sum.splits)
qed simp

lemma compile_blocks_named: "named_trees ts \<Longrightarrow> compile_blocks order ts = Inr ts' \<Longrightarrow> named_trees ts'"
proof (induction order arbitrary: ts)
  case (Cons x order)
  show ?case
  proof (cases "ts x")
    case (Some t)
    then obtain d l where d: "tree_Root t = Some d" "compile_blocks order (ts(x \<mapsto> t\<lparr>tree_Root := Some (d\<lparr>def_List := l\<rparr>)\<rparr>)) = Inr ts'"
      using Cons.prems(2) by (auto split: option.splits)
    have "named_trees (ts(x \<mapsto> t\<lparr>tree_Root := Some (d\<lparr>def_List := l\<rparr>)\<rparr>))"
      by (rule named_replace [OF Cons.prems(1) Some d(1)]) simp
    from Cons.IH [OF this d(2)] show ?thesis .
  qed (use Cons in simp)
qed simp

lemma Compile_named:
  assumes "named_trees ts" "Compile order order' ts = Some (Inr (ts', e))"
  shows "named_trees ts'"
proof -
  obtain ts1 e1 where p: "compile_parents order ts = Some (Inr (ts1, e1))"
    using assms(2) by (auto simp: Compile_def split: option.splits sum.splits prod.splits)
  have n1: "named_trees ts1" using compile_parents_named [OF assms(1) p] .
  show ?thesis
  proof (cases e1)
    case None
    then have "compile_blocks order' ts1 = Inr ts'" using assms(2) p by (simp add: Compile_def)
    then show ?thesis using compile_blocks_named n1 by blast
  next
    case (Some x)
    then show ?thesis using assms(2) p n1 by (simp add: Compile_def)
  qed
qed

lemma parse_entries_named:
  assumes "named_trees (z_tree z)"
  shows "ParseFiles env ord ReadFile fns z = Some (Inr (z', e)) \<Longrightarrow> named_trees (z_tree z')"
    and "ParseGlob env ord ReadFile Glob pattern z = Some (Inr (z', e)) \<Longrightarrow> named_trees (z_tree z')"
proof -
  show files: "ParseFiles env ord ReadFile fns z = Some (Inr (z', e)) \<Longrightarrow> named_trees (z_tree z')" for fns
    using parse_files_named [OF assms] assms by (auto simp: ParseFiles_def split: if_splits)
  show "ParseGlob env ord ReadFile Glob pattern z = Some (Inr (z', e)) \<Longrightarrow> named_trees (z_tree z')"
    using files assms by (auto simp: ParseGlob_def split: option.splits if_splits)
qed

lemma Zap_named:
  assumes "named_trees (z_tree z)" "Zap q order order' order'' z = Some (Inr (z', out, err))"
  shows "named_trees (z_tree z')"
proof -
  have "\<exists>ts e. Compile order order' (z_tree z) = Some (Inr (ts, e)) \<and> z' = z\<lparr>z_tree := ts\<rparr>"
    using assms(2) by (auto simp: Zap_def split: option.splits sum.splits prod.splits)
  then show ?thesis using Compile_named [OF assms(1)] by auto
qed

section \<open>The states of a zapper\<close>

text \<open>The states that the methods of a zapper reach from a new one, whatever maps are ranged over in which
  order and whatever files there are.\<close>

inductive zapper_state :: "Zapper \<Rightarrow> bool" where
  zapper_new: "zapper_state new_zapper"
| zapper_Delims: "zapper_state z \<Longrightarrow> zapper_state (Delims left right z)"
| zapper_Funcs: "zapper_state z \<Longrightarrow> zapper_state (Funcs names z)"
| zapper_Parse: "zapper_state z \<Longrightarrow> Zapper_Parse env ord inp z = Some (Inr (z', e)) \<Longrightarrow> zapper_state z'"
| zapper_ParseFiles: "zapper_state z \<Longrightarrow> ParseFiles env ord ReadFile fns z = Some (Inr (z', e)) \<Longrightarrow> zapper_state z'"
| zapper_ParseGlob: "zapper_state z \<Longrightarrow> ParseGlob env ord ReadFile Glob pattern z = Some (Inr (z', e)) \<Longrightarrow> zapper_state z'"
| zapper_Zap: "zapper_state z \<Longrightarrow> Zap q order order' order'' z = Some (Inr (z', out, err)) \<Longrightarrow> zapper_state z'"

text \<open>An environment for templates in ASCII without numbers, in which strings are raw strings.\<close>

definition raw_env :: parse_env where
  "raw_env = \<lparr>pe_lex = \<lparr>unicode_alnum = \<lambda>_. False, fmt_U = \<lambda>r. [], fmt_q = \<lambda>s. CHR 0x60 # s @ [CHR 0x60]\<rparr>,
     pe_num = \<lparr>UnquoteChar = \<lambda>_. None, ParseFloat = \<lambda>_. None, SscanComplex = \<lambda>_. None, float_of_int = id,
       float_of_uint = id, int_of_float = id, uint_of_float = id, float_eq = (=), float_zero = 0\<rparr>,
     pe_Unquote = \<lambda>s. Some (butlast (tl s)), pe_funcs = []\<rparr>"

text \<open>C23: In every state that the methods of a zapper reach, the set of trees is finite and each tree has a root,
  and its key, its name and the name of its definition are the same.\<close>

theorem zapper_state_named: "zapper_state z \<Longrightarrow> named_trees (z_tree z)"
proof (induction rule: zapper_state.induct)
  case (zapper_Parse z env ord inp z' e)
  then show ?case using zparse_named by (auto simp: Zapper_Parse_def)
qed (auto simp: new_zapper_def Delims_def Funcs_def intro: parse_entries_named Zap_named)

theorem zapper_state_named_witness:
  "case Zapper_Parse raw_env (\<lambda>_. [''a'', ''source'']) ''{{define `a`}}x{{end}}'' (Delims ''{{'' ''}}'' new_zapper) of
     Some (Inr (z, None)) \<Rightarrow> named_trees (z_tree z) \<and> z_tree z ''a'' \<noteq> None | _ \<Rightarrow> False"
proof -
  let ?r = "Zapper_Parse raw_env (\<lambda>_. [''a'', ''source'']) ''{{define `a`}}x{{end}}'' (Delims ''{{'' ''}}'' new_zapper)"
  have "case ?r of Some (Inr (z, None)) \<Rightarrow> (case z_tree z ''a'' of None \<Rightarrow> False | _ \<Rightarrow> True) | _ \<Rightarrow> False"
    by code_simp
  then obtain z where z: "?r = Some (Inr (z, None))" "z_tree z ''a'' \<noteq> None"
    by (auto split: option.splits sum.splits prod.splits)
  have "zapper_state z" by (rule zapper_Parse [OF zapper_Delims [OF zapper_new] z(1)])
  from zapper_state_named [OF this] show ?thesis using z by simp
qed



section \<open>Behaviours of the parser\<close>

text \<open>A lexical error in a definition that extends another makes the parser wait forever: the list of blocks
  passes over the error item, and no item follows it.\<close>

theorem zap_Parse_waits: "map_option snd (zap_Parse raw_env ''{{define `b` `a`}} {{/* x'' ''s'' [] []) = Some (Some Blocked)"
  by code_simp

text \<open>A second definition of a template is not reported: the error needs the lexer, which the tree has
  given up already.\<close>

theorem zap_Parse_duplicate_panics:
  "map_option snd (zap_Parse raw_env ''{{define `a`}}x{{end}}{{define `a`}}y{{end}}'' ''s'' [] []) =
     Some (Some (Panic NilDereference))"
  by code_simp

text \<open>An else outside of a branch is parsed, and adding the trees to the zapper panics.\<close>

theorem else_panics:
  "case Zapper_Parse raw_env (\<lambda>_. [''source'']) ''{{else}}'' new_zapper of
     Some (Inl e) \<Rightarrow> e = StringPanic (UnknownNode (elseNode 1)) | _ \<Rightarrow> False"
  by code_simp

text \<open>When a parse fails, the trees before the error are returned with it.\<close>

theorem zap_Parse_partial:
  "map_option (\<lambda>(ts, e). map_option tree_Name (ts ''a'')) (zap_Parse raw_env ''{{define `a`}}x{{end}}{{end}}'' ''s'' [] []) =
     Some (Some ''a'')"
  by code_simp

end
