(* ===== verification/Spec2Isabelle.thy ===== *)
theory Spec2Isabelle
  imports
    Pluralforms_Theorems
    Gettext_Mo_Correct
    Gettext_Fmt
    Escape_Css_Correct
    Escape_Url
    Escape_Tree_Safe
    Escape_Strip
    Escape_Funcs
    Http_Headers
    Color_Hex
    Css_Scanner_Correct
    Template_Parse_Correct
    Template_Set_Correct
    Zapper
begin

text \<open>
  A verification library of sadbox, a collection of Go packages for web programs: message catalogs
  (\<open>gettext\<close>), text templates with contextual escaping (\<open>template\<close>), a compiler of template inheritance
  (\<open>zap\<close>), a scanner of style sheets (\<open>css/scanner\<close>), header values (\<open>http\<close>) and colors (\<open>color\<close>). Every
  package but the glue named at the end is modelled function by function, under the names of the code, from the
  lexers to the public functions, with its errors and its panics.

  \<^bold>\<open>Conventions.\<close> \<open>Go_Prelude\<close> and \<open>Go_Strings\<close> hold the parts of Go that the packages share. Strings and
  slices of bytes are lists of 8-bit characters; runes are integers and are decoded with the rules of Go, an
  invalid byte to U+FFFD. A run-time panic is a value of \<open>go_panic\<close> on the left of a sum, an error that the code
  returns or recovers a value of a type of its own, kept with its format and arguments unformatted. A pointer
  or slice that can be nil is an option, a nil map an empty map. The fixed-width integers whose overflow matters
  are words. A map that is ranged over comes with the order of the range as an argument, so that the theorems
  hold for every order. Goroutines that send items over a channel are run to their end; the channel is the list
  of what is sent.

  \<^bold>\<open>gettext.\<close>
  \<^item> \<open>Pluralforms_Lexer\<close>, \<open>Pluralforms_Parser\<close> and \<open>Pluralforms\<close> model \<open>gettext/pluralforms\<close>: the lexer and the
    token stream with its push-back, the parser by precedences, the evaluation and printing of trees, the table
    of precomputed functions and \<open>Parse\<close>. \<open>Pluralforms_Correct\<close> and \<open>Pluralforms_Theorems\<close>: the stream refines
    a stack in front of the lexer (locale \<open>pushback\<close>), the parser answers on every input, printing and parsing
    are inverse, well-typed trees evaluate to values, and each precomputed function agrees with its expression.
  \<^item> \<open>Gettext\<close> models the messages and catalogs of \<open>gettext/gettext.go\<close>; \<open>Gettext_Correct\<close> shows that a catalog
    is a store by key (locale \<open>keyed_store\<close>), that its operations keep it well formed, and that the order of
    messages does not depend on the map.
  \<^item> \<open>Gettext_Mo\<close> models the reader and writer of \<open>gettext/mo.go\<close> down to the bytes; \<open>Gettext_Mo_Correct\<close> shows the
    round trip of a catalog through a file, in either byte order (locale \<open>word_codec\<close>). \<open>Gettext_Fmt\<close> models
    \<open>gettext/fmt.go\<close>.

  \<^bold>\<open>template/parse.\<close>
  \<^item> \<open>Template_Scan\<close> has the scanner that the lexers of \<open>template/parse/lex.go\<close> and \<open>zap/parse/lex.go\<close> have in
    common, over their item types; \<open>Template_Lex\<close> the state functions and the run of the first.
    \<open>Template_Scan_Correct\<close> and \<open>Template_Lex_Correct\<close>: the items with the skipped text tile the input (locales
    \<open>cursor\<close>, \<open>item_kinds\<close> and \<open>lexer_run\<close>).
  \<^item> \<open>Template_Number\<close> and \<open>Template_Node\<close> model \<open>template/parse/node.go\<close>: numbers, nodes, printing, copies, the
    check of fills and trees. \<open>Template_Parse\<close> models \<open>template/parse/parse.go\<close>; \<open>Template_Parse_Correct\<close> shows
    that parsing answers on every text (locales \<open>parse_step\<close> and \<open>control\<close>).

  \<^bold>\<open>template/escape.\<close>
  \<^item> \<open>Escape_Context\<close> has the contexts, errors and values (\<open>context.go\<close>, \<open>error.go\<close>, \<open>content.go\<close>), \<open>Escape_Replace\<close>
    the loop the escapers share, \<open>Escape_Css\<close>, \<open>Escape_Js\<close>, \<open>Escape_Html\<close>, \<open>Escape_Url\<close> and \<open>Escape_Funcs\<close> the
    escapers (\<open>css.go\<close>, \<open>js.go\<close>, \<open>html.go\<close> and \<open>attr.go\<close>, \<open>url.go\<close>, \<open>funcs.go\<close>). \<open>Escape_Css_Correct\<close> and
    \<open>Escape_Strip\<close>: what is escaped has no special characters (locales \<open>safe_choice\<close> and \<open>safe_table\<close>) and is
    decoded back; \<open>Escape_Funcs\<close>: the buffered loops equal a replacement of each character.
  \<^item> \<open>Escape_Transition\<close> models \<open>transition.go\<close>, \<open>Escape_Text\<close> the escaping of text nodes and actions.
    \<open>Escape_Progress\<close>, \<open>Escape_Frame\<close> and \<open>Escape_Text_Correct\<close>: every transition makes progress (locale
    \<open>transition\<close>, interpreted for each of them), so that the loops end and their panic is unreachable.
  \<^item> \<open>Escape_Pipeline\<close> models the insertion of sanitizers into pipelines, \<open>Escape_Tree\<close> the escaper of trees with
    its derived templates, trials, edits and commit (\<open>escape.go\<close>). \<open>Escape_Tree_Fuel\<close>, \<open>Escape_Tree_Correct\<close> and
    \<open>Escape_Tree_Safe\<close>: escaping ends (locale \<open>tree_step\<close>), and no action of an accepted tree is left unescaped
    (locale \<open>safe_tree_step\<close>).

  \<^bold>\<open>template.\<close>
  \<^item> \<open>Template_Reflect\<close> collects the operations of the package \<open>reflect\<close> in a record over arbitrary types of values
    and types, with the functions of \<open>exec.go\<close> that only look at values. \<open>Template_Exec\<close> models \<open>template/exec.go\<close>:
    the state with its stack of variables and its fillers, pipelines, calls, arguments, printing and the walk of
    trees. \<open>Template_Exec_Correct\<close> and \<open>Template_Exec_Theorems\<close>: scopes are balanced (locales \<open>safe_args\<close> and
    \<open>scoped_calls\<close>), executions without recursion end, maps are ranged over in the order of their keys.
  \<^item> \<open>Template_Funcs\<close> and \<open>Template_Set\<close> model \<open>template/funcs.go\<close> and \<open>template/template.go\<close>, where the parser, the
    escaper and the execution meet. \<open>Template_Set_Correct\<close>: the states that the methods of a set reach
    (\<open>set_state\<close>), the agreement of parser and execution on functions, a failed escaping leaves nothing to
    execute, and the bounds of \<open>index\<close>.

  \<^bold>\<open>zap.\<close> \<open>Zap_Lex\<close>, \<open>Zap_Node\<close>, \<open>Zap_Parse\<close> and \<open>Zap_Compile\<close> model \<open>zap/parse\<close>, \<open>Zapper\<close> models \<open>zap/zap.go\<close>. The
  lexer tiles its input; the parser answers on every input (locales \<open>zap_step\<close>, \<open>zap_loops\<close> and \<open>zap_control\<close>);
  the compilation of a set refines the resolution of each template along its chain of parents, whatever the order
  of the maps, and rejects missing parents and cycles; the states of a zapper keep their names (\<open>zapper_state\<close>).

  \<^bold>\<open>css/scanner.\<close> \<open>Css_Regexp\<close> models the regular expressions the scanner uses, with the leftmost-first matching of
  the package \<open>regexp\<close>, beside the language of an expression; \<open>Css_Scanner\<close> models \<open>css/scanner/scanner.go\<close>.
  \<open>Css_Scanner_Correct\<close>: the scan ends, its tokens tile an ASCII text, are words of their productions and carry
  their positions (locale \<open>emitter\<close>); comments end at the first closing mark.

  \<^bold>\<open>http and color.\<close> \<open>Http_Headers\<close> models \<open>http/parser\<close> and \<open>http/auth\<close>, with the round trip of pairs of
  header values; \<open>Color_Hex\<close> models \<open>color/hex.go\<close>, with the round trip of colors.

  \<^bold>\<open>Fuel.\<close> The parsers take one unit of fuel for each item of the lexer, the parser of plural forms a bound from
  the length of the text; it is shown that they never run out. The escaper of trees takes fuel for the depth of
  calls: \<open>enough\<close>, the number of names that can be derived and one, is shown to suffice, and more gives the same. The
  execution takes fuel for the depth of template calls: it suffices with the rank of a template in a set
  without recursion, and recursive templates can indeed run forever. The loops that a text could keep from ending
  (\<open>escapeText\<close>, \<open>stripTags\<close>, the search for parents, \<open>indirect\<close>) are partial functions, with \<open>None\<close> for a loop
  that does not end; they are shown to end, but for \<open>indirect\<close>, which circular pointers keep from it.

  \<^bold>\<open>Parameters.\<close> What the code calls and the repository does not hold is an argument: \<open>fmt.Sprint\<close>, \<open>fmt.Sprintf\<close>
  and the verbs \<open>%q\<close> and \<open>%#U\<close>; \<open>json.Marshal\<close>; \<open>html.UnescapeString\<close>; the letters, cases and printable
  characters of Unicode outside ASCII; base64; the conversions of \<open>strconv\<close> for floats and quoted strings; \<open>reflect\<close>;
  the files, patterns and writers of the system; the orders of maps.

  \<^bold>\<open>Not modelled.\<close> The conversions of colors to HSL and HSV (\<open>color/hsl.go\<close>, \<open>color/hsv.go\<close>) are floating-point
  arithmetic, which the library theories used here do not define. The session stores (\<open>sessions/mongodb\<close>,
  \<open>appengine\<close>) only pass values to databases, cookies and other packages. \<open>i18n\<close> declares interfaces without
  code. The files \<open>doc.go\<close> are documentation.
\<close>

end
